(* ===== verification/Kernel_Base.thy ===== *)
theory Kernel_Base
  imports "HOL-Library.Word"
begin

text \<open>
  The prelude of the development: the machine integers and the flat memory the kernel runs in,
  the address intervals the proofs reason about, little-endian cells of two and four bytes with
  their laws (one locale, three interpretations), and the result type of code that may halt,
  hang or leave the C language.

  The kernel is built for i386 without address randomisation and without protection: a pointer
  is a 32-bit word, pointer arithmetic wraps, and every byte of the address space can be read
  and written. So memory is a total function from 32-bit addresses to bytes.
\<close>

unbundle bit_operations_syntax

section \<open>Machine integers and memory\<close>

type_synonym u8 = "8 word"
type_synonym u16 = "16 word"
type_synonym u32 = "32 word"
type_synonym memory = "u32 \<Rightarrow> u8"

named_theorems span_simps \<open>deciding whether two intervals of addresses meet\<close>
named_theorems cell_simps \<open>reading memory after a write\<close>
named_theorems kernel_defs \<open>definitions of straight-line kernel code, unfolded together\<close>

lemma u32_bound: "unat (x :: u32) < 4294967296"
  by (rule order_less_le_trans [OF unsigned_less]) simp

lemma u32_diff_unat:
  "unat (b - a :: u32) = (if unat a \<le> unat b then unat b - unat a
     else 4294967296 + unat b - unat a)"
  by (cases "unat a \<le> unat b")
    (simp_all add: unat_sub unat_sub_if_size word_le_nat_alt word_size)

lemma u32_add_unat:
  "unat a + unat b < 4294967296 \<Longrightarrow> unat (a + b :: u32) = unat a + unat b"
  by (simp add: unat_word_ariths)

lemma u32_of_nat_unat: "n < 4294967296 \<Longrightarrow> unat (of_nat n :: u32) = n"
  by (simp add: unat_of_nat)

lemma u32_add_numeral_unat:
  assumes "unat a + numeral k < (4294967296 :: nat)"
  shows "unat (a + numeral k :: u32) = unat a + numeral k"
proof -
  have "unat (of_nat (numeral k) :: u32) = numeral k"
    by (rule u32_of_nat_unat) (use assms in linarith)
  then have "unat (numeral k :: u32) = numeral k"
    unfolding of_nat_numeral .
  with assms show ?thesis using u32_add_unat [of a "numeral k"] by linarith
qed

lemma u32_le_unat: "a \<le> b \<longleftrightarrow> unat a \<le> unat b" for a b :: u32
  by (rule word_le_nat_alt)

lemma u32_less_unat: "a < b \<longleftrightarrow> unat a < unat b" for a b :: u32
  by (rule word_less_nat_alt)

lemma u32_eq_unat: "a = b \<longleftrightarrow> unat a = unat b" for a b :: u32
  by (rule word_unat_eq_iff)

lemma u32_Suc_unat: "x < y \<Longrightarrow> unat (x + 1) = Suc (unat x)" for x y :: u32
  using u32_bound [of y] by (simp add: u32_less_unat unat_word_ariths)

text \<open>The measure of a loop whose 32-bit counter runs up to its last value.\<close>

lemma u32_minus_1: "unat (- 1 :: u32) = 4294967295"
  by (simp add: unsigned_minus_1_eq_mask mask_eq_exp_minus_1)

lemma u32_step: "i \<noteq> - 1 \<Longrightarrow> unat (i + 1) = Suc (unat i)" for i :: u32
proof -
  assume "i \<noteq> - 1"
  then have "unat i < 4294967295"
    using u32_bound [of i] u32_minus_1 by (auto simp: u32_eq_unat)
  then show ?thesis using u32_add_unat [of i 1] by simp
qed

lemma u32_inc_le: "i \<noteq> - 1 \<Longrightarrow> i + 1 \<le> j \<longleftrightarrow> i < j" for i j :: u32
  by (simp add: u32_le_unat u32_less_unat u32_step Suc_le_eq)

lemma u32_count_up: "i \<noteq> - 1 \<Longrightarrow> unat (- 1 - (i + 1)) < unat (- 1 - i)" for i :: u32
proof -
  assume "i \<noteq> - 1"
  then show ?thesis
    using u32_step [of i] u32_bound [of "i + 1"] by (simp only: u32_diff_unat u32_minus_1) simp
qed

lemma u32_count_up': "i \<noteq> - 1 \<Longrightarrow> unat (- 2 - i) < unat (- 1 - i)" for i :: u32
  using u32_count_up [of i] by simp

section \<open>Intervals of addresses\<close>

text \<open>
  \<open>span a n\<close> is the \<open>n\<close> bytes from \<open>a\<close> on, wrapping at the end of the address space.
  \<open>apart a n b k\<close> decides, by two subtractions, that two intervals do not meet.
\<close>

definition span :: "u32 \<Rightarrow> nat \<Rightarrow> u32 set" where
  "span a n = {x. unat (x - a) < n}"

lemma in_span [span_simps]: "x \<in> span a n \<longleftrightarrow> unat (x - a) < n"
  by (simp add: span_def)

lemma in_span_unat:
  assumes "unat a + n \<le> 4294967296"
  shows "x \<in> span a n \<longleftrightarrow> unat a \<le> unat x \<and> unat x < unat a + n"
  using assms u32_bound [of a] u32_bound [of x] by (auto simp: in_span u32_diff_unat)

lemma span_add_of_nat:
  "i < n \<Longrightarrow> i < 4294967296 \<Longrightarrow> a + of_nat i \<in> span a n"
  by (simp add: in_span u32_of_nat_unat)

lemma span_mono: "n \<le> k \<Longrightarrow> span a n \<subseteq> span a k"
  by (auto simp: in_span)

definition apart :: "u32 \<Rightarrow> nat \<Rightarrow> u32 \<Rightarrow> nat \<Rightarrow> bool" where
  "apart a n b k \<longleftrightarrow> n \<le> unat (b - a) \<and> k \<le> unat (a - b)"

lemma apart_sym: "apart a n b k \<Longrightarrow> apart b k a n"
  by (simp add: apart_def)

lemma apart_disjoint:
  assumes "apart a n b k"
  shows "span a n \<inter> span b k = {}"
proof -
  have False if "unat (x - a) < n" "unat (x - b) < k" for x
    using that assms u32_bound [of a] u32_bound [of x] u32_bound [of b]
    by (auto simp: apart_def u32_diff_unat split: if_splits)
  then show ?thesis by (auto simp: in_span)
qed

lemma apart_notin: "apart a n b k \<Longrightarrow> x \<in> span b k \<Longrightarrow> x \<notin> span a n"
  using apart_disjoint by blast

lemma apart_below:
  assumes "unat a + n \<le> unat b" and "unat b + k \<le> 4294967296" and "0 < n"
  shows "apart a n b k"
  using assms u32_bound [of a] by (auto simp: apart_def u32_diff_unat)

lemma apart_mono:
  "apart a n b k \<Longrightarrow> n' \<le> n \<Longrightarrow> k' \<le> k \<Longrightarrow> apart a n' b k'"
  by (simp add: apart_def)

lemma span_sub: "unat i + w \<le> n \<Longrightarrow> n \<le> 4294967296 \<Longrightarrow> span (a + i) w \<subseteq> span a n"
proof
  fix x assume a: "unat i + w \<le> n" "n \<le> 4294967296" and "x \<in> span (a + i) w"
  then have "unat (x - a - i) < w" by (simp add: in_span algebra_simps)
  moreover have "x - a = (x - a - i) + i" by simp
  ultimately have "unat (x - a) = unat (x - a - i) + unat i"
    using a u32_add_unat [of "x - a - i" i] by simp
  then show "x \<in> span a n" using a \<open>unat (x - a - i) < w\<close> by (simp add: in_span)
qed

text \<open>Parts of two disjoint objects are disjoint.\<close>

lemma apart_parts:
  assumes "apart a n b k" and "unat i + w \<le> n" and "unat j + v \<le> k" and "0 < w" and "0 < v"
  shows "apart (a + i) w (b + j) v"
proof -
  define d where "d = b - a"
  have nd: "n \<le> unat d" and kd: "k \<le> unat (- d)"
    using assms(1) by (simp_all add: apart_def d_def)
  have "unat d \<noteq> 0" using nd assms(2,4) by linarith
  then have md: "unat (- d) = 4294967296 - unat d"
    using u32_diff_unat [of 0 d] u32_bound [of d] by simp
  have e1: "(b + j) - (a + i) = (d - i) + j" and e2: "(a + i) - (b + j) = (- d - j) + i"
    by (simp_all add: d_def)
  have "unat (d - i) = unat d - unat i" and "unat (- d - j) = unat (- d) - unat j"
    using nd kd assms(2,3) by (simp_all add: u32_diff_unat)
  then have "unat ((d - i) + j) = unat d - unat i + unat j"
    and "unat ((- d - j) + i) = unat (- d) - unat j + unat i"
    using nd kd md assms(2-5) u32_bound [of d]
    by (simp_all add: u32_add_unat)
  then show ?thesis
    unfolding apart_def e1 e2 using nd kd assms(2,3) by (intro conjI) linarith+
qed

section \<open>Little-endian cells\<close>

definition load8 :: "memory \<Rightarrow> u32 \<Rightarrow> u8" where
  "load8 m a = m a"

definition store8 :: "u32 \<Rightarrow> u8 \<Rightarrow> memory \<Rightarrow> memory" where
  "store8 a v m = m(a := v)"

definition load16 :: "memory \<Rightarrow> u32 \<Rightarrow> u16" where
  "load16 m a = ucast (m a) OR push_bit 8 (ucast (m (a + 1)))"

definition store16 :: "u32 \<Rightarrow> u16 \<Rightarrow> memory \<Rightarrow> memory" where
  "store16 a v m = m(a := ucast v, a + 1 := ucast (drop_bit 8 v))"

definition load32 :: "memory \<Rightarrow> u32 \<Rightarrow> u32" where
  "load32 m a = ucast (m a) OR push_bit 8 (ucast (m (a + 1)))
     OR push_bit 16 (ucast (m (a + 2))) OR push_bit 24 (ucast (m (a + 3)))"

definition store32 :: "u32 \<Rightarrow> u32 \<Rightarrow> memory \<Rightarrow> memory" where
  "store32 a v m = m(a := ucast v, a + 1 := ucast (drop_bit 8 v),
     a + 2 := ucast (drop_bit 16 v), a + 3 := ucast (drop_bit 24 v))"

lemma bytes16: "ucast (ucast v :: u8) OR push_bit 8 (ucast (ucast (drop_bit 8 v) :: u8)) = v"
  for v :: u16
  by (rule bit_word_eqI) (auto simp: bit_simps)

lemma bytes32:
  "ucast (ucast v :: u8) OR push_bit 8 (ucast (ucast (drop_bit 8 v) :: u8))
     OR push_bit 16 (ucast (ucast (drop_bit 16 v) :: u8))
     OR push_bit 24 (ucast (ucast (drop_bit 24 v) :: u8)) = v" for v :: u32
proof (rule bit_word_eqI, goal_cases)
  case (1 n)
  consider "n < 8" | "8 \<le> n" "n < 16" | "16 \<le> n" "n < 24" | "24 \<le> n" by linarith
  then show ?case using 1 by cases (auto simp: bit_simps)
qed

text \<open>
  A cell of \<open>width\<close> bytes: what is stored is loaded back, a store changes no byte outside the
  cell, and a load depends on no byte outside it. Everything the components need about reading
  after writing follows from these three laws.
\<close>

locale mem_cell =
  fixes ld :: "memory \<Rightarrow> u32 \<Rightarrow> 'v"
    and st :: "u32 \<Rightarrow> 'v \<Rightarrow> memory \<Rightarrow> memory"
    and width :: nat
  assumes ld_st: "ld (st a v m) a = v"
    and st_outside: "x \<notin> span a width \<Longrightarrow> st a v m x = m x"
    and ld_local: "(\<And>x. x \<in> span a width \<Longrightarrow> m x = m' x) \<Longrightarrow> ld m a = ld m' a"
begin

lemma ld_frame: "span a width \<inter> A = {} \<Longrightarrow> (\<And>x. x \<notin> A \<Longrightarrow> m' x = m x) \<Longrightarrow> ld m' a = ld m a"
  by (rule ld_local) blast

lemma st_apart_byte: "apart a width b k \<Longrightarrow> x \<in> span b k \<Longrightarrow> st a v m x = m x"
  by (rule st_outside) (rule apart_notin)

end

text \<open>Two kinds of cell over the same memory: a store to one is not seen by the other.\<close>

locale mem_cell_pair = c1: mem_cell ld1 st1 w1 + c2: mem_cell ld2 st2 w2
  for ld1 :: "memory \<Rightarrow> u32 \<Rightarrow> 'v" and st1 w1
    and ld2 :: "memory \<Rightarrow> u32 \<Rightarrow> 'w" and st2 w2
begin

lemma ld_st_apart: "apart a w1 b w2 \<Longrightarrow> ld2 (st1 a v m) b = ld2 m b"
  by (rule c2.ld_local) (erule c1.st_apart_byte)

end

lemma span_small:
  "x \<in> span a 1 \<longleftrightarrow> x = a"
  "x \<in> span a 2 \<longleftrightarrow> x = a \<or> x = a + 1"
  "x \<in> span a 4 \<longleftrightarrow> x = a \<or> x = a + 1 \<or> x = a + 2 \<or> x = a + 3"
proof -
  define d where "d = x - a"
  then have x: "x = a + d" by simp
  have "unat d < 1 \<longleftrightarrow> d = 0" by (simp add: unat_eq_0)
  then show "x \<in> span a 1 \<longleftrightarrow> x = a" by (simp add: in_span x)
  have "unat d < 2 \<longleftrightarrow> d = 0 \<or> d = 1" by (auto simp: word_unat_eq_iff)
  then show "x \<in> span a 2 \<longleftrightarrow> x = a \<or> x = a + 1" by (simp add: in_span x)
  have "unat d < 4 \<longleftrightarrow> d = 0 \<or> d = 1 \<or> d = 2 \<or> d = 3" by (auto simp: word_unat_eq_iff)
  then show "x \<in> span a 4 \<longleftrightarrow> x = a \<or> x = a + 1 \<or> x = a + 2 \<or> x = a + 3"
    by (simp add: in_span x)
qed

interpretation c8: mem_cell load8 store8 1
  by unfold_locales (auto simp: load8_def store8_def span_small(1) [simplified])

interpretation c16: mem_cell load16 store16 2
proof unfold_locales
  fix a :: u32 and v m
  show "load16 (store16 a v m) a = v"
    by (simp add: load16_def store16_def bytes16)
qed (auto simp: load16_def store16_def span_small)

interpretation c32: mem_cell load32 store32 4
proof unfold_locales
  fix a :: u32 and v m
  show "load32 (store32 a v m) a = v"
    by (simp add: load32_def store32_def bytes32)
qed (auto simp: load32_def store32_def span_small)

interpretation c8_32: mem_cell_pair load8 store8 1 load32 store32 4 ..
interpretation c16_32: mem_cell_pair load16 store16 2 load32 store32 4 ..
interpretation c32_32: mem_cell_pair load32 store32 4 load32 store32 4 ..
interpretation c16_16: mem_cell_pair load16 store16 2 load16 store16 2 ..
interpretation c32_16: mem_cell_pair load32 store32 4 load16 store16 2 ..

lemmas cells [cell_simps] = c8.ld_st c16.ld_st c32.ld_st

lemmas cells_apart [cell_simps] =
  c8_32.ld_st_apart c16_32.ld_st_apart c32_32.ld_st_apart
  c16_16.ld_st_apart c32_16.ld_st_apart

section \<open>Results of kernel code\<close>

text \<open>
  Most of the kernel's functions always return. Those that may not are modelled with a sum:
  \<open>Inr (x, s)\<close> is a return of \<open>x\<close> in state \<open>s\<close>, \<open>Inl\<close> the way the code stopped:
  \<^item> \<open>Halted s\<close>: \<open>panic\<close> ran to its \<open>cli; hlt\<close>, with the machine left in \<open>s\<close>;
  \<^item> \<open>Hangs\<close>: a loop that never ends;
  \<^item> \<open>Undefined\<close>: the C code leaves an object it may access (an array of fixed size, the
    arguments of a variadic call), so that nothing can be said of what follows.
\<close>

datatype 's stop = Halted 's | Hangs | Undefined

type_synonym ('a, 's) run = "'s stop + 'a \<times> 's"

definition and_then :: "('a, 's) run \<Rightarrow> ('a \<Rightarrow> 's \<Rightarrow> ('b, 's) run) \<Rightarrow> ('b, 's) run" where
  "and_then r k = (case r of Inl e \<Rightarrow> Inl e | Inr (x, s) \<Rightarrow> k x s)"

lemma and_then_simps [simp]:
  "and_then (Inl e) k = Inl e"
  "and_then (Inr (x, s)) k = k x s"
  by (simp_all add: and_then_def)

lemma and_then_Inr:
  "and_then r k = Inr (y, t) \<longleftrightarrow> (\<exists>x s. r = Inr (x, s) \<and> k x s = Inr (y, t))"
  by (auto simp: and_then_def split: sum.splits)

text \<open>A loop of the source over the option type: \<open>None\<close> is the loop that does not end.\<close>

definition of_loop :: "('a \<times> 's) option \<Rightarrow> ('a, 's) run" where
  "of_loop r = (case r of None \<Rightarrow> Inl Hangs | Some x \<Rightarrow> Inr x)"

lemma of_loop_simps [simp]: "of_loop None = Inl Hangs" "of_loop (Some x) = Inr x"
  by (simp_all add: of_loop_def)

text \<open>
  What a piece of code may do to the state, as a preorder: the effect of a loop, or of a run with
  its early stops, is bounded by the effect of its steps.
\<close>

definition run_effect :: "('s \<Rightarrow> 's \<Rightarrow> bool) \<Rightarrow> 's \<Rightarrow> ('a, 's) run \<Rightarrow> bool" where
  "run_effect R s r =
     (case r of Inr (x, t) \<Rightarrow> R s t | Inl (Halted t) \<Rightarrow> R s t | Inl _ \<Rightarrow> True)"

lemma run_effect_simps [simp]:
  "run_effect R s (Inr (x, t)) = R s t"
  "run_effect R s (Inl (Halted t)) = R s t"
  "run_effect R s (Inl Hangs)"
  "run_effect R s (Inl Undefined)"
  by (simp_all add: run_effect_def)

locale effect =
  fixes R :: "'s \<Rightarrow> 's \<Rightarrow> bool"
  assumes R_refl: "R s s"
    and R_trans: "R s t \<Longrightarrow> R t u \<Longrightarrow> R s u"
begin

lemma fold_effect: "(\<And>x s. x \<in> set xs \<Longrightarrow> R s (f x s)) \<Longrightarrow> R s (fold f xs s)"
proof (induction xs arbitrary: s)
  case (Cons x xs)
  then have "R s (f x s)" and "R (f x s) (fold f xs (f x s))" by simp_all
  then show ?case using R_trans by fastforce
qed (simp add: R_refl)

lemma run_trans: "R s t \<Longrightarrow> run_effect R t r \<Longrightarrow> run_effect R s r"
  by (auto simp: run_effect_def split: sum.splits stop.splits intro: R_trans)

lemma and_then_effect:
  assumes "run_effect R s r" and "\<And>x t. run_effect R t (k x t)"
  shows "run_effect R s (and_then r k)"
proof (cases r)
  case (Inl e)
  then show ?thesis using assms(1) by (cases e) simp_all
next
  case (Inr p)
  obtain x t where "p = (x, t)" by (cases p)
  with Inr assms show ?thesis using run_trans [of s t "k x t"] by simp
qed

end

text \<open>Signed reading of a word in C: the two's complement value.\<close>

abbreviation is_positive_int :: "u32 \<Rightarrow> bool" where
  "is_positive_int w \<equiv> 0 < sint w"

lemma bit31_unat: "bit (w :: u32) 31 \<longleftrightarrow> 2147483648 \<le> unat w"
proof -
  have "bit w 31 \<longleftrightarrow> bit (unat w) 31"
    by (simp add: bit_unsigned_iff)
  also have "\<dots> \<longleftrightarrow> odd (unat w div 2147483648)"
    by (simp add: bit_iff_odd)
  also have "\<dots> \<longleftrightarrow> 2147483648 \<le> unat w"
  proof -
    have "unat w div 2147483648 < 2" using u32_bound [of w] by simp
    then have "unat w div 2147483648 = 0 \<or> unat w div 2147483648 = 1" by linarith
    then show ?thesis by (auto simp: div_eq_0_iff)
  qed
  finally show ?thesis .
qed

lemma is_positive_int_unat: "is_positive_int w \<longleftrightarrow> 0 < unat w \<and> unat w < 2147483648"
proof (cases "bit w 31")
  case True
  then have "sint w < 0" using bit_last_iff [of w] by simp
  with True show ?thesis by (simp add: bit31_unat)
next
  case False
  define n where "n = unat w"
  have n: "uint w = int n" by (simp add: n_def)
  have small: "n < 2147483648" using False by (simp add: bit31_unat n_def)
  have "sint w = int n"
    unfolding sint_uint n by (rule signed_take_bit_int_eq_self) (use small in simp_all)
  moreover have "0 < int n \<longleftrightarrow> 0 < n \<and> n < 2147483648" using small by simp
  ultimately show ?thesis unfolding n_def by simp
qed

end
