(* ===== verification/Machine.thy ===== *)
theory Machine
  imports Kernel_Base
begin

text \<open>
  The machine every component runs on: the flat memory and the port-mapped devices
  (\<^verbatim>\<open>src/arch/x86/io.c\<close>). The devices are not code of the kernel: what a read of a port returns
  is an arbitrary function of the port and of the accesses made so far, so a theorem that
  fixes no such function holds for every hardware behaviour. The components extend this
  record with the globals of their file, in the order in which the files call each other.
\<close>

datatype io_event = OutB u16 u8 | InB u16 u8 | InW u16 u16

record machine =
  mem :: memory
  io_log :: "io_event list"
  in8 :: "io_event list \<Rightarrow> u16 \<Rightarrow> u8"
  in16 :: "io_event list \<Rightarrow> u16 \<Rightarrow> u16"

definition x86_outb :: "u16 \<Rightarrow> u8 \<Rightarrow> 'a machine_scheme \<Rightarrow> 'a machine_scheme" where
  "x86_outb port val s = s\<lparr>io_log := io_log s @ [OutB port val]\<rparr>"

definition x86_inb :: "u16 \<Rightarrow> 'a machine_scheme \<Rightarrow> u8 \<times> 'a machine_scheme" where
  "x86_inb port s = (let ret = in8 s (io_log s) port
     in (ret, s\<lparr>io_log := io_log s @ [InB port ret]\<rparr>))"

definition x86_inw :: "u16 \<Rightarrow> 'a machine_scheme \<Rightarrow> u16 \<times> 'a machine_scheme" where
  "x86_inw port s = (let ret = in16 s (io_log s) port
     in (ret, s\<lparr>io_log := io_log s @ [InW port ret]\<rparr>))"

lemma outb_fields [simp]:
  "mem (x86_outb p v s) = mem s"
  "io_log (x86_outb p v s) = io_log s @ [OutB p v]"
  "in8 (x86_outb p v s) = in8 s" "in16 (x86_outb p v s) = in16 s"
  by (simp_all add: x86_outb_def)

text \<open>Loads and stores of the code, on the machine's memory.\<close>

abbreviation rd32 :: "'a machine_scheme \<Rightarrow> u32 \<Rightarrow> u32" where
  "rd32 s a \<equiv> load32 (mem s) a"

abbreviation wr32 :: "u32 \<Rightarrow> u32 \<Rightarrow> 'a machine_scheme \<Rightarrow> 'a machine_scheme" where
  "wr32 a v s \<equiv> s\<lparr>mem := store32 a v (mem s)\<rparr>"

abbreviation wr8 :: "u32 \<Rightarrow> u8 \<Rightarrow> 'a machine_scheme \<Rightarrow> 'a machine_scheme" where
  "wr8 a v s \<equiv> s\<lparr>mem := (mem s)(a := v)\<rparr>"

text \<open>
  A string literal of the source, as the bytes before its NUL. Literals lie in read-only data
  that nothing in the model writes, so code that walks a literal walks this list.
\<close>

definition lit :: "string \<Rightarrow> u8 list" where
  "lit s = map of_char s"

end
