(* ===== verification/CString.thy ===== *)
theory CString
  imports Machine
begin

text \<open>
  The kernel's C library, \<^verbatim>\<open>src/libs/libc/string.c\<close>: byte-wise comparison, copy and fill, and the
  NUL-terminated strings. A counted loop is a \<open>fold\<close> over the values of its counter; a loop that
  ends early is a recursion on the iterations that are left; the two loops that have no bound
  (\<open>strlen\<close>, \<open>strcmp\<close>) count with a 32-bit word and return \<open>None\<close> once the counter has gone round
  all \<open>2\<^sup>3\<^sup>2\<close> addresses, since the same bytes are then scanned again for ever. The pointer that
  \<open>memcpy\<close>, \<open>memmove\<close> and \<open>memset\<close> return is their first argument; only the new memory is given.
\<close>

section \<open>Definitions\<close>

fun memcmp_from :: "memory \<Rightarrow> u32 \<Rightarrow> u32 \<Rightarrow> u32 \<Rightarrow> nat \<Rightarrow> int" where
  "memcmp_from m a b i 0 = 0"
| "memcmp_from m a b i (Suc left) =
     (if m (a + i) < m (b + i) then -1
      else if m (b + i) < m (a + i) then 1
      else memcmp_from m a b (i + 1) left)"

definition memcmp :: "u32 \<Rightarrow> u32 \<Rightarrow> u32 \<Rightarrow> memory \<Rightarrow> int" where
  "memcmp aptr bptr sz m = memcmp_from m aptr bptr 0 (unat sz)"

definition copy_byte :: "u32 \<Rightarrow> u32 \<Rightarrow> nat \<Rightarrow> memory \<Rightarrow> memory" where
  "copy_byte dst src i m = m(dst + of_nat i := m (src + of_nat i))"

definition memcpy :: "u32 \<Rightarrow> u32 \<Rightarrow> u32 \<Rightarrow> memory \<Rightarrow> memory" where
  "memcpy dst src sz m = fold (copy_byte dst src) [0..<unat sz] m"

definition memmove :: "u32 \<Rightarrow> u32 \<Rightarrow> u32 \<Rightarrow> memory \<Rightarrow> memory" where
  "memmove dst src sz m =
     (if dst < src then fold (copy_byte dst src) [0..<unat sz] m
      else fold (\<lambda>i. copy_byte dst src (i - 1)) (rev [1..<unat sz + 1]) m)"

definition memset :: "u32 \<Rightarrow> u8 \<Rightarrow> u32 \<Rightarrow> memory \<Rightarrow> memory" where
  "memset buf value sz m = fold (\<lambda>i m. m(buf + of_nat i := value)) [0..<unat sz] m"

function strlen_from :: "memory \<Rightarrow> u32 \<Rightarrow> u32 \<Rightarrow> u32 option" where
  "strlen_from m str len =
     (if m (str + len) = 0 then Some len
      else if len = - 1 then None
      else strlen_from m str (len + 1))"
  by pat_completeness auto
termination
  by (relation "measure (\<lambda>(m, str, len). unat (- 1 - len))") (simp_all add: u32_count_up')

definition strlen :: "memory \<Rightarrow> u32 \<Rightarrow> u32 option" where
  "strlen m str = strlen_from m str 0"

text \<open>
  \<open>strdeltoc\<close> cuts a path after the last occurrence of a character that is not its last byte.
  The result is the number of bytes it walked over, 0 when it found nothing.
\<close>

fun strdeltoc_loop :: "memory \<Rightarrow> u32 \<Rightarrow> u8 \<Rightarrow> nat \<Rightarrow> u32 \<Rightarrow> u32 \<times> memory" where
  "strdeltoc_loop m path ch 0 cnt = (0, m)"
| "strdeltoc_loop m path ch (Suc i) cnt =
     (if m (path + of_nat i) = ch then (cnt, m(path + of_nat i + 1 := 0))
      else strdeltoc_loop m path ch i (cnt + 1))"

definition strdeltoc :: "u32 \<Rightarrow> u8 \<Rightarrow> memory \<Rightarrow> (u32 \<times> memory) option" where
  "strdeltoc path ch m =
     (case strlen m path of None \<Rightarrow> None
      | Some i \<Rightarrow> Some (strdeltoc_loop m path ch (unat (i - 1)) 0))"

function strcmp_from :: "memory \<Rightarrow> u32 \<Rightarrow> u32 \<Rightarrow> u32 \<Rightarrow> u32 option" where
  "strcmp_from m str1 str2 i =
     (let res = ucast (m (str1 + i)) - ucast (m (str2 + i)) :: u32
      in if res \<noteq> 0 \<or> m (str2 + i) = 0 then Some res
         else if i = - 1 then None
         else strcmp_from m str1 str2 (i + 1))"
  by pat_completeness auto
termination
  by (relation "measure (\<lambda>(m, p, q, i). unat (- 1 - i))") (simp_all add: u32_count_up')

definition strcmp :: "memory \<Rightarrow> u32 \<Rightarrow> u32 \<Rightarrow> u32 option" where
  "strcmp m str1 str2 = strcmp_from m str1 str2 0"

declare strlen_from.simps [simp del] strcmp_from.simps [simp del]

section \<open>Copying and filling\<close>

text \<open>The memory a copy is meant to leave: \<open>n\<close> bytes from \<open>src\<close> now also at \<open>dst\<close>.\<close>

definition copied :: "u32 \<Rightarrow> u32 \<Rightarrow> nat \<Rightarrow> memory \<Rightarrow> memory" where
  "copied dst src n m = (\<lambda>x. if x \<in> span dst n then m (src + (x - dst)) else m x)"

lemma span_Suc:
  assumes "n < 4294967296"
  shows "x \<in> span a (Suc n) \<longleftrightarrow> x \<in> span a n \<or> x = a + of_nat n"
proof -
  have "x = a + of_nat n \<longleftrightarrow> unat (x - a) = n"
    using assms u32_of_nat_unat [of n] by (auto simp: u32_eq_unat [of "x - a"] diff_eq_eq add.commute)
  then show ?thesis by (auto simp: in_span less_Suc_eq)
qed

text \<open>
  A forward copy is right when no source byte is overwritten before it is read: byte \<open>i\<close> of the
  source is none of the first \<open>i\<close> bytes of the destination.
\<close>

lemma forward_copy:
  assumes "n \<le> 4294967296"
    and "\<And>i. i < n \<Longrightarrow> src + of_nat i \<notin> span dst i"
  shows "fold (copy_byte dst src) [0..<n] m = copied dst src n m"
  using assms
proof (induction n)
  case 0
  then show ?case by (simp add: copied_def in_span)
next
  case (Suc n)
  then have IH: "fold (copy_byte dst src) [0..<n] m = copied dst src n m" by simp
  have "copied dst src n m (src + of_nat n) = m (src + of_nat n)"
    using Suc.prems(2) [of n] by (simp add: copied_def)
  then have "copy_byte dst src n (copied dst src n m) = copied dst src (Suc n) m"
    using Suc.prems(1) by (auto simp: copy_byte_def copied_def span_Suc fun_eq_iff)
  with IH show ?case by simp
qed

text \<open>A backward copy: byte \<open>i\<close> of the source is none of the bytes copied after it.\<close>

definition copied_from :: "nat \<Rightarrow> u32 \<Rightarrow> u32 \<Rightarrow> nat \<Rightarrow> memory \<Rightarrow> memory" where
  "copied_from k dst src n m =
     (\<lambda>x. if x \<in> span dst n \<and> k \<le> unat (x - dst) then m (src + (x - dst)) else m x)"

lemma backward_copy_part:
  assumes "n \<le> 4294967296" and "k \<le> n"
    and "\<And>i j. i < j \<Longrightarrow> j < n \<Longrightarrow> src + of_nat i \<noteq> dst + of_nat j"
  shows "fold (\<lambda>i. copy_byte dst src (i - 1)) (rev [k + 1..<n + 1]) m = copied_from k dst src n m"
  using assms(2)
proof (induction "n - k" arbitrary: k)
  case 0
  then show ?case by (auto simp: copied_from_def in_span fun_eq_iff)
next
  case (Suc d)
  then have k: "k < n" by simp
  then have "fold (\<lambda>i. copy_byte dst src (i - 1)) (rev [Suc k + 1..<n + 1]) m
      = copied_from (Suc k) dst src n m"
    using Suc.hyps(1) [of "Suc k"] Suc.hyps(2) by simp
  moreover have "rev [k + 1..<n + 1] = rev [Suc k + 1..<n + 1] @ [k + 1]"
    using k by (simp add: upt_conv_Cons)
  ultimately have "fold (\<lambda>i. copy_byte dst src (i - 1)) (rev [k + 1..<n + 1]) m
      = copy_byte dst src k (copied_from (Suc k) dst src n m)"
    by simp
  also have "\<dots> = copied_from k dst src n m"
  proof -
    have kk: "unat (of_nat k :: u32) = k" using k assms(1) by (simp add: u32_of_nat_unat)
    have "copied_from (Suc k) dst src n m (src + of_nat k) = m (src + of_nat k)"
    proof -
      have "\<not> (src + of_nat k \<in> span dst n \<and> Suc k \<le> unat (src + of_nat k - dst))"
        using assms(3) [of k "unat (src + of_nat k - dst)"] by (auto simp: in_span)
      then show ?thesis unfolding copied_from_def by (rule if_not_P)
    qed
    moreover have "x = dst + of_nat k \<longleftrightarrow> unat (x - dst) = k" for x
      using kk by (auto simp: u32_eq_unat [of "x - dst"] diff_eq_eq add.commute)
    ultimately show ?thesis
      using k by (auto simp: copy_byte_def copied_from_def fun_eq_iff in_span)
  qed
  finally show ?case .
qed

lemma copied_from_0: "copied_from 0 dst src n m = copied dst src n m"
  by (simp add: copied_from_def copied_def)

lemma copy_forward_ok:
  assumes "dst < src" and "unat src + n \<le> 4294967296" and "i < n"
  shows "src + of_nat i \<notin> span dst i"
proof -
  have i: "unat (of_nat i :: u32) = i" using assms by (simp add: u32_of_nat_unat)
  have "unat (src + of_nat i) = unat src + i"
    using assms i by (simp add: u32_add_unat)
  with assms show ?thesis by (simp add: in_span u32_diff_unat u32_less_unat)
qed

lemma copy_backward_ok:
  fixes dst src :: u32
  assumes "\<not> dst < src" and "unat dst + n \<le> 4294967296" and "i < j" and "j < n"
  shows "src + of_nat i \<noteq> dst + of_nat j"
proof -
  have i: "unat (of_nat i :: u32) = i" "unat (of_nat j :: u32) = j"
    using assms by (simp_all add: u32_of_nat_unat)
  have "unat src \<le> unat dst" using assms(1) by (simp add: u32_less_unat)
  then have "unat (src + of_nat i) = unat src + i"
    using assms i u32_add_unat [of src "of_nat i"] by linarith
  moreover have "unat (dst + of_nat j) = unat dst + j"
    using assms i by (simp add: u32_add_unat)
  ultimately show ?thesis using assms by (auto simp: u32_less_unat)
qed

lemma memcpy_apart:
  assumes "apart dst (unat n) src (unat n)"
  shows "memcpy dst src n m = copied dst src (unat n) m"
  unfolding memcpy_def
proof (rule forward_copy)
  show "unat n \<le> 4294967296" using u32_bound [of n] by simp
next
  fix i assume i: "i < unat n"
  then have "src + of_nat i \<in> span src (unat n)"
    using u32_bound [of n] by (simp add: span_add_of_nat)
  then have "src + of_nat i \<notin> span dst (unat n)" by (rule apart_notin [OF assms])
  with i show "src + of_nat i \<notin> span dst i" by (simp add: in_span)
qed

lemma memcpy_down:
  assumes "dst < src" and "unat src + unat n \<le> 4294967296"
  shows "memcpy dst src n m = copied dst src (unat n) m"
  unfolding memcpy_def
  by (rule forward_copy) (use assms copy_forward_ok u32_bound [of n] in auto)

lemma copy_outside:
  "x \<notin> span dst k \<Longrightarrow> k \<le> 4294967296 \<Longrightarrow> fold (copy_byte dst src) [0..<k] m x = m x"
  by (induction k) (auto simp: copy_byte_def span_Suc)

lemma memcpy_outside: "x \<notin> span dst (unat n) \<Longrightarrow> memcpy dst src n m x = m x"
  using u32_bound [of n] by (simp add: memcpy_def copy_outside)

text \<open>Whatever a copy does further on, source bytes it never writes arrive unchanged.\<close>

lemma memcpy_prefix:
  assumes apart: "\<And>j. j < k \<Longrightarrow> src + of_nat j \<notin> span dst (unat n)" and k: "k \<le> unat n" and i: "i < k"
  shows "memcpy dst src n m (dst + of_nat i) = m (src + of_nat i)"
proof -
  have "fold (copy_byte dst src) [0..<c] m (dst + of_nat i)
      = (if i < c then m (src + of_nat i) else m (dst + of_nat i))" if "c \<le> unat n" for c
    using that
  proof (induction c)
    case (Suc c)
    have "(of_nat i :: u32) = of_nat c \<longleftrightarrow> i = c"
      using u32_of_nat_unat [of i] u32_of_nat_unat [of c] u32_bound [of n] Suc.prems i k
      by (auto simp: u32_eq_unat)
    moreover define M where "M = fold (copy_byte dst src) [0..<c] m"
    moreover have "M (src + of_nat c) = m (src + of_nat c)" if "c = i"
      unfolding M_def using apart [of c] that i Suc.prems u32_bound [of n]
      by (intro copy_outside) (auto simp: in_span)
    moreover have "fold (copy_byte dst src) [0..<Suc c] m = copy_byte dst src c M"
      by (simp add: M_def)
    ultimately show ?case using Suc by (auto simp: copy_byte_def [of dst src c])
  qed simp
  from this [of "unat n"] show ?thesis using i k by (simp add: memcpy_def)
qed

lemma memset_eq: "memset buf v n m = (\<lambda>x. if x \<in> span buf (unat n) then v else m x)"
proof -
  have "k \<le> 4294967296 \<Longrightarrow> fold (\<lambda>i m. m(buf + of_nat i := v)) [0..<k] m
      = (\<lambda>x. if x \<in> span buf k then v else m x)" for k
  proof (induction k)
    case 0
    then show ?case by (simp add: in_span)
  next
    case (Suc k)
    then show ?case by (auto simp: span_Suc fun_eq_iff)
  qed
  then show ?thesis using u32_bound [of n] by (simp add: memset_def)
qed

section \<open>Comparison of memory\<close>

lemma memcmp_from_eq_0:
  "memcmp_from m a b i n = 0 \<longleftrightarrow> (\<forall>j < n. m (a + i + of_nat j) = m (b + i + of_nat j))"
proof (induction n arbitrary: i)
  case (Suc n)
  have "(\<forall>j < Suc n. m (a + i + of_nat j) = m (b + i + of_nat j)) \<longleftrightarrow>
      m (a + i) = m (b + i) \<and> (\<forall>j < n. m (a + (i + 1) + of_nat j) = m (b + (i + 1) + of_nat j))"
    by (auto simp: less_Suc_eq_0_disj add.assoc)
  then show ?case using Suc.IH [of "i + 1"] by auto
qed simp

section \<open>NUL-terminated strings\<close>

text \<open>\<open>cstring m p cs\<close>: the bytes \<open>cs\<close>, none of them NUL, lie at \<open>p\<close> and a NUL follows.\<close>

fun cstring :: "memory \<Rightarrow> u32 \<Rightarrow> u8 list \<Rightarrow> bool" where
  "cstring m p [] \<longleftrightarrow> m p = 0"
| "cstring m p (c # cs) \<longleftrightarrow> m p = c \<and> c \<noteq> 0 \<and> cstring m (p + 1) cs"

lemma cstring_nth: "cstring m p cs \<Longrightarrow> i < length cs \<Longrightarrow> m (p + of_nat i) = cs ! i \<and> cs ! i \<noteq> 0"
proof (induction cs arbitrary: p i)
  case (Cons c cs)
  show ?case
  proof (cases i)
    case (Suc k)
    with Cons.IH [of "p + 1" k] Cons.prems show ?thesis by (simp add: add.assoc)
  qed (use Cons.prems in simp)
qed simp

lemma cstring_end: "cstring m p cs \<Longrightarrow> m (p + of_nat (length cs)) = 0"
proof (induction cs arbitrary: p)
  case (Cons c cs)
  then show ?case using Cons.IH [of "p + 1"] by (simp add: add.assoc)
qed simp

lemma cstring_intro:
  "(\<And>i. i < length cs \<Longrightarrow> m (p + of_nat i) = cs ! i \<and> cs ! i \<noteq> 0) \<Longrightarrow>
     m (p + of_nat (length cs)) = 0 \<Longrightarrow> cstring m p cs"
proof (induction cs arbitrary: p)
  case (Cons c cs)
  have "m p = c \<and> c \<noteq> 0" using Cons.prems(1) [of 0] by simp
  moreover have "cstring m (p + 1) cs"
  proof (rule Cons.IH)
    fix i assume "i < length cs"
    then show "m (p + 1 + of_nat i) = cs ! i \<and> cs ! i \<noteq> 0"
      using Cons.prems(1) [of "Suc i"] by (simp add: add.assoc)
  next
    show "m (p + 1 + of_nat (length cs)) = 0"
      using Cons.prems(2) by (simp add: add.assoc)
  qed
  ultimately show ?case by simp
qed simp

lemma cstring_length: 
  assumes "cstring m p cs" shows "length cs < 4294967296"
proof (rule ccontr)
  assume "\<not> length cs < 4294967296"
  then have i: "length cs - 4294967296 < length cs" by simp
  have "of_nat (length cs - 4294967296) = (of_nat (length cs) :: u32)"
    using \<open>\<not> length cs < 4294967296\<close> by (simp add: of_nat_diff)
  then show False
    using cstring_nth [OF assms i] cstring_end [OF assms] by simp
qed

lemma cstring_unique: "cstring m p cs \<Longrightarrow> cstring m p ds \<Longrightarrow> cs = ds"
  by (induction cs arbitrary: p ds) (case_tac ds; auto)+

text \<open>A string survives a change of memory that misses its bytes and its NUL.\<close>

lemma cstring_frame:
  "cstring m p cs \<Longrightarrow> (\<And>i. i \<le> length cs \<Longrightarrow> m' (p + of_nat i) = m (p + of_nat i)) \<Longrightarrow>
     cstring m' p cs"
  by (rule cstring_intro) (simp_all add: cstring_nth cstring_end)

lemma strlen_from_cstring:
  "cstring m (p + i) cs \<Longrightarrow> unat i + length cs < 4294967296 \<Longrightarrow>
     strlen_from m p i = Some (i + of_nat (length cs))"
proof (induction cs arbitrary: i)
  case Nil
  then show ?case by (simp add: strlen_from.simps)
next
  case (Cons c cs)
  have "i \<noteq> - 1" using Cons.prems(2) u32_minus_1 by auto
  then have "unat (i + 1) = unat i + 1"
    using Cons.prems(2) u32_add_unat [of i 1] by simp
  then have "strlen_from m p (i + 1) = Some (i + 1 + of_nat (length cs))"
    using Cons.IH [of "i + 1"] Cons.prems by (simp add: add.assoc)
  with Cons.prems \<open>i \<noteq> - 1\<close> show ?case
    by (simp add: strlen_from.simps [of m p i] add.assoc)
qed

lemma strlen_cstring: "cstring m p cs \<Longrightarrow> strlen m p = Some (of_nat (length cs))"
  using strlen_from_cstring [of m p 0 cs] cstring_length [of m p cs] by (simp add: strlen_def)

text \<open>Conversely every value \<open>strlen\<close> returns delimits a string, and it returns when it can.\<close>

lemma strlen_from_Some:
  "strlen_from m p i = Some n \<Longrightarrow>
     i \<le> n \<and> m (p + n) = 0 \<and> (\<forall>j. i \<le> j \<and> j < n \<longrightarrow> m (p + j) \<noteq> 0)"
proof (induction m p i rule: strlen_from.induct)
  case (1 m p i)
  show ?case
  proof (cases "m (p + i) = 0 \<or> i = - 1")
    case True
    with "1.prems" show ?thesis by (auto simp: strlen_from.simps [of m p i] split: if_splits)
  next
    case False
    with "1.prems" have "strlen_from m p (i + 1) = Some n"
      by (simp add: strlen_from.simps [of m p i])
    with "1.IH" False have *: "i + 1 \<le> n" "m (p + n) = 0"
      "\<forall>j. i + 1 \<le> j \<and> j < n \<longrightarrow> m (p + j) \<noteq> 0" by auto
    have "i + 1 \<le> j \<longleftrightarrow> i < j" for j using False by (simp add: u32_inc_le)
    with * False show ?thesis by (auto simp: order_le_less)
  qed
qed

lemma strlen_from_None: "strlen_from m p i = None \<Longrightarrow> i \<le> j \<Longrightarrow> m (p + j) \<noteq> 0"
proof (induction m p i rule: strlen_from.induct)
  case (1 m p i)
  from "1.prems"(1) have nz: "m (p + i) \<noteq> 0"
    by (auto simp: strlen_from.simps [of m p i] split: if_splits)
  show ?case
  proof (cases "i = j")
    case True
    with nz show ?thesis by simp
  next
    case False
    with "1.prems"(2) have "i < j" by simp
    moreover from this have "i \<noteq> - 1"
      using u32_minus_1 u32_bound [of j] by (auto simp: u32_less_unat)
    ultimately have "i \<noteq> - 1" "i + 1 \<le> j" by (simp_all add: u32_inc_le)
    with 1 nz show ?thesis by (simp add: strlen_from.simps [of m p i])
  qed
qed

text \<open>Comparison of two strings as a function of their bytes.\<close>

fun str_diff :: "u8 list \<Rightarrow> u8 list \<Rightarrow> u32" where
  "str_diff [] [] = 0"
| "str_diff [] (d # ds) = 0 - ucast d"
| "str_diff (c # cs) [] = ucast c"
| "str_diff (c # cs) (d # ds) = (if c = d then str_diff cs ds else ucast c - ucast d)"

lemma ucast_u8_inj: "ucast c = (ucast d :: u32) \<longleftrightarrow> c = d" for c d :: u8
proof
  have narrow: "ucast (ucast x :: u32) = x" for x :: u8
    by (rule bit_word_eqI) (simp add: bit_simps)
  assume "ucast c = (ucast d :: u32)"
  then show "c = d" by (metis narrow)
qed simp

lemma ucast_u8_0: "ucast c = (0 :: u32) \<longleftrightarrow> c = 0" for c :: u8
  using ucast_u8_inj [of c 0] by simp

lemma strcmp_from_cstring:
  "cstring m (p + i) cs \<Longrightarrow> cstring m (q + i) ds \<Longrightarrow> unat i + length ds < 4294967296 \<Longrightarrow>
     strcmp_from m p q i = Some (str_diff cs ds)"
proof (induction cs ds arbitrary: i rule: str_diff.induct)
  case (4 c cs d ds)
  have "i \<noteq> - 1" using "4.prems"(3) u32_minus_1 by auto
  then have "unat (i + 1) + length ds < 4294967296" using "4.prems"(3) by (simp add: u32_step)
  with "4.IH" [of "i + 1"] "4.prems" \<open>i \<noteq> - 1\<close> show ?case
    by (simp add: strcmp_from.simps [of m p q i] ucast_u8_inj add.assoc)
qed (simp_all add: strcmp_from.simps ucast_u8_0)

lemma str_diff_eq_0: "0 \<notin> set cs \<Longrightarrow> 0 \<notin> set ds \<Longrightarrow> str_diff cs ds = 0 \<longleftrightarrow> cs = ds"
  by (induction cs ds rule: str_diff.induct) (auto simp: ucast_u8_0 ucast_u8_inj)

lemma cstring_nonzero: "cstring m p cs \<Longrightarrow> 0 \<notin> set cs"
  by (induction cs arbitrary: p) auto

lemma strcmp_cstring:
  "cstring m p cs \<Longrightarrow> cstring m q ds \<Longrightarrow> strcmp m p q = Some (str_diff cs ds)"
  using strcmp_from_cstring [of m p 0 cs q ds] cstring_length [of m q ds]
  by (simp add: strcmp_def)

section \<open>Cutting a path\<close>

text \<open>How many bytes of a path \<open>strdeltoc\<close> keeps: up to the last \<open>ch\<close> before the last byte.\<close>

definition cut_len :: "u8 \<Rightarrow> u8 list \<Rightarrow> nat" where
  "cut_len ch cs = length (dropWhile (\<lambda>c. c \<noteq> ch) (rev cs))"

lemma cut_len_le: "cut_len ch cs \<le> length cs"
  unfolding cut_len_def by (metis length_dropWhile_le length_rev)

lemma cut_len_snoc: "cut_len ch (cs @ [c]) = (if c = ch then Suc (length cs) else cut_len ch cs)"
  by (simp add: cut_len_def)

lemma strdeltoc_loop_cut:
  assumes "\<And>j. j < i \<Longrightarrow> m (p + of_nat j) = cs ! j" and "i \<le> length cs"
  shows "strdeltoc_loop m p ch i cnt =
     (if cut_len ch (take i cs) = 0 then (0, m)
      else (cnt + of_nat (i - cut_len ch (take i cs)),
            m(p + of_nat (cut_len ch (take i cs)) := 0)))"
  using assms
proof (induction i arbitrary: cnt)
  case 0
  then show ?case by (simp add: cut_len_def)
next
  case (Suc i)
  have take: "take (Suc i) cs = take i cs @ [cs ! i]"
    using Suc.prems(2) by (simp add: take_Suc_conv_app_nth)
  have "m (p + of_nat i) = cs ! i" using Suc.prems(1) by simp
  show ?case
  proof (cases "cs ! i = ch")
    case True
    with take \<open>m (p + of_nat i) = cs ! i\<close> Suc.prems(2) show ?thesis
      by (simp add: cut_len_snoc ac_simps)
  next
    case False
    have "cut_len ch (take i cs) \<le> i" using cut_len_le [of ch "take i cs"] by simp
    with Suc False take \<open>m (p + of_nat i) = cs ! i\<close> show ?thesis
      by (simp add: cut_len_snoc Suc_diff_le add.assoc)
  qed
qed

lemma cstring_cut:
  assumes "cstring m p cs" and "k < length cs"
  shows "cstring (m(p + of_nat k := 0)) p (take k cs)"
proof (rule cstring_intro)
  fix i assume "i < length (take k cs)"
  then have i: "i < k" by simp
  have "(of_nat i :: u32) \<noteq> of_nat k"
  proof
    assume "(of_nat i :: u32) = of_nat k"
    then have "unat (of_nat i :: u32) = unat (of_nat k :: u32)" by simp
    then show False
      using i assms(2) cstring_length [OF assms(1)] by (simp add: u32_of_nat_unat)
  qed
  then show "(m(p + of_nat k := 0)) (p + of_nat i) = take k cs ! i \<and> take k cs ! i \<noteq> 0"
    using cstring_nth [OF assms(1), of i] i assms(2) by simp
qed (use assms(2) in simp)

lemma cut_len_less: "cs \<noteq> [] \<Longrightarrow> cut_len ch (butlast cs) < length cs"
  using cut_len_le [of ch "butlast cs"] by (cases cs) auto

lemma strdeltoc_run:
  assumes "cstring m p cs" and "cs \<noteq> []"
  shows "strdeltoc p ch m = Some (if cut_len ch (butlast cs) = 0 then (0, m)
    else (of_nat (length cs - 1 - cut_len ch (butlast cs)), m(p + of_nat (cut_len ch (butlast cs)) := 0)))"
proof -
  define i where "i = length cs - 1"
  have len: "length cs < 4294967296" by (rule cstring_length [OF assms(1)])
  have "unat (of_nat (length cs) - 1 :: u32) = i"
    using assms(2) len by (simp add: u32_diff_unat u32_of_nat_unat i_def Suc_le_eq)
  then have run: "strdeltoc p ch m = Some (strdeltoc_loop m p ch i 0)"
    by (simp add: strdeltoc_def strlen_cstring [OF assms(1)])
  have i: "take i cs = butlast cs" "i \<le> length cs" by (simp_all add: butlast_conv_take i_def)
  show ?thesis
    using strdeltoc_loop_cut [of i m p cs ch 0] cstring_nth [OF assms(1)] i assms(2)
    by (simp add: run i_def)
qed

section \<open>Properties\<close>

text \<open>
  C27. \<open>memmove\<close> copies correctly whether or not the areas overlap, provided neither wraps past
  the end of the address space: afterwards the destination holds the bytes the source held.
\<close>

theorem memmove_copies:
  assumes "unat src + unat n \<le> 4294967296" and "unat dst + unat n \<le> 4294967296"
  shows "memmove dst src n m = copied dst src (unat n) m"
proof (cases "dst < src")
  case True
  with assms(1) show ?thesis
    using memcpy_down [OF True, of n m] by (simp add: memmove_def memcpy_def)
next
  case False
  then show ?thesis
    using backward_copy_part [of "unat n" 0 src dst m] copy_backward_ok [OF False assms(2)]
      u32_bound [of n]
    by (simp add: memmove_def copied_from_0)
qed

lemma memmove_copies_witness:
  "memmove 0x1001 0x1000 2 (\<lambda>x. ucast x) 0x1002 = 1"
  using memmove_copies [of "0x1000" 2 "0x1001" "\<lambda>x. ucast x"] by (simp add: copied_def in_span)

text \<open>
  \<open>memcmp\<close> returns 0 exactly when the two areas hold the same bytes.
\<close>

theorem memcmp_zero_iff_equal:
  "memcmp a b n m = 0 \<longleftrightarrow> {i. i < unat n \<and> m (a + of_nat i) \<noteq> m (b + of_nat i)} = {}"
  using memcmp_from_eq_0 [of m a b 0 "unat n"] by (auto simp: memcmp_def)

text \<open>
  \<open>strlen\<close> returns \<open>n\<close> exactly when the first NUL lies \<open>n\<close> bytes on, and runs for ever exactly
  when there is no NUL anywhere in the address space.
\<close>

theorem strlen_first_nul:
  "(strlen m p = Some n \<longleftrightarrow> m (p + n) = 0 \<and> {j. j < n \<and> m (p + j) = 0} = {})
     \<and> (strlen m p = None \<longleftrightarrow> {x. m x = 0} = {})"
proof -
  have some: "m (p + k) = 0 \<and> {j. j < k \<and> m (p + j) = 0} = {}" if "strlen m p = Some k" for k
    using strlen_from_Some [of m p 0 k] that by (auto simp: strlen_def)
  have none: "m x \<noteq> 0" if "strlen m p = None" for x
    using strlen_from_None [of m p 0 "x - p"] that by (simp add: strlen_def)
  show ?thesis
  proof (cases "strlen m p")
    case None
    then show ?thesis using none by auto
  next
    case (Some k)
    note k = some [OF Some]
    have "k = n" if "m (p + n) = 0" "{j. j < n \<and> m (p + j) = 0} = {}"
      using k that by (cases k n rule: linorder_cases) auto
    with Some k show ?thesis by auto
  qed
qed

text \<open>
  \<open>strcmp\<close> of two strings always returns, and returns 0 exactly when they are equal.
\<close>

theorem strcmp_zero_iff_equal:
  assumes "cstring m p cs" and "cstring m q ds"
  shows "\<exists>r. strcmp m p q = Some r \<and> (r = 0 \<longleftrightarrow> cs = ds)"
  using strcmp_cstring [OF assms] str_diff_eq_0 assms by (auto simp: cstring_nonzero)

definition two_names :: memory where
  "two_names = (\<lambda>_. 0)(0x100 := 0x61, 0x101 := 0x62, 0x200 := 0x61)"

lemma strcmp_zero_iff_equal_witness:
  "\<exists>r. strcmp two_names 0x100 0x200 = Some r \<and> r \<noteq> 0"
  using strcmp_zero_iff_equal [of two_names "0x100" "[0x61, 0x62]" "0x200" "[0x61]"]
  by (simp add: two_names_def)

text \<open>
  \<open>strdeltoc\<close> cuts a non-empty path behind the last occurrence of the character that is not
  its last byte, returns how many bytes before the last one it skipped, and otherwise leaves the
  path as it is.
\<close>

theorem strdeltoc_cuts:
  assumes "cstring m p cs" and "cs \<noteq> []"
  shows "let k = cut_len ch (butlast cs)
    in \<exists>m'. strdeltoc p ch m = Some (if k = 0 then 0 else of_nat (length cs - 1 - k), m')
         \<and> cstring m' p (if k = 0 then cs else take k cs)"
  using strdeltoc_run [OF assms, of ch] cstring_cut [OF assms(1)] assms(1) cut_len_less [OF assms(2), of ch]
  by (auto simp: Let_def)

lemma strdeltoc_cuts_witness:
  "\<exists>m'. strdeltoc 0x100 0x2F ((\<lambda>_. 0)(0x100 := 0x2F, 0x101 := 0x61, 0x102 := 0x2F, 0x103 := 0x62))
     = Some (0, m') \<and> cstring m' 0x100 [0x2F, 0x61, 0x2F]"
  using strdeltoc_cuts [of "(\<lambda>_. 0)(0x100 := 0x2F, 0x101 := 0x61, 0x102 := 0x2F, 0x103 := 0x62)"
      "0x100" "[0x2F, 0x61, 0x2F, 0x62]" "0x2F"]
  by (simp add: cut_len_def)

end
