(* ===== verification/Terminal.thy ===== *)
theory Terminal
  imports CString
begin

text \<open>
  The text console, \<^verbatim>\<open>src/kernel/framebuffer.c\<close> and \<^verbatim>\<open>framebuffer.h\<close>, and the two error
  reporters of \<^verbatim>\<open>src/kernel/panic.c\<close>. The 80 by 25 cells of two bytes at \<open>0xB8000\<close> are ordinary
  memory of the machine. Every byte printed also goes to the debug port \<open>0xE9\<close>.

  A string that a caller passes by address is read from memory byte by byte while it is being
  printed (\<open>term_write\<close>); a literal is the list of its bytes (\<open>term_puts\<close>). The arguments of a
  variadic call are a list: \<open>VWord\<close> is a four-byte argument, \<open>VLit\<close> the address of a literal.
\<close>

unbundle bit_operations_syntax

section \<open>Colours and cells\<close>

datatype vga_color = VGA_COLOR_BLACK | VGA_COLOR_BLUE | VGA_COLOR_GREEN | VGA_COLOR_CYAN
  | VGA_COLOR_RED | VGA_COLOR_MAGENTA | VGA_COLOR_BROWN | VGA_COLOR_LIGHT_GREY
  | VGA_COLOR_DARK_GREY | VGA_COLOR_LIGHT_BLUE | VGA_COLOR_LIGHT_GREEN | VGA_COLOR_LIGHT_CYAN
  | VGA_COLOR_LIGHT_RED | VGA_COLOR_LIGHT_MAGENTA | VGA_COLOR_LIGHT_BROWN | VGA_COLOR_WHITE

fun vga_color_value :: "vga_color \<Rightarrow> u8" where
  "vga_color_value VGA_COLOR_BLACK = 0"
| "vga_color_value VGA_COLOR_BLUE = 1"
| "vga_color_value VGA_COLOR_GREEN = 2"
| "vga_color_value VGA_COLOR_CYAN = 3"
| "vga_color_value VGA_COLOR_RED = 4"
| "vga_color_value VGA_COLOR_MAGENTA = 5"
| "vga_color_value VGA_COLOR_BROWN = 6"
| "vga_color_value VGA_COLOR_LIGHT_GREY = 7"
| "vga_color_value VGA_COLOR_DARK_GREY = 8"
| "vga_color_value VGA_COLOR_LIGHT_BLUE = 9"
| "vga_color_value VGA_COLOR_LIGHT_GREEN = 10"
| "vga_color_value VGA_COLOR_LIGHT_CYAN = 11"
| "vga_color_value VGA_COLOR_LIGHT_RED = 12"
| "vga_color_value VGA_COLOR_LIGHT_MAGENTA = 13"
| "vga_color_value VGA_COLOR_LIGHT_BROWN = 14"
| "vga_color_value VGA_COLOR_WHITE = 15"

definition vga_entry_color :: "vga_color \<Rightarrow> vga_color \<Rightarrow> u8" where
  "vga_entry_color fg bg = vga_color_value fg OR push_bit 4 (vga_color_value bg)"

definition vga_entry :: "u8 \<Rightarrow> u8 \<Rightarrow> u16" where
  "vga_entry uc color = ucast uc OR push_bit 8 (ucast color)"

definition VGA_WIDTH :: u32 where "VGA_WIDTH = 80"
definition VGA_HEIGHT :: u32 where "VGA_HEIGHT = 25"
definition term_buffer :: u32 where "term_buffer = 0xB8000"

lemmas vga_consts = VGA_WIDTH_def VGA_HEIGHT_def term_buffer_def

section \<open>State and operations\<close>

record terminal = machine +
  term_row :: u32
  term_column :: u32
  term_color :: u8

definition term_put_char_at ::
  "u8 \<Rightarrow> u8 \<Rightarrow> u32 \<Rightarrow> u32 \<Rightarrow> 'a terminal_scheme \<Rightarrow> 'a terminal_scheme" where
  "term_put_char_at c color x y s =
     (let index = y * VGA_WIDTH + x
      in s\<lparr>mem := store16 (term_buffer + 2 * index) (vga_entry c color) (mem s)\<rparr>)"

definition term_setcolor :: "u8 \<Rightarrow> 'a terminal_scheme \<Rightarrow> 'a terminal_scheme" where
  "term_setcolor color s = s\<lparr>term_color := color\<rparr>"

definition term_clean :: "'a terminal_scheme \<Rightarrow> 'a terminal_scheme" where
  "term_clean s = fold (\<lambda>y s. fold (\<lambda>x s.
     term_put_char_at 0x20 (term_color s) (of_nat x) (of_nat y) s) [0..<unat VGA_WIDTH] s)
     [0..<unat VGA_HEIGHT] s"

definition term_init :: "'a terminal_scheme \<Rightarrow> 'a terminal_scheme" where
  "term_init s = term_clean (term_setcolor (vga_entry_color VGA_COLOR_WHITE VGA_COLOR_BLACK) s)"

definition term_newline :: "'a terminal_scheme \<Rightarrow> 'a terminal_scheme" where
  "term_newline s =
     (let s1 = s\<lparr>mem := memcpy term_buffer (term_buffer + 2 * VGA_WIDTH)
                          (VGA_WIDTH * (VGA_HEIGHT - 1) * 2) (mem s)\<rparr>
      in fold (\<lambda>i s. term_put_char_at 0x20 (term_color s) (of_nat i) (VGA_HEIGHT - 1) s)
           [0..<unat VGA_WIDTH] s1)"

text \<open>The label \<open>newline_callback\<close> of \<open>term_putchar\<close>.\<close>

definition newline_callback :: "'a terminal_scheme \<Rightarrow> 'a terminal_scheme" where
  "newline_callback s =
     (let s1 = s\<lparr>term_row := term_row s + 1\<rparr>
      in if \<not> VGA_HEIGHT \<le> term_row s1 then s1
         else term_newline (s1\<lparr>term_row := VGA_HEIGHT - 1\<rparr>))"

definition term_putchar :: "u8 \<Rightarrow> 'a terminal_scheme \<Rightarrow> 'a terminal_scheme" where
  "term_putchar c s =
     (let s0 = x86_outb 0xE9 c s
      in if c = 10 then newline_callback (s0\<lparr>term_column := 0\<rparr>)
         else let s1 = term_put_char_at c (term_color s0) (term_column s0) (term_row s0) s0;
                  s2 = s1\<lparr>term_column := term_column s1 + 1\<rparr>
              in if \<not> VGA_WIDTH \<le> term_column s2 then s2
                 else newline_callback (s2\<lparr>term_column := 0\<rparr>))"

definition term_write :: "u32 \<Rightarrow> u32 \<Rightarrow> 'a terminal_scheme \<Rightarrow> 'a terminal_scheme" where
  "term_write data n s = fold (\<lambda>i s. term_putchar (mem s (data + of_nat i)) s) [0..<unat n] s"

definition term_writestring ::
  "u32 \<Rightarrow> 'a terminal_scheme \<Rightarrow> (unit, 'a terminal_scheme) run" where
  "term_writestring data s =
     (case strlen (mem s) data of None \<Rightarrow> Inl Hangs
      | Some n \<Rightarrow> Inr ((), term_write data n s))"

definition term_puts :: "u8 list \<Rightarrow> 'a terminal_scheme \<Rightarrow> 'a terminal_scheme" where
  "term_puts cs s = fold term_putchar cs s"

definition term_reset_cursor :: "'a terminal_scheme \<Rightarrow> 'a terminal_scheme" where
  "term_reset_cursor s = s\<lparr>term_row := 0, term_color := 0\<rparr>"

definition hex_digits :: "u8 list" where
  "hex_digits = lit ''0123456789abcdef''"

text \<open>The characters \<open>term_puthex\<close> puts into its local buffer, from \<open>i = 7\<close> down to \<open>0\<close>.\<close>

definition hex_nibble :: "u32 \<Rightarrow> nat \<Rightarrow> u8" where
  "hex_nibble hex i = ucast (drop_bit (i * 4) (hex AND push_bit (i * 4) 0xf))"

definition puthex_chars :: "u32 \<Rightarrow> u8 list" where
  "puthex_chars hex = map (\<lambda>i. hex_digits ! unat (hex_nibble hex i)) (rev [0..<8])"

definition term_puthex :: "u32 \<Rightarrow> 'a terminal_scheme \<Rightarrow> 'a terminal_scheme" where
  "term_puthex hex s = term_puts (puthex_chars hex) s"

datatype vararg = VWord u32 | VLit "u8 list"

text \<open>
  A directive the code does not know is skipped. A \<open>%\<close> at the very end of the format makes the
  code step over the terminating NUL and read on behind the literal; a missing argument, or the
  address of a literal printed as a number, is a value the source does not determine.
\<close>

fun term_vprintf ::
  "u8 list \<Rightarrow> vararg list \<Rightarrow> 'a terminal_scheme \<Rightarrow> (unit, 'a terminal_scheme) run" where
  "term_vprintf [] args s = Inr ((), s)"
| "term_vprintf (ch # fmt) args s =
     (if ch \<noteq> 0x25 then term_vprintf fmt args (term_putchar ch s)
      else case fmt of
        [] \<Rightarrow> Inl Undefined
      | d # fmt' \<Rightarrow>
          if d = 0x63 then
            (case args of VWord w # rest \<Rightarrow> term_vprintf fmt' rest (term_putchar (ucast w) s)
             | _ \<Rightarrow> Inl Undefined)
          else if d = 0x73 then
            (case args of
               VWord p # rest \<Rightarrow>
                 and_then (term_writestring p s) (\<lambda>_ s1. term_vprintf fmt' rest s1)
             | VLit cs # rest \<Rightarrow> term_vprintf fmt' rest (term_puts cs s)
             | [] \<Rightarrow> Inl Undefined)
          else if d = 0x78 then
            (case args of VWord w # rest \<Rightarrow> term_vprintf fmt' rest (term_puthex w s)
             | _ \<Rightarrow> Inl Undefined)
          else term_vprintf fmt' args s)"

definition term_printf ::
  "string \<Rightarrow> vararg list \<Rightarrow> 'a terminal_scheme \<Rightarrow> (unit, 'a terminal_scheme) run" where
  "term_printf fmt args s = term_vprintf (lit fmt) args s"

text \<open>\<open>panic\<close> ends in \<open>cli; hlt\<close>: no interrupt can wake the processor again.\<close>

definition panic ::
  "string \<Rightarrow> vararg list \<Rightarrow> 'a terminal_scheme \<Rightarrow> ('b, 'a terminal_scheme) run" where
  "panic msg args s =
     (let s1 = term_setcolor (vga_entry_color VGA_COLOR_WHITE VGA_COLOR_RED) (term_reset_cursor s);
          s2 = term_puts (lit ''\<newline>[!KERNEL PANIC!]: \<newline>\<newline>'') (term_clean s1)
      in and_then (term_vprintf (lit msg) args s2)
           (\<lambda>_ s3. Inl (Halted (term_puts (lit ''\<newline>\<newline>...FUCK YOU!\<newline>'') s3))))"

definition yell ::
  "string \<Rightarrow> vararg list \<Rightarrow> 'a terminal_scheme \<Rightarrow> (unit, 'a terminal_scheme) run" where
  "yell msg args s =
     (let s1 = term_setcolor (vga_entry_color VGA_COLOR_WHITE VGA_COLOR_RED) (term_reset_cursor s);
          s2 = term_puts (lit ''\<newline>[INTERNAL ERROR]: \<newline>\<newline>'') s1
      in and_then (term_vprintf (lit msg) args s2)
           (\<lambda>_ s3. Inr ((), term_setcolor (vga_color_value VGA_COLOR_LIGHT_GREY)
                              (term_putchar 10 s3))))"

definition term_write_callback ::
  "u32 \<Rightarrow> u32 \<Rightarrow> u32 \<Rightarrow> u32 \<Rightarrow> 'a terminal_scheme \<Rightarrow> 'a terminal_scheme" where
  "term_write_callback node offset n ptr s = term_write ptr n s"

section \<open>What the console may change\<close>

text \<open>
  \<open>term_ok\<close>: the cursor is on the screen. \<open>term_only s t\<close>: between \<open>s\<close> and \<open>t\<close> nothing changed
  but the 4000 bytes of the screen, the cursor, the colour and the log of port accesses; in
  particular no field that a later component adds to the record.
\<close>

definition term_ok :: "'a terminal_scheme \<Rightarrow> bool" where
  "term_ok s \<longleftrightarrow> term_row s < VGA_HEIGHT \<and> term_column s < VGA_WIDTH"

definition vga_span :: "u32 set" where
  "vga_span = span term_buffer 4000"

definition term_only :: "'a terminal_scheme \<Rightarrow> 'a terminal_scheme \<Rightarrow> bool" where
  "term_only s t \<longleftrightarrow> in8 t = in8 s \<and> in16 t = in16 s \<and> terminal.more t = terminal.more s
     \<and> (\<forall>x. x \<notin> vga_span \<longrightarrow> mem t x = mem s x)"

definition term_effect :: "'a terminal_scheme \<Rightarrow> 'a terminal_scheme \<Rightarrow> bool" where
  "term_effect s t \<longleftrightarrow> (term_ok s \<longrightarrow> term_ok t \<and> term_only s t)"

lemma term_only_refl [simp]: "term_only s s"
  by (simp add: term_only_def)

lemma term_only_trans: "term_only s t \<Longrightarrow> term_only t u \<Longrightarrow> term_only s u"
  by (simp add: term_only_def)

interpretation console: effect term_effect
  by unfold_locales (auto simp: term_effect_def term_only_refl intro: term_only_trans)

definition vga_addr :: "nat \<Rightarrow> nat \<Rightarrow> u32" where
  "vga_addr y x = term_buffer + 2 * (of_nat y * VGA_WIDTH + of_nat x)"

lemma vga_addr_unat:
  assumes "y < 25" and "x < 80"
  shows "unat (vga_addr y x) = 753664 + 2 * (80 * y + x)"
proof -
  have eq: "vga_addr y x = of_nat (753664 + 2 * (80 * y + x))"
    by (simp add: vga_addr_def vga_consts algebra_simps)
  show ?thesis unfolding eq by (rule u32_of_nat_unat) (use assms in simp)
qed

lemma vga_span_unat: "x \<in> vga_span \<longleftrightarrow> 753664 \<le> unat x \<and> unat x < 757664"
  by (simp add: vga_span_def in_span_unat term_buffer_def)

lemma put_char_at_cell:
  assumes "y < 25" and "x < 80" and "a \<notin> vga_span"
  shows "mem (term_put_char_at c k (of_nat x) (of_nat y) s) a = mem s a"
proof -
  have "a \<notin> span (vga_addr y x) 2"
    using assms vga_addr_unat [OF assms(1,2)] by (auto simp: in_span_unat vga_span_unat)
  then show ?thesis
    by (simp add: term_put_char_at_def vga_addr_def Let_def c16.st_outside)
qed

lemma put_char_at_fields [simp]:
  "term_row (term_put_char_at c k x y s) = term_row s"
  "term_column (term_put_char_at c k x y s) = term_column s"
  "term_color (term_put_char_at c k x y s) = term_color s"
  "io_log (term_put_char_at c k x y s) = io_log s"
  "in8 (term_put_char_at c k x y s) = in8 s"
  "in16 (term_put_char_at c k x y s) = in16 s"
  "terminal.more (term_put_char_at c k x y s) = terminal.more s"
  by (simp_all add: term_put_char_at_def Let_def)

lemma put_char_at_effect: "y < 25 \<Longrightarrow> x < 80 \<Longrightarrow>
    term_effect s (term_put_char_at c k (of_nat x) (of_nat y) s)"
  by (simp add: term_effect_def term_only_def term_ok_def put_char_at_cell)

lemma put_char_at_effect': 
  assumes "y < VGA_HEIGHT" and "x < VGA_WIDTH"
  shows "term_effect s (term_put_char_at c k x y s)"
  using put_char_at_effect [of "unat y" "unat x" s c k] assms
  by (simp add: vga_consts u32_less_unat)

lemma term_clean_effect: "term_effect s (term_clean s)"
  unfolding term_clean_def
  by (intro console.fold_effect put_char_at_effect) (simp_all add: vga_consts)

lemma term_newline_effect: "term_effect s (term_newline s)"
proof -
  define s1 where "s1 = s\<lparr>mem := memcpy term_buffer (term_buffer + 2 * VGA_WIDTH)
    (VGA_WIDTH * (VGA_HEIGHT - 1) * 2) (mem s)\<rparr>"
  have "x \<notin> vga_span \<Longrightarrow> x \<notin> span term_buffer (unat (VGA_WIDTH * (VGA_HEIGHT - 1) * 2))" for x
    using span_mono [of 3840 4000 term_buffer] by (auto simp: vga_span_def vga_consts)
  then have "term_effect s s1"
    by (simp add: s1_def term_effect_def term_only_def term_ok_def memcpy_outside)
  moreover have "term_effect s1 (fold (\<lambda>i s. term_put_char_at 0x20 (term_color s) (of_nat i)
      (VGA_HEIGHT - 1) s) [0..<unat VGA_WIDTH] s1)"
  proof (rule console.fold_effect)
    fix x and s :: "'a terminal_scheme" assume "x \<in> set [0..<unat VGA_WIDTH]"
    then show "term_effect s (term_put_char_at 0x20 (term_color s) (of_nat x) (VGA_HEIGHT - 1) s)"
      using put_char_at_effect [of 24 x s "0x20" "term_color s"] by (simp add: vga_consts)
  qed
  ultimately show ?thesis
    unfolding term_newline_def Let_def s1_def [symmetric] by (rule console.R_trans)
qed

lemma newline_callback_effect: "term_effect s (newline_callback s)"
proof (cases "term_row s + 1 < VGA_HEIGHT")
  case True
  then show ?thesis
    by (simp add: newline_callback_def term_effect_def term_ok_def term_only_def not_le)
next
  case False
  have "term_effect s (s\<lparr>term_row := VGA_HEIGHT - 1\<rparr>)"
    by (simp add: term_effect_def term_ok_def term_only_def vga_consts)
  with False show ?thesis
    by (simp add: newline_callback_def not_le) (rule console.R_trans [OF _ term_newline_effect])
qed

lemma term_putchar_effect: "term_effect s (term_putchar c s)"
proof -
  define s0 where "s0 = x86_outb 0xE9 c s"
  have 0: "term_effect s s0" 
    by (simp add: s0_def x86_outb_def term_effect_def term_ok_def term_only_def)
  have nl: "term_effect s (newline_callback (t\<lparr>term_column := 0\<rparr>))" if "term_effect s t" for t
  proof (rule console.R_trans [OF _ newline_callback_effect])
    show "term_effect s (t\<lparr>term_column := 0\<rparr>)"
      using that by (simp add: term_effect_def term_ok_def term_only_def vga_consts)
  qed
  show ?thesis
  proof (cases "c = 10")
    case True
    with nl [OF 0] show ?thesis by (simp add: term_putchar_def s0_def)
  next
    case False
    define s1 where "s1 = term_put_char_at c (term_color s0) (term_column s0) (term_row s0) s0"
    define s2 where "s2 = s1\<lparr>term_column := term_column s1 + 1\<rparr>"
    have "term_effect s s1"
      using put_char_at_effect' [of "term_row s0" "term_column s0" s0 c "term_color s0"] 0
      unfolding s1_def by (metis console.R_trans term_effect_def term_ok_def)
    then have "term_effect s (s2\<lparr>term_column := 0\<rparr>)" and
      "term_column s2 < VGA_WIDTH \<Longrightarrow> term_effect s s2"
      by (simp_all add: s2_def term_effect_def term_ok_def term_only_def vga_consts)
    moreover have "term_column s2 = term_column s0 + 1" by (simp add: s2_def s1_def)
    ultimately show ?thesis using False nl [of "s2\<lparr>term_column := 0\<rparr>"]
      by (auto simp add: term_putchar_def Let_def s0_def [symmetric] s1_def [symmetric]
          s2_def [symmetric] not_le)
  qed
qed

text \<open>
  An effect of \<open>term_putchar\<close> is one of all printing. The interface is interpreted with the cells of the
  screen, for a cursor that is on it, and with the globals of everything else, for any cursor.
\<close>

locale printing = effect R
  for R :: "'a terminal_scheme \<Rightarrow> 'a terminal_scheme \<Rightarrow> bool" +
  assumes putchar: "R s (term_putchar c s)"
begin

lemma write_R: "R s (term_write data n s)"
  unfolding term_write_def by (intro fold_effect putchar)

lemma puts: "R s (term_puts cs s)"
  unfolding term_puts_def by (intro fold_effect putchar)

lemma puthex: "R s (term_puthex h s)"
  unfolding term_puthex_def by (rule puts)

lemma writestring: "run_effect R s (term_writestring data s)"
  by (simp add: term_writestring_def write_R split: option.split)

lemma vprintf: "run_effect R s (term_vprintf fmt args s)"
proof (induction fmt arbitrary: args s rule: length_induct)
  case (1 fmt)
  then have IH: "run_effect R s (term_vprintf ys args t)"
    if "length ys < length fmt" and "R s t" for ys args and s t :: "'a terminal_scheme"
    using that run_trans by blast
  note steps = putchar puts puthex
  show ?case
  proof (cases fmt)
    case (Cons ch rest)
    note Cons1 = this
    show ?thesis
    proof (cases "ch = 0x25")
      case False
      with Cons1 show ?thesis by (simp add: IH putchar)
    next
      case True
      show ?thesis
      proof (cases rest)
        case (Cons d fmt')
        have len: "length fmt' < length fmt" using Cons Cons1 by simp
        have str: "run_effect R s
            (and_then (term_writestring p s) (\<lambda>_ s1. term_vprintf fmt' args s1))" for p args
          by (rule and_then_effect [OF writestring])
            (rule IH [OF len R_refl])
        show ?thesis
        proof (cases args)
          case Nil
          with Cons Cons1 True show ?thesis by (simp add: IH [OF len R_refl])
        next
          case (Cons v vs)
          then show ?thesis using \<open>rest = d # fmt'\<close> Cons1 True str
            by (cases v) (simp_all add: IH [OF len] steps R_refl)
        qed
      qed (use Cons1 True in simp)
    qed
  qed (simp add: R_refl)
qed

end

definition globals_only :: "'a terminal_scheme \<Rightarrow> 'a terminal_scheme \<Rightarrow> bool" where
  "globals_only s t \<longleftrightarrow> in8 t = in8 s \<and> in16 t = in16 s \<and> terminal.more t = terminal.more s"

interpretation on_screen: printing term_effect
  by unfold_locales (rule term_putchar_effect)

lemma globals_newline: "globals_only s (newline_callback s)"
  for s :: "'a terminal_scheme"
proof -
  have "terminal.more (fold (\<lambda>i s. term_put_char_at 0x20 (term_color s) (of_nat i) y s) is s) = terminal.more s
      \<and> in8 (fold (\<lambda>i s. term_put_char_at 0x20 (term_color s) (of_nat i) y s) is s) = in8 s
      \<and> in16 (fold (\<lambda>i s. term_put_char_at 0x20 (term_color s) (of_nat i) y s) is s) = in16 s" for y "is" and s :: "'a terminal_scheme"
    by (induction "is" arbitrary: s) simp_all
  then show ?thesis by (simp add: newline_callback_def term_newline_def globals_only_def Let_def)
qed

interpretation globals: printing globals_only
proof unfold_locales
  fix s t u :: "'a terminal_scheme" and c
  show "globals_only s s" by (simp add: globals_only_def)
  show "globals_only s t \<Longrightarrow> globals_only t u \<Longrightarrow> globals_only s u" by (simp add: globals_only_def)
  show "globals_only s (term_putchar c s)"
    by (simp add: term_putchar_def globals_only_def x86_outb_def Let_def globals_newline [unfolded globals_only_def])
qed

lemmas term_write_effect = on_screen.write_R
lemmas term_puts_effect = on_screen.puts
lemmas term_puthex_effect = on_screen.puthex
lemmas term_writestring_effect = on_screen.writestring
lemmas term_vprintf_effect = on_screen.vprintf

lemma term_setcolor_effect: "term_effect s (term_setcolor k s)"
  by (simp add: term_setcolor_def term_effect_def term_ok_def term_only_def)

lemma term_reset_cursor_effect: "term_effect s (term_reset_cursor s)"
  by (simp add: term_reset_cursor_def term_effect_def term_ok_def term_only_def vga_consts)

text \<open>One more console operation after an effect: rules directed by the last operation.\<close>

lemmas console_steps =
  console.R_trans [OF _ term_putchar_effect] console.R_trans [OF _ term_puts_effect]
  console.R_trans [OF _ term_puthex_effect] console.R_trans [OF _ term_clean_effect]
  console.R_trans [OF _ term_setcolor_effect] console.R_trans [OF _ term_reset_cursor_effect]

lemma term_printf_effect: "run_effect term_effect s (term_printf fmt args s)"
  unfolding term_printf_def by (rule term_vprintf_effect)

lemma yell_effect: "run_effect term_effect s (yell msg args s)"
  unfolding yell_def Let_def
  by (rule console.run_trans [OF _ console.and_then_effect [OF term_vprintf_effect]])
    (auto intro!: console_steps console.R_refl)

lemma yell_globals: "run_effect globals_only s (yell msg args s)"
proof -
  have colour: "globals_only t (term_setcolor c t)" "globals_only t (term_reset_cursor t)" for t :: "'a terminal_scheme" and c
    by (simp_all add: globals_only_def term_setcolor_def term_reset_cursor_def)
  have "globals_only t (term_setcolor c (term_putchar b t))" for t :: "'a terminal_scheme" and c b
    by (rule globals.R_trans [OF globals.putchar colour(1)])
  note finish = this
  show ?thesis
    unfolding yell_def Let_def
    by (rule globals.run_trans [OF globals.R_trans [OF globals.R_trans [OF colour(2) colour(1)] globals.puts]
          globals.and_then_effect [OF globals.vprintf]])
      (simp add: finish)
qed

lemma panic_effect: "run_effect term_effect s (panic msg args s)"
  unfolding panic_def Let_def
  by (rule console.run_trans [OF _ console.and_then_effect [OF term_vprintf_effect]])
    (auto intro!: console_steps console.R_refl)

lemma panic_never_returns: "panic msg args s \<noteq> Inr (x, t)"
  by (auto simp: panic_def and_then_Inr)

section \<open>The screen as an abstract grid\<close>

text \<open>
  What the console promises: a grid of cells indexed by row and column, a cursor that wraps to
  the next row, and a grid that moves up by one row when the cursor leaves the last one.
\<close>

record screen =
  cells :: "nat \<Rightarrow> nat \<Rightarrow> u16"
  cur_row :: nat
  cur_col :: nat
  cur_color :: u8

definition abs_cells :: "memory \<Rightarrow> nat \<Rightarrow> nat \<Rightarrow> u16" where
  "abs_cells m = (\<lambda>y x. if y < 25 \<and> x < 80 then load16 m (vga_addr y x) else 0)"

definition abs_screen :: "'a terminal_scheme \<Rightarrow> screen" where
  "abs_screen s = \<lparr>cells = abs_cells (mem s), cur_row = unat (term_row s),
     cur_col = unat (term_column s), cur_color = term_color s\<rparr>"

definition scr_next_line :: "screen \<Rightarrow> screen" where
  "scr_next_line g =
     (if Suc (cur_row g) < 25 then g\<lparr>cur_row := Suc (cur_row g)\<rparr>
      else g\<lparr>cur_row := 24, cells := (\<lambda>y x. if x < 80 \<and> y = 24 then vga_entry 0x20 (cur_color g)
                                            else if x < 80 \<and> y < 24 then cells g (Suc y) x else 0)\<rparr>)"

definition scr_putchar :: "u8 \<Rightarrow> screen \<Rightarrow> screen" where
  "scr_putchar c g =
     (if c = 10 then scr_next_line (g\<lparr>cur_col := 0\<rparr>)
      else let g' = g\<lparr>cells := (cells g)(cur_row g := (cells g (cur_row g))
                                  (cur_col g := vga_entry c (cur_color g)))\<rparr>
           in if Suc (cur_col g) < 80 then g'\<lparr>cur_col := Suc (cur_col g)\<rparr>
              else scr_next_line (g'\<lparr>cur_col := 0\<rparr>))"

lemma vga_addr_apart:
  assumes "y < 25" "x < 80" "y' < 25" "x' < 80" and "(y, x) \<noteq> (y', x')"
  shows "apart (vga_addr y x) 2 (vga_addr y' x') 2"
proof -
  have "80 * y + x \<noteq> 80 * y' + x'"
  proof
    assume "80 * y + x = 80 * y' + x'"
    then have "(80 * y + x) div 80 = (80 * y' + x') div 80"
      and "(80 * y + x) mod 80 = (80 * y' + x') mod 80" by simp_all
    with assms show False by simp
  qed
  moreover have ineq: "apart (vga_addr y x) 2 (vga_addr y' x') 2"
    if "y < 25" "x < 80" "y' < 25" "x' < 80" "80 * y + x < 80 * y' + x'" for y x y' x'
    by (rule apart_below) (use that in \<open>simp_all add: vga_addr_unat\<close>)
  ultimately show ?thesis
    using assms ineq [of y x y' x'] ineq [of y' x' y x] by (auto intro: apart_sym simp: nat_neq_iff)
qed

lemma abs_cells_store:
  assumes "y < 25" and "x < 80"
  shows "abs_cells (store16 (vga_addr y x) v m) = (abs_cells m)(y := (abs_cells m y)(x := v))"
  using assms vga_addr_apart [OF assms]
  by (fastforce simp: abs_cells_def fun_eq_iff c16.ld_st c16_16.ld_st_apart)

lemma abs_put_char_at:
  assumes "y < 25" and "x < 80"
  shows "abs_cells (mem (term_put_char_at c k (of_nat x) (of_nat y) s))
    = (abs_cells (mem s))(y := (abs_cells (mem s) y)(x := vga_entry c k))"
  using abs_cells_store [OF assms] by (simp add: term_put_char_at_def Let_def vga_addr_def)

text \<open>Blanking the first \<open>k\<close> cells of one row, as \<open>term_newline\<close> and \<open>term_clean\<close> do.\<close>

definition blank_row :: "nat \<Rightarrow> nat \<Rightarrow> 'a terminal_scheme \<Rightarrow> 'a terminal_scheme" where
  "blank_row y k s =
     fold (\<lambda>x s. term_put_char_at 0x20 (term_color s) (of_nat x) (of_nat y) s) [0..<k] s"

lemma blank_row_fields [simp]:
  "term_row (blank_row y k s) = term_row s \<and> term_column (blank_row y k s) = term_column s
     \<and> term_color (blank_row y k s) = term_color s"
  by (induction k) (simp_all add: blank_row_def)

lemma abs_blank_row:
  assumes "y < 25"
  shows "k \<le> 80 \<Longrightarrow> abs_cells (mem (blank_row y k s)) =
    (\<lambda>y' x. if y' = y \<and> x < k then vga_entry 0x20 (term_color s) else abs_cells (mem s) y' x)"
proof (induction k)
  case 0
  then show ?case by (simp add: blank_row_def)
next
  case (Suc k)
  have "blank_row y (Suc k) s = term_put_char_at 0x20 (term_color (blank_row y k s)) (of_nat k)
      (of_nat y) (blank_row y k s)"
    by (simp add: blank_row_def)
  then show ?case
    using Suc assms by (auto simp: abs_put_char_at fun_eq_iff)
qed

lemma term_clean_rows: "term_clean s = fold (\<lambda>y. blank_row y 80) [0..<25] s"
  by (simp add: term_clean_def blank_row_def [abs_def] vga_consts)

lemma abs_blank_rows:
  "n \<le> 25 \<Longrightarrow> abs_screen (fold (\<lambda>y. blank_row y 80) [0..<n] s) = (abs_screen s)
     \<lparr>cells := (\<lambda>y x. if y < n \<and> x < 80 then vga_entry 0x20 (term_color s)
                     else abs_cells (mem s) y x)\<rparr>"
proof (induction n)
  case 0
  then show ?case by (simp add: abs_screen_def)
next
  case (Suc n)
  then show ?case
    by (auto simp: abs_screen_def abs_blank_row fun_eq_iff less_Suc_eq)
qed

lemma abs_term_clean:
  "abs_screen (term_clean s) = (abs_screen s)
     \<lparr>cells := (\<lambda>y x. if y < 25 \<and> x < 80 then vga_entry 0x20 (term_color s) else 0)\<rparr>"
  unfolding term_clean_rows abs_blank_rows [of 25 s, simplified]
  by (auto simp: abs_cells_def fun_eq_iff)

lemma term_newline_row:
  "term_newline s = blank_row 24 80 (s\<lparr>mem := memcpy term_buffer (term_buffer + 2 * VGA_WIDTH)
     (VGA_WIDTH * (VGA_HEIGHT - 1) * 2) (mem s)\<rparr>)"
  by (simp add: term_newline_def blank_row_def vga_consts)

lemma scroll_cell:
  assumes "y < 24" and "x < 80"
  shows "load16 (memcpy term_buffer (term_buffer + 2 * VGA_WIDTH)
       (VGA_WIDTH * (VGA_HEIGHT - 1) * 2) m) (vga_addr y x) = load16 m (vga_addr (Suc y) x)"
proof -
  have down: "memcpy term_buffer (term_buffer + 2 * VGA_WIDTH)
      (VGA_WIDTH * (VGA_HEIGHT - 1) * 2) m = copied term_buffer (term_buffer + 160) 3840 m"
    by (simp add: memcpy_down vga_consts)
  have byte: "copied term_buffer (term_buffer + 160) 3840 m (vga_addr y x + b)
      = m (vga_addr (Suc y) x + b)" if "b = 0 \<or> b = 1" for b
  proof -
    have b: "unat b < 2" using that by auto
    have ya: "unat (vga_addr y x) = 753664 + 2 * (80 * y + x)"
      using assms by (simp add: vga_addr_unat)
    then have "unat (vga_addr y x + b) = 753664 + 2 * (80 * y + x) + unat b"
      using b assms by (simp add: u32_add_unat)
    then have "vga_addr y x + b \<in> span term_buffer 3840"
      using assms b by (simp add: in_span_unat term_buffer_def)
    moreover have "vga_addr (Suc y) x + b = term_buffer + 160 + (vga_addr y x + b - term_buffer)"
      by (simp add: vga_addr_def vga_consts algebra_simps)
    ultimately show ?thesis unfolding copied_def by (simp only: if_True)
  qed
  show ?thesis
    unfolding down load16_def using byte [of 0] byte [of 1] by simp
qed

lemma abs_term_newline:
  "abs_screen (term_newline s) = (abs_screen s)
     \<lparr>cells := (\<lambda>y x. if x < 80 \<and> y = 24 then vga_entry 0x20 (term_color s)
                     else if x < 80 \<and> y < 24 then abs_cells (mem s) (Suc y) x else 0)\<rparr>"
proof -
  define s1 where "s1 = s\<lparr>mem := memcpy term_buffer (term_buffer + 2 * VGA_WIDTH)
    (VGA_WIDTH * (VGA_HEIGHT - 1) * 2) (mem s)\<rparr>"
  have "term_color s1 = term_color s" by (simp add: s1_def)
  have up: "abs_cells (mem s1) y x = abs_cells (mem s) (Suc y) x" if "y < 24" for y x
    using that by (simp add: abs_cells_def s1_def scroll_cell)
  have "abs_cells (mem (blank_row 24 80 s1)) = (\<lambda>y x. if y = 24 \<and> x < 80
      then vga_entry 0x20 (term_color s) else abs_cells (mem s1) y x)"
    using abs_blank_row [of 24 80 s1] unfolding \<open>term_color s1 = term_color s\<close> by simp
  also have "\<dots> = (\<lambda>y x. if x < 80 \<and> y = 24 then vga_entry 0x20 (term_color s)
      else if x < 80 \<and> y < 24 then abs_cells (mem s) (Suc y) x else 0)"
    by (auto simp: fun_eq_iff up) (simp_all add: abs_cells_def)
  finally show ?thesis
    by (simp add: term_newline_row abs_screen_def s1_def)
qed

lemma abs_newline_callback:
  assumes "term_row s < VGA_HEIGHT"
  shows "abs_screen (newline_callback s) = scr_next_line (abs_screen s)"
proof -
  have row: "unat (term_row s) < 25" using assms by (simp add: vga_consts u32_less_unat)
  then have "unat (term_row s + 1) = Suc (unat (term_row s))" by (simp add: u32_add_unat)
  then have "term_row s + 1 < VGA_HEIGHT \<longleftrightarrow> Suc (unat (term_row s)) < 25"
    by (simp add: vga_consts u32_less_unat)
  with row show ?thesis
    by (auto simp: newline_callback_def Let_def not_le scr_next_line_def abs_term_newline)
      (auto simp: abs_screen_def vga_consts u32_add_unat fun_eq_iff)
qed

lemma abs_term_putchar:
  assumes "term_ok s"
  shows "abs_screen (term_putchar c s) = scr_putchar c (abs_screen s)"
proof -
  have row: "unat (term_row s) < 25" and col: "unat (term_column s) < 80"
    using assms by (simp_all add: term_ok_def vga_consts u32_less_unat)
  then have "unat (term_column s + 1) = Suc (unat (term_column s))" by (simp add: u32_add_unat)
  then have nxt: "term_column s + 1 < VGA_WIDTH \<longleftrightarrow> Suc (unat (term_column s)) < 80"
    by (simp add: vga_consts u32_less_unat)
  have put: "abs_cells (mem (term_put_char_at c k (term_column s) (term_row s) t))
      = (abs_cells (mem t))(unat (term_row s) := (abs_cells (mem t) (unat (term_row s)))
          (unat (term_column s) := vga_entry c k))" for t :: "'a terminal_scheme" and k
    using abs_put_char_at [OF row col, of c k t] by simp
  define s0 where "s0 = x86_outb 0xE9 c s"
  have s0: "abs_screen (s0\<lparr>term_column := 0\<rparr>) = (abs_screen s)\<lparr>cur_col := 0\<rparr>"
      "term_row s0 = term_row s" "term_column s0 = term_column s" "term_color s0 = term_color s"
      "mem s0 = mem s"
    by (simp_all add: s0_def abs_screen_def x86_outb_def)
  define s1 where "s1 = term_put_char_at c (term_color s) (term_column s) (term_row s) s0"
  define g1 where "g1 = (abs_screen s)\<lparr>cells := (cells (abs_screen s))(cur_row (abs_screen s) :=
    (cells (abs_screen s) (cur_row (abs_screen s)))
      (cur_col (abs_screen s) := vga_entry c (cur_color (abs_screen s))))\<rparr>"
  have s1: "abs_screen (s1\<lparr>term_column := k\<rparr>) = g1\<lparr>cur_col := unat k\<rparr>" for k
    by (simp add: abs_screen_def g1_def s1_def put s0)
  consider "c = 10" | "c \<noteq> 10" "term_column s + 1 < VGA_WIDTH"
    | "c \<noteq> 10" "\<not> term_column s + 1 < VGA_WIDTH" by blast
  then show ?thesis
  proof cases
    case 1
    then have "term_putchar c s = newline_callback (s0\<lparr>term_column := 0\<rparr>)"
      by (simp add: term_putchar_def s0_def)
    then have "abs_screen (term_putchar c s) = scr_next_line ((abs_screen s)\<lparr>cur_col := 0\<rparr>)"
      using assms by (simp add: abs_newline_callback s0 term_ok_def)
    with 1 show ?thesis by (simp add: scr_putchar_def)
  next
    case 2
    then have "term_putchar c s = s1\<lparr>term_column := term_column s + 1\<rparr>"
      by (simp add: term_putchar_def Let_def s0_def [symmetric] s0 s1_def not_le)
    then have "abs_screen (term_putchar c s) = g1\<lparr>cur_col := unat (term_column s + 1)\<rparr>"
      using s1 by simp
    with 2 nxt col show ?thesis
      by (simp add: scr_putchar_def g1_def u32_add_unat) (simp add: abs_screen_def)
  next
    case 3
    then have "term_putchar c s = newline_callback (s1\<lparr>term_column := 0\<rparr>)"
      by (simp add: term_putchar_def Let_def s0_def [symmetric] s0 s1_def not_le)
    moreover have "term_row s1 < VGA_HEIGHT"
      using assms by (simp add: s1_def s0 term_ok_def)
    ultimately have "abs_screen (term_putchar c s) = scr_next_line (g1\<lparr>cur_col := 0\<rparr>)"
      using s1 [of 0] by (simp add: abs_newline_callback)
    with 3 nxt show ?thesis
      by (simp add: scr_putchar_def g1_def) (simp add: abs_screen_def)
  qed
qed

lemma abs_term_puts:
  "term_ok s \<Longrightarrow> abs_screen (term_puts cs s) = fold scr_putchar cs (abs_screen s)"
proof (induction cs arbitrary: s)
  case (Cons c cs)
  then have "term_ok (term_putchar c s)" using term_putchar_effect [of s c] by (simp add: term_effect_def)
  with Cons.IH [of "term_putchar c s"] Cons.prems show ?case
    by (simp add: term_puts_def abs_term_putchar)
qed (simp add: term_puts_def)

section \<open>Hexadecimal output\<close>

text \<open>Reading a row of hexadecimal digits back.\<close>

definition hex_value :: "u8 \<Rightarrow> nat" where
  "hex_value c = (if c < 0x3A then unat c - 0x30 else unat c - 0x57)"

definition parse_hex :: "u8 list \<Rightarrow> nat" where
  "parse_hex cs = foldl (\<lambda>v c. 16 * v + hex_value c) 0 cs"

lemma hex_nibble_unat: 
  assumes "i < 8"
  shows "unat (hex_nibble h i) = unat h div 16 ^ i mod 16"
proof -
  have m: "(0xf :: u32) = mask 4" by (simp add: mask_eq_exp_minus_1)
  have "hex_nibble h i = ucast (take_bit 4 (drop_bit (i * 4) h))"
    unfolding hex_nibble_def m by (rule bit_word_eqI) (use assms in \<open>auto simp: bit_simps\<close>)
  then have "unat (hex_nibble h i) = take_bit 4 (drop_bit (i * 4) (unat h))"
    using u32_bound [of h] by (simp add: unsigned_ucast_eq unsigned_take_bit_eq
        unsigned_drop_bit_eq take_bit_nat_eq_self)
  moreover have "(2 :: nat) ^ (i * 4) = 16 ^ i"
    by (subst mult.commute) (simp add: power_mult)
  ultimately show ?thesis by (simp add: take_bit_eq_mod drop_bit_eq_div)
qed

lemma hex_value_digit: "n < 16 \<Longrightarrow> hex_value (hex_digits ! n) = n"
proof -
  have "\<forall>n \<in> set [0..<16]. hex_value (hex_digits ! n) = n"
    by (simp add: hex_value_def hex_digits_def lit_def upt_rec)
  then show "n < 16 \<Longrightarrow> hex_value (hex_digits ! n) = n" by simp
qed

lemma parse_hex_digits:
  assumes "k \<le> 8"
  shows "foldl (\<lambda>v c. 16 * v + hex_value c) a
      (map (\<lambda>i. hex_digits ! unat (hex_nibble h i)) (rev [0..<k])) = a * 16 ^ k + unat h mod 16 ^ k"
  using assms
proof (induction k arbitrary: a)
  case (Suc k)
  have d: "hex_value (hex_digits ! unat (hex_nibble h k)) = unat h div 16 ^ k mod 16"
    using Suc.prems by (simp add: hex_nibble_unat hex_value_digit)
  have "unat h mod 16 ^ Suc k = 16 ^ k * (unat h div 16 ^ k mod 16) + unat h mod 16 ^ k"
    using mod_mult2_eq [of "unat h" "16 ^ k" 16] by (simp add: mult.commute)
  with Suc d show ?case by (simp add: algebra_simps)
qed simp

lemma parse_puthex: "parse_hex (puthex_chars h) = unat h"
  using parse_hex_digits [of 8 0 h] u32_bound [of h]
  by (simp add: parse_hex_def puthex_chars_def)

end
