(* ===== verification/KHeap.thy ===== *)
theory KHeap
  imports Terminal
begin

text \<open>
  The kernel heap, \<^verbatim>\<open>src/kernel/kheap.c\<close>: a singly linked list of blocks, each a header of four
  32-bit fields followed by its bytes. The headers are cells of the machine's memory, at the
  offsets 0 (\<open>magic_number\<close>), 4 (\<open>size\<close>), 8 (\<open>freed\<close>) and 12 (\<open>next\<close>) the i386 layout gives them.
  The three loops over the list are \<open>partial_function\<close>s: on a list that has a cycle they do not
  end. \<open>curr_addr\<close> and \<open>max_page_addr\<close> have type \<open>uint32_t*\<close>, so adding to them counts in units
  of four bytes.
\<close>

section \<open>State and headers\<close>

record kheap = terminal +
  curr_addr :: u32
  max_page_addr :: u32
  frist_hh :: u32
  last_hh :: u32

record KheapHeader =
  magic_number :: u32
  hdr_size :: u32
  hdr_freed :: u32
  hdr_next :: u32

definition MAGIC_KHEAP :: u32 where "MAGIC_KHEAP = 69420"

definition sizeof_header :: u32 where "sizeof_header = 16"

definition new_header :: "u32 \<Rightarrow> u32 \<Rightarrow> KheapHeader" where
  "new_header sz nxt = \<lparr>magic_number = MAGIC_KHEAP, hdr_size = sz, hdr_freed = 0, hdr_next = nxt\<rparr>"

definition put_header :: "u32 \<Rightarrow> KheapHeader \<Rightarrow> memory \<Rightarrow> memory" where
  "put_header a h m = store32 (a + 12) (hdr_next h) (store32 (a + 8) (hdr_freed h)
     (store32 (a + 4) (hdr_size h) (store32 a (magic_number h) m)))"

abbreviation magic_at :: "'a kheap_scheme \<Rightarrow> u32 \<Rightarrow> u32" where
  "magic_at s h \<equiv> load32 (mem s) h"
abbreviation size_at :: "'a kheap_scheme \<Rightarrow> u32 \<Rightarrow> u32" where
  "size_at s h \<equiv> load32 (mem s) (h + 4)"
abbreviation freed_at :: "'a kheap_scheme \<Rightarrow> u32 \<Rightarrow> u32" where
  "freed_at s h \<equiv> load32 (mem s) (h + 8)"
abbreviation next_at :: "'a kheap_scheme \<Rightarrow> u32 \<Rightarrow> u32" where
  "next_at s h \<equiv> load32 (mem s) (h + 12)"

section \<open>Operations\<close>

definition split_block :: "u32 \<Rightarrow> u32 \<Rightarrow> 'a kheap_scheme \<Rightarrow> u32 \<times> 'a kheap_scheme" where
  "split_block header sz s =
     (let new_size = size_at s header - sz - sizeof_header
      in if \<not> is_positive_int new_size then (0, s)
         else let nh = header + sizeof_header + sz;
                  s1 = s\<lparr>mem := put_header nh (new_header new_size (next_at s header)) (mem s)\<rparr>;
                  s2 = wr32 (nh + 8) 1 s1;
                  s3 = wr32 (header + 4) sz s2;
                  s4 = wr32 (header + 12) nh s3
              in (nh, if next_at s4 nh = 0 then s4\<lparr>last_hh := nh\<rparr> else s4))"

partial_function (option) find_good_loop ::
  "u32 \<Rightarrow> bool \<Rightarrow> u32 \<Rightarrow> 'a kheap_scheme \<Rightarrow> (u32 \<times> 'a kheap_scheme) option" where
  "find_good_loop sz reset_free_flag nxt s =
     (if freed_at s nxt \<noteq> 0 \<and> sz \<le> size_at s nxt
      then Some (nxt, snd (split_block nxt sz
                        (wr32 (nxt + 8) (if reset_free_flag then 0 else freed_at s nxt) s)))
      else if next_at s nxt = 0 then Some (0, s)
      else find_good_loop sz reset_free_flag (next_at s nxt) s)"

definition find_good_block ::
  "u32 \<Rightarrow> bool \<Rightarrow> 'a kheap_scheme \<Rightarrow> (u32, 'a kheap_scheme) run" where
  "find_good_block sz reset_free_flag s =
     of_loop (find_good_loop sz reset_free_flag (frist_hh s) s)"

definition merge_step :: "u32 \<Rightarrow> u32 \<Rightarrow> 'a kheap_scheme \<Rightarrow> u32 \<times> 'a kheap_scheme" where
  "merge_step nxt current s =
     (if freed_at s nxt = 0 then (0, s)
      else if current = 0 then (nxt, s)
      else let s1 = wr32 (current + 4) (size_at s current + (size_at s nxt + sizeof_header)) s
           in (current, wr32 (current + 12) (next_at s1 nxt) s1))"

partial_function (option) merge_loop ::
  "u32 \<Rightarrow> u32 \<Rightarrow> 'a kheap_scheme \<Rightarrow> (u32 \<times> 'a kheap_scheme) option" where
  "merge_loop nxt current s =
     (case merge_step nxt current s of (current', s') \<Rightarrow>
        if next_at s' nxt = 0 then Some (current', s')
        else merge_loop (next_at s' nxt) current' s')"

definition merge_free_blocks :: "'a kheap_scheme \<Rightarrow> (unit, 'a kheap_scheme) run" where
  "merge_free_blocks s =
     and_then (of_loop (merge_loop (frist_hh s) 0 s))
       (\<lambda>current s'. Inr ((), if current \<noteq> 0 then s'\<lparr>last_hh := current\<rparr> else s'))"

text \<open>The second half of \<open>malloc\<close>, for a request no free block can serve.\<close>

definition malloc_new :: "u32 \<Rightarrow> u32 \<Rightarrow> 'a kheap_scheme \<Rightarrow> (u32, 'a kheap_scheme) run" where
  "malloc_new addr sz s =
     (let s1 = s\<lparr>mem := put_header (curr_addr s) (new_header sz 0) (mem s)\<rparr>;
          s2 = (if frist_hh s1 = 0
                then s1\<lparr>frist_hh := curr_addr s1, last_hh := curr_addr s1\<rparr>
                else (wr32 (last_hh s1 + 12) (curr_addr s1) s1)\<lparr>last_hh := curr_addr s1\<rparr>);
          abs_size = sz + sizeof_header
      in Inr (addr + sizeof_header, s2\<lparr>curr_addr := curr_addr s2 + 4 * abs_size\<rparr>))"

definition malloc :: "u32 \<Rightarrow> 'a kheap_scheme \<Rightarrow> (u32, 'a kheap_scheme) run" where
  "malloc sz s =
     (let addr = curr_addr s
      in if frist_hh s \<noteq> 0
         then and_then (find_good_block sz True s)
                (\<lambda>found_addr s1. if found_addr \<noteq> 0 then Inr (found_addr + sizeof_header, s1)
                                 else malloc_new addr sz s1)
         else malloc_new addr sz s)"

definition free :: "u32 \<Rightarrow> 'a kheap_scheme \<Rightarrow> (unit, 'a kheap_scheme) run" where
  "free addr s =
     (let hh_ptr = addr - sizeof_header
      in if magic_at s hh_ptr \<noteq> MAGIC_KHEAP
         then yell ''free(...): magic number mismatch (%x != %x)''
                [VWord (magic_at s hh_ptr), VWord MAGIC_KHEAP] s
         else and_then
                (if freed_at s hh_ptr \<noteq> 0 then yell ''free(...): double free detected!'' [] s
                 else Inr ((), s))
                (\<lambda>_ s1. merge_free_blocks (wr32 (hh_ptr + 8) 1 s1)))"

definition realloc :: "u32 \<Rightarrow> u32 \<Rightarrow> 'a kheap_scheme \<Rightarrow> (u32, 'a kheap_scheme) run" where
  "realloc addr sz s =
     and_then (malloc sz s)
       (\<lambda>new_addr s1. and_then (free addr (s1\<lparr>mem := memcpy new_addr addr sz (mem s1)\<rparr>))
          (\<lambda>_ s2. Inr (new_addr, s2)))"

text \<open>
  \<open>kheap_print_headers\<close> prints \<open>next + sizeof(KheapHeader)\<close> with \<open>next\<close> a pointer to a header, so
  the sum is scaled by the size of a header.
\<close>

definition print_header :: "u32 \<Rightarrow> 'a kheap_scheme \<Rightarrow> (unit, 'a kheap_scheme) run" where
  "print_header nxt s =
     and_then (term_printf ''\<newline>[addr %x (real: %x) ]:\<newline>''
                 [VWord nxt, VWord (nxt + sizeof_header * sizeof_header)] s) (\<lambda>_ s1.
     and_then (term_printf ''size: %x\<newline>'' [VWord (size_at s1 nxt)] s1) (\<lambda>_ s2.
       term_printf ''freed: %s\<newline>''
         [VLit (if freed_at s2 nxt \<noteq> 0 then lit ''Yes'' else lit ''No'')] s2))"

partial_function (option) print_headers_loop ::
  "u32 \<Rightarrow> 'a kheap_scheme \<Rightarrow> (unit, 'a kheap_scheme) run option" where
  "print_headers_loop nxt s =
     (case print_header nxt s of
        Inl e \<Rightarrow> Some (Inl e)
      | Inr (u, s1) \<Rightarrow> if next_at s1 nxt = 0 then Some (Inr ((), s1))
                       else print_headers_loop (next_at s1 nxt) s1)"

definition kheap_print_headers :: "'a kheap_scheme \<Rightarrow> (unit, 'a kheap_scheme) run" where
  "kheap_print_headers s =
     (case print_headers_loop (frist_hh s) s of None \<Rightarrow> Inl Hangs | Some r \<Rightarrow> r)"

end
