(* ===== verification/Terminal_Spec.thy ===== *)
theory Terminal_Spec
  imports Terminal
begin

text \<open>
  What the console promises its callers: every byte printed acts on the abstract screen as
  \<open>scr_putchar\<close>, nothing outside the screen is written, a format is printed as its rendering, and
  \<open>panic\<close> does not come back.
\<close>

section \<open>Printing what lies in memory\<close>

text \<open>\<open>term_write\<close> reads a byte after it has printed the ones before it: outside the screen that
  makes no difference.\<close>

lemma term_write_puts:
  assumes "term_ok s" and "length cs < 4294967296"
    and "\<And>i. i < length cs \<Longrightarrow> mem s (p + of_nat i) = cs ! i \<and> p + of_nat i \<notin> vga_span"
  shows "term_write p (of_nat (length cs)) s = term_puts cs s"
proof -
  have eff: "term_effect s (term_puts ds s)" for ds by (rule term_puts_effect)
  have "fold (\<lambda>i s. term_putchar (mem s (p + of_nat i)) s) [0..<n] s = term_puts (take n cs) s"
    if "n \<le> length cs" for n
    using that
  proof (induction n)
    case (Suc n)
    then have "fold (\<lambda>i s. term_putchar (mem s (p + of_nat i)) s) [0..<Suc n] s
        = term_putchar (mem (term_puts (take n cs) s) (p + of_nat n)) (term_puts (take n cs) s)"
      by simp
    moreover have "mem (term_puts (take n cs) s) (p + of_nat n) = cs ! n"
      using eff [of "take n cs"] assms(1,3) Suc.prems by (auto simp: term_effect_def term_only_def)
    ultimately show ?case using Suc.prems by (simp add: take_Suc_conv_app_nth term_puts_def)
  qed (simp add: term_puts_def)
  from this [of "length cs"] show ?thesis
    using assms(2) by (simp add: term_write_def u32_of_nat_unat)
qed

section \<open>Formats\<close>

text \<open>
  The bytes \<open>term_vprintf\<close> sends to the screen, as a function of the format and of arguments that are not
  pointers into memory. A directive the code does not know, \<open>%%\<close> among them, sends none.
\<close>

fun fmt_render :: "u8 list \<Rightarrow> vararg list \<Rightarrow> u8 list option" where
  "fmt_render [] args = Some []"
| "fmt_render (ch # fmt) args =
     (if ch \<noteq> 0x25 then map_option (\<lambda>cs. ch # cs) (fmt_render fmt args)
      else case fmt of
        [] \<Rightarrow> None
      | d # fmt' \<Rightarrow>
          if d \<in> {0x63, 0x73, 0x78} then
            (case args of
               [] \<Rightarrow> None
             | VWord w # rest \<Rightarrow>
                 if d = 0x73 then None
                 else map_option (\<lambda>cs. (if d = 0x63 then [ucast w] else puthex_chars w) @ cs)
                        (fmt_render fmt' rest)
             | VLit ds # rest \<Rightarrow>
                 if d \<noteq> 0x73 then None else map_option (\<lambda>cs. ds @ cs) (fmt_render fmt' rest))
          else fmt_render fmt' args)"

lemma term_puts_append: "term_puts (xs @ ys) s = term_puts ys (term_puts xs s)"
  by (simp add: term_puts_def)

lemma term_puts_Cons: "term_puts (x # xs) s = term_puts xs (term_putchar x s)"
  by (simp add: term_puts_def)

lemma vprintf_render: "fmt_render fmt args = Some cs \<Longrightarrow> term_vprintf fmt args s = Inr ((), term_puts cs s)"
proof (induction fmt arbitrary: args cs s rule: length_induct)
  case (1 fmt)
  note IH = "1.IH" [rule_format]
  show ?case
  proof (cases fmt)
    case Nil
    with "1.prems" show ?thesis by (simp add: term_puts_def)
  next
    case (Cons ch rest)
    note F = this
    show ?thesis
    proof (cases "ch = 0x25")
      case False
      with "1.prems" F IH [of rest] show ?thesis by (auto simp: term_puts_Cons)
    next
      case True
      then obtain d fmt' where R: "rest = d # fmt'" using "1.prems" F by (cases rest) auto
      note I = IH [of fmt']
      show ?thesis
      proof (cases "d \<in> {0x63, 0x73, 0x78}")
        case False
        with "1.prems" F R True I show ?thesis by simp
      next
        case d: True
        then obtain v vs where A: "args = v # vs" using "1.prems" F R True by (cases args) auto
        then show ?thesis using "1.prems" F R True d I
          by (cases v) (auto simp: term_puts_append term_puts_Cons term_puthex_def split: if_splits)
      qed
    qed
  qed
qed

lemma panic_render: "fmt_render (lit msg) args = Some cs \<Longrightarrow> \<exists>t. panic msg args s = Inl (Halted t)"
  by (simp add: panic_def Let_def vprintf_render)

section \<open>Properties\<close>

definition blank_terminal :: terminal where
  "blank_terminal = \<lparr>mem = (\<lambda>_. 0), io_log = [], in8 = (\<lambda>_ _. 0), in16 = (\<lambda>_ _. 0),
     term_row = 24, term_column = 79, term_color = 7\<rparr>"

lemma blank_terminal_ok: "term_ok blank_terminal"
  by (simp add: term_ok_def blank_terminal_def vga_consts)

text \<open>
  C19. \<open>term_putchar\<close> refines the abstract screen: from a cursor on the screen it writes the cell
  under the cursor, wraps at column 80, scrolls at row 25 by moving every row up and blanking the
  last one, and leaves the cursor on the screen.
\<close>

theorem putchar_refines_screen:
  assumes "term_ok s"
  shows "term_ok (term_putchar c s) \<and> abs_screen (term_putchar c s) = scr_putchar c (abs_screen s)"
  using term_putchar_effect [of s c] abs_term_putchar [OF assms] assms by (simp add: term_effect_def)

lemma putchar_refines_screen_witness:
  "term_ok (term_putchar 0x41 blank_terminal)
     \<and> cells (abs_screen (term_putchar 0x41 blank_terminal)) 23 79 = 0x741"
proof (rule conjI)
  note refines = putchar_refines_screen [OF blank_terminal_ok, of "0x41"]
  show "term_ok (term_putchar 0x41 blank_terminal)" using refines by (rule conjunct1)
  show "cells (abs_screen (term_putchar 0x41 blank_terminal)) 23 79 = 0x741"
    unfolding conjunct2 [OF refines] scr_putchar_def scr_next_line_def Let_def
    by (simp add: abs_screen_def blank_terminal_def vga_entry_def push_bit_eq_mult)
qed

text \<open>
  C22. Printing is memory safe: whatever the format and the arguments, as long as the cursor is on
  the screen a run of \<open>term_vprintf\<close> writes no byte outside the 4000 bytes of the screen, changes
  no other global of the kernel, and leaves the cursor on the screen.
\<close>

theorem vprintf_memory_safe: "run_effect term_effect s (term_vprintf fmt args s)"
  by (rule term_vprintf_effect)

text \<open>
  \<open>term_writestring\<close> of a NUL-terminated string that lies outside the screen prints exactly
  the bytes of the string.
\<close>

theorem writestring_prints:
  assumes "term_ok s" and "cstring (mem s) p cs" and "span p (length cs) \<inter> vga_span = {}"
  shows "term_writestring p s = Inr ((), term_puts cs s)"
proof -
  have len: "length cs < 4294967296" by (rule cstring_length [OF assms(2)])
  have "term_write p (of_nat (length cs)) s = term_puts cs s"
  proof (rule term_write_puts [OF assms(1) len])
    fix i assume "i < length cs"
    then show "mem s (p + of_nat i) = cs ! i \<and> p + of_nat i \<notin> vga_span"
      using cstring_nth [OF assms(2), of i] span_add_of_nat [of i "length cs" p] len assms(3) by auto
  qed
  then show ?thesis by (simp add: term_writestring_def strlen_cstring [OF assms(2)])
qed

lemma writestring_prints_witness:
  "term_writestring 0x100 (blank_terminal\<lparr>mem := two_names\<rparr>)
     = Inr ((), term_puts [0x61, 0x62] (blank_terminal\<lparr>mem := two_names\<rparr>))"
proof (rule writestring_prints)
  show "term_ok (blank_terminal\<lparr>mem := two_names\<rparr>)"
    by (simp add: term_ok_def blank_terminal_def vga_consts)
  show "cstring (mem (blank_terminal\<lparr>mem := two_names\<rparr>)) 0x100 [0x61, 0x62]"
    by (simp add: two_names_def)
  show "span 0x100 (length [0x61, 0x62 :: u8]) \<inter> vga_span = {}"
    by (auto simp: in_span_unat vga_span_unat)
qed

text \<open>
  What a format means, independent of how it is printed: \<open>%c\<close> stands for the character, \<open>%s\<close> for a string, a literal or
  the bytes up to the NUL at an address outside the screen, \<open>%x\<close> for the numeral of eight lower-case hexadecimal digits with the value
  of the argument, and a byte other than \<open>%\<close> for itself. A format with any other directive has no meaning here,
  nor has one with too few arguments; arguments too many are ignored.
\<close>

definition digit_value :: "u8 \<Rightarrow> nat" where
  "digit_value c = (if c \<in> {0x30..0x39} then unat c - 48 else if c \<in> {0x61..0x66} then unat c - 87 else 16)"

fun numeral_value :: "u8 list \<Rightarrow> nat" where
  "numeral_value [] = 0"
| "numeral_value (c # cs) = digit_value c * 16 ^ length cs + numeral_value cs"

definition hex_numeral :: "u32 \<Rightarrow> u8 list \<Rightarrow> bool" where
  "hex_numeral w cs \<longleftrightarrow> length cs = 8 \<and> list_all (\<lambda>c. digit_value c < 16) cs \<and> numeral_value cs = unat w"

inductive directive :: "memory \<Rightarrow> u8 \<Rightarrow> vararg \<Rightarrow> u8 list \<Rightarrow> bool" for m where
  char: "directive m 0x63 (VWord w) [ucast w]"
| literal: "directive m 0x73 (VLit cs) cs"
| string: "cstring m p cs \<Longrightarrow> span p (length cs) \<inter> vga_span = {} \<Longrightarrow> p + of_nat (length cs) \<notin> vga_span
    \<Longrightarrow> directive m 0x73 (VWord p) cs"
| hex: "hex_numeral w cs \<Longrightarrow> directive m 0x78 (VWord w) cs"

inductive renders :: "memory \<Rightarrow> u8 list \<Rightarrow> vararg list \<Rightarrow> u8 list \<Rightarrow> bool" for m where
  stop: "renders m [] args []"
| plain: "renders m fmt args cs \<Longrightarrow> ch \<noteq> 0x25 \<Longrightarrow> renders m (ch # fmt) args (ch # cs)"
| show_arg: "directive m d v xs \<Longrightarrow> renders m fmt args cs \<Longrightarrow> renders m (0x25 # d # fmt) (v # args) (xs @ cs)"

inductive_cases directive_cases: "directive m d v xs"

text \<open>The digits of a numeral are determined by its value, and those the code prints have the right one.\<close>

lemma numeral_bound: "list_all (\<lambda>c. digit_value c < 16) cs \<Longrightarrow> numeral_value cs < 16 ^ length cs"
proof (induction cs)
  case (Cons c cs)
  have "digit_value c * 16 ^ length cs \<le> 15 * 16 ^ length cs" using Cons.prems by (intro mult_le_mono1) simp
  moreover have "numeral_value cs < 16 ^ length cs" using Cons by simp
  ultimately have "digit_value c * 16 ^ length cs + numeral_value cs < 16 * 16 ^ length cs" by linarith
  then show ?case by simp
qed simp

lemma digit_inj: "digit_value a = digit_value b \<Longrightarrow> digit_value a < 16 \<Longrightarrow> a = b"
  by (auto simp: digit_value_def u32_eq_unat word_le_nat_alt word_unat_eq_iff split: if_splits)

lemma numeral_unique:
  assumes "length cs = length ds" and "list_all (\<lambda>c. digit_value c < 16) cs" and "list_all (\<lambda>c. digit_value c < 16) ds"
    and "numeral_value cs = numeral_value ds"
  shows "cs = ds"
  using assms
proof (induction cs ds rule: list_induct2)
  case (Cons c cs d ds)
  let ?b = "16 ^ length cs :: nat"
  have small: "numeral_value cs < ?b" "numeral_value ds < ?b"
    using numeral_bound [of cs] numeral_bound [of ds] Cons by simp_all
  have "(digit_value c * ?b + numeral_value cs) div ?b = (digit_value d * ?b + numeral_value ds) div ?b"
    "(digit_value c * ?b + numeral_value cs) mod ?b = (digit_value d * ?b + numeral_value ds) mod ?b"
    using Cons.prems(3) Cons.hyps by simp_all
  then have "digit_value c = digit_value d" "numeral_value cs = numeral_value ds" using small by simp_all
  then show ?case using Cons digit_inj by simp
qed simp

lemma digit_printed: "n < 16 \<Longrightarrow> digit_value (hex_digits ! n) = n"
proof -
  have "\<forall>n \<in> set [0..<16]. digit_value (hex_digits ! n) = n"
    by (simp add: digit_value_def hex_digits_def lit_def upt_rec)
  then show "n < 16 \<Longrightarrow> digit_value (hex_digits ! n) = n" by simp
qed

lemma digits_printed:
  assumes "k \<le> 8"
  shows "numeral_value (map (\<lambda>i. hex_digits ! unat (hex_nibble w i)) (rev [0..<k])) = unat w mod 16 ^ k"
  using assms
proof (induction k)
  case (Suc k)
  have "unat w mod 16 ^ Suc k = 16 ^ k * (unat w div 16 ^ k mod 16) + unat w mod 16 ^ k"
    using mod_mult2_eq [of "unat w" "16 ^ k" 16] by (simp add: mult.commute)
  with Suc show ?case by (simp add: hex_nibble_unat digit_printed)
qed simp

lemma printed_numeral: "hex_numeral w cs \<longleftrightarrow> cs = puthex_chars w"
proof -
  have "hex_numeral w (puthex_chars w)"
    using digits_printed [of 8 w] u32_bound [of w]
    by (simp add: hex_numeral_def puthex_chars_def list_all_iff hex_nibble_unat digit_printed del: upt_rec_numeral)
  then show ?thesis using numeral_unique [of cs "puthex_chars w"] by (auto simp: hex_numeral_def)
qed

lemma directive_frame:
  assumes "directive m d v xs" and "\<And>x. x \<notin> vga_span \<Longrightarrow> m' x = m x"
  shows "directive m' d v xs"
  using assms(1)
proof cases
  case (string p)
  have "m' (p + of_nat i) = m (p + of_nat i)" if "i \<le> length xs" for i
  proof (cases "i = length xs")
    case False
    then have "p + of_nat i \<in> span p (length xs)"
      using that cstring_length [OF string(3)] by (intro span_add_of_nat) simp_all
    then show ?thesis using assms(2) string(4) by blast
  qed (use assms(2) string(5) in simp)
  then have "cstring m' p xs" by (rule cstring_frame [OF string(3)])
  then show ?thesis using string by (simp add: directive.string)
qed (auto intro: directive.intros)

text \<open>
  C20. A format that means \<open>cs\<close> is printed as \<open>cs\<close>: the call returns, it reads no argument that is not there, and the
  bytes of \<open>cs\<close> in their order are what goes to the screen.
\<close>

theorem vprintf_prints_rendering:
  assumes "renders (mem s) fmt args cs" and "term_ok s"
  shows "term_vprintf fmt args s = Inr ((), term_puts cs s)"
proof -
  have "term_vprintf fmt args t = Inr ((), term_puts cs t)"
    if "term_ok t" "\<And>x. x \<notin> vga_span \<Longrightarrow> mem t x = mem s x" for t :: "'a terminal_scheme"
    using assms(1) that
  proof (induction arbitrary: t)
    case (stop args)
    then show ?case by (simp add: term_puts_def)
  next
    case (plain fmt args cs ch)
    have e: "term_ok (term_putchar ch t)" "term_only t (term_putchar ch t)"
      using term_putchar_effect [of t ch] plain.prems(1) by (simp_all add: term_effect_def)
    then show ?case using plain by (simp add: term_puts_Cons term_only_def)
  next
    case (show_arg d v xs fmt args cs)
    have e: "term_ok (term_puts xs t)" "term_only t (term_puts xs t)"
      using term_puts_effect [of t xs] show_arg.prems(1) by (simp_all add: term_effect_def)
    then have rest: "term_vprintf fmt args (term_puts xs t) = Inr ((), term_puts (xs @ cs) t)"
      using show_arg by (simp add: term_puts_append term_only_def)
    have "directive (mem t) d v xs" by (rule directive_frame [OF show_arg.hyps(1)]) (rule show_arg.prems(2))
    then show ?case
    proof cases
      case (string p)
      then show ?thesis using rest writestring_prints [OF show_arg.prems(1) string(3,4)] by simp
    next
      case (hex w)
      then show ?thesis using rest by (simp add: printed_numeral term_puthex_def)
    qed (use rest in \<open>simp_all add: term_puts_def\<close>)
  qed
  then show ?thesis using assms(2) by simp
qed

lemma vprintf_prints_rendering_witness:
  "term_vprintf [0x61, 0x25, 0x73, 0x25, 0x78] [VWord 0x100, VWord 0xBEEF] (blank_terminal\<lparr>mem := two_names\<rparr>)
     = Inr ((), term_puts (lit ''aab0000beef'') (blank_terminal\<lparr>mem := two_names\<rparr>))"
proof (rule vprintf_prints_rendering)
  have "directive two_names 0x73 (VWord 0x100) [0x61, 0x62]"
  proof (rule directive.string)
    show "cstring two_names 0x100 [0x61, 0x62]" by (simp add: two_names_def)
    show "span 0x100 (length [0x61, 0x62 :: u8]) \<inter> vga_span = {}" "0x100 + of_nat (length [0x61, 0x62 :: u8]) \<notin> vga_span"
      by (auto simp: in_span_unat vga_span_unat)
  qed
  moreover have "directive two_names 0x78 (VWord 0xBEEF) (lit ''0000beef'')"
    by (rule directive.hex) (simp add: hex_numeral_def lit_def digit_value_def)
  ultimately have "renders two_names (0x61 # 0x25 # 0x73 # [0x25, 0x78]) [VWord 0x100, VWord 0xBEEF]
      (0x61 # [0x61, 0x62] @ lit ''0000beef'' @ [])"
    by (intro renders.intros) simp_all
  then show "renders (mem (blank_terminal\<lparr>mem := two_names\<rparr>)) [0x61, 0x25, 0x73, 0x25, 0x78] [VWord 0x100, VWord 0xBEEF]
      (lit ''aab0000beef'')" by (simp add: lit_def)
  show "term_ok (blank_terminal\<lparr>mem := two_names\<rparr>)"
    by (simp add: term_ok_def blank_terminal_def vga_consts)
qed

text \<open>
  \<open>term_puthex\<close> loses nothing: it prints eight digits, and reading them as a hexadecimal
  number gives the value back.
\<close>

theorem puthex_roundtrip:
  "parse_hex (puthex_chars h) = unat h \<and> length (puthex_chars h) = 8
     \<and> term_puthex h s = term_puts (puthex_chars h) s"
  using parse_puthex [of h] by (simp add: term_puthex_def) (simp add: puthex_chars_def)

text \<open>
  C40. \<open>panic\<close> never returns to its caller, and changes nothing outside the screen and the
  console's globals. With a message its arguments match it ends halted.
\<close>

theorem panic_halts:
  fixes s :: "'a terminal_scheme" and x :: 'b
  assumes "fmt_render (lit msg) args = Some cs" and "term_ok s"
  shows "panic msg args s \<noteq> Inr (x, u)
    \<and> (\<exists>t. (panic msg args s :: ('b, 'a terminal_scheme) run) = Inl (Halted t) \<and> term_only s t)"
proof -
  obtain t where "(panic msg args s :: ('b, 'a terminal_scheme) run) = Inl (Halted t)"
    by (simp add: panic_def Let_def vprintf_render [OF assms(1)])
  with panic_effect [where 'b = 'b, of s msg args] assms(2) show ?thesis
    by (simp add: term_effect_def)
qed

lemma panic_halts_witness:
  "\<exists>t. (panic ''no frames'' [] blank_terminal :: (unit, terminal) run) = Inl (Halted t)
     \<and> term_only blank_terminal t"
proof -
  have "fmt_render (lit ''no frames'') [] = Some (lit ''no frames'')" by (simp add: lit_def)
  then show ?thesis
    by (rule panic_halts [OF _ blank_terminal_ok, THEN conjunct2])
qed

end
