(* ===== verification/Frames.thy ===== *)
theory Frames
  imports KHeap Terminal_Spec
begin

text \<open>
  The physical frame allocator, \<^verbatim>\<open>src/kernel/frame.c\<close>: a bitmap of 32-bit words in memory, one bit
  per frame of 4096 bytes. The search goes word by word and bit by bit; its local variables
  \<open>cnt\<close>, \<open>bi\<close>, \<open>bj\<close> are threaded through the two loops, and \<open>Inl\<close> is its early return. Only the
  statement \<open>bi=i\<close> belongs to the source's \<open>if(!cnt)\<close>; \<open>bj=j\<close> is executed in every round.
\<close>

unbundle bit_operations_syntax

section \<open>State and operations\<close>

record frames = kheap +
  frames :: u32
  frames_max :: u32
  alloced_frames :: u32

definition FRAME_BLOCK_SIZE :: u32 where "FRAME_BLOCK_SIZE = 4096"
definition FRAME_BLOCKS_PER_BYTE :: u32 where "FRAME_BLOCKS_PER_BYTE = 8"

definition frame_count :: "'a frames_scheme \<Rightarrow> u32" where "frame_count s = alloced_frames s"
definition frame_max :: "'a frames_scheme \<Rightarrow> u32" where "frame_max s = frames_max s"

abbreviation frame_word :: "u32 \<Rightarrow> u32 \<Rightarrow> u32" where
  "frame_word fr i \<equiv> fr + 4 * (i div 32)"

definition frame_set :: "u32 \<Rightarrow> 'a frames_scheme \<Rightarrow> 'a frames_scheme" where
  "frame_set i s = wr32 (frame_word (frames s) i)
     (rd32 s (frame_word (frames s) i) OR push_bit (unat (i mod 32)) 1) s"

definition frame_clear :: "u32 \<Rightarrow> 'a frames_scheme \<Rightarrow> 'a frames_scheme" where
  "frame_clear i s = wr32 (frame_word (frames s) i)
     (rd32 s (frame_word (frames s) i) AND NOT (push_bit (unat (i mod 32)) 1)) s"

definition frame_test :: "u32 \<Rightarrow> 'a frames_scheme \<Rightarrow> u32" where
  "frame_test i s = rd32 s (frame_word (frames s) i) AND push_bit (unat (i mod 32)) 1"

fun free_in_word ::
  "u32 \<Rightarrow> u32 \<Rightarrow> u32 \<Rightarrow> nat list \<Rightarrow> u32 \<times> u32 \<times> u32 \<Rightarrow> u32 + u32 \<times> u32 \<times> u32" where
  "free_in_word w blocks_num i [] st = Inr st"
| "free_in_word w blocks_num i (j # js) (cnt, bi, bj) =
     (if w AND push_bit j 1 = 0
      then let bi' = (if cnt = 0 then i else bi); bj' = of_nat j; cnt' = cnt + 1
           in if blocks_num \<le> cnt' then Inl (bi' * 32 + bj')
              else free_in_word w blocks_num i js (cnt', bi', bj')
      else free_in_word w blocks_num i js (0, bi, bj))"

fun free_in_words ::
  "memory \<Rightarrow> u32 \<Rightarrow> u32 \<Rightarrow> nat list \<Rightarrow> u32 \<times> u32 \<times> u32 \<Rightarrow> u32" where
  "free_in_words m fr blocks_num [] st = - 1"
| "free_in_words m fr blocks_num (i # is) st =
     (case free_in_word (load32 m (fr + 4 * of_nat i)) blocks_num (of_nat i) [0..<32] st of
        Inl r \<Rightarrow> r
      | Inr st' \<Rightarrow> free_in_words m fr blocks_num is st')"

definition frame_frist_free :: "u32 \<Rightarrow> 'a frames_scheme \<Rightarrow> u32" where
  "frame_frist_free blocks_num s =
     free_in_words (mem s) (frames s) blocks_num [0..<unat (frames_max s div 32)] (0, 0, 0)"

definition frame_alloc_ex :: "u32 \<Rightarrow> 'a frames_scheme \<Rightarrow> (u32, 'a frames_scheme) run" where
  "frame_alloc_ex blocks_num s =
     (let idx = frame_frist_free blocks_num s
      in and_then
           (if idx = - 1
            then panic ''Out of frames:\<newline> Allocated frames: %x\<newline> Max frames: %x''
                   [VWord (alloced_frames s), VWord (frames_max s)] s
            else Inr ((), s))
           (\<lambda>_ s0. let s1 = fold (\<lambda>i. frame_set (idx + of_nat i)) [0..<unat blocks_num] s0
                   in Inr (idx * FRAME_BLOCK_SIZE,
                           s1\<lparr>alloced_frames := alloced_frames s1 + blocks_num\<rparr>)))"

definition frame_alloc :: "'a frames_scheme \<Rightarrow> (u32, 'a frames_scheme) run" where
  "frame_alloc s = frame_alloc_ex 1 s"

definition frame_free_ex :: "u32 \<Rightarrow> u32 \<Rightarrow> 'a frames_scheme \<Rightarrow> 'a frames_scheme" where
  "frame_free_ex addr blocks_num s =
     (let index = addr div FRAME_BLOCK_SIZE;
          s1 = fold (\<lambda>i. frame_clear index) [0..<unat blocks_num] s
      in s1\<lparr>alloced_frames := alloced_frames s1 - blocks_num\<rparr>)"

definition frame_free :: "u32 \<Rightarrow> 'a frames_scheme \<Rightarrow> 'a frames_scheme" where
  "frame_free addr s = frame_free_ex addr 1 s"

definition frame_init :: "u32 \<Rightarrow> u32 \<Rightarrow> 'a frames_scheme \<Rightarrow> 'a frames_scheme" where
  "frame_init start_addr end_addr s =
     (let s1 = s\<lparr>frames := start_addr, frames_max := end_addr div FRAME_BLOCK_SIZE\<rparr>
      in s1\<lparr>mem := memset (frames s1) 0 (frames_max s1 div FRAME_BLOCKS_PER_BYTE) (mem s1)\<rparr>)"

section \<open>The bitmap as a set of frames\<close>

definition used :: "memory \<Rightarrow> u32 \<Rightarrow> nat \<Rightarrow> bool" where
  "used m fr k \<longleftrightarrow> bit (load32 m (fr + 4 * of_nat (k div 32))) (k mod 32)"

text \<open>The frames the search looks at: those of the whole words of the bitmap.\<close>

definition frames_total :: "'a frames_scheme \<Rightarrow> nat" where
  "frames_total s = 32 * (unat (frames_max s) div 32)"

lemma div32_unat: "unat (x div 32 :: u32) = unat x div 32"
  by (simp add: unat_div)

lemma mod32_unat: "unat (x mod 32 :: u32) = unat x mod 32"
  by (simp add: unat_mod)

lemma frames_total_words: "frames_total s = 32 * unat (frames_max s div 32)"
  by (simp add: frames_total_def div32_unat)

lemma frames_total_bound: "frames_total s < 4294967296"
  using u32_bound [of "frames_max s"] by (simp add: frames_total_def)

text \<open>Two different words of the bitmap do not meet.\<close>

lemma frame_words_apart:
  assumes "i \<noteq> j" and "i < 1073741824" and "j < 1073741824"
  shows "apart (fr + 4 * of_nat i) 4 (fr + 4 * of_nat j) 4"
proof -
  have less: "apart (fr + 4 * of_nat i) 4 (fr + 4 * of_nat j) 4"
    if "i < j" "j < 1073741824" for i j
  proof -
    obtain d where j: "j = i + d" and d: "0 < d" "d < 1073741824"
      using \<open>i < j\<close> \<open>j < 1073741824\<close> by (metis add_diff_inverse_nat less_imp_diff_less
          not_less_iff_gr_or_eq zero_less_diff)
    have e1: "(fr + 4 * of_nat j) - (fr + 4 * of_nat i) = (of_nat (4 * d) :: u32)"
      and e2: "(fr + 4 * of_nat i) - (fr + 4 * of_nat j) = (0 - of_nat (4 * d) :: u32)"
      by (simp_all add: j algebra_simps)
    have "unat (of_nat (4 * d) :: u32) = 4 * d"
      using d by (intro u32_of_nat_unat) simp
    then show ?thesis
      using d unfolding apart_def e1 e2 by (simp only: u32_diff_unat) simp
  qed
  from assms show ?thesis
    using less [of i j] less [of j i] by (cases "i < j") (auto intro: apart_sym)
qed

lemma store_same: "store32 a (load32 m a) m = m"
proof -
  have parts: "ucast (load32 m a) = m a" "ucast (drop_bit 8 (load32 m a)) = m (a + 1)"
    "ucast (drop_bit 16 (load32 m a)) = m (a + 2)" "ucast (drop_bit 24 (load32 m a)) = m (a + 3)"
    unfolding load32_def by (rule bit_word_eqI; auto simp: bit_simps dest: bit_imp_le_length)+
  show ?thesis by (auto simp: store32_def parts fun_eq_iff)
qed

lemma frame_word_nat: "frame_word fr i = fr + 4 * of_nat (unat i div 32)"
  by (simp add: div32_unat [symmetric])

lemma bit_power_2: "m < 32 \<Longrightarrow> bit (2 ^ n :: u32) m \<longleftrightarrow> m = n"
  by (auto simp: bit_simps)

lemma and_bit_0: "w AND push_bit j 1 = 0 \<longleftrightarrow> \<not> bit w j" for w :: u32
  by (simp only: bit_iff_and_push_bit_not_eq_0) simp

lemma used_other:
  assumes "unat i div 32 \<noteq> k div 32" and "k < 4294967296"
  shows "used (store32 (frame_word fr i) v m) fr k = used m fr k"
proof -
  have "apart (frame_word fr i) 4 (fr + 4 * of_nat (k div 32)) 4"
    unfolding frame_word_nat
    by (rule frame_words_apart) (use assms u32_bound [of i] in simp_all)
  then show ?thesis by (simp add: used_def cell_simps)
qed

lemma used_here:
  assumes "unat i div 32 = k div 32"
  shows "used (store32 (frame_word fr i) v m) fr k = bit v (k mod 32)"
  using assms by (simp add: used_def frame_word_nat cell_simps)

lemma same_frame: "unat i div 32 = k div 32 \<Longrightarrow> k = unat i \<longleftrightarrow> k mod 32 = unat i mod 32"
  by (metis div_mult_mod_eq)

lemma used_frame_set:
  assumes "k < 4294967296"
  shows "used (mem (frame_set i s)) (frames s) k \<longleftrightarrow> k = unat i \<or> used (mem s) (frames s) k"
proof (cases "unat i div 32 = k div 32")
  case True
  then have "frame_word (frames s) i = frames s + 4 * of_nat (k div 32)" by (simp add: frame_word_nat)
  with True show ?thesis
    by (simp add: frame_set_def used_here bit_or_iff bit_power_2 cells mod32_unat same_frame [OF True]
        used_def disj_commute)
next
  case False
  with used_other [OF False assms] show ?thesis by (auto simp: frame_set_def)
qed

lemma used_frame_clear:
  assumes "k < 4294967296"
  shows "used (mem (frame_clear i s)) (frames s) k \<longleftrightarrow> k \<noteq> unat i \<and> used (mem s) (frames s) k"
proof (cases "unat i div 32 = k div 32")
  case True
  then have "frame_word (frames s) i = frames s + 4 * of_nat (k div 32)" by (simp add: frame_word_nat)
  with True show ?thesis
    by (simp add: frame_clear_def used_here bit_and_iff bit_not_iff bit_power_2 cells mod32_unat
        same_frame [OF True] used_def conj_commute)
next
  case False
  with used_other [OF False assms] show ?thesis by (auto simp: frame_clear_def)
qed

lemma frame_test_used: "frame_test i s \<noteq> 0 \<longleftrightarrow> used (mem s) (frames s) (unat i)"
  by (simp add: frame_test_def used_def frame_word_nat mod32_unat bit_iff_and_push_bit_not_eq_0)

lemma frame_set_fields [simp]:
  "frames (frame_set i s) = frames s" "frames_max (frame_set i s) = frames_max s"
  "alloced_frames (frame_set i s) = alloced_frames s"
  by (simp_all add: frame_set_def)

lemma frame_clear_fields [simp]:
  "frames (frame_clear i s) = frames s" "frames_max (frame_clear i s) = frames_max s"
  "alloced_frames (frame_clear i s) = alloced_frames s"
  by (simp_all add: frame_clear_def)

section \<open>The search\<close>

text \<open>
  \<open>run_at u n k\<close>: the \<open>n\<close> frames from \<open>k\<close> on are free. The search returns at the first run, with
  the word its first frame is in but the bit of its last frame.
\<close>

definition run_at :: "(nat \<Rightarrow> bool) \<Rightarrow> nat \<Rightarrow> nat \<Rightarrow> bool" where
  "run_at u n k \<longleftrightarrow> (\<forall>i \<in> {..<n}. \<not> u (k + i))"

definition found :: "(nat \<Rightarrow> bool) \<Rightarrow> nat \<Rightarrow> nat \<Rightarrow> u32 \<Rightarrow> bool" where
  "found u n tot r \<longleftrightarrow> (\<exists>k. k + n \<le> tot \<and> run_at u n k \<and> (\<forall>k' < k. \<not> run_at u n k')
     \<and> r = of_nat (32 * (k div 32) + (k + n - 1) mod 32))"

definition scanned :: "(nat \<Rightarrow> bool) \<Rightarrow> nat \<Rightarrow> nat \<Rightarrow> nat \<Rightarrow> u32 \<Rightarrow> bool" where
  "scanned u n K cnt bi \<longleftrightarrow> cnt < n \<and> cnt \<le> K \<and> run_at u cnt (K - cnt)
     \<and> (cnt < K \<longrightarrow> u (K - 1 - cnt)) \<and> (0 < cnt \<longrightarrow> bi = of_nat ((K - cnt) div 32))
     \<and> (\<forall>k. k + n \<le> K \<longrightarrow> \<not> run_at u n k)"

lemma run_at_Suc: "run_at u (Suc n) k \<longleftrightarrow> run_at u n k \<and> \<not> u (k + n)"
  by (auto simp: run_at_def lessThan_Suc)

lemma scan_used:
  assumes "scanned u n K cnt bi" and "u K"
  shows "scanned u n (Suc K) 0 bi'"
proof -
  have "\<not> run_at u n k" if "k + n \<le> Suc K" for k
  proof (cases "k + n = Suc K")
    case True
    then have "K - k \<in> {..<n}" "k + (K - k) = K" using assms(1) by (auto simp: scanned_def)
    with assms(2) show ?thesis unfolding run_at_def by metis
  next
    case False
    with that assms(1) show ?thesis by (simp add: scanned_def)
  qed
  with assms show ?thesis by (simp add: scanned_def run_at_def)
qed

lemma scan_free:
  assumes s: "scanned u n K cnt bi" and "\<not> u K"
    and bi': "bi' = (if cnt = 0 then of_nat (K div 32) else bi)"
  shows "Suc cnt < n \<Longrightarrow> scanned u n (Suc K) (Suc cnt) bi'"
    and "n \<le> Suc cnt \<Longrightarrow> found u n (Suc K) (bi' * 32 + of_nat (K mod 32))"
proof -
  have run: "run_at u (Suc cnt) (K - cnt)" using s assms(2) by (auto simp: scanned_def run_at_Suc)
  have bi: "bi' = of_nat ((K - cnt) div 32)" using s bi' by (auto simp: scanned_def)
  show "scanned u n (Suc K) (Suc cnt) bi'" if "Suc cnt < n"
  proof -
    have "\<not> run_at u n k" if k: "k + n \<le> Suc K" for k
    proof (cases "k + n = Suc K")
      case True
      then have "cnt < K" "K - 1 - cnt - k \<in> {..<n}" "k + (K - 1 - cnt - k) = K - 1 - cnt"
        using \<open>Suc cnt < n\<close> by auto
      with s show ?thesis unfolding scanned_def run_at_def by metis
    next
      case False
      with k s show ?thesis by (simp add: scanned_def)
    qed
    with that s run bi show ?thesis by (auto simp: scanned_def)
  qed
  show "found u n (Suc K) (bi' * 32 + of_nat (K mod 32))" if "n \<le> Suc cnt"
  proof -
    have n: "n = Suc cnt" and cnt: "cnt \<le> K" using that s by (auto simp: scanned_def)
    have "\<not> run_at u n k'" if "k' < K - cnt" for k'
      using s that n by (auto simp: scanned_def)
    moreover have "bi' * 32 + of_nat (K mod 32) = (of_nat (32 * ((K - cnt) div 32) + K mod 32) :: u32)"
      by (simp add: bi)
    ultimately show ?thesis
      unfolding found_def using run n cnt by (intro exI [of _ "K - cnt"]) simp
  qed
qed

lemma free_in_word_spec:
  assumes "scanned u (unat n) (32 * i + (32 - left)) (unat cnt) bi" and "left \<le> 32"
    and "\<And>j. j < 32 \<Longrightarrow> bit w j = u (32 * i + j)"
  shows "case free_in_word w n (of_nat i) [32 - left..<32] (cnt, bi, bj) of
      Inl r \<Rightarrow> \<exists>K < 32 * i + 32. found u (unat n) (Suc K) r
    | Inr (cnt', bi', bj') \<Rightarrow> scanned u (unat n) (32 * i + 32) (unat cnt') bi'"
  using assms(1,2)
proof (induction left arbitrary: cnt bi bj)
  case 0
  then show ?case by simp
next
  case (Suc left)
  define j where "j = 32 - Suc left"
  have j: "j < 32" "32 - left = Suc j" "[32 - Suc left..<32] = j # [Suc j..<32]"
    using Suc.prems(2) by (simp_all add: j_def upt_conv_Cons Suc_diff_le)
  have K: "(32 * i + j) div 32 = i" "(32 * i + j) mod 32 = j" using j(1) by simp_all
  have cnt: "unat cnt < unat n" using Suc.prems(1) by (simp add: scanned_def)
  have bit: "w AND push_bit j 1 = 0 \<longleftrightarrow> \<not> u (32 * i + j)"
    unfolding and_bit_0 using assms(3) [OF j(1)] by blast
  have S: "scanned u (unat n) (32 * i + j) (unat cnt) bi" using Suc.prems(1) by (simp add: j_def)
  show ?case
  proof (cases "u (32 * i + j)")
    case True
    have "scanned u (unat n) (32 * i + (32 - left)) (unat (0 :: u32)) bi"
      using scan_used [OF S True, of bi] j(2) by simp
    from Suc.IH [OF this] Suc.prems(2) True show ?thesis
      unfolding j(3) j(2) [symmetric] by (simp add: bit [simplified])
  next
    case False
    define bi' where "bi' = (if cnt = 0 then of_nat i else bi)"
    have bi': "bi' = (if unat cnt = 0 then of_nat ((32 * i + j) div 32) else bi)"
      by (simp add: bi'_def K unat_eq_0)
    have c1: "unat (cnt + 1) = Suc (unat cnt)"
      using cnt by (intro u32_Suc_unat [of _ n]) (simp add: u32_less_unat)
    note F = scan_free [OF S False bi']
    show ?thesis
    proof (cases "n \<le> cnt + 1")
      case True
      then have "unat n \<le> Suc (unat cnt)" by (simp add: u32_le_unat c1)
      from F(2) [OF this] have "found u (unat n) (Suc (32 * i + j)) (bi' * 32 + of_nat j)"
        by (simp only: K)
      then have "\<exists>K < 32 * i + 32. found u (unat n) (Suc K) (bi' * 32 + of_nat j)"
        using j(1) by (intro exI [of _ "32 * i + j"]) simp
      with True False show ?thesis
        unfolding j(3) by (simp add: bit [simplified] Let_def bi'_def)
    next
      case le: False
      then have "Suc (unat cnt) < unat n" by (simp add: u32_le_unat c1)
      from F(1) [OF this] have "scanned u (unat n) (32 * i + (32 - left)) (unat (cnt + 1)) bi'"
        using j(2) c1 by simp
      from Suc.IH [OF this, of "of_nat j"] Suc.prems(2) le False show ?thesis
        unfolding j(3) j(2) [symmetric] by (simp add: bit [simplified] Let_def bi'_def)
    qed
  qed
qed

lemma found_mono: "found u n tot r \<Longrightarrow> tot \<le> tot' \<Longrightarrow> found u n tot' r"
  by (force simp: found_def)

lemma free_in_words_spec:
  assumes "scanned u (unat n) (32 * (W - left)) (unat cnt) bi" and "left \<le> W"
    and u: "\<And>i j. i < W \<Longrightarrow> j < 32 \<Longrightarrow> bit (load32 m (fr + 4 * of_nat i)) j = u (32 * i + j)"
  shows "let r = free_in_words m fr n [W - left..<W] (cnt, bi, bj)
    in found u (unat n) (32 * W) r
       \<or> r = - 1 \<and> (\<forall>k. k + unat n \<le> 32 * W \<longrightarrow> \<not> run_at u (unat n) k)"
  using assms(1,2) unfolding Let_def
proof (induction left arbitrary: cnt bi bj)
  case 0
  then show ?case by (simp add: scanned_def)
next
  case (Suc left)
  define i where "i = W - Suc left"
  have i: "i < W" "W - left = Suc i" "[W - Suc left..<W] = i # [Suc i..<W]"
    using Suc.prems(2) by (simp_all add: i_def upt_conv_Cons Suc_diff_le)
  define w where "w = load32 m (fr + 4 * of_nat i)"
  have "scanned u (unat n) (32 * i + (32 - 32)) (unat cnt) bi" using Suc.prems(1) by (simp add: i_def)
  from free_in_word_spec [OF this, of w bj]
  have word: "case free_in_word w n (of_nat i) [0..<32] (cnt, bi, bj) of
      Inl r \<Rightarrow> \<exists>K < 32 * i + 32. found u (unat n) (Suc K) r
    | Inr (cnt', bi', bj') \<Rightarrow> scanned u (unat n) (32 * i + 32) (unat cnt') bi'"
    using u [OF i(1)] by (simp add: w_def)
  show ?case
  proof (cases "free_in_word w n (of_nat i) [0..<32] (cnt, bi, bj)")
    case (Inl r)
    then obtain K where "K < 32 * i + 32" "found u (unat n) (Suc K) r" using word by auto
    moreover have "Suc K \<le> 32 * W" using \<open>K < 32 * i + 32\<close> i(1) by simp
    ultimately have "found u (unat n) (32 * W) r" by (blast intro: found_mono)
    then show ?thesis unfolding i(3) by (simp add: Inl w_def [symmetric])
  next
    case (Inr st)
    obtain cnt' bi' bj' where st: "st = (cnt', bi', bj')" by (cases st)
    have "scanned u (unat n) (32 * (W - left)) (unat cnt') bi'"
      using word Inr st i(2) by (simp add: add.commute)
    from Suc.IH [OF this, of bj'] Suc.prems(2) show ?thesis
      unfolding i(3) i(2) by (simp add: Inr st w_def [symmetric])
  qed
qed

lemma frist_free_spec:
  fixes s :: "'a frames_scheme" and n :: u32
  assumes "0 < unat n"
  defines "u \<equiv> used (mem s) (frames s)" and "r \<equiv> frame_frist_free n s"
  shows "found u (unat n) (frames_total s) r
    \<or> r = - 1 \<and> (\<forall>k. k + unat n \<le> frames_total s \<longrightarrow> \<not> run_at u (unat n) k)"
proof -
  define W where "W = unat (frames_max s div 32)"
  have "scanned u (unat n) (32 * (W - W)) (unat (0 :: u32)) 0"
    using assms(1) by (simp add: scanned_def run_at_def)
  from free_in_words_spec [OF this, of "mem s" "frames s" 0]
  show ?thesis
    by (simp add: r_def frame_frist_free_def W_def frames_total_words u_def used_def Let_def)
qed

text \<open>For a single frame the search is exact.\<close>

lemma run_at_1: "run_at u (Suc 0) k \<longleftrightarrow> \<not> u k"
  by (simp add: run_at_def lessThan_Suc)

lemma frist_free_1:
  "frame_frist_free 1 s = (case find (\<lambda>k. \<not> used (mem s) (frames s) k) [0..<frames_total s] of
     None \<Rightarrow> - 1 | Some k \<Rightarrow> of_nat k)"
proof -
  define u where "u = used (mem s) (frames s)"
  have spec: "found u 1 (frames_total s) (frame_frist_free 1 s)
      \<or> frame_frist_free 1 s = - 1 \<and> (\<forall>k. k + 1 \<le> frames_total s \<longrightarrow> \<not> run_at u 1 k)"
    using frist_free_spec [of 1 s] by (simp add: u_def)
  show ?thesis
  proof (cases "find (\<lambda>k. \<not> u k) [0..<frames_total s]")
    case None
    then have all: "u k" if "k < frames_total s" for k
      using that by (auto simp: find_None_iff)
    have "\<not> found u 1 (frames_total s) r" for r
      using all by (auto simp: found_def run_at_1)
    with spec None show ?thesis by (simp add: u_def)
  next
    case (Some k)
    then have k: "k < frames_total s" "\<not> u k" "\<And>k'. k' < k \<Longrightarrow> u k'"
      by (auto simp: find_Some_iff)
    then have "\<not> (\<forall>k. k + 1 \<le> frames_total s \<longrightarrow> \<not> run_at u 1 k)"
      by (auto simp: run_at_1 Suc_le_eq)
    with spec obtain k' where k': "\<not> u k'" "\<forall>k'' < k'. u k''" "frame_frist_free 1 s = of_nat k'"
      by (auto simp: found_def run_at_1)
    then have "k' = k" using k by (cases k k' rule: linorder_cases) auto
    with k' Some show ?thesis by (simp add: u_def)
  qed
qed

section \<open>Marking and clearing several frames\<close>

text \<open>
  The bitmap as its clients see it: setting and clearing a bit affect that bit only. Interpreted on
  \<open>frame_test\<close>, \<open>frame_set\<close> and \<open>frame_clear\<close>.
\<close>

locale bitmap =
  fixes test :: "'s \<Rightarrow> 'i \<Rightarrow> bool"
    and mark :: "'i \<Rightarrow> 's \<Rightarrow> 's"
    and unmark :: "'i \<Rightarrow> 's \<Rightarrow> 's"
  assumes test_mark: "test (mark i s) j \<longleftrightarrow> j = i \<or> test s j"
    and test_unmark: "test (unmark i s) j \<longleftrightarrow> j \<noteq> i \<and> test s j"
begin

lemma test_mark_all: "test (fold (\<lambda>x. mark (f x)) xs s) j \<longleftrightarrow> j \<in> f ` set xs \<or> test s j"
  by (induction xs arbitrary: s) (auto simp: test_mark)

lemma test_unmark_all: "test (fold (\<lambda>x. unmark (f x)) xs s) j \<longleftrightarrow> j \<notin> f ` set xs \<and> test s j"
  by (induction xs arbitrary: s) (auto simp: test_unmark)

end

interpretation fb: bitmap "\<lambda>s i. frame_test i s \<noteq> 0" frame_set frame_clear
proof unfold_locales
  fix i j :: u32 and s :: "'a frames_scheme"
  show "frame_test j (frame_set i s) \<noteq> 0 \<longleftrightarrow> j = i \<or> frame_test j s \<noteq> 0"
    using used_frame_set [of "unat j" i s] u32_bound [of j]
    by (simp add: frame_test_used) (auto simp: u32_eq_unat)
  show "frame_test j (frame_clear i s) \<noteq> 0 \<longleftrightarrow> j \<noteq> i \<and> frame_test j s \<noteq> 0"
    using used_frame_clear [of "unat j" i s] u32_bound [of j]
    by (simp add: frame_test_used) (auto simp: u32_eq_unat)
qed

lemma fold_frame_set_fields [simp]:
  "frames (fold (\<lambda>i. frame_set (f i)) xs s) = frames s
    \<and> frames_max (fold (\<lambda>i. frame_set (f i)) xs s) = frames_max s
    \<and> alloced_frames (fold (\<lambda>i. frame_set (f i)) xs s) = alloced_frames s"
  by (induction xs arbitrary: s) simp_all

lemma frame_clear_count:
  "frame_clear i (s\<lparr>alloced_frames := n\<rparr>) = (frame_clear i s)\<lparr>alloced_frames := n\<rparr>"
  by (simp add: frame_clear_def)

lemma frame_test_count [simp]: "frame_test j (s\<lparr>alloced_frames := n\<rparr>) = frame_test j s"
  by (simp add: frame_test_def)

lemma store_twice: "store32 a v (store32 a w m) = store32 a v m"
  by (rule ext) (simp add: store32_def)

text \<open>Clearing a frame that was free before it was set gives the state back, byte for byte.\<close>

lemma clear_set:
  assumes "\<not> used (mem s) (frames s) (unat i)"
  shows "frame_clear i (frame_set i s) = s"
proof -
  define a b w where "a = frame_word (frames s) i" and "b = (2 ^ (unat i mod 32) :: u32)"
    and "w = load32 (mem s) a"
  have "\<not> bit w (unat i mod 32)"
    using assms by (simp add: used_def frame_word_nat w_def a_def)
  then have "(w OR b) AND NOT b = w"
    by (intro bit_word_eqI) (auto simp: b_def bit_simps bit_power_2)
  moreover have "mem (frame_clear i (frame_set i s)) = store32 a ((w OR b) AND NOT b) (mem s)"
    by (simp add: frame_clear_def frame_set_def a_def b_def w_def cells store_twice mod32_unat)
  ultimately have "mem (frame_clear i (frame_set i s)) = mem s"
    by (simp add: w_def store_same)
  then show ?thesis by (simp add: frame_clear_def frame_set_def)
qed

lemma clear_idem: "frame_clear i (frame_clear i s) = frame_clear i s"
proof -
  have "(w AND NOT b) AND NOT b = w AND NOT b" for w b :: u32
    by (simp add: and.assoc)
  then show ?thesis by (simp add: frame_clear_def cells store_twice)
qed

lemma fold_clear_idem: "xs \<noteq> [] \<Longrightarrow> fold (\<lambda>x. frame_clear i) xs s = frame_clear i s"
  by (induction xs arbitrary: s rule: list_nonempty_induct) (simp_all add: clear_idem)

lemma find_used:
  assumes "find (\<lambda>k. \<not> used (mem s) (frames s) k) [0..<frames_total s] = Some k"
  shows "k < frames_total s" and "\<not> used (mem s) (frames s) k" and "unat (of_nat k :: u32) = k"
    and "(of_nat k :: u32) \<noteq> - 1"
proof -
  show k: "k < frames_total s" and "\<not> used (mem s) (frames s) k"
    using assms by (auto simp: find_Some_iff)
  have "frames_total s \<le> 4294967295"
    using frames_total_bound [of s] by simp
  with k show "unat (of_nat k :: u32) = k" by (intro u32_of_nat_unat) simp
  then show "(of_nat k :: u32) \<noteq> - 1"
    using k \<open>frames_total s \<le> 4294967295\<close> u32_minus_1 by auto
qed

lemma alloc_single:
  assumes "find (\<lambda>k. \<not> used (mem s) (frames s) k) [0..<frames_total s] = Some k"
  shows "frame_alloc s = Inr (of_nat k * 4096,
    (frame_set (of_nat k) s)\<lparr>alloced_frames := alloced_frames s + 1\<rparr>)"
  using find_used [OF assms] assms
  by (simp add: frame_alloc_def frame_alloc_ex_def frist_free_1 Let_def FRAME_BLOCK_SIZE_def)

section \<open>Properties\<close>

text \<open>A machine with 64 frames whose bitmap is at \<open>0x400\<close>; \<open>w\<close> is the bitmap's first word.\<close>

definition frames_at :: "u32 \<Rightarrow> frames" where
  "frames_at w = \<lparr>mem = store32 0x400 w (\<lambda>_. 0), io_log = [], in8 = (\<lambda>_ _. 0), in16 = (\<lambda>_ _. 0),
     term_row = 0, term_column = 0, term_color = 7,
     curr_addr = 0x200000, max_page_addr = 0x210000, frist_hh = 0, last_hh = 0,
     frames = 0x400, frames_max = 32, alloced_frames = 0\<rparr>"

lemma frames_at_total: "frames_total (frames_at w) = 32"
  by (simp add: frames_total_def frames_at_def)

lemma frames_at_used: "k < 32 \<Longrightarrow> used (mem (frames_at w)) (frames (frames_at w)) k = bit w k"
  by (simp add: frames_at_def used_def cells)

lemma frames_at_find:
  "find (\<lambda>k. \<not> used (mem (frames_at 5)) (frames (frames_at 5)) k) [0..<frames_total (frames_at 5)] = Some 1"
proof -
  have "[0..<32] = 0 # 1 # [2..<(32 :: nat)]" by (simp add: upt_conv_Cons)
  then show ?thesis by (simp add: frames_at_total frames_at_used bit_numeral_rec bit_1_iff)
qed

text \<open>
  C28. \<open>frame_alloc\<close> takes the first free frame: it returns that frame's address, marks it and no
  other frame, and counts it.
\<close>

theorem frame_alloc_first_free:
  assumes "find (\<lambda>k. \<not> used (mem s) (frames s) k) [0..<frames_total s] = Some k"
  shows "\<exists>t. frame_alloc s = Inr (of_nat k * 4096, t) \<and> alloced_frames t = alloced_frames s + 1
    \<and> {j. j < 4294967296 \<and> used (mem t) (frames t) j}
      = insert k {j. j < 4294967296 \<and> used (mem s) (frames s) j}"
proof -
  have "unat (of_nat k :: u32) = k" by (rule find_used [OF assms])
  moreover have "k < 4294967296" using find_used(1) [OF assms] frames_total_bound [of s] by simp
  ultimately show ?thesis
    using alloc_single [OF assms] by (auto simp: used_frame_set)
qed

lemma frame_alloc_first_free_witness:
  "\<exists>t. frame_alloc (frames_at 5) = Inr (4096, t) \<and> alloced_frames t = 1"
  using frame_alloc_first_free [OF frames_at_find] by (auto simp: frames_at_def)

text \<open>
  C29. Giving back the frame \<open>frame_alloc\<close> returned restores the whole state, byte for byte, on a
  machine of at most 4 GiB.
\<close>

theorem frame_free_restores:
  assumes "find (\<lambda>k. \<not> used (mem s) (frames s) k) [0..<frames_total s] = Some k"
    and "frames_max s \<le> 0x100000"
  shows "\<exists>t. frame_alloc s = Inr (of_nat k * 4096, t) \<and> frame_free (of_nat k * 4096) t = s"
proof -
  note F = find_used [OF assms(1)]
  have "k < 1048576" using F(1) assms(2) by (simp add: frames_total_def u32_le_unat)
  then have "unat (of_nat k * 4096 :: u32) = k * 4096"
    using F(3) by (simp add: unat_word_ariths)
  then have "(of_nat k * 4096) div 4096 = (of_nat k :: u32)"
    using F(3) by (simp add: u32_eq_unat unat_div)
  moreover have "frame_clear (of_nat k) ((frame_set (of_nat k) s)\<lparr>alloced_frames := n\<rparr>)
      = s\<lparr>alloced_frames := n\<rparr>" for n
    using clear_set [of s "of_nat k"] F(2,3) by (simp add: frame_clear_count)
  ultimately show ?thesis
    using alloc_single [OF assms(1)]
    by (simp add: frame_free_def frame_free_ex_def FRAME_BLOCK_SIZE_def Let_def)
qed

lemma frame_free_restores_witness:
  "\<exists>t. frame_alloc (frames_at 5) = Inr (4096, t) \<and> frame_free 4096 t = frames_at 5"
  using frame_free_restores [OF frames_at_find] by (simp add: frames_at_def)

text \<open>
  When no frame is free \<open>frame_alloc\<close> halts the machine, with nothing changed but the screen.
\<close>

theorem frame_alloc_exhausted:
  assumes "find (\<lambda>k. \<not> used (mem s) (frames s) k) [0..<frames_total s] = None" and "term_ok s"
  shows "\<exists>t. frame_alloc s = Inl (Halted t) \<and> term_only s t"
proof -
  have "\<exists>cs. fmt_render (lit ''Out of frames:\<newline> Allocated frames: %x\<newline> Max frames: %x'')
      [VWord (alloced_frames s), VWord (frames_max s)] = Some cs"
    by (simp add: lit_def)
  then obtain t where t: "frame_alloc s = Inl (Halted t)"
    using assms(1) by (auto simp: frame_alloc_def frame_alloc_ex_def frist_free_1 Let_def panic_def
        vprintf_render)
  have "frame_frist_free 1 s = - 1" using assms(1) by (simp add: frist_free_1)
  have "run_effect term_effect s (frame_alloc s)"
  proof -
    obtain e where e: "panic ''Out of frames:\<newline> Allocated frames: %x\<newline> Max frames: %x''
        [VWord (alloced_frames s), VWord (frames_max s)] s = (Inl e :: (unit, 'a frames_scheme) run)"
      using panic_never_returns by (metis obj_sumE surj_pair)
    then have "frame_alloc s = Inl e"
      using \<open>frame_frist_free 1 s = - 1\<close>
      by (simp add: frame_alloc_def frame_alloc_ex_def Let_def)
    moreover have "run_effect term_effect s (Inl e :: (unit, 'a frames_scheme) run)"
      using panic_effect e by metis
    ultimately show ?thesis by (cases e) simp_all
  qed
  with t assms(2) show ?thesis by (simp add: term_effect_def)
qed

lemma frame_alloc_exhausted_witness:
  "\<exists>t. frame_alloc (frames_at (- 1)) = Inl (Halted t) \<and> term_only (frames_at (- 1)) t"
proof (rule frame_alloc_exhausted)
  show "find (\<lambda>k. \<not> used (mem (frames_at (- 1))) (frames (frames_at (- 1))) k)
      [0..<frames_total (frames_at (- 1))] = None"
    by (auto simp: find_None_iff frames_at_total frames_at_used)
  show "term_ok (frames_at (- 1))" by (simp add: term_ok_def frames_at_def vga_consts)
qed

lemma frist_free_at:
  assumes "0 < unat n" and "k + unat n \<le> frames_total s"
    and "run_at (used (mem s) (frames s)) (unat n) k"
    and "\<forall>k' \<in> {..<k}. \<not> run_at (used (mem s) (frames s)) (unat n) k'"
  shows "frame_frist_free n s = of_nat (32 * (k div 32) + (k + unat n - 1) mod 32)"
proof -
  define u where "u = used (mem s) (frames s)"
  obtain j where j: "run_at u (unat n) j" "\<forall>k' < j. \<not> run_at u (unat n) k'"
    "frame_frist_free n s = of_nat (32 * (j div 32) + (j + unat n - 1) mod 32)"
    using frist_free_spec [OF assms(1), of s] assms(2,3) unfolding u_def [symmetric] found_def
    by blast
  then have "j = k" using assms(3,4) by (cases j k rule: linorder_cases) (auto simp: u_def)
  with j(3) show ?thesis by simp
qed

text \<open>
  What the search for several frames returns: when the first run of \<open>n\<close> free frames begins at
  frame \<open>k\<close>, the result has the word of frame \<open>k\<close> but the bit of frame \<open>k + n - 1\<close>. So inside a
  word it is the last frame of the run, and the frames marked after it need not be free.
\<close>

theorem frist_free_run:
  assumes "0 < unat n" and "k + unat n \<le> frames_total s"
    and "run_at (used (mem s) (frames s)) (unat n) k"
    and "\<forall>k' \<in> {..<k}. \<not> run_at (used (mem s) (frames s)) (unat n) k'"
  shows "frame_frist_free n s = of_nat (32 * (k div 32) + (k + unat n - 1) mod 32)"
  using assms by (rule frist_free_at)

lemma frist_free_run_witness:
  "frame_frist_free 3 (frames_at 8) = 2 \<and> used (mem (frames_at 8)) (frames (frames_at 8)) 3"
proof -
  have "run_at (used (mem (frames_at 8)) (frames (frames_at 8))) (unat (3 :: u32)) 0"
    by (simp add: run_at_def lessThan_nat_numeral lessThan_Suc frames_at_used bit_numeral_rec)
  then have "frame_frist_free 3 (frames_at 8) = of_nat (32 * (0 div 32) + (0 + unat (3 :: u32) - 1) mod 32)"
    by (intro frist_free_run) (simp_all add: frames_at_total)
  then show ?thesis by (simp add: frames_at_used bit_numeral_rec)
qed

text \<open>
  \<open>frame_free_ex\<close> of \<open>n\<close> frames clears the bit of the first one only, while the count of
  allocated frames goes down by \<open>n\<close>.
\<close>

theorem frame_free_ex_first_only:
  assumes "n \<noteq> 0"
  shows "frame_free_ex addr n s = (frame_free addr s)\<lparr>alloced_frames := alloced_frames s - n\<rparr>"
proof -
  have "[0..<unat n] \<noteq> []" using assms by (simp add: unat_gt_0)
  then show ?thesis
    by (simp add: frame_free_def frame_free_ex_def Let_def fold_clear_idem)
qed

lemma frame_free_ex_first_only_witness:
  "used (mem (frame_free_ex 0 2 (frames_at 3))) 0x400 1"
proof -
  have "used (mem (frame_free_ex 0 2 (frames_at 3))) (frames (frames_at 3)) 1"
    by (subst frame_free_ex_first_only)
      (simp_all add: frame_free_def frame_free_ex_def Let_def FRAME_BLOCK_SIZE_def
        used_frame_clear frames_at_used bit_numeral_rec)
  then show ?thesis by (simp add: frames_at_def)
qed

text \<open>
  After \<open>frame_init\<close> every frame of the bitmap is free.
\<close>

theorem frame_init_all_free:
  "{k. k < frames_total (frame_init a e s) \<and> used (mem (frame_init a e s)) (frames (frame_init a e s)) k} = {}"
proof -
  define n where "n = e div FRAME_BLOCK_SIZE"
  have n: "frames_max (frame_init a e s) = n" "frames (frame_init a e s) = a"
    "mem (frame_init a e s) = memset a 0 (n div 8) (mem s)"
    by (simp_all add: frame_init_def Let_def n_def FRAME_BLOCKS_PER_BYTE_def)
  have "\<not> used (memset a 0 (n div 8) (mem s)) a k" if k: "k < 32 * (unat n div 32)" for k
  proof -
    define i :: u32 where "i = 4 * of_nat (k div 32)"
    have i: "unat i = 4 * (k div 32)"
    proof -
      have "i = of_nat (4 * (k div 32))" by (simp add: i_def)
      then show ?thesis using k u32_bound [of n] by (simp only:) (rule u32_of_nat_unat, simp)
    qed
    have "unat i + 4 \<le> unat (n div 8)"
    proof -
      have "unat (n div 8) = unat n div 8" by (simp add: unat_div)
      moreover have "k div 32 < unat n div 32" using k by simp
      ultimately show ?thesis using i by linarith
    qed
    then have "span (a + i) 4 \<subseteq> span a (unat (n div 8))"
      using u32_bound [of "n div 8"] by (intro span_sub) simp_all
    then have "memset a 0 (n div 8) (mem s) x = 0" if "x \<in> span (a + i) 4" for x
      using that by (auto simp: memset_eq)
    then have "load32 (memset a 0 (n div 8) (mem s)) (a + i) = load32 (\<lambda>_. 0) (a + i)"
      by (rule c32.ld_local)
    then show ?thesis by (simp add: used_def i_def load32_def)
  qed
  then show ?thesis by (auto simp: n frames_total_def)
qed

end
