(* ===== verification/Paging.thy ===== *)
theory Paging
  imports Frames
begin

text \<open>
  Page tables, \<^verbatim>\<open>src/kernel/paging.c\<close>, \<^verbatim>\<open>paging.h\<close> and \<^verbatim>\<open>src/arch/x86/memory.asm\<close>. A directory and
  a table are 1024 entries of four bytes in memory, at the address of a frame; an entry is passed
  around by its address, as in the code. \<open>translate\<close> is the walk the processor makes over them; it
  is what the properties are about. The model's own accesses to memory are physical: the kernel
  runs on the identity mapping \<open>paging_dir_new\<close> sets up for the first 4 MiB.
\<close>

unbundle bit_operations_syntax

section \<open>State and operations\<close>

record paging = frames +
  kernel_page_dir :: u32
  current_page_dir :: u32
  cr3 :: u32
  paging_on :: bool

definition PTE_PRESENT :: u32 where "PTE_PRESENT = 0x01"
definition PDE_PRESENT :: u32 where "PDE_PRESENT = 0x01"
definition PDE_WRITABLE :: u32 where "PDE_WRITABLE = 0x02"

definition pd_index :: "u32 \<Rightarrow> u32" where "pd_index address = drop_bit 22 address"
definition pt_index :: "u32 \<Rightarrow> u32" where "pt_index address = drop_bit 12 address AND 0x3FF"

definition page_phys_address :: "u32 \<Rightarrow> memory \<Rightarrow> u32" where
  "page_phys_address entry m = load32 m entry AND NOT 0xFFF"

definition set_attribute :: "u32 \<Rightarrow> u32 \<Rightarrow> memory \<Rightarrow> memory" where
  "set_attribute entry attr m = store32 entry (load32 m entry OR attr) m"

definition test_attribute :: "u32 \<Rightarrow> u32 \<Rightarrow> memory \<Rightarrow> u32" where
  "test_attribute entry attr m = load32 m entry AND attr"

definition set_frame :: "u32 \<Rightarrow> u32 \<Rightarrow> memory \<Rightarrow> memory" where
  "set_frame entry address m = store32 entry ((load32 m entry AND NOT 0x7FFFF000) OR address) m"

lemmas entry_defs = PTE_PRESENT_def PDE_PRESENT_def PDE_WRITABLE_def
  set_attribute_def test_attribute_def set_frame_def page_phys_address_def

definition paging_page_new :: "u32 \<Rightarrow> 'a paging_scheme \<Rightarrow> (unit, 'a paging_scheme) run" where
  "paging_page_new page s =
     and_then (frame_alloc s) (\<lambda>frame s1.
       if frame = 0 then Inr ((), s1)
       else Inr ((), s1\<lparr>mem := set_attribute page PTE_PRESENT (set_frame page frame (mem s1))\<rparr>))"

text \<open>The second half of \<open>paging_map\<close>, once the directory entry is present.\<close>

definition paging_map_entry :: "u32 \<Rightarrow> u32 \<Rightarrow> u32 \<Rightarrow> 'a paging_scheme \<Rightarrow> 'a paging_scheme" where
  "paging_map_entry pd_entry virt phys s =
     (let page = page_phys_address pd_entry (mem s) + 4 * pt_index virt
      in s\<lparr>mem := set_frame page phys (set_attribute page PTE_PRESENT (mem s))\<rparr>)"

definition paging_map :: "u32 \<Rightarrow> u32 \<Rightarrow> 'a paging_scheme \<Rightarrow> (unit, 'a paging_scheme) run" where
  "paging_map virt phys s =
     (let pd_entry = current_page_dir s + 4 * pd_index virt
      in if test_attribute pd_entry PTE_PRESENT (mem s) \<noteq> PTE_PRESENT
         then and_then (frame_alloc s) (\<lambda>newtab s1.
                if newtab = 0 then Inr ((), s1)
                else let m2 = memset newtab 0 4096 (mem s1);
                         pd_entry' = current_page_dir s1 + 4 * pd_index virt;
                         m3 = set_attribute pd_entry' PDE_WRITABLE (set_attribute pd_entry' PDE_PRESENT m2)
                     in Inr ((), paging_map_entry pd_entry virt phys (s1\<lparr>mem := m3\<rparr>)))
         else Inr ((), paging_map_entry pd_entry virt phys s))"

definition paging_page_get :: "u32 \<Rightarrow> 'a paging_scheme \<Rightarrow> u32" where
  "paging_page_get virt s =
     page_phys_address (current_page_dir s + 4 * pd_index virt) (mem s) + 4 * pt_index virt"

definition load_page_directory :: "u32 \<Rightarrow> 'a paging_scheme \<Rightarrow> 'a paging_scheme" where
  "load_page_directory dir s = s\<lparr>cr3 := dir\<rparr>"

definition enable_paging :: "'a paging_scheme \<Rightarrow> 'a paging_scheme" where
  "enable_paging s = s\<lparr>paging_on := True\<rparr>"

definition paging_dir_switch :: "u32 \<Rightarrow> 'a paging_scheme \<Rightarrow> 'a paging_scheme" where
  "paging_dir_switch dir s =
     (let s1 = s\<lparr>current_page_dir := dir\<rparr> in load_page_directory (current_page_dir s1) s1)"

text \<open>The two loops of \<open>paging_dir_new\<close>: the table of the first 4 MiB and the empty directory.\<close>

definition identity_entry :: "u32 \<Rightarrow> u32" where
  "identity_entry frame = ((0 OR PTE_PRESENT) AND NOT 0x7FFFF000) OR frame"

definition fill_table :: "u32 \<Rightarrow> memory \<Rightarrow> memory" where
  "fill_table table m = fold (\<lambda>i. let frame = of_nat i * 4096; virt = of_nat i * 4096
     in store32 (table + 4 * pt_index virt) (identity_entry frame)) [0..<1024] m"

definition fill_directory :: "u32 \<Rightarrow> memory \<Rightarrow> memory" where
  "fill_directory page_directory m = fold (\<lambda>i. store32 (page_directory + 4 * of_nat i) 2) [0..<1024] m"

definition paging_dir_new :: "'a paging_scheme \<Rightarrow> (u32, 'a paging_scheme) run" where
  "paging_dir_new s =
     and_then (frame_alloc s) (\<lambda>table s1.
     and_then (frame_alloc_ex 3 (s1\<lparr>mem := fill_table table (mem s1)\<rparr>)) (\<lambda>page_directory s2.
       let m1 = fill_directory page_directory (mem s2);
           entry = page_directory + 4 * pd_index 0;
           m2 = set_frame entry table (set_attribute entry PDE_WRITABLE (set_attribute entry PDE_PRESENT m1))
       in Inr (page_directory, s2\<lparr>mem := m2\<rparr>)))"

definition paging_init :: "'a paging_scheme \<Rightarrow> (unit, 'a paging_scheme) run" where
  "paging_init s =
     and_then (paging_dir_new s) (\<lambda>dir s1.
       let s2 = s1\<lparr>kernel_page_dir := dir\<rparr>
       in Inr ((), enable_paging (paging_dir_switch (kernel_page_dir s2) s2)))"

section \<open>The processor's walk\<close>

definition translate :: "memory \<Rightarrow> u32 \<Rightarrow> u32 \<Rightarrow> u32 option" where
  "translate m dir v =
     (let pde = load32 m (dir + 4 * drop_bit 22 v)
      in if \<not> bit pde 0 then None
         else let pte = load32 m ((pde AND NOT 0xFFF) + 4 * (drop_bit 12 v AND 0x3FF))
              in if \<not> bit pte 0 then None
                 else Some ((pte AND NOT 0xFFF) OR (v AND 0xFFF)))"

lemma pt_index_unat: "unat (pt_index v) = unat v div 4096 mod 1024"
proof -
  have "(0x3FF :: u32) = mask 10" by (simp add: mask_eq_exp_minus_1)
  then have "pt_index v = take_bit 10 (drop_bit 12 v)" by (simp add: pt_index_def take_bit_eq_mask)
  then show ?thesis
    by (simp add: unsigned_take_bit_eq unsigned_drop_bit_eq take_bit_eq_mod drop_bit_eq_div
        take_bit_nat_eq_self unat_div unat_mod)
qed

lemma pd_index_unat: "unat (pd_index v) = unat v div 4194304"
  using u32_bound [of v] by (simp add: pd_index_def unsigned_drop_bit_eq drop_bit_eq_div take_bit_nat_eq_self
      unat_div)

text \<open>Filling an array of words.\<close>

lemma array_fill:
  assumes "n \<le> 1073741824" and "k \<le> n"
  shows "k' < k \<Longrightarrow> load32 (fold (\<lambda>i. store32 (a + 4 * of_nat i) (f i)) [0..<k] m) (a + 4 * of_nat k') = f k'"
    and "x \<notin> span a (4 * n) \<Longrightarrow> fold (\<lambda>i. store32 (a + 4 * of_nat i) (f i)) [0..<k] m x = m x"
  using assms(2)
proof (induction k)
  case (Suc k)
  {
    case 1
    then show ?case
      using Suc.IH(1) frame_words_apart [of k k' a] assms(1)
      by (cases "k' = k") (simp_all add: cells c32_32.ld_st_apart)
  next
    case 2
    have "unat (4 * of_nat k :: u32) = 4 * k"
      using "2.prems"(2) assms(1) u32_of_nat_unat [of "4 * k"] by simp
    then have "span (a + 4 * of_nat k) 4 \<subseteq> span a (4 * n)"
      using "2.prems"(2) assms(1) by (intro span_sub) simp_all
    then have "x \<notin> span (a + 4 * of_nat k) 4" using "2.prems"(1) by blast
    then show ?case using Suc.IH(2) 2 by (simp add: c32.st_outside)
  }
qed simp_all

section \<open>Words of entries\<close>

lemma mask_12: "(0xFFF :: u32) = mask 12"
  by (simp add: mask_eq_exp_minus_1)

lemma aligned_and: "(push_bit 12 a OR (b AND 0xFFF)) AND NOT 0xFFF = (push_bit 12 a :: u32)"
  unfolding mask_12 by (rule bit_word_eqI) (auto simp: bit_simps)

lemma split_page: "(v AND NOT 0xFFF) OR (v AND 0xFFF) = (v :: u32)"
  by (rule bit_word_eqI) (auto simp: bit_simps)

lemma page_of: "of_nat (unat v div 4096) * 4096 = v AND NOT 0xFFF" for v :: u32
proof -
  have "of_nat (unat v div 4096) = drop_bit 12 v"
    by (simp add: drop_bit_eq_div u32_eq_unat unat_div u32_of_nat_unat less_imp_diff_less
        div_le_dividend order_le_less_trans [OF div_le_dividend u32_bound])
  then have "of_nat (unat v div 4096) * 4096 = push_bit 12 (drop_bit 12 v)"
    by (simp add: push_bit_eq_mult)
  also have "\<dots> = v AND NOT 0xFFF"
    unfolding mask_12 by (rule bit_word_eqI) (auto simp: bit_simps)
  finally show ?thesis .
qed

lemma frame_aligned: "(x * 4096) AND 0xFFF = 0" for x :: u32
proof -
  have "x * 4096 = push_bit 12 x" by (simp add: push_bit_eq_mult)
  then show ?thesis unfolding mask_12 by (simp) (rule bit_word_eqI, auto simp: bit_simps)
qed

lemma or_low:
  assumes "a AND 0xFFF = 0" and "b AND NOT 0xFFF = 0"
  shows "(b OR a) AND NOT 0xFFF = (a :: u32)"
proof -
  have "a AND NOT 0xFFF = a" using split_page [of a] assms(1) by simp
  then show ?thesis using assms(2) by (simp add: bit.conj_disj_distrib2)
qed

text \<open>The table of the first 4 MiB.\<close>

lemma pt_index_page: "i < 1024 \<Longrightarrow> pt_index (of_nat i * 4096) = of_nat i"
proof -
  assume i: "i < 1024"
  have "unat (of_nat i * 4096 :: u32) = i * 4096"
    using i u32_of_nat_unat [of "i * 4096"] by simp
  then show ?thesis using i by (simp add: u32_eq_unat pt_index_unat u32_of_nat_unat)
qed

lemma fill_table_eq:
  "fill_table T m = fold (\<lambda>i. store32 (T + 4 * of_nat i) (1 OR of_nat i * 4096)) [0..<1024] m"
  unfolding fill_table_def
  by (rule fold_cong [OF refl refl])
    (simp add: pt_index_page identity_entry_def PTE_PRESENT_def Let_def)

lemma fill_table_entry: "i < 1024 \<Longrightarrow> load32 (fill_table T m) (T + 4 * of_nat i) = 1 OR of_nat i * 4096"
  unfolding fill_table_eq by (rule array_fill(1) [of 1024]) simp_all

lemma fill_table_outside: "x \<notin> span T 4096 \<Longrightarrow> fill_table T m x = m x"
  unfolding fill_table_eq using array_fill(2) [of 1024 1024 x T] by simp

lemma fill_directory_entry: "i < 1024 \<Longrightarrow> load32 (fill_directory D m) (D + 4 * of_nat i) = 2"
  unfolding fill_directory_def by (rule array_fill(1) [of 1024]) simp_all

lemma fill_directory_outside: "x \<notin> span D 4096 \<Longrightarrow> fill_directory D m x = m x"
  unfolding fill_directory_def using array_fill(2) [of 1024 1024 x D] by simp

section \<open>What an allocation of frames writes\<close>

definition bitmap_span :: "'a frames_scheme \<Rightarrow> u32 set" where
  "bitmap_span s = span (frames s) (4 * (unat (frames_max s) div 32 + 1))"

lemma frame_set_outside:
  assumes "x \<notin> bitmap_span s" and "unat i < frames_total s + 32"
  shows "mem (frame_set i s) x = mem s x"
proof -
  define W where "W = unat (frames_max s) div 32"
  have W: "W < 134217728" using u32_bound [of "frames_max s"] by (simp add: W_def)
  have i: "unat i div 32 \<le> W" using assms(2) by (simp add: frames_total_def W_def)
  have "unat (4 * of_nat (unat i div 32) :: u32) = 4 * (unat i div 32)"
    using i W u32_of_nat_unat [of "4 * (unat i div 32)"] by simp
  then have "span (frame_word (frames s) i) 4 \<subseteq> bitmap_span s"
    unfolding frame_word_nat bitmap_span_def W_def [symmetric]
    by (intro span_sub) (use i W in simp_all)
  with assms(1) have "x \<notin> span (frame_word (frames s) i) 4" by blast
  then show ?thesis by (simp add: frame_set_def c32.st_outside)
qed

lemma fold_frame_set_outside:
  assumes "x \<notin> bitmap_span s" and "\<And>i. i \<in> set xs \<Longrightarrow> unat (f i) < frames_total s + 32"
  shows "mem (fold (\<lambda>i. frame_set (f i)) xs s) x = mem s x"
  using assms
proof (induction xs arbitrary: s)
  case (Cons y ys)
  have "bitmap_span (frame_set (f y) s) = bitmap_span s" "frames_total (frame_set (f y) s) = frames_total s"
    by (simp_all add: bitmap_span_def frames_total_def)
  with Cons frame_set_outside [of x s "f y"] show ?case by simp
qed simp

lemma alloc_ex_fails:
  fixes s :: "'a frames_scheme"
  assumes "frame_frist_free n s = - 1"
  shows "\<exists>e. frame_alloc_ex n s = Inl e"
proof -
  have "\<exists>e. and_then (panic msg args s) k = (Inl e :: (u32, 'a frames_scheme) run)"
    for msg args and k :: "unit \<Rightarrow> 'a frames_scheme \<Rightarrow> (u32, 'a frames_scheme) run"
    by (cases "panic msg args s :: (unit, 'a frames_scheme) run") (auto simp: panic_never_returns)
  then show ?thesis by (simp add: frame_alloc_ex_def assms Let_def)
qed

text \<open>A successful allocation of up to 32 frames: the page is aligned and only the bitmap changes.\<close>

lemma alloc_ex_Inr:
  assumes "frame_alloc_ex n s = Inr (a, t)" and "0 < unat n" and "unat n \<le> 32"
  shows "a AND 0xFFF = 0" and "x \<notin> bitmap_span s \<Longrightarrow> mem t x = mem s x"
    and "frames.more t = frames.more s" and "frames t = frames s" and "frames_max t = frames_max s"
proof -
  define idx where "idx = frame_frist_free n s"
  define s1 where "s1 = fold (\<lambda>i. frame_set (idx + of_nat i)) [0..<unat n] s"
  have idx: "idx \<noteq> - 1" using alloc_ex_fails [of n s] assms(1) by (auto simp: idx_def)
  then have eq: "a = idx * 4096" "t = s1\<lparr>alloced_frames := alloced_frames s1 + n\<rparr>"
    using assms(1) by (simp_all add: frame_alloc_ex_def idx_def [symmetric] s1_def Let_def FRAME_BLOCK_SIZE_def)
  show "a AND 0xFFF = 0" by (simp add: eq frame_aligned)
  have "found (used (mem s) (frames s)) (unat n) (frames_total s) idx"
    using frist_free_spec [OF assms(2), of s] idx by (auto simp: idx_def)
  then obtain k where k: "k + unat n \<le> frames_total s"
      "idx = of_nat (32 * (k div 32) + (k + unat n - 1) mod 32)"
    by (auto simp: found_def)
  have "32 * (k div 32) + (k + unat n - 1) mod 32 < frames_total s"
  proof -
    have "k div 32 < unat (frames_max s) div 32"
      using k(1) assms(2) by (simp add: frames_total_def)
    then show ?thesis unfolding frames_total_def by linarith
  qed
  moreover from this have "unat idx = 32 * (k div 32) + (k + unat n - 1) mod 32"
    unfolding k(2) using frames_total_bound [of s] by (intro u32_of_nat_unat) linarith
  ultimately have i: "unat idx < frames_total s" by simp
  have small: "unat (idx + of_nat j) < frames_total s + 32" if "j < unat n" for j
  proof -
    have "unat (of_nat j :: u32) = j" using that u32_bound [of n] by (simp add: u32_of_nat_unat)
    moreover have "unat (idx + of_nat j) \<le> unat idx + unat (of_nat j :: u32)"
      by (simp only: unat_word_ariths mod_less_eq_dividend)
    ultimately show ?thesis using i that assms(3) by simp
  qed
  show "mem t x = mem s x" if "x \<notin> bitmap_span s"
    using fold_frame_set_outside [OF that, of "[0..<unat n]" "\<lambda>j. idx + of_nat j"] small
    by (simp add: eq s1_def)
  have more: "frames.more (fold (\<lambda>i. frame_set (f i)) xs s) = frames.more s" for f and xs :: "nat list"
    by (induction xs arbitrary: s) (simp_all add: frame_set_def)
  show "frames.more t = frames.more s" "frames t = frames s" "frames_max t = frames_max s"
    by (simp_all add: eq s1_def more)
qed

section \<open>Properties\<close>

lemma directory_entry:
  assumes "T AND 0xFFF = 0"
  shows "bit (((2 OR PDE_PRESENT) OR PDE_WRITABLE) AND NOT 0x7FFFF000 OR T :: u32) 0"
    and "(((2 OR PDE_PRESENT) OR PDE_WRITABLE) AND NOT 0x7FFFF000 OR T) AND NOT 0xFFF = T"
proof -
  have e: "((2 OR PDE_PRESENT) OR PDE_WRITABLE) AND NOT 0x7FFFF000 = (3 :: u32)"
    by (simp add: entry_defs)
  show "bit (((2 OR PDE_PRESENT) OR PDE_WRITABLE) AND NOT 0x7FFFF000 OR T :: u32) 0"
    unfolding e by (simp add: bit_or_iff)
  show "(((2 OR PDE_PRESENT) OR PDE_WRITABLE) AND NOT 0x7FFFF000 OR T) AND NOT 0xFFF = T"
    unfolding e by (rule or_low [OF assms]) simp
qed

text \<open>The entry \<open>paging_map\<close> leaves for a frame below 2 GiB.\<close>

lemma new_entry:
  assumes phys: "phys AND 0xFFF = 0" and e: "\<not> bit e 31"
  shows "bit (((e OR 1) AND NOT 0x7FFFF000) OR phys :: u32) 0"
    and "(((e OR 1) AND NOT 0x7FFFF000) OR phys) AND NOT 0xFFF = phys"
proof -
  show "bit (((e OR 1) AND NOT 0x7FFFF000) OR phys :: u32) 0"
    by (simp add: bit_0 even_or_iff even_and_iff)
  show "(((e OR 1) AND NOT 0x7FFFF000) OR phys) AND NOT 0xFFF = phys"
  proof (rule or_low [OF phys])
    have "NOT 0x7FFFF000 AND NOT 0xFFF = (push_bit 31 1 :: u32)" by simp
    then have "((e OR 1) AND NOT 0x7FFFF000) AND NOT 0xFFF = (e OR 1) AND push_bit 31 1"
      by (simp only: and.assoc)
    also have "\<dots> = 0"
      using e unfolding and_bit_0 by (simp add: bit_or_iff bit_1_iff)
    finally show "((e OR 1) AND NOT 0x7FFFF000) AND NOT 0xFFF = 0" .
  qed
qed

lemma paging_map_entry_eq:
  assumes "page = page_phys_address pd (mem s) + 4 * pt_index virt"
  shows "paging_map_entry pd virt phys s =
    s\<lparr>mem := store32 page (((load32 (mem s) page OR 1) AND NOT 0x7FFFF000) OR phys) (mem s)\<rparr>"
  by (simp add: assms paging_map_entry_def Let_def set_frame_def set_attribute_def PTE_PRESENT_def cells store_twice)

text \<open>A directory whose only present table maps page \<open>i\<close> to frame \<open>i\<close>, whatever the flags, is the identity on 4 MiB.\<close>

lemma translate_identity:
  assumes dir: "bit (load32 m D) 0 \<and> load32 m D AND NOT 0xFFF = T"
    and rest: "\<And>i. 0 < i \<Longrightarrow> i < 1024 \<Longrightarrow> \<not> bit (load32 m (D + 4 * of_nat i)) 0"
    and table: "\<And>i. i < 1024 \<Longrightarrow> bit (load32 m (T + 4 * of_nat i)) 0
      \<and> load32 m (T + 4 * of_nat i) AND NOT 0xFFF = of_nat i * 4096"
  shows "translate m D v = (if v < 0x400000 then Some v else None)"
proof (cases "v < 0x400000")
  case True
  then have "drop_bit 22 v = 0"
    using pd_index_unat [of v] by (simp add: pd_index_def u32_less_unat unat_eq_0 [symmetric])
  moreover have "drop_bit 12 v AND 0x3FF = of_nat (unat v div 4096)"
  proof -
    have "unat v div 4096 < 1024" using True by (simp add: u32_less_unat)
    then show ?thesis using pt_index_unat [of v]
      by (simp add: pt_index_def u32_eq_unat u32_of_nat_unat)
  qed
  moreover have "bit (load32 m (T + 4 * of_nat (unat v div 4096))) 0"
    "load32 m (T + 4 * of_nat (unat v div 4096)) AND NOT 0xFFF = v AND NOT 0xFFF"
    using table [of "unat v div 4096"] True by (simp_all add: u32_less_unat page_of)
  ultimately show ?thesis using True dir split_page [of v] by (simp add: translate_def Let_def)
next
  case False
  define i where "i = unat v div 4194304"
  have i: "0 < i" "i < 1024" using False u32_bound [of v] by (auto simp: i_def u32_less_unat div_greater_zero_iff)
  have "drop_bit 22 v = of_nat i"
    using pd_index_unat [of v] i by (simp add: pd_index_def u32_eq_unat u32_of_nat_unat i_def)
  with rest [OF i] False show ?thesis by (simp add: translate_def)
qed

text \<open>
  C25. \<open>paging_init\<close> turns paging on with a directory that maps the first 4 MiB to themselves and
  nothing else, provided the table it allocates meets neither the frame bitmap nor the directory.
\<close>

theorem paging_init_identity:
  assumes a1: "frame_alloc s = Inr (T, s1)"
    and a2: "frame_alloc_ex 3 (s1\<lparr>mem := fill_table T (mem s1)\<rparr>) = Inr (D, s2)"
    and bitmap: "bitmap_span s \<inter> span T 4096 = {}" and dir: "apart T 4096 D 4096"
  shows "\<exists>t. paging_init s = Inr ((), t) \<and> paging_on t \<and> cr3 t = D \<and> current_page_dir t = D
    \<and> (\<forall>v. translate (mem t) (cr3 t) v = (if v < 0x400000 then Some v else None))"
proof -
  define m1 where "m1 = fill_directory D (mem s2)"
  define m2 where "m2 = set_frame D T (set_attribute D PDE_WRITABLE (set_attribute D PDE_PRESENT m1))"
  define t where "t = s2\<lparr>mem := m2, kernel_page_dir := D, current_page_dir := D, cr3 := D, paging_on := True\<rparr>"
  note A1 = alloc_ex_Inr [OF a1 [unfolded frame_alloc_def]]
  note A2 = alloc_ex_Inr [OF a2]
  have T: "T AND 0xFFF = 0" by (rule A1) simp_all
  have bm: "bitmap_span (s1\<lparr>mem := fill_table T (mem s1)\<rparr>) = bitmap_span s"
    using A1(4,5) by (simp add: bitmap_span_def)
  have pd0: "D + 4 * pd_index 0 = D" by (simp add: pd_index_def)
  have run: "paging_init s = Inr ((), t)"
    by (simp add: paging_init_def paging_dir_new_def a1 a2 Let_def pd0 m1_def m2_def t_def
        enable_paging_def paging_dir_switch_def load_page_directory_def)
  have d0: "load32 m1 D = 2" using fill_directory_entry [of 0 D] by (simp add: m1_def)
  have m2: "m2 = store32 D (((2 OR PDE_PRESENT) OR PDE_WRITABLE) AND NOT 0x7FFFF000 OR T) m1"
    by (simp add: m2_def set_attribute_def set_frame_def cells store_twice d0)
  have entry: "load32 m2 (D + 4 * of_nat i) = 2" if "0 < i" "i < 1024" for i
    using frame_words_apart [of 0 i D] that fill_directory_entry [of i D "mem s2"]
    by (simp add: m2 m1_def c32_32.ld_st_apart)
  have table: "load32 m2 (T + 4 * of_nat i) = 1 OR of_nat i * 4096" if i: "i < 1024" for i
  proof -
    have "load32 m2 (T + 4 * of_nat i) = load32 (fill_table T (mem s1)) (T + 4 * of_nat i)"
    proof (rule c32.ld_local)
      fix x assume x: "x \<in> span (T + 4 * of_nat i) 4"
      have "unat (4 * of_nat i :: u32) = 4 * i" using i u32_of_nat_unat [of "4 * i"] by simp
      then have "span (T + 4 * of_nat i) 4 \<subseteq> span T 4096" using i by (intro span_sub) simp_all
      then have xT: "x \<in> span T 4096" using x by blast
      then have xD: "x \<notin> span D 4096" using apart_notin [OF apart_sym [OF dir]] by blast
      moreover have "span D 4 \<subseteq> span D 4096" by (rule span_mono) simp
      ultimately have "m2 x = mem s2 x"
        by (subst m2, subst c32.st_outside) (auto simp: m1_def fill_directory_outside)
      also have "\<dots> = fill_table T (mem s1) x"
        using A2(2) [of x] bm bitmap xT by auto
      finally show "m2 x = fill_table T (mem s1) x" .
    qed
    with fill_table_entry [OF i] show ?thesis by simp
  qed
  have "translate m2 D v = (if v < 0x400000 then Some v else None)" for v
  proof (rule translate_identity [where T = T])
    show "bit (load32 m2 D) 0 \<and> load32 m2 D AND NOT 0xFFF = T"
      using directory_entry [OF T] by (simp add: m2 cells)
    show "bit (load32 m2 (T + 4 * of_nat i)) 0 \<and> load32 m2 (T + 4 * of_nat i) AND NOT 0xFFF = of_nat i * 4096"
      if "i < 1024" for i
      using table [OF that] or_low [OF frame_aligned [of "of_nat i"], of 1] by (simp add: bit_or_iff)
  qed (simp add: entry)
  then show ?thesis using run by (intro exI [of _ t]) (simp add: t_def)
qed

text \<open>A machine whose first frame is taken, with its bitmap inside that frame.\<close>

definition paging_at :: "u32 \<Rightarrow> paging" where
  "paging_at w = \<lparr>mem = store32 0x400 w (\<lambda>_. 0), io_log = [], in8 = (\<lambda>_ _. 0), in16 = (\<lambda>_ _. 0),
     term_row = 0, term_column = 0, term_color = 7,
     curr_addr = 0x200000, max_page_addr = 0x210000, frist_hh = 0, last_hh = 0,
     frames = 0x400, frames_max = 32, alloced_frames = 0,
     kernel_page_dir = 0, current_page_dir = 0x8000, cr3 = 0x8000, paging_on = False\<rparr>"

lemma paging_at_used: "k < 32 \<Longrightarrow> used (mem (paging_at w)) 0x400 k = bit w k"
  by (simp add: paging_at_def used_def cells)

lemma paging_at_total: "frames_total (paging_at w) = 32"
  by (simp add: frames_total_def paging_at_def)

lemma paging_at_frames: "frames (paging_at w) = 0x400" "frames_max (paging_at w) = 32"
  by (simp_all add: paging_at_def)

lemma paging_at_find:
  "find (\<lambda>k. \<not> used (mem (paging_at 1)) (frames (paging_at 1)) k) [0..<frames_total (paging_at 1)] = Some 1"
proof -
  have "[0..<32] = 0 # 1 # [2..<(32 :: nat)]" by (simp add: upt_conv_Cons)
  then show ?thesis by (simp add: paging_at_total paging_at_frames paging_at_used bit_1_iff)
qed

lemma paging_init_identity_witness:
  "\<exists>t. paging_init (paging_at 1) = Inr ((), t) \<and> paging_on t \<and> translate (mem t) (cr3 t) 0x12345 = Some 0x12345
    \<and> translate (mem t) (cr3 t) 0x400000 = None"
proof -
  define s1 where "s1 = (frame_set 1 (paging_at 1))\<lparr>alloced_frames := 1\<rparr>"
  define s1' where "s1' = s1\<lparr>mem := fill_table 0x1000 (mem s1)\<rparr>"
  have a1: "frame_alloc (paging_at 1) = Inr (0x1000, s1)"
    using alloc_single [OF paging_at_find] by (simp add: s1_def) (simp add: paging_at_def)
  have word: "load32 (mem s1') 0x400 = load32 (mem s1) 0x400"
    unfolding s1'_def by (rule c32.ld_local) (simp add: fill_table_outside in_span_unat)
  have fr: "frames s1' = 0x400" "frames_total s1' = 32"
    by (simp_all add: s1'_def s1_def paging_at_frames frames_total_def)
  have u: "used (mem s1') 0x400 k \<longleftrightarrow> k < 2" if "k < 32" for k
  proof -
    have "used (mem s1') 0x400 k = used (mem (frame_set 1 (paging_at 1))) (frames (paging_at 1)) k"
      using that word by (simp add: used_def s1_def paging_at_frames)
    also have "\<dots> \<longleftrightarrow> k = 1 \<or> bit (1 :: u32) k"
      using used_frame_set [of k 1 "paging_at 1"] that by (simp add: paging_at_used paging_at_frames)
    finally show ?thesis by (auto simp: bit_1_iff)
  qed
  have "frame_frist_free 3 s1' = of_nat (32 * (2 div 32) + (2 + unat (3 :: u32) - 1) mod 32)"
    by (rule frist_free_at) (auto simp: fr run_at_def u lessThan_nat_numeral lessThan_Suc)
  then obtain s2 where a2: "frame_alloc_ex 3 s1' = Inr (0x4000, s2)"
    by (simp add: frame_alloc_ex_def Let_def FRAME_BLOCK_SIZE_def)
  have "bitmap_span (paging_at 1) \<inter> span 0x1000 4096 = {}"
    by (auto simp: bitmap_span_def paging_at_frames in_span_unat)
  moreover have "apart 0x1000 4096 0x4000 4096" by (simp add: apart_def)
  ultimately obtain t where "paging_init (paging_at 1) = Inr ((), t)" "paging_on t"
      "\<forall>v. translate (mem t) (cr3 t) v = (if v < 0x400000 then Some v else None)"
    using paging_init_identity [OF a1 a2 [unfolded s1'_def]] by blast
  then show ?thesis by (intro exI [of _ t]) simp
qed

text \<open>
  C26. \<open>paging_map\<close> into a table that is already there makes the processor translate every address
  of the page to the frame given, and writes nothing but that one entry.
\<close>

theorem paging_map_present:
  assumes pde: "bit (rd32 s (current_page_dir s + 4 * pd_index virt)) 0"
    and old: "paging_page_get virt s = page" "\<not> bit (rd32 s page) 31"
    and phys: "phys AND 0xFFF = 0"
    and dir: "apart page 4 (current_page_dir s + 4 * pd_index virt) 4"
  shows "\<exists>t. paging_map virt phys s = Inr ((), t)
    \<and> translate (mem t) (current_page_dir t) virt = Some (phys OR (virt AND 0xFFF))
    \<and> {x. mem t x \<noteq> mem s x} \<subseteq> span page 4"
proof -
  define pd where "pd = current_page_dir s + 4 * pd_index virt"
  define e where "e = rd32 s page"
  define m where "m = store32 page (((e OR 1) AND NOT 0x7FFFF000) OR phys) (mem s)"
  have page: "page = page_phys_address pd (mem s) + 4 * pt_index virt"
    using old(1) by (simp add: paging_page_get_def pd_def)
  have "test_attribute pd PTE_PRESENT (mem s) = PTE_PRESENT"
    using pde and_one_eq [of "rd32 s pd"]
    by (simp add: test_attribute_def PTE_PRESENT_def pd_def bit_0 mod2_eq_if)
  then have run: "paging_map virt phys s = Inr ((), s\<lparr>mem := m\<rparr>)"
    by (simp add: paging_map_def Let_def pd_def [symmetric] paging_map_entry_eq [OF page] m_def e_def)
  note entry = new_entry [OF phys old(2) [folded e_def]]
  have "load32 m pd = rd32 s pd" "load32 m page = ((e OR 1) AND NOT 0x7FFFF000) OR phys"
    using dir by (simp_all add: m_def cells pd_def c32_32.ld_st_apart)
  then have "translate m (current_page_dir s) virt = Some (phys OR (virt AND 0xFFF))"
    using pde entry page [unfolded page_phys_address_def]
    unfolding translate_def Let_def pd_index_def [symmetric] pt_index_def [symmetric]
      pd_def [symmetric] by (simp only: if_False simp_thms)
  moreover have "{x. m x \<noteq> mem s x} \<subseteq> span page 4"
    using c32.st_outside [of _ page] by (auto simp: m_def)
  ultimately show ?thesis using run by simp
qed

text \<open>The witness: table at \<open>0x9000\<close>, the page at \<open>0x3000\<close> mapped to the frame at \<open>0x7000\<close>.\<close>

lemma paging_map_present_witness:
  "\<exists>t. paging_map 0x3000 0x7000 ((paging_at 1)\<lparr>mem := store32 0x8000 0x9003 (\<lambda>_. 0)\<rparr>) = Inr ((), t)
    \<and> translate (mem t) (current_page_dir t) 0x3000 = Some 0x7000"
proof -
  define s where "s = (paging_at 1)\<lparr>mem := store32 0x8000 0x9003 (\<lambda>_. 0)\<rparr>"
  have pd: "current_page_dir s + 4 * pd_index 0x3000 = 0x8000"
    by (simp add: s_def paging_at_def pd_index_def drop_bit_eq_div)
  have dir: "rd32 s 0x8000 = 0x9003" by (simp add: s_def cells)
  have page: "paging_page_get 0x3000 s = 0x900C"
    unfolding paging_page_get_def pd page_phys_address_def dir
    by (simp add: pt_index_def drop_bit_eq_div)
  have entry: "rd32 s 0x900C = 0"
    by (simp add: s_def c32_32.ld_st_apart apart_def) (simp add: load32_def)
  have "\<exists>t. paging_map 0x3000 0x7000 s = Inr ((), t)
    \<and> translate (mem t) (current_page_dir t) 0x3000 = Some (0x7000 OR (0x3000 AND 0xFFF))
    \<and> {x. mem t x \<noteq> mem s x} \<subseteq> span 0x900C 4"
    by (rule paging_map_present) (simp_all add: pd dir page entry apart_def bit_0)
  then show ?thesis by (simp add: s_def) blast
qed

text \<open>
  \<open>paging_map\<close> into a page whose table is missing allocates a frame and clears it, but never
  puts its address into the directory: an entry that was \<open>2\<close>, as \<open>paging_dir_new\<close> leaves it,
  becomes \<open>3\<close>, a present table at address 0.
\<close>

theorem paging_map_table_not_linked:
  assumes alloc: "frame_alloc s = Inr (T, s1)" and T: "T \<noteq> 0"
    and pd: "pd = current_page_dir s + 4 * pd_index virt" and entry: "rd32 s pd = 2"
    and bitmap: "bitmap_span s \<inter> span pd 4 = {}" and tab: "apart T 4096 pd 4"
    and page: "apart (4 * pt_index virt) 4 pd 4"
  shows "\<exists>t. paging_map virt phys s = Inr ((), t) \<and> rd32 t pd = 3 \<and> paging_page_get virt t = 4 * pt_index virt"
proof -
  note A = alloc_ex_Inr [OF alloc [unfolded frame_alloc_def], simplified]
  have more: "current_page_dir s1 = current_page_dir s"
    using A(3) by (cases s; cases s1) simp
  define m2 where "m2 = memset T 0 4096 (mem s1)"
  have e1: "load32 (mem s1) pd = 2"
    using entry c32.ld_frame [of pd "bitmap_span s" "mem s1" "mem s"] A(2) bitmap by (simp add: Int_commute)
  have e2: "load32 m2 pd = 2"
  proof -
    have "load32 m2 pd = load32 (mem s1) pd"
    proof (rule c32.ld_local)
      fix x assume "x \<in> span pd 4"
      then have "x \<notin> span T 4096" by (rule apart_notin [OF tab])
      then show "m2 x = mem s1 x" by (simp add: m2_def memset_eq)
    qed
    with e1 show ?thesis by simp
  qed
  define m3 where "m3 = set_attribute pd PDE_WRITABLE (set_attribute pd PDE_PRESENT m2)"
  have e3: "load32 m3 pd = 3" by (simp add: m3_def entry_defs cells store_twice e2)
  define t where "t = paging_map_entry pd virt phys (s1\<lparr>mem := m3\<rparr>)"
  have "test_attribute pd PTE_PRESENT (mem s) \<noteq> PTE_PRESENT"
    by (simp add: test_attribute_def entry PTE_PRESENT_def)
  then have "paging_map virt phys s = Inr ((), t)"
    using T alloc by (simp add: paging_map_def Let_def pd [symmetric] more m2_def [symmetric]
        m3_def [symmetric] t_def)
  moreover have phys: "page_phys_address pd m3 = 0" by (simp add: page_phys_address_def e3)
  moreover have "rd32 t pd = 3"
    using page by (simp add: t_def paging_map_entry_def Let_def phys set_frame_def set_attribute_def
        c32_32.ld_st_apart e3)
  moreover have "current_page_dir t = current_page_dir s"
    by (simp add: t_def paging_map_entry_def Let_def more)
  ultimately show ?thesis
    by (intro exI [of _ t]) (simp add: paging_page_get_def pd [symmetric] page_phys_address_def)
qed

lemma paging_map_table_not_linked_witness:
  "\<exists>t. paging_map 0x3000 0x7000 ((paging_at 1)\<lparr>mem := store32 0x8000 2 (mem (paging_at 1))\<rparr>) = Inr ((), t)
    \<and> paging_page_get 0x3000 t = 12"
proof -
  define s where "s = (paging_at 1)\<lparr>mem := store32 0x8000 2 (mem (paging_at 1))\<rparr>"
  have fr: "frames s = 0x400" "frames_max s = 32" "frames_total s = 32"
    using paging_at_frames paging_at_total by (simp_all add: s_def frames_total_def)
  have used_s: "used (mem s) 0x400 k = bit (1 :: u32) k" if "k < 32" for k
    using that paging_at_used [of k 1] by (simp add: s_def used_def c32_32.ld_st_apart apart_def)
  have "[0..<32] = 0 # 1 # [2..<(32 :: nat)]" by (simp add: upt_conv_Cons)
  then have "find (\<lambda>k. \<not> used (mem s) (frames s) k) [0..<frames_total s] = Some 1"
    by (simp add: fr used_s bit_1_iff)
  from alloc_single [OF this] obtain s1 where a: "frame_alloc s = Inr (0x1000, s1)" by simp
  have pd: "0x8000 = current_page_dir s + 4 * pd_index 0x3000"
    by (simp add: s_def paging_at_def pd_index_def drop_bit_eq_div)
  have pt: "4 * pt_index 0x3000 = 12" by (simp add: pt_index_def drop_bit_eq_div)
  have "\<exists>t. paging_map 0x3000 0x7000 s = Inr ((), t) \<and> rd32 t 0x8000 = 3
      \<and> paging_page_get 0x3000 t = 4 * pt_index 0x3000"
    by (rule paging_map_table_not_linked [OF a _ pd])
      (auto simp: s_def cells pt apart_def bitmap_span_def paging_at_frames in_span_unat)
  then show ?thesis by (auto simp: pt s_def)
qed

lemma fill_table_bitmap: "load32 (fill_table 0 m) 0x400 = 0x100001"
  using fill_table_entry [of 256 0 m] by simp

text \<open>
  Where the table \<open>paging_dir_new\<close> fills lies at address 0, as it does when frame 0 is free,
  its 257th entry replaces the first word of the frame bitmap that \<open>kernel_main\<close> puts at \<open>0x400\<close>.
\<close>

theorem identity_table_overwrites_bitmap:
  "load32 (fill_table 0 m) 0x400 = 0x100001"
  by (rule fill_table_bitmap)

end
