(* ===== verification/Interrupts.thy ===== *)
theory Interrupts
  imports Paging
begin

text \<open>
  The interrupt controller (\<^verbatim>\<open>src/arch/x86/pic.c\<close>, \<^verbatim>\<open>pic.h\<close>), the interrupt descriptor table
  (\<^verbatim>\<open>src/arch/x86/idt.c\<close>, \<^verbatim>\<open>idt.h\<close>) and the exception handlers (\<^verbatim>\<open>src/kernel/trap.c\<close>). The
  table is an array of 256 entries; an index outside it is \<open>Undefined\<close>. The address of a handler
  and the table \<open>isr_stub_table\<close> of the assembly file are arguments.
\<close>

unbundle bit_operations_syntax

section \<open>The interrupt controller\<close>

definition PIC1_CMD :: u16 where "PIC1_CMD = 0x20"
definition PIC1_DATA :: u16 where "PIC1_DATA = 0x21"
definition PIC2_CMD :: u16 where "PIC2_CMD = 0xA0"
definition PIC2_DATA :: u16 where "PIC2_DATA = 0xA1"
definition PIC_EOI :: u8 where "PIC_EOI = 0x20"
definition PIC_IRQ_OFFSET :: u32 where "PIC_IRQ_OFFSET = 0x20"

lemmas pic_ports = PIC1_CMD_def PIC1_DATA_def PIC2_CMD_def PIC2_DATA_def

definition pic_disable :: "'a machine_scheme \<Rightarrow> 'a machine_scheme" where
  "pic_disable s = x86_outb PIC2_DATA 0xFF (x86_outb PIC1_DATA 0xFF s)"

definition pic_send_eoi :: "int \<Rightarrow> 'a machine_scheme \<Rightarrow> 'a machine_scheme" where
  "pic_send_eoi irq_line s =
     x86_outb PIC1_CMD PIC_EOI (if 8 \<le> irq_line then x86_outb PIC2_CMD PIC_EOI s else s)"

definition pic_remap :: "u32 \<Rightarrow> u32 \<Rightarrow> 'a machine_scheme \<Rightarrow> 'a machine_scheme" where
  "pic_remap new_master_loc new_slave_loc s =
     (let s1 = pic_disable s;
          s2 = x86_outb PIC2_CMD 0x11 (x86_outb PIC1_CMD 0x11 s1);
          s3 = x86_outb PIC2_DATA (ucast new_slave_loc) (x86_outb PIC1_DATA (ucast new_master_loc) s2);
          s4 = x86_outb PIC2_DATA 2 (x86_outb PIC1_DATA 4 s3);
          s5 = x86_outb PIC2_DATA 0x01 (x86_outb PIC1_DATA 0x01 s4)
      in pic_disable s5)"

definition pic_init :: "'a machine_scheme \<Rightarrow> 'a machine_scheme" where
  "pic_init s = pic_remap PIC_IRQ_OFFSET (PIC_IRQ_OFFSET + 0x8) s"

text \<open>The port of a line and the line on that chip, which the code returns through a pointer.\<close>

definition pic_IRQ_fix_line_and_port :: "u8 \<Rightarrow> u16 \<times> u8" where
  "pic_IRQ_fix_line_and_port line = (if line < 8 then (PIC1_DATA, line) else (PIC2_DATA, line - 8))"

definition pic_IRQ_set_mask :: "u8 \<Rightarrow> 'a machine_scheme \<Rightarrow> 'a machine_scheme" where
  "pic_IRQ_set_mask irq_line s =
     (case pic_IRQ_fix_line_and_port irq_line of (port, line) \<Rightarrow>
      case x86_inb port s of (v, s1) \<Rightarrow> x86_outb port (v OR push_bit (unat line) 1) s1)"

definition pic_IRQ_remove_mask :: "u8 \<Rightarrow> 'a machine_scheme \<Rightarrow> 'a machine_scheme" where
  "pic_IRQ_remove_mask irq_line s =
     (case pic_IRQ_fix_line_and_port irq_line of (port, line) \<Rightarrow>
      case x86_inb port s of (v, s1) \<Rightarrow> x86_outb port (v AND NOT (push_bit (unat line) 1)) s1)"

section \<open>The interrupt descriptor table\<close>

record IdtEntry =
  isr_low :: u16
  kernel_cs :: u16
  reserved :: u8
  attributes :: u8
  isr_high :: u16

record interrupts = paging +
  the_idt :: "IdtEntry list"
  idtr_limit :: u16
  idtr_base :: u32
  idtr_loaded :: bool

definition TRAP_GATE_FLAGS :: u8 where "TRAP_GATE_FLAGS = 0x8F"
definition INT_GATE_FLAGS :: u8 where "INT_GATE_FLAGS = 0x8E"
definition INT_GATE_USER_FLAGS :: u8 where "INT_GATE_USER_FLAGS = 0xEE"

definition new_gate :: "u32 \<Rightarrow> u8 \<Rightarrow> IdtEntry" where
  "new_gate isr flags = \<lparr>isr_low = ucast (isr AND 0xFFFF), kernel_cs = 0x08, reserved = 0,
     attributes = flags, isr_high = ucast (drop_bit 16 isr AND 0xFFFF)\<rparr>"

definition set_idt_gate ::
  "nat \<Rightarrow> u32 \<Rightarrow> u8 \<Rightarrow> 'a interrupts_scheme \<Rightarrow> (unit, 'a interrupts_scheme) run" where
  "set_idt_gate index isr flags s =
     (if index < length (the_idt s)
      then Inr ((), s\<lparr>the_idt := (the_idt s)[index := new_gate isr flags]\<rparr>)
      else Inl Undefined)"

fun set_exception_gates ::
  "u32 list \<Rightarrow> nat list \<Rightarrow> 'a interrupts_scheme \<Rightarrow> (unit, 'a interrupts_scheme) run" where
  "set_exception_gates isr_stub_table [] s = Inr ((), s)"
| "set_exception_gates isr_stub_table (i # is) s =
     and_then (set_idt_gate i (isr_stub_table ! i) TRAP_GATE_FLAGS s)
       (\<lambda>_ s1. set_exception_gates isr_stub_table is s1)"

definition idt_init :: "u32 \<Rightarrow> u32 list \<Rightarrow> 'a interrupts_scheme \<Rightarrow> (unit, 'a interrupts_scheme) run" where
  "idt_init idt_address isr_stub_table s =
     (let s1 = s\<lparr>idtr_base := idt_address, idtr_limit := 8 * 256\<rparr>
      in and_then (set_exception_gates isr_stub_table [0..<32] s1)
           (\<lambda>_ s2. Inr ((), s2\<lparr>idtr_loaded := True\<rparr>)))"

section \<open>Exceptions\<close>

text \<open>\<open>err_code\<close> is 52 bytes into \<open>Registers\<close>; \<open>cr2\<close> is what \<open>read_cr2\<close> returns.\<close>

definition general_exception_handler_err ::
  "u32 \<Rightarrow> 'a terminal_scheme \<Rightarrow> (unit, 'a terminal_scheme) run" where
  "general_exception_handler_err regs s = panic ''A faulty exception was trigged!'' [] s"

definition general_exception_handler ::
  "u32 \<Rightarrow> 'a terminal_scheme \<Rightarrow> (unit, 'a terminal_scheme) run" where
  "general_exception_handler regs s = yell ''A unexpected exception was trigged!'' [] s"

definition exception_div_by_zero ::
  "u32 \<Rightarrow> 'a terminal_scheme \<Rightarrow> (unit, 'a terminal_scheme) run" where
  "exception_div_by_zero regs s = yell ''DIVISION_BY_ZERO'' [] s"

definition exception_page_fault ::
  "u32 \<Rightarrow> u32 \<Rightarrow> 'a terminal_scheme \<Rightarrow> (unit, 'a terminal_scheme) run" where
  "exception_page_fault regs cr2 s =
     (let err_code = rd32 s (regs + 52);
          present = (if err_code AND 0x1 = 0 then 1 else 0);
          rw = err_code AND 0x2;
          us = err_code AND 0x4;
          resv = err_code AND 0x8
      in panic (''PAGE_FAULT\<newline>Caused addres: %x\<newline>Raw error code: %x\<newline>\<newline>Details:\<newline>''
                @ ''Present: %x\<newline>RW: %x\<newline>User-mode: %x\<newline>Reserved: %x\<newline>'')
           [VWord cr2, VWord err_code, VWord present, VWord rw, VWord us, VWord resv] s)"

definition interrupt_pit_timer :: "u32 \<Rightarrow> 'a machine_scheme \<Rightarrow> 'a machine_scheme" where
  "interrupt_pit_timer regs s = pic_send_eoi 0 s"

definition exception_general_protection_fault ::
  "u32 \<Rightarrow> 'a terminal_scheme \<Rightarrow> (unit, 'a terminal_scheme) run" where
  "exception_general_protection_fault regs s = panic ''GENERAL_PROTECTION_FAULT exception'' [] s"

section \<open>The two chips, as the data sheet has them\<close>

text \<open>
  What a chip makes of the bytes written to its two ports: a command byte with bit 4 starts the
  initialisation, after which three bytes on the data port are the vector offset, the wiring and
  the mode; any other byte on the data port is the mask.
\<close>

record chip =
  ch_awaits :: nat
  ch_offset :: u8
  ch_mask :: u8

definition chip_cmd :: "u8 \<Rightarrow> chip \<Rightarrow> chip" where
  "chip_cmd v c = (if bit v 4 then c\<lparr>ch_awaits := 3, ch_mask := 0\<rparr> else c)"

definition chip_data :: "u8 \<Rightarrow> chip \<Rightarrow> chip" where
  "chip_data v c =
     (if ch_awaits c = 3 then c\<lparr>ch_awaits := 2, ch_offset := v AND 0xF8\<rparr>
      else if ch_awaits c = 0 then c\<lparr>ch_mask := v\<rparr>
      else c\<lparr>ch_awaits := ch_awaits c - 1\<rparr>)"

fun chip_event :: "u16 \<Rightarrow> u16 \<Rightarrow> io_event \<Rightarrow> chip \<Rightarrow> chip" where
  "chip_event cmd dat (OutB p v) c = (if p = cmd then chip_cmd v c else if p = dat then chip_data v c else c)"
| "chip_event cmd dat _ c = c"

definition master_after :: "io_event list \<Rightarrow> chip \<Rightarrow> chip" where
  "master_after es c = fold (chip_event PIC1_CMD PIC1_DATA) es c"

definition slave_after :: "io_event list \<Rightarrow> chip \<Rightarrow> chip" where
  "slave_after es c = fold (chip_event PIC2_CMD PIC2_DATA) es c"

text \<open>The accesses a piece of code made.\<close>

definition made :: "'a machine_scheme \<Rightarrow> 'b machine_scheme \<Rightarrow> io_event list" where
  "made s t = drop (length (io_log s)) (io_log t)"

definition gate_handler :: "IdtEntry \<Rightarrow> u32" where
  "gate_handler e = ucast (isr_low e) OR push_bit 16 (ucast (isr_high e))"

lemma gate_handler_new: "gate_handler (new_gate isr flags) = isr"
proof -
  have m: "(0xFFFF :: u32) = mask 16" by (simp add: mask_eq_exp_minus_1)
  show ?thesis
    unfolding gate_handler_def new_gate_def IdtEntry.simps m
    by (rule bit_word_eqI) (auto simp: bit_simps)
qed

lemma set_exception_gates_run:
  "set is \<subseteq> {..<length (the_idt s)} \<Longrightarrow>
     set_exception_gates stubs is s = Inr ((), s\<lparr>the_idt :=
       fold (\<lambda>i t. t[i := new_gate (stubs ! i) TRAP_GATE_FLAGS]) is (the_idt s)\<rparr>)"
  by (induction "is" arbitrary: s) (auto simp: set_idt_gate_def)

lemma fold_update_nth:
  "(\<forall>i \<in> set is. i < length t) \<Longrightarrow> k < length t \<Longrightarrow>
     fold (\<lambda>i t. t[i := f i]) is t ! k = (if k \<in> set is then f k else t ! k)"
  by (induction "is" arbitrary: t) (auto simp: nth_list_update)

lemma fold_update_length [simp]: "length (fold (\<lambda>i t. t[i := f i]) is t) = length t"
  by (induction "is" arbitrary: t) simp_all

section \<open>Properties\<close>

text \<open>
  C37. Whatever state the two interrupt controllers were in, after \<open>pic_init\<close> they are initialised,
  raise their lines as the interrupts from 0x20 and 0x28 on, and have every line masked.
\<close>

theorem pic_init_remaps:
  "master_after (made s (pic_init s)) c = \<lparr>ch_awaits = 0, ch_offset = 0x20, ch_mask = 0xFF\<rparr>
     \<and> slave_after (made s (pic_init s)) d = \<lparr>ch_awaits = 0, ch_offset = 0x28, ch_mask = 0xFF\<rparr>
     \<and> mem (pic_init s) = mem s"
proof -
  have "made s (pic_init s) = [OutB 0x21 0xFF, OutB 0xA1 0xFF, OutB 0x20 0x11, OutB 0xA0 0x11,
      OutB 0x21 0x20, OutB 0xA1 0x28, OutB 0x21 4, OutB 0xA1 2, OutB 0x21 1, OutB 0xA1 1,
      OutB 0x21 0xFF, OutB 0xA1 0xFF]"
    by (simp add: made_def pic_init_def pic_remap_def pic_disable_def Let_def pic_ports PIC_IRQ_OFFSET_def)
  then show ?thesis
    by (cases c; cases d)
      (simp add: master_after_def slave_after_def pic_ports chip_cmd_def chip_data_def
        bit_numeral_rec pic_init_def pic_remap_def pic_disable_def Let_def)
qed

text \<open>
  \<open>pic_IRQ_remove_mask\<close> of line \<open>l\<close> unmasks that line and no other, on the chip the line belongs
  to, when reading the data port of an initialised controller returns its mask.
\<close>

theorem pic_remove_mask_exact:
  assumes "unat l < 16" and "ch_awaits c = 0" and "ch_awaits d = 0"
    and "in8 s (io_log s) PIC1_DATA = ch_mask c" and "in8 s (io_log s) PIC2_DATA = ch_mask d"
  defines "es \<equiv> made s (pic_IRQ_remove_mask l s)"
  shows "{j. j < 8 \<and> bit (ch_mask (master_after es c)) j} = {j. j < 8 \<and> bit (ch_mask c) j} - {unat l}
    \<and> {j. j < 8 \<and> bit (ch_mask (slave_after es d)) j}
      = {j. j < 8 \<and> bit (ch_mask d) j \<and> j + 8 \<noteq> unat l}"
proof -
  have p: "bit (2 ^ n :: u8) j \<longleftrightarrow> j = n" if "j < 8" for n j
    using that by (auto simp: bit_simps)
  have l8: "l < 8 \<longleftrightarrow> unat l < 8" by (simp add: word_less_nat_alt)
  have l': "unat (l - 8) = unat l - 8" if "\<not> l < 8"
    using that by (simp add: unat_sub word_less_nat_alt word_le_nat_alt)
  define m where "m = (if l < 8 then ch_mask c AND NOT (push_bit (unat l) 1)
    else ch_mask d AND NOT (push_bit (unat l - 8) 1))"
  have es: "es = (if l < 8 then [InB PIC1_DATA (ch_mask c), OutB PIC1_DATA m]
      else [InB PIC2_DATA (ch_mask d), OutB PIC2_DATA m])"
    using assms(4,5) l'
    by (simp add: es_def made_def pic_IRQ_remove_mask_def pic_IRQ_fix_line_and_port_def x86_inb_def
        Let_def m_def)
  have chips: "ch_mask (master_after es c) = (if l < 8 then m else ch_mask c)"
    "ch_mask (slave_after es d) = (if l < 8 then ch_mask d else m)"
    using assms(2,3) by (simp_all add: es master_after_def slave_after_def pic_ports chip_data_def)
  show ?thesis
    using assms(1) l8 by (auto simp: chips m_def bit_and_iff bit_not_iff p)
qed

lemma pic_remove_mask_exact_witness:
  "{j. j < 8 \<and> bit (ch_mask (slave_after (made (blank_terminal\<lparr>in8 := (\<lambda>_ _. 0xFF)\<rparr>)
       (pic_IRQ_remove_mask 14 (blank_terminal\<lparr>in8 := (\<lambda>_ _. 0xFF)\<rparr>)))
       \<lparr>ch_awaits = 0, ch_offset = 0x28, ch_mask = 0xFF\<rparr>)) j} = {0, 1, 2, 3, 4, 5, 7}"
proof -
  define c where "c = \<lparr>ch_awaits = 0, ch_offset = 0x28, ch_mask = (0xFF :: u8)\<rparr>"
  define s where "s = blank_terminal\<lparr>in8 := (\<lambda>_ _. 0xFF)\<rparr>"
  have "{j. j < 8 \<and> bit (ch_mask (slave_after (made s (pic_IRQ_remove_mask 14 s)) c)) j}
      = {j. j < 8 \<and> bit (ch_mask c) j \<and> j + 8 \<noteq> unat (14 :: u8)}"
    by (rule pic_remove_mask_exact [of 14 c c s, THEN conjunct2]) (simp_all add: c_def s_def)
  also have "\<dots> = {0, 1, 2, 3, 4, 5, 7}"
  proof -
    have "j < 8 \<Longrightarrow> bit (0xFF :: u8) j" for j
      using bit_mask_iff [where 'a = "8 word", of 8 j] by (simp add: mask_eq_exp_minus_1)
    then show ?thesis by (auto simp: c_def)
  qed
  finally show ?thesis by (simp add: c_def s_def)
qed

text \<open>
  \<open>set_idt_gate\<close> inside the table installs a present gate whose two halves are the handler's
  address, and changes no other entry.
\<close>

theorem set_idt_gate_installs:
  assumes "i < length (the_idt s)"
  shows "\<exists>t. set_idt_gate i isr flags s = Inr ((), t) \<and> gate_handler (the_idt t ! i) = isr
    \<and> attributes (the_idt t ! i) = flags \<and> kernel_cs (the_idt t ! i) = 8
    \<and> {j. the_idt t ! j \<noteq> the_idt s ! j} \<subseteq> {i} \<and> length (the_idt t) = length (the_idt s)"
proof -
  have "{j. (the_idt s)[i := g] ! j \<noteq> the_idt s ! j} \<subseteq> {i}" for g
  proof
    fix j assume "j \<in> {j. (the_idt s)[i := g] ! j \<noteq> the_idt s ! j}"
    then show "j \<in> {i}" by (cases "i = j") simp_all
  qed
  with assms show ?thesis
    by (simp add: set_idt_gate_def gate_handler_new) (simp add: new_gate_def)
qed

definition idt_at :: interrupts where
  "idt_at = \<lparr>mem = (\<lambda>_. 0), io_log = [], in8 = (\<lambda>_ _. 0), in16 = (\<lambda>_ _. 0),
     term_row = 0, term_column = 0, term_color = 7,
     curr_addr = 0x200000, max_page_addr = 0x210000, frist_hh = 0, last_hh = 0,
     frames = 0x400, frames_max = 32, alloced_frames = 0,
     kernel_page_dir = 0, current_page_dir = 0x8000, cr3 = 0x8000, paging_on = False,
     the_idt = replicate 256 (new_gate 0 0), idtr_limit = 0, idtr_base = 0, idtr_loaded = False\<rparr>"

lemma set_idt_gate_installs_witness:
  "\<exists>t. set_idt_gate 0x80 0x12345678 INT_GATE_USER_FLAGS idt_at = Inr ((), t)
    \<and> gate_handler (the_idt t ! 0x80) = 0x12345678"
  using set_idt_gate_installs [of "0x80" idt_at "0x12345678" INT_GATE_USER_FLAGS]
  by (auto simp: idt_at_def)

text \<open>
  \<open>idt_init\<close> returns, installs the 32 stubs of the assembly file as trap gates for the
  exceptions, leaves the other gates as they were and loads the table.
\<close>

theorem idt_init_installs:
  assumes "length (the_idt s) = 256"
  shows "\<exists>t. idt_init a stubs s = Inr ((), t) \<and> idtr_loaded t \<and> idtr_base t = a
    \<and> (\<forall>i. i < 256 \<longrightarrow> (if i < 32 then gate_handler (the_idt t ! i) = stubs ! i
         \<and> attributes (the_idt t ! i) = TRAP_GATE_FLAGS else the_idt t ! i = the_idt s ! i))"
proof -
  define t where "t = s\<lparr>idtr_base := a, idtr_limit := 8 * 256, idtr_loaded := True, the_idt :=
    fold (\<lambda>i t. t[i := new_gate (stubs ! i) TRAP_GATE_FLAGS]) [0..<32] (the_idt s)\<rparr>"
  have "idt_init a stubs s = Inr ((), t)"
    using assms ivl_subset [of 0 32 0 256]
    by (simp add: idt_init_def Let_def set_exception_gates_run t_def atLeast0LessThan)
  moreover have "the_idt t ! i = (if i < 32 then new_gate (stubs ! i) TRAP_GATE_FLAGS else the_idt s ! i)"
    if "i < 256" for i
    using that assms fold_update_nth [of "[0..<32]" "the_idt s" i "\<lambda>i. new_gate (stubs ! i) TRAP_GATE_FLAGS"]
    by (simp add: t_def)
  ultimately show ?thesis
    by (intro exI [of _ t]) (simp add: gate_handler_new, simp add: t_def new_gate_def)
qed

lemma idt_init_installs_witness:
  "\<exists>t. idt_init 0x9000 (replicate 32 0xABC) idt_at = Inr ((), t) \<and> gate_handler (the_idt t ! 13) = 0xABC"
proof -
  obtain t where "idt_init 0x9000 (replicate 32 0xABC) idt_at = Inr ((), t)"
    "\<forall>i. i < 256 \<longrightarrow> (if i < 32 then gate_handler (the_idt t ! i) = replicate 32 0xABC ! i
         \<and> attributes (the_idt t ! i) = TRAP_GATE_FLAGS else the_idt t ! i = the_idt idt_at ! i)"
    using idt_init_installs [of idt_at "0x9000" "replicate 32 0xABC"] by (auto simp: idt_at_def)
  then show ?thesis by (auto dest!: spec [of _ 13])
qed

text \<open>
  A page fault halts the machine, for every error code and faulting address, with nothing
  changed but the screen.
\<close>

theorem page_fault_halts:
  assumes "term_ok s"
  shows "\<exists>t. exception_page_fault regs cr2 s = Inl (Halted t) \<and> term_only s t"
proof -
  have "\<exists>cs. fmt_render (lit (''PAGE_FAULT\<newline>Caused addres: %x\<newline>Raw error code: %x\<newline>\<newline>Details:\<newline>''
      @ ''Present: %x\<newline>RW: %x\<newline>User-mode: %x\<newline>Reserved: %x\<newline>''))
      [VWord a, VWord b, VWord c, VWord d, VWord e, VWord f] = Some cs" for a b c d e f
    by (simp add: lit_def)
  then obtain t where t: "exception_page_fault regs cr2 s = Inl (Halted t)"
    unfolding exception_page_fault_def Let_def using panic_render by metis
  have "run_effect term_effect s (exception_page_fault regs cr2 s)"
    unfolding exception_page_fault_def Let_def by (rule panic_effect)
  with t assms show ?thesis by (simp add: term_effect_def)
qed

lemma page_fault_halts_witness:
  "\<exists>t. exception_page_fault 0x5000 0xDEADBEEF blank_terminal = Inl (Halted t)"
  using page_fault_halts [OF blank_terminal_ok] by blast

end
