(* ===== verification/KHeap_Refine.thy ===== *)
theory KHeap_Refine
  imports KHeap
begin

text \<open>
  The heap as a list of blocks. A block is an address, a size and a flag; \<open>heap_inv\<close> ties the
  headers in memory to such a list: the list is linked, its blocks lie one after the other
  without meeting, below \<open>curr_addr\<close>, and \<open>last_hh\<close> is its end. \<open>malloc\<close> and \<open>free\<close> refine
  first fit with splitting and the merging of neighbouring free blocks on such lists.
\<close>

section \<open>Blocks\<close>

text \<open>
  A wall is a block in use whose header has lost its mark and its size: it cannot be given back, but the list
  goes on behind it. The boot sequence makes one (\<open>Boot_Devices\<close>).
\<close>

datatype block = Block (b_addr: u32) (b_size: u32) (b_free: bool) | is_wall: Wall (b_addr: u32) (b_size: u32)
  where "b_free (Wall a n) = False"

definition walls :: "block list \<Rightarrow> (u32 \<times> u32) set" where
  "walls bs = (\<Union>b \<in> {b \<in> set bs. is_wall b}. {(b_addr b, 8), (b_addr b + 16, b_size b)})"

lemma free_no_wall [simp]: "b_free b \<Longrightarrow> \<not> is_wall b"
  by (cases b) simp_all

lemma walls_simps [simp]:
  "walls [] = {}" "walls (xs @ ys) = walls xs \<union> walls ys"
  "walls (b # bs) = (if is_wall b then {(b_addr b, 8), (b_addr b + 16, b_size b)} \<union> walls bs else walls bs)"
  by (auto simp: walls_def)

definition bend :: "block \<Rightarrow> nat" where
  "bend b = unat (b_addr b) + 16 + unat (b_size b)"

definition hdr_span :: "block \<Rightarrow> u32 set" where
  "hdr_span b = (if is_wall b then span (b_addr b + 8) 8 else span (b_addr b) 16)"

definition payload :: "block \<Rightarrow> u32 set" where
  "payload b = span (b_addr b + 16) (unat (b_size b))"

definition extent :: "block \<Rightarrow> u32 set" where
  "extent b = span (b_addr b) (16 + unat (b_size b))"

definition header_at :: "memory \<Rightarrow> block \<Rightarrow> bool" where
  "header_at m b \<longleftrightarrow> (\<not> is_wall b \<longrightarrow> load32 m (b_addr b) = MAGIC_KHEAP \<and> load32 m (b_addr b + 4) = b_size b)
     \<and> (load32 m (b_addr b + 8) \<noteq> 0 \<longleftrightarrow> b_free b)"

text \<open>\<open>seg m p bs q\<close>: following \<open>next\<close> from \<open>p\<close> one meets the headers of \<open>bs\<close> and then \<open>q\<close>.\<close>

fun seg :: "memory \<Rightarrow> u32 \<Rightarrow> block list \<Rightarrow> u32 \<Rightarrow> bool" where
  "seg m p [] q \<longleftrightarrow> p = q"
| "seg m p (b # bs) q \<longleftrightarrow> p = b_addr b \<and> p \<noteq> 0 \<and> header_at m b \<and> seg m (load32 m (p + 12)) bs q"

text \<open>\<open>laid lo bs hi\<close>: the blocks lie in order, without meeting, from \<open>lo\<close> up to \<open>hi\<close>.\<close>

fun laid :: "nat \<Rightarrow> block list \<Rightarrow> nat \<Rightarrow> bool" where
  "laid lo [] hi \<longleftrightarrow> lo \<le> hi"
| "laid lo (b # bs) hi \<longleftrightarrow> lo \<le> unat (b_addr b) \<and> laid (bend b) bs hi"

text \<open>What never changes of a heap: where it starts, and the areas of its walls.\<close>

type_synonym heap_base = "nat \<times> (u32 \<times> u32) set"

definition heap_inv :: "heap_base \<Rightarrow> 'a kheap_scheme \<Rightarrow> block list \<Rightarrow> bool" where
  "heap_inv base s bs \<longleftrightarrow> 0 < fst base \<and> walls bs = snd base \<and> seg (mem s) (frist_hh s) bs 0
     \<and> laid (fst base) bs (unat (curr_addr s)) \<and> unat (curr_addr s) \<le> 2147483648
     \<and> (bs \<noteq> [] \<longrightarrow> last_hh s = b_addr (last bs))"

section \<open>Layout\<close>

lemma seg_append: "seg m p (xs @ ys) q \<longleftrightarrow> (\<exists>r. seg m p xs r \<and> seg m r ys q)"
  by (induction xs arbitrary: p) auto

lemma laid_append: "laid lo (xs @ ys) hi \<longleftrightarrow> (\<exists>mid. laid lo xs mid \<and> laid mid ys hi)"
proof (induction xs arbitrary: lo)
  case Nil
  show ?case by (cases ys) auto
qed auto

lemma laid_mono: "laid lo bs hi \<Longrightarrow> lo' \<le> lo \<Longrightarrow> hi \<le> hi' \<Longrightarrow> laid lo' bs hi'"
  by (induction bs arbitrary: lo lo') auto

lemma laid_bounds: "laid lo bs hi \<Longrightarrow> lo \<le> hi"
  by (induction bs arbitrary: lo) (force simp: bend_def)+

lemma laid_in: "laid lo bs hi \<Longrightarrow> b \<in> set bs \<Longrightarrow> lo \<le> unat (b_addr b) \<and> bend b \<le> hi"
proof (induction bs arbitrary: lo)
  case (Cons c bs)
  show ?case
  proof (cases "b = c")
    case True
    with Cons.prems show ?thesis using laid_bounds by auto
  next
    case False
    with Cons.prems have "bend c \<le> unat (b_addr b) \<and> bend b \<le> hi" using Cons.IH by auto
    with Cons.prems show ?thesis by (auto simp: bend_def)
  qed
qed simp

text \<open>Two blocks at different places of a laid-out list do not meet.\<close>

lemma laid_before: "laid lo (xs @ b # ys) hi \<Longrightarrow> c \<in> set xs \<Longrightarrow> bend c \<le> unat (b_addr b)"
  by (auto simp: laid_append dest: laid_in)

lemma laid_after: "laid lo (xs @ b # ys) hi \<Longrightarrow> c \<in> set ys \<Longrightarrow> bend b \<le> unat (b_addr c)"
  by (auto simp: laid_append dest: laid_in)

lemma apart_extents:
  "bend b \<le> unat (b_addr c) \<Longrightarrow> bend c \<le> 4294967296 \<Longrightarrow>
     apart (b_addr b) (16 + unat (b_size b)) (b_addr c) (16 + unat (b_size c))"
  by (rule apart_below) (auto simp: bend_def)

lemma laid_apart:
  assumes "laid lo (xs @ b # ys) hi" and "hi \<le> 4294967296" and "c \<in> set xs \<union> set ys"
  shows "apart (b_addr b) (16 + unat (b_size b)) (b_addr c) (16 + unat (b_size c))"
proof -
  have "bend b \<le> 4294967296" "bend c \<le> 4294967296"
    using assms laid_in [OF assms(1)] by (force, force)
  with assms laid_before [OF assms(1)] laid_after [OF assms(1)] show ?thesis
    by (auto intro: apart_extents apart_sym)
qed

lemma hdr_links: "span (a + 8) 8 \<subseteq> span a 16" "span (b_addr b + 8) 8 \<subseteq> hdr_span b" "hdr_span b \<subseteq> span (b_addr b) 16"
proof -
  show sub: "span (a + 8) 8 \<subseteq> span a 16" for a :: u32 by (rule span_sub) simp_all
  show "span (b_addr b + 8) 8 \<subseteq> hdr_span b" "hdr_span b \<subseteq> span (b_addr b) 16"
    using sub [of "b_addr b"] by (simp_all add: hdr_span_def)
qed

lemma hdr_plain: "\<not> is_wall b \<Longrightarrow> hdr_span b = span (b_addr b) 16"
  by (simp add: hdr_span_def)

lemma hdr_extent: "hdr_span b \<subseteq> extent b"
  using hdr_links(3) [of b] span_mono [of 16 "16 + unat (b_size b)" "b_addr b"] by (simp add: extent_def)

lemma payload_extent: "bend b \<le> 4294967296 \<Longrightarrow> payload b \<subseteq> extent b"
  by (simp add: payload_def extent_def bend_def span_sub)

lemma laid_extents:
  assumes "laid lo (xs @ b # ys) hi" and "hi \<le> 4294967296" and "c \<in> set xs \<union> set ys"
  shows "extent b \<inter> extent c = {}"
  using apart_disjoint [OF laid_apart [OF assms]] by (simp add: extent_def)

lemma hdr_payload:
  assumes "bend b \<le> 4294967296"
  shows "hdr_span b \<inter> payload b = {}"
proof (cases "b_size b = 0")
  case False
  then have "0 < unat (b_size b)" by (simp add: unat_gt_0)
  then have "unat (b_addr b + 16) = unat (b_addr b) + 16"
    using assms by (intro u32_add_numeral_unat) (simp add: bend_def)
  then have "span (b_addr b) 16 \<inter> payload b = {}"
    using assms unfolding payload_def by (intro apart_disjoint apart_below) (auto simp: bend_def)
  then show ?thesis using hdr_links(3) [of b] by blast
qed (simp add: payload_def span_def)

text \<open>The list in memory depends on its headers only.\<close>

lemma load_in_header:
  assumes "\<And>x. x \<in> span a 16 \<Longrightarrow> m' x = m x" and "unat i \<le> 12"
  shows "load32 m' (a + i) = load32 m (a + i)"
proof (rule c32.ld_local)
  fix x assume "x \<in> span (a + i) 4"
  moreover have "span (a + i) 4 \<subseteq> span a 16" by (rule span_sub) (use assms(2) in simp_all)
  ultimately show "m' x = m x" using assms(1) by blast
qed

lemma load_in_links:
  assumes "\<And>x. x \<in> hdr_span b \<Longrightarrow> m' x = m x"
  shows "load32 m' (b_addr b + 8) = load32 m (b_addr b + 8)" and "load32 m' (b_addr b + 12) = load32 m (b_addr b + 12)"
proof -
  have "span (b_addr b + 8) 4 \<subseteq> span (b_addr b + 8) 8" "span (b_addr b + 8 + 4) 4 \<subseteq> span (b_addr b + 8) 8"
    by (rule span_mono, simp, rule span_sub, simp_all)
  then have "span (b_addr b + 8) 4 \<subseteq> hdr_span b" "span (b_addr b + 12) 4 \<subseteq> hdr_span b"
    using hdr_links(2) [of b] by (simp_all add: add.assoc)
  then show "load32 m' (b_addr b + 8) = load32 m (b_addr b + 8)" "load32 m' (b_addr b + 12) = load32 m (b_addr b + 12)"
    by (intro c32.ld_local assms; blast)+
qed

lemma header_frame:
  "(\<And>x. x \<in> hdr_span b \<Longrightarrow> m' x = m x) \<Longrightarrow> header_at m' b = header_at m b"
  using load_in_header [of "b_addr b" m' m 0] load_in_header [of "b_addr b" m' m 4] load_in_links(1) [of b m' m]
  by (cases "is_wall b") (simp_all add: header_at_def hdr_plain)

lemma seg_frame:
  "seg m p bs q \<Longrightarrow> (\<And>b x. b \<in> set bs \<Longrightarrow> x \<in> hdr_span b \<Longrightarrow> m' x = m x) \<Longrightarrow> seg m' p bs q"
proof (induction bs arbitrary: p)
  case (Cons b bs)
  have "load32 m' (p + 12) = load32 m (p + 12)"
    using load_in_links(2) [OF Cons.prems(2) [of b]] Cons.prems(1) by simp
  moreover have "header_at m' b = header_at m b" by (rule header_frame) (use Cons.prems in auto)
  ultimately show ?case using Cons by auto
qed simp

section \<open>Reading headers after writing them\<close>

lemma header_apart:
  assumes "apart a 16 b 16"
  shows "unat i \<le> 12 \<Longrightarrow> unat j \<le> 12 \<Longrightarrow> apart (a + i) 4 (b + j) 4"
    and "unat j \<le> 12 \<Longrightarrow> apart a 4 (b + j) 4"
    and "unat i \<le> 12 \<Longrightarrow> apart (a + i) 4 b 4"
    and "apart a 4 b 4"
proof -
  show *: "apart (a + i) 4 (b + j) 4" if "unat i \<le> 12" "unat j \<le> 12" for i j
    by (rule apart_parts [OF assms]) (use that in simp_all)
  show "apart a 4 (b + j) 4" if "unat j \<le> 12" using * [of 0 j] that by simp
  show "apart (a + i) 4 b 4" if "unat i \<le> 12" using * [of i 0] that by simp
  show "apart a 4 b 4" using * [of 0 0] by simp
qed

lemma field_apart:
  "apart a 4 (a + 4) 4" "apart a 4 (a + 8) 4" "apart a 4 (a + 12) 4"
  "apart (a + 4) 4 a 4" "apart (a + 8) 4 a 4" "apart (a + 12) 4 a 4"
  "apart (a + 4) 4 (a + 8) 4" "apart (a + 4) 4 (a + 12) 4" "apart (a + 8) 4 (a + 12) 4"
  "apart (a + 8) 4 (a + 4) 4" "apart (a + 12) 4 (a + 4) 4" "apart (a + 12) 4 (a + 8) 4"
  by (simp_all add: apart_def)

lemma store_in_header:
  assumes "x \<notin> span a 16"
  shows "unat i \<le> 12 \<Longrightarrow> store32 (a + i) v m x = m x" and "store32 a v m x = m x"
proof -
  show *: "store32 (a + i) v m x = m x" if "unat i \<le> 12" for i
    using span_sub [of i 4 16 a] assms that by (intro c32.st_outside) auto
  show "store32 a v m x = m x" using * [of 0] by simp
qed

lemma store_in_links:
  assumes "x \<notin> span (a + 8) 8"
  shows "store32 (a + 8) v m x = m x" and "store32 (a + 12) v m x = m x"
proof -
  have "span (a + 8) 4 \<subseteq> span (a + 8) 8" "span (a + 8 + 4) 4 \<subseteq> span (a + 8) 8"
    by (rule span_mono, simp, rule span_sub, simp_all)
  then show "store32 (a + 8) v m x = m x" "store32 (a + 12) v m x = m x"
    using assms by (auto intro!: c32.st_outside simp: add.assoc)
qed

lemma put_header_outside: "x \<notin> span a 16 \<Longrightarrow> put_header a h m x = m x"
  by (simp add: put_header_def store_in_header)

lemma load_put_header:
  "load32 (put_header a h m) a = magic_number h"
  "load32 (put_header a h m) (a + 4) = hdr_size h"
  "load32 (put_header a h m) (a + 8) = hdr_freed h"
  "load32 (put_header a h m) (a + 12) = hdr_next h"
  by (simp_all add: put_header_def cell_simps field_apart)

lemma load_put_header_other:
  assumes "apart a 16 b 16"
  shows "unat j \<le> 12 \<Longrightarrow> load32 (put_header a h m) (b + j) = load32 m (b + j)"
    and "load32 (put_header a h m) b = load32 m b"
  by (simp_all add: put_header_def cell_simps header_apart [OF assms])

lemmas header_cells = cell_simps field_apart load_put_header

section \<open>First fit\<close>

definition fits :: "u32 \<Rightarrow> block \<Rightarrow> bool" where
  "fits sz b \<longleftrightarrow> b_free b \<and> sz \<le> b_size b"

definition a_split :: "u32 \<Rightarrow> block \<Rightarrow> block list" where
  "a_split sz b =
     (if unat sz + 16 < unat (b_size b)
      then [Block (b_addr b) sz False,
            Block (b_addr b + 16 + sz) (b_size b - sz - 16) True]
      else [Block (b_addr b) (b_size b) False])"

definition a_malloc :: "u32 \<Rightarrow> u32 \<Rightarrow> block list \<Rightarrow> u32 \<times> block list" where
  "a_malloc sz brk bs =
     (case dropWhile (\<lambda>b. \<not> fits sz b) bs of
        [] \<Rightarrow> (brk + 16, bs @ [Block brk sz False])
      | b # rest \<Rightarrow> (b_addr b + 16, takeWhile (\<lambda>b. \<not> fits sz b) bs @ a_split sz b @ rest))"

lemma seg_first: "seg m p bs q \<Longrightarrow> bs \<noteq> [] \<Longrightarrow> p = b_addr (hd bs) \<and> p \<noteq> 0"
  by (cases bs) auto

lemma seg_nonnull: "seg m p bs q \<Longrightarrow> bs \<noteq> [] \<Longrightarrow> p \<noteq> 0"
  by (cases bs) auto

lemma find_good_loop_None:
  "seg (mem s) p bs 0 \<Longrightarrow> bs \<noteq> [] \<Longrightarrow> \<forall>b \<in> set bs. \<not> fits sz b \<Longrightarrow>
     find_good_loop sz r p s = Some (0, s)"
proof (induction bs arbitrary: p)
  case (Cons b bs)
  have "\<not> (freed_at s p \<noteq> 0 \<and> sz \<le> size_at s p)"
    using Cons.prems by (cases "is_wall b") (auto simp: fits_def header_at_def)
  moreover have "next_at s p = 0 \<longleftrightarrow> bs = []"
    using Cons.prems seg_first [of "mem s" "next_at s p" bs 0] by (cases bs) auto
  ultimately show ?case
    by (subst find_good_loop.simps) (use Cons in \<open>auto simp: Let_def\<close>)
qed simp

lemma find_good_loop_Some:
  "seg (mem s) p (xs @ b # ys) 0 \<Longrightarrow> \<forall>c \<in> set xs. \<not> fits sz c \<Longrightarrow> fits sz b \<Longrightarrow>
     find_good_loop sz True p s = Some (b_addr b, snd (split_block (b_addr b) sz (wr32 (b_addr b + 8) 0 s)))"
proof (induction xs arbitrary: p)
  case Nil
  then show ?case
    using free_no_wall [of b] by (subst find_good_loop.simps) (auto simp: fits_def header_at_def)
next
  case (Cons c xs)
  have "\<not> (freed_at s p \<noteq> 0 \<and> sz \<le> size_at s p)"
    using Cons.prems by (cases "is_wall c") (auto simp: fits_def header_at_def)
  moreover have "next_at s p \<noteq> 0"
    using Cons.prems seg_first [of "mem s" "next_at s p" "xs @ b # ys" 0] by auto
  ultimately show ?case
    by (subst find_good_loop.simps) (use Cons in auto)
qed

text \<open>What splitting writes: the two headers of \<open>a_split\<close>, linked, and nothing outside the block.\<close>

lemma split_writes:
  assumes "apart a 16 nh 16"
    and M: "M = store32 (a + 12) nh (store32 (a + 4) sz (store32 (nh + 8) 1
      (put_header nh (new_header ns nx) (store32 (a + 8) 0 m))))"
  shows "load32 M a = load32 m a" "load32 M (a + 4) = sz" "load32 M (a + 8) = 0"
    "load32 M (a + 12) = nh" "load32 M nh = MAGIC_KHEAP" "load32 M (nh + 4) = ns"
    "load32 M (nh + 8) = 1" "load32 M (nh + 12) = nx"
    "x \<notin> span a 16 \<Longrightarrow> x \<notin> span nh 16 \<Longrightarrow> M x = m x"
proof -
  note ap = header_apart [OF assms(1)] header_apart [OF apart_sym [OF assms(1)]]
    load_put_header_other [OF apart_sym [OF assms(1)]]
  show "load32 M a = load32 m a" by (simp add: M header_cells ap)
  show "load32 M (a + 4) = sz" by (simp add: M header_cells ap)
  show "load32 M (a + 8) = 0" by (simp add: M header_cells ap)
  show "load32 M (a + 12) = nh" by (simp add: M header_cells ap)
  show "load32 M nh = MAGIC_KHEAP" by (simp add: M header_cells ap new_header_def)
  show "load32 M (nh + 4) = ns" by (simp add: M header_cells ap new_header_def)
  show "load32 M (nh + 8) = 1" by (simp add: M header_cells ap)
  show "load32 M (nh + 12) = nx" by (simp add: M header_cells ap new_header_def)
  show "x \<notin> span a 16 \<Longrightarrow> x \<notin> span nh 16 \<Longrightarrow> M x = m x"
    by (simp add: M store_in_header put_header_outside)
qed

definition heap_only :: "'a kheap_scheme \<Rightarrow> 'a kheap_scheme \<Rightarrow> bool" where
  "heap_only s t \<longleftrightarrow> io_log t = io_log s \<and> in8 t = in8 s \<and> in16 t = in16 s
     \<and> term_row t = term_row s \<and> term_column t = term_column s \<and> term_color t = term_color s
     \<and> max_page_addr t = max_page_addr s \<and> kheap.more t = kheap.more s"

lemma heap_only_refl [simp]: "heap_only s s"
  by (simp add: heap_only_def)

lemma split_enough:
  assumes "sz \<le> n" and "unat n < 2147483648"
  shows "is_positive_int (n - sz - 16) \<longleftrightarrow> unat sz + 16 < unat n"
    and "unat sz + 16 < unat n \<Longrightarrow> unat (n - sz - 16) = unat n - unat sz - 16"
proof -
  have 1: "unat (n - sz) = unat n - unat sz"
    using assms(1) by (simp add: u32_diff_unat u32_le_unat)
  then have 2: "unat (n - sz - 16) = (if 16 \<le> unat n - unat sz then unat n - unat sz - 16
      else 4294967296 + (unat n - unat sz) - 16)"
    by (simp only: u32_diff_unat) simp
  show "is_positive_int (n - sz - 16) \<longleftrightarrow> unat sz + 16 < unat n"
    using assms(2) 2 by (auto simp: is_positive_int_unat)
  show "unat sz + 16 < unat n \<Longrightarrow> unat (n - sz - 16) = unat n - unat sz - 16"
    using 2 by simp
qed

text \<open>
  Taking a free block: its flag is cleared and it is split. The segment it occupied now holds
  \<open>a_split sz b\<close>, the rest of memory is untouched, and \<open>last_hh\<close> moves if the block was the last.
\<close>

lemma take_block:
  assumes seg: "seg (mem s) (b_addr b) [b] r" and fits: "fits sz b" and b: "bend b \<le> 2147483648"
  defines "t \<equiv> snd (split_block (b_addr b) sz (wr32 (b_addr b + 8) 0 s))"
  shows "seg (mem t) (b_addr b) (a_split sz b) r"
    and "x \<notin> extent b \<Longrightarrow> mem t x = mem s x"
    and "laid (unat (b_addr b)) (a_split sz b) (bend b)"
    and "last_hh t = (if r = 0 \<and> 1 < length (a_split sz b) then b_addr (last (a_split sz b))
      else last_hh s)"
    and "heap_only s t" and "frist_hh t = frist_hh s" and "curr_addr t = curr_addr s"
proof -
  define a nh ns where "a = b_addr b" and "nh = a + 16 + sz" and "ns = b_size b - sz - 16"
  define m where "m = mem s"
  have hd: "a \<noteq> 0" "load32 m a = MAGIC_KHEAP" "load32 m (a + 4) = b_size b" "load32 m (a + 12) = r"
    using seg free_no_wall [of b] fits by (auto simp: a_def m_def header_at_def fits_def)
  have n: "sz \<le> b_size b" "unat (b_size b) < 2147483648" "unat a + 16 + unat (b_size b) \<le> 2147483648"
    using fits b by (auto simp: fits_def bend_def a_def)
  have size1: "load32 (store32 (a + 8) 0 m) (a + 4) = b_size b"
    and next1: "load32 (store32 (a + 8) 0 m) (a + 12) = r"
    by (simp_all add: header_cells hd)
  note fold_names = a_def [symmetric] m_def [symmetric] nh_def [symmetric] ns_def [symmetric]
  have goals: "seg (mem t) a (a_split sz b) r \<and> (\<forall>x. x \<notin> extent b \<longrightarrow> mem t x = m x) \<and>
    laid (unat a) (a_split sz b) (bend b) \<and> last_hh t = (if r = 0 \<and> 1 < length (a_split sz b)
      then b_addr (last (a_split sz b)) else last_hh s) \<and>
    heap_only s t \<and> frist_hh t = frist_hh s \<and> curr_addr t = curr_addr s"
  proof (cases "unat sz + 16 < unat (b_size b)")
    case False
    then have t: "t = s\<lparr>mem := store32 (a + 8) 0 m\<rparr>"
      using split_enough [OF n(1,2)]
      by (simp add: t_def split_block_def Let_def sizeof_header_def fold_names size1)
    have "store32 (a + 8) 0 m x = m x" if "x \<notin> extent b" for x
      using that hdr_extent [of b] hdr_plain [of b] fits by (intro store_in_header) (auto simp: a_def fits_def)
    with False show ?thesis
      by (simp add: t a_split_def fold_names header_at_def header_cells hd heap_only_def bend_def)
  next
    case True
    define M where "M = store32 (a + 12) nh (store32 (a + 4) sz (store32 (nh + 8) 1
      (put_header nh (new_header ns r) (store32 (a + 8) 0 m))))"
    have unh: "unat nh = unat a + 16 + unat sz"
      using n True by (simp add: nh_def u32_add_unat u32_add_numeral_unat)
    have uns: "unat ns = unat (b_size b) - unat sz - 16"
      using split_enough(2) [OF n(1,2) True] by (simp add: ns_def)
    have ap: "apart a 16 nh 16" by (rule apart_below) (use unh True n in simp_all)
    note W = split_writes [OF ap M_def]
    have t: "t = (if r = 0 then s\<lparr>mem := M, last_hh := nh\<rparr> else s\<lparr>mem := M\<rparr>)"
      using split_enough(1) [OF n(1,2)] True W(8) [unfolded M_def]
      by (simp add: t_def split_block_def Let_def sizeof_header_def fold_names size1 next1 M_def)
    have sub1: "span a 16 \<subseteq> extent b" by (simp add: extent_def a_def span_mono)
    have sub2: "span nh 16 \<subseteq> extent b"
    proof -
      have nh: "nh = a + (16 + sz)" by (simp add: nh_def add.assoc)
      have "unat (16 + sz) = 16 + unat sz" using True n(2) by (simp add: u32_add_unat)
      then show ?thesis unfolding nh extent_def a_def by (intro span_sub) (use True n(2) in simp_all)
    qed
    have out: "\<forall>x. x \<notin> extent b \<longrightarrow> M x = m x"
      using sub1 sub2 by (auto intro!: W(9))
    have nh0: "nh \<noteq> 0" using unh by auto
    have sp: "a_split sz b = [Block a sz False, Block nh ns True]"
      using True by (simp add: a_split_def a_def nh_def ns_def)
    have "seg M a (a_split sz b) r"
      by (simp add: sp header_at_def W hd nh0)
    moreover have "laid (unat a) (a_split sz b) (bend b)"
      using True by (simp add: sp bend_def unh uns fold_names)
    ultimately show ?thesis
      using out nh0 by (simp add: t sp heap_only_def W(4,8))
  qed
  then show "seg (mem t) (b_addr b) (a_split sz b) r"
    and "x \<notin> extent b \<Longrightarrow> mem t x = mem s x"
    and "laid (unat (b_addr b)) (a_split sz b) (bend b)"
    and "last_hh t = (if r = 0 \<and> 1 < length (a_split sz b) then b_addr (last (a_split sz b))
      else last_hh s)"
    and "heap_only s t" and "frist_hh t = frist_hh s" and "curr_addr t = curr_addr s"
    by (simp_all add: a_def m_def)
qed

section \<open>malloc refines first fit\<close>

text \<open>Where a malloc may write: the chosen free block, or the last header and the fresh area.\<close>

lemma list_at_fit:
  assumes "dropWhile (\<lambda>b. \<not> fits sz b) bs = b # ys"
  shows "bs = takeWhile (\<lambda>b. \<not> fits sz b) bs @ b # ys" and "fits sz b"
    and "\<forall>c \<in> set (takeWhile (\<lambda>b. \<not> fits sz b) bs). \<not> fits sz c"
proof -
  show "bs = takeWhile (\<lambda>b. \<not> fits sz b) bs @ b # ys"
    using takeWhile_dropWhile_id [of "\<lambda>b. \<not> fits sz b" bs] assms by simp
  show "fits sz b" using hd_dropWhile [of "\<lambda>b. \<not> fits sz b" bs] assms by simp
  show "\<forall>c \<in> set (takeWhile (\<lambda>b. \<not> fits sz b) bs). \<not> fits sz c"
    by (auto dest: set_takeWhileD)
qed

lemma walls_a_split [simp]: "walls (a_split sz b) = {}"
  by (simp add: a_split_def)

lemma a_split_not_Nil [simp]: "a_split sz b \<noteq> []"
  by (simp add: a_split_def)

lemma malloc_reuse:
  assumes inv: "heap_inv base s bs" and fit: "dropWhile (\<lambda>b. \<not> fits sz b) bs = b # ys"
  shows "\<exists>t. malloc sz s = Inr (b_addr b + 16, t)
    \<and> heap_inv base t (takeWhile (\<lambda>b. \<not> fits sz b) bs @ a_split sz b @ ys)
    \<and> heap_only s t \<and> curr_addr t = curr_addr s \<and> (\<forall>x. x \<notin> extent b \<longrightarrow> mem t x = mem s x)"
proof -
  define xs where "xs = takeWhile (\<lambda>b. \<not> fits sz b) bs"
  note at = list_at_fit [OF fit, folded xs_def]
  define t where "t = snd (split_block (b_addr b) sz (wr32 (b_addr b + 8) 0 s))"
  have sg: "seg (mem s) (frist_hh s) (xs @ b # ys) 0" and ld: "laid (fst base) (xs @ b # ys) (unat (curr_addr s))"
    and hi: "unat (curr_addr s) \<le> 2147483648" and last: "last_hh s = b_addr (last (xs @ b # ys))"
    using inv at(1) by (auto simp: heap_inv_def)
  obtain r where pre: "seg (mem s) (frist_hh s) xs (b_addr b)" and mid: "seg (mem s) (b_addr b) [b] r"
    and post: "seg (mem s) r ys 0" using sg by (auto simp: seg_append)
  have bb: "bend b \<le> 2147483648" using laid_in [OF ld, of b] hi by simp
  have free: "b_free b" using at(2) by (simp add: fits_def)
  have w: "walls (xs @ a_split sz b @ ys) = walls bs" by (subst at(1)) (simp add: free)
  note T = take_block [OF mid at(2) bb, folded t_def]
  have other: "mem t x = mem s x" if "c \<in> set xs \<union> set ys" "x \<in> hdr_span c" for c x
  proof -
    have "extent b \<inter> extent c = {}" by (rule laid_extents [OF ld]) (use hi that in simp_all)
    then show ?thesis using that hdr_extent [of c] by (intro T(2)) blast
  qed
  have "seg (mem t) (frist_hh t) (xs @ a_split sz b @ ys) 0"
    using seg_frame [OF pre, of "mem t"] seg_frame [OF post, of "mem t"] other T(1,6)
    by (auto simp: seg_append)
  moreover have "laid (fst base) (xs @ a_split sz b @ ys) (unat (curr_addr t))"
    using ld T(3,7) by (auto simp: laid_append dest: laid_mono)
  moreover have "last_hh t = b_addr (last (xs @ a_split sz b @ ys))"
  proof (cases "ys = []")
    case True
    then show ?thesis using post last T(4) by (auto simp: a_split_def)
  next
    case False
    then have "r \<noteq> 0" using seg_nonnull [OF post] by simp
    with False last T(4) show ?thesis by simp
  qed
  moreover have "malloc sz s = Inr (b_addr b + 16, t)"
  proof -
    have "frist_hh s \<noteq> 0" using seg_nonnull [OF sg] by simp
    moreover have "b_addr b \<noteq> 0" using mid by simp
    ultimately show ?thesis
      using find_good_loop_Some [OF sg at(3,2)]
      by (simp add: malloc_def find_good_block_def t_def sizeof_header_def)
  qed
  ultimately show ?thesis
    using inv T(2,5,7) hi xs_def w by (auto simp: heap_inv_def)
qed

lemma malloc_fresh:
  assumes inv: "heap_inv base s bs" and none: "\<forall>b \<in> set bs. \<not> fits sz b"
    and room: "unat (curr_addr s) + 4 * (unat sz + 16) \<le> 2147483648"
  shows "\<exists>t. malloc sz s = Inr (curr_addr s + 16, t)
    \<and> heap_inv base t (bs @ [Block (curr_addr s) sz False]) \<and> heap_only s t
    \<and> unat (curr_addr t) = unat (curr_addr s) + 4 * (unat sz + 16)
    \<and> (\<forall>x. x \<notin> span (curr_addr s) 16 \<and> (bs \<noteq> [] \<longrightarrow> x \<notin> hdr_span (last bs)) \<longrightarrow> mem t x = mem s x)"
proof -
  define c where "c = curr_addr s"
  define new where "new = Block c sz False"
  define m1 where "m1 = put_header c (new_header sz 0) (mem s)"
  define t where "t = (if bs = []
    then s\<lparr>mem := m1, frist_hh := c, last_hh := c, curr_addr := c + 4 * (sz + 16)\<rparr>
    else s\<lparr>mem := store32 (last_hh s + 12) c m1, last_hh := c, curr_addr := c + 4 * (sz + 16)\<rparr>)"
  have sg: "seg (mem s) (frist_hh s) bs 0" and ld: "laid (fst base) bs (unat c)" and base: "0 < fst base" "walls bs = snd base"
    and last: "bs \<noteq> [] \<Longrightarrow> last_hh s = b_addr (last bs)"
    using inv by (auto simp: heap_inv_def c_def)
  have c: "unat c + 4 * (unat sz + 16) \<le> 2147483648" using room by (simp add: c_def)
  have "0 < unat c" using laid_bounds [OF ld] base by simp
  then have c0: "c \<noteq> 0" by auto
  have "unat (4 * (sz + 16)) = 4 * (unat sz + 16)"
  proof -
    have "unat (sz + 16) = unat sz + 16" using c by (intro u32_add_numeral_unat) simp
    then show ?thesis using c by (simp add: unat_word_ariths)
  qed
  then have brk: "unat (curr_addr t) = unat c + 4 * (unat sz + 16)"
    using c by (simp add: t_def u32_add_unat)
  have run: "malloc sz s = Inr (c + 16, t)"
  proof (cases "bs = []")
    case True
    then show ?thesis using sg
      by (simp add: malloc_def malloc_new_def Let_def t_def m1_def c_def sizeof_header_def)
  next
    case False
    then show ?thesis using seg_nonnull [OF sg False] find_good_loop_None [OF sg False none]
      by (simp add: malloc_def find_good_block_def malloc_new_def Let_def t_def m1_def c_def
          sizeof_header_def)
  qed
  have m1_out: "x \<notin> span c 16 \<Longrightarrow> m1 x = mem s x" for x
    by (simp add: m1_def put_header_outside)
  have apc: "apart (b_addr b) 16 c 16" if "b \<in> set bs" for b
    by (rule apart_below) (use laid_in [OF ld that] c in \<open>simp_all add: bend_def\<close>)
  have new_hdr: "header_at m1 new" "load32 m1 (c + 12) = 0"
    by (simp_all add: m1_def new_def header_at_def header_cells new_header_def)
  have out: "mem t x = mem s x" if "x \<notin> span c 16" "bs \<noteq> [] \<Longrightarrow> x \<notin> hdr_span (last bs)" for x
  proof -
    have "x \<notin> span (last_hh s + 8) 8" if "bs \<noteq> []" using that \<open>bs \<noteq> [] \<Longrightarrow> x \<notin> hdr_span (last bs)\<close> last hdr_links(2) by auto
    then show ?thesis using m1_out [OF that(1)] store_in_links(2) [of x "last_hh s" c m1] by (simp add: t_def)
  qed
  have sg': "seg (mem t) (frist_hh t) (bs @ [new]) 0"
  proof (cases "bs = []")
    case True
    then show ?thesis using new_hdr c0 by (simp add: t_def new_def)
  next
    case False
    then obtain xs b where bs: "bs = xs @ [b]" by (cases bs rule: rev_cases) auto
    then obtain r where pre: "seg (mem s) (frist_hh s) xs (b_addr b)"
      and b: "b_addr b \<noteq> 0" "header_at (mem s) b" using sg by (auto simp: seg_append)
    have mt: "mem t = store32 (b_addr b + 12) c m1" using last bs by (simp add: t_def)
    have ab: "apart (b_addr b) 16 c 16" using apc bs by simp
    note sep = header_apart [OF ab] header_apart [OF apart_sym [OF ab]]
      load_put_header_other [OF apart_sym [OF ab]]
    have "header_at (mem t) b" "load32 (mem t) (b_addr b + 12) = c"
      using b(2) by (simp_all add: mt m1_def header_at_def header_cells sep)
    moreover have "header_at (mem t) new" "load32 (mem t) (c + 12) = 0"
      using new_hdr by (simp_all add: mt header_at_def new_def header_cells sep)
    moreover have "seg (mem t) (frist_hh s) xs (b_addr b)"
    proof (rule seg_frame [OF pre])
      fix d x assume d: "d \<in> set xs" "x \<in> hdr_span d"
      have "extent b \<inter> extent d = {}"
        by (rule laid_extents) (use ld bs d c in auto)
      then have "x \<notin> hdr_span b" using d hdr_extent by blast
      moreover have "x \<notin> span c 16"
        using apart_notin [OF apart_sym [OF apc], of d x] hdr_links(3) [of d] d bs by auto
      ultimately show "mem t x = mem s x" using out bs by simp
    qed
    moreover have "frist_hh t = frist_hh s" using bs by (simp add: t_def)
    ultimately show ?thesis using b c0 by (simp add: bs seg_append new_def)
  qed
  have "laid (fst base) (bs @ [new]) (unat (curr_addr t))"
    using ld by (auto simp: laid_append new_def bend_def brk)
  moreover have "last_hh t = b_addr (last (bs @ [new]))" by (simp add: t_def new_def)
  moreover have "heap_only s t" by (simp add: t_def heap_only_def)
  ultimately show ?thesis
    using run sg' brk c base out unfolding heap_inv_def new_def c_def by auto
qed

section \<open>free merges neighbouring free blocks\<close>

function a_merge :: "block list \<Rightarrow> block list" where
  "a_merge [] = []"
| "a_merge [b] = [b]"
| "a_merge (b # c # bs) =
     (if b_free b \<and> b_free c
      then a_merge (Block (b_addr b) (b_size b + (b_size c + 16)) True # bs)
      else b # a_merge (c # bs))"
  by pat_completeness auto
termination
  by (relation "measure length") auto

lemma walls_a_merge [simp]: "walls (a_merge bs) = walls bs"
  by (induction bs rule: a_merge.induct) auto

definition mark_free :: "u32 \<Rightarrow> block list \<Rightarrow> block list" where
  "mark_free a bs = map (\<lambda>b. if b_addr b = a then Block a (b_size b) True else b) bs"

definition a_free :: "u32 \<Rightarrow> block list \<Rightarrow> block list" where
  "a_free p bs = a_merge (mark_free (p - 16) bs)"

lemma a_merge_used: "\<not> b_free b \<Longrightarrow> a_merge (b # bs) = b # a_merge bs"
  by (cases bs) auto

lemma a_merge_free_used: "\<not> b_free b \<Longrightarrow> a_merge (c # b # bs) = c # b # a_merge bs"
  by (simp add: a_merge_used)

lemma a_merge_Nil [simp]: "a_merge bs = [] \<longleftrightarrow> bs = []"
  by (induction bs rule: a_merge.induct) auto

lemma last_a_merge: "bs \<noteq> [] \<Longrightarrow> \<not> b_free (last bs) \<Longrightarrow> last (a_merge bs) = last bs"
  by (induction bs rule: a_merge.induct) (auto split: if_splits)

lemma merged_size:
  assumes "bend b \<le> unat (b_addr c)" and "bend c \<le> 2147483648"
  shows "unat (b_size b + (b_size c + 16)) = unat (b_size b) + unat (b_size c) + 16"
proof -
  have "unat (b_size c + 16) = unat (b_size c) + 16"
    by (rule u32_add_numeral_unat) (use assms in \<open>simp add: bend_def\<close>)
  then show ?thesis
    using u32_add_unat [of "b_size b" "b_size c + 16"] assms by (simp add: bend_def)
qed

lemma laid_merged:
  assumes "laid lo (b # c # bs) hi" and "hi \<le> 2147483648"
  shows "laid lo (Block (b_addr b) (b_size b + (b_size c + 16)) f # bs) hi"
proof -
  have "bend b \<le> unat (b_addr c)" and c: "laid (bend c) bs hi" using assms(1) by auto
  moreover have "bend c \<le> 2147483648" using laid_bounds [OF c] assms(2) by simp
  ultimately have "bend (Block (b_addr b) (b_size b + (b_size c + 16)) f) \<le> bend c"
    using merged_size [of b c] by (simp add: bend_def)
  with assms(1) c show ?thesis by (auto dest: laid_mono)
qed

lemma laid_a_merge: "laid lo bs hi \<Longrightarrow> hi \<le> 2147483648 \<Longrightarrow> laid lo (a_merge bs) hi"
proof (induction bs arbitrary: lo rule: a_merge.induct)
  case (3 b c bs)
  then show ?case using laid_merged [of lo b c bs hi True] by auto
qed auto

text \<open>The headers of a list, the only memory that merging writes.\<close>

definition hdrs :: "block list \<Rightarrow> u32 set" where
  "hdrs bs = (\<Union>b \<in> set bs. hdr_span b)"

lemma hdrs_simps [simp]: "hdrs [] = {}" "hdrs (b # bs) = hdr_span b \<union> hdrs bs"
  "hdrs (xs @ ys) = hdrs xs \<union> hdrs ys"
  by (auto simp: hdrs_def)

lemma absorb_step:
  assumes sg: "seg (mem s) f (ps @ c # n # rest) 0" and ld: "laid base (ps @ c # n # rest) hi"
    and hi: "hi \<le> 2147483648" and free: "b_free c" "b_free n"
  defines "m1 \<equiv> store32 (b_addr c + 12) (next_at s (b_addr n))
      (store32 (b_addr c + 4) (b_size c + (b_size n + 16)) (mem s))"
  shows "merge_step (b_addr n) (b_addr c) s = (b_addr c, s\<lparr>mem := m1\<rparr>)"
    and "seg m1 f (ps @ Block (b_addr c) (b_size c + (b_size n + 16)) True # rest) 0"
    and "x \<notin> hdr_span c \<Longrightarrow> m1 x = mem s x"
    and "load32 m1 (b_addr n + 12) = next_at s (b_addr n)"
proof -
  obtain pre: "seg (mem s) f ps (b_addr c)" and c: "b_addr c \<noteq> 0" "header_at (mem s) c"
    and n: "header_at (mem s) n" and post: "seg (mem s) (next_at s (b_addr n)) rest 0"
    using sg by (auto simp: seg_append)
  have big: "apart (b_addr c) (16 + unat (b_size c)) (b_addr n) (16 + unat (b_size n))"
    by (rule laid_apart [OF ld]) (use hi in simp_all)
  have ap: "apart (b_addr c) 16 (b_addr n) 16" by (rule apart_mono [OF big]) simp_all
  note sep = header_apart [OF ap] header_apart [OF apart_sym [OF ap]]
  show "merge_step (b_addr n) (b_addr c) s = (b_addr c, s\<lparr>mem := m1\<rparr>)"
    using c n free free_no_wall [OF free(1)] free_no_wall [OF free(2)]
    by (simp add: merge_step_def Let_def sizeof_header_def header_at_def m1_def cell_simps sep)
  show out: "m1 x = mem s x" if "x \<notin> hdr_span c" for x
    using that free by (simp add: m1_def hdr_plain store_in_header)
  show "load32 m1 (b_addr n + 12) = next_at s (b_addr n)"
    by (simp add: m1_def cell_simps sep)
  have other: "m1 x = mem s x" if d: "d \<in> set ps \<union> set rest" and x: "x \<in> hdr_span d" for d x
  proof (rule out)
    have "extent c \<inter> extent d = {}" by (rule laid_extents [OF ld]) (use hi d in auto)
    then show "x \<notin> hdr_span c" using x hdr_extent by blast
  qed
  have "header_at m1 (Block (b_addr c) (b_size c + (b_size n + 16)) True)"
    "load32 m1 (b_addr c + 12) = next_at s (b_addr n)"
    using c free by (simp_all add: m1_def header_at_def header_cells)
  then show "seg m1 f (ps @ Block (b_addr c) (b_size c + (b_size n + 16)) True # rest) 0"
    using seg_frame [OF pre, of m1] seg_frame [OF post, of m1] other c(1)
    by (auto simp: seg_append)
qed

text \<open>
  The loop, with \<open>ps\<close> already done, \<open>cur\<close> the block being grown (if any) and \<open>rest\<close> to come:
  it leaves the merged list, writes headers only, and returns the last block if that is free.
\<close>

definition growing :: "block list \<Rightarrow> u32 \<Rightarrow> bool" where
  "growing cur current \<longleftrightarrow> (cur = [] \<and> current = 0)
     \<or> (\<exists>c. cur = [c] \<and> b_free c \<and> current = b_addr c \<and> current \<noteq> 0)"

definition merged_to :: "'a kheap_scheme \<Rightarrow> block list \<Rightarrow> block list \<Rightarrow> bool \<Rightarrow>
    (u32 \<times> 'a kheap_scheme) option \<Rightarrow> bool" where
  "merged_to s ps bs fr r \<longleftrightarrow> (\<exists>current m. r = Some (current, s\<lparr>mem := m\<rparr>)
     \<and> seg m (frist_hh s) (ps @ a_merge bs) 0 \<and> (\<forall>x. x \<notin> hdrs bs \<longrightarrow> m x = mem s x)
     \<and> (if fr then current = b_addr (last (a_merge bs)) \<and> current \<noteq> 0 else current = 0))"

lemma merged_to_here:
  "seg (mem s) (frist_hh s) (ps @ a_merge bs) 0 \<Longrightarrow>
     (if fr then cur = b_addr (last (a_merge bs)) \<and> cur \<noteq> 0 else cur = 0) \<Longrightarrow>
     merged_to s ps bs fr (Some (cur, s))"
  unfolding merged_to_def by (rule exI [of _ cur], rule exI [of _ "mem s"]) simp

lemma merged_to_mono:
  "merged_to s ps' bs' fr r \<Longrightarrow> ps' @ a_merge bs' = ps @ a_merge bs \<Longrightarrow>
     last (a_merge bs') = last (a_merge bs) \<Longrightarrow> hdrs bs' \<subseteq> hdrs bs \<Longrightarrow> merged_to s ps bs fr r"
  unfolding merged_to_def by (elim ex_forward conj_forward) (auto split: if_splits)

lemma merged_to_after:
  "merged_to (s\<lparr>mem := m1\<rparr>) ps bs fr r \<Longrightarrow> (\<And>x. x \<notin> hdrs bs \<Longrightarrow> m1 x = mem s x) \<Longrightarrow>
     merged_to s ps bs fr r"
  unfolding merged_to_def by (elim ex_forward conj_forward) (auto split: if_splits)

lemma merge_loop_spec:
  assumes "seg (mem s) (frist_hh s) (ps @ cur @ rest) 0" and "laid base (ps @ cur @ rest) hi"
    and "hi \<le> 2147483648" and "growing cur current" and "rest \<noteq> []"
  shows "merged_to s ps (cur @ rest) (b_free (last rest)) (merge_loop (b_addr (hd rest)) current s)"
  using assms
proof (induction rest arbitrary: ps cur current s)
  case (Cons n rest)
  have seg_n: "header_at (mem s) n" "b_addr n \<noteq> 0" "seg (mem s) (next_at s (b_addr n)) rest 0"
    using Cons.prems(1) by (auto simp: seg_append)
  have nx: "next_at s (b_addr n) = 0 \<longleftrightarrow> rest = []"
    using seg_n(3) seg_nonnull [OF seg_n(3)] by (cases rest) auto
  have hd_rest: "rest \<noteq> [] \<Longrightarrow> next_at s (b_addr n) = b_addr (hd rest)"
    using seg_first [OF seg_n(3)] by simp
  have hd0: "rest \<noteq> [] \<Longrightarrow> b_addr (hd rest) \<noteq> 0"
    using seg_first [OF seg_n(3)] by metis
  consider (used) "\<not> b_free n" | (start) "b_free n" "cur = []" "current = 0"
    | (grow) c where "b_free n" "cur = [c]" "b_free c" "current = b_addr c" "current \<noteq> 0"
    using Cons.prems(4) by (auto simp: growing_def)
  then show ?case
  proof cases
    case used
    have step: "merge_step (b_addr n) current s = (0, s)"
      using seg_n(1) used by (simp add: merge_step_def header_at_def)
    have am: "a_merge (cur @ n # rest) = cur @ n # a_merge rest"
      using Cons.prems(4) used by (auto simp: growing_def a_merge_used)
    show ?thesis
    proof (cases "rest = []")
      case True
      then show ?thesis
        using Cons.prems(1) step nx used am
        by (subst merge_loop.simps) (auto intro!: merged_to_here)
    next
      case False
      have "merged_to s (ps @ cur @ [n]) ([] @ rest) (b_free (last rest))
          (merge_loop (b_addr (hd rest)) 0 s)"
        by (rule Cons.IH) (use Cons.prems False in \<open>simp_all add: growing_def\<close>)
      then have "merged_to s ps (cur @ n # rest) (b_free (last rest)) (merge_loop (b_addr (hd rest)) 0 s)"
        by (rule merged_to_mono) (use False in \<open>auto simp: am\<close>)
      with False show ?thesis
        by (subst merge_loop.simps) (simp add: step hd_rest hd0)
    qed
  next
    case start
    have step: "merge_step (b_addr n) current s = (b_addr n, s)"
      using seg_n(1) start by (simp add: merge_step_def header_at_def)
    show ?thesis
    proof (cases "rest = []")
      case True
      then show ?thesis
        using Cons.prems(1) step nx start seg_n(2)
        by (subst merge_loop.simps) (auto intro!: merged_to_here)
    next
      case False
      have "merged_to s ps ([n] @ rest) (b_free (last rest)) (merge_loop (b_addr (hd rest)) (b_addr n) s)"
        by (rule Cons.IH) (use Cons.prems False start seg_n(2) in \<open>simp_all add: growing_def\<close>)
      with False start show ?thesis
        by (subst merge_loop.simps) (simp add: step [unfolded start(3)] hd_rest hd0)
    qed
  next
    case grow
    define c' where "c' = Block (b_addr c) (b_size c + (b_size n + 16)) True"
    have sg: "seg (mem s) (frist_hh s) (ps @ c # n # rest) 0" and ld: "laid base (ps @ c # n # rest) hi"
      using Cons.prems(1,2) grow by simp_all
    note A = absorb_step [OF sg ld Cons.prems(3) grow(3,1), folded c'_def]
    define m1 where "m1 = store32 (b_addr c + 12) (next_at s (b_addr n))
      (store32 (b_addr c + 4) (b_size c + (b_size n + 16)) (mem s))"
    note A = A [folded m1_def]
    have ld': "laid base (ps @ c' # rest) hi"
      using ld laid_merged [of _ c n rest hi True] Cons.prems(3) unfolding c'_def laid_append by blast
    have am: "a_merge (cur @ n # rest) = a_merge (c' # rest)"
      using grow by (simp add: c'_def)
    have hd': "hdr_span c' = hdr_span c" using grow by (simp add: hdr_plain c'_def)
    show ?thesis
    proof (cases "rest = []")
      case True
      then show ?thesis
        using A grow nx unfolding merged_to_def am
        by (subst merge_loop.simps) (auto simp: c'_def)
    next
      case False
      have "merged_to (s\<lparr>mem := m1\<rparr>) ps ([c'] @ rest) (b_free (last rest))
          (merge_loop (b_addr (hd rest)) (b_addr c) (s\<lparr>mem := m1\<rparr>))"
        by (rule Cons.IH) (use A(2) ld' Cons.prems(3) False grow in \<open>simp_all add: growing_def c'_def\<close>)
      then have "merged_to s ps ([c'] @ rest) (b_free (last rest))
          (merge_loop (b_addr (hd rest)) (b_addr c) (s\<lparr>mem := m1\<rparr>))"
        by (rule merged_to_after) (use A(3) in \<open>simp add: hd'\<close>)
      then have "merged_to s ps (c # n # rest) (b_free (last rest))
          (merge_loop (b_addr (hd rest)) (b_addr c) (s\<lparr>mem := m1\<rparr>))"
        by (rule merged_to_mono) (use am grow in \<open>auto simp: hd'\<close>)
      with False grow show ?thesis
        by (subst merge_loop.simps) (simp add: A(1,4) hd_rest hd0)
    qed
  qed
qed simp

end
