(* ===== verification/KHeap_Spec.thy ===== *)
theory KHeap_Spec
  imports KHeap_Refine Terminal_Spec
begin

text \<open>
  What the heap promises its clients. \<open>free\<close> refines \<open>a_free\<close> as \<open>malloc\<close> refines \<open>a_malloc\<close>;
  the locale \<open>allocator\<close> is the interface the rest of the kernel relies on (areas handed out do
  not meet, and what a client wrote in one stays there until it gives the area back), it is
  interpreted on \<open>malloc\<close> and \<open>free\<close>, and \<open>realloc\<close> is a client of it.
\<close>

section \<open>free refines the merging of free neighbours\<close>

lemma laid_distinct:
  assumes "laid lo (xs @ b # ys) hi" and "c \<in> set xs \<union> set ys"
  shows "b_addr c \<noteq> b_addr b"
  using assms laid_before [OF assms(1)] laid_after [OF assms(1)] by (fastforce simp: bend_def)

lemma mark_free_split:
  assumes "laid lo (xs @ b # ys) hi"
  shows "mark_free (b_addr b) (xs @ b # ys) = xs @ Block (b_addr b) (b_size b) True # ys"
proof -
  have "map (\<lambda>c. if b_addr c = b_addr b then Block (b_addr b) (b_size c) True else c) zs = zs"
    if "set zs \<subseteq> set xs \<union> set ys" for zs
    using that laid_distinct [OF assms] by (intro map_idI) auto
  then show ?thesis by (simp add: mark_free_def)
qed

lemma laid_flag: "laid lo (xs @ b # ys) hi \<Longrightarrow> laid lo (xs @ Block (b_addr b) (b_size b) f # ys) hi"
  by (auto simp: laid_append bend_def)

lemma seg_flag:
  assumes sg: "seg m p (xs @ b # ys) 0" and ld: "laid lo (xs @ b # ys) hi" and hi: "hi \<le> 2147483648"
    and v: "v \<noteq> 0" and b: "\<not> is_wall b"
  shows "seg (store32 (b_addr b + 8) v m) p (xs @ Block (b_addr b) (b_size b) True # ys) 0"
proof -
  obtain pre: "seg m p xs (b_addr b)" and b: "b_addr b \<noteq> 0" "header_at m b" "\<not> is_wall b"
    and post: "seg m (load32 m (b_addr b + 12)) ys 0"
    using sg b by (auto simp: seg_append)
  have other: "store32 (b_addr b + 8) v m x = m x" if "c \<in> set xs \<union> set ys" "x \<in> hdr_span c" for c x
  proof (rule store_in_header)
    have "extent b \<inter> extent c = {}" by (rule laid_extents [OF ld]) (use hi that in simp_all)
    then show "x \<notin> span (b_addr b) 16" using that hdr_extent [of b] hdr_extent [of c] hdr_plain [OF b(3)] by auto
  qed simp
  have "header_at (store32 (b_addr b + 8) v m) (Block (b_addr b) (b_size b) True)"
    "load32 (store32 (b_addr b + 8) v m) (b_addr b + 12) = load32 m (b_addr b + 12)"
    using b v by (simp_all add: header_at_def header_cells)
  then show ?thesis
    using seg_frame [OF pre, of "store32 (b_addr b + 8) v m"]
      seg_frame [OF post, of "store32 (b_addr b + 8) v m"] other b(1)
    by (auto simp: seg_append)
qed

lemma merge_free_blocks_spec:
  assumes sg: "seg (mem s) (frist_hh s) bs 0" and ld: "laid (fst base) bs (unat (curr_addr s))"
    and hi: "unat (curr_addr s) \<le> 2147483648" and base: "0 < fst base" "walls bs = snd base" and ne: "bs \<noteq> []"
    and last: "last_hh s = b_addr (last bs)"
  shows "\<exists>t. merge_free_blocks s = Inr ((), t) \<and> heap_inv base t (a_merge bs) \<and> heap_only s t
    \<and> curr_addr t = curr_addr s \<and> (\<forall>x. x \<notin> hdrs bs \<longrightarrow> mem t x = mem s x)"
proof -
  have "merged_to s [] ([] @ bs) (b_free (last bs)) (merge_loop (b_addr (hd bs)) 0 s)"
    by (rule merge_loop_spec) (use sg ld hi ne in \<open>simp_all add: growing_def\<close>)
  moreover have "b_addr (hd bs) = frist_hh s" using seg_first [OF sg ne] by simp
  ultimately obtain current m where run: "merge_loop (frist_hh s) 0 s = Some (current, s\<lparr>mem := m\<rparr>)"
    and sg': "seg m (frist_hh s) (a_merge bs) 0" and out: "\<forall>x. x \<notin> hdrs bs \<longrightarrow> m x = mem s x"
    and cur: "if b_free (last bs) then current = b_addr (last (a_merge bs)) \<and> current \<noteq> 0
      else current = 0"
    by (auto simp: merged_to_def)
  define t where "t = (if current \<noteq> 0 then s\<lparr>mem := m, last_hh := current\<rparr> else s\<lparr>mem := m\<rparr>)"
  have "merge_free_blocks s = Inr ((), t)"
    by (simp add: merge_free_blocks_def run t_def)
  moreover have "last_hh t = b_addr (last (a_merge bs))"
    using cur last ne last_a_merge [of bs] by (cases "b_free (last bs)") (auto simp: t_def)
  ultimately show ?thesis
    using sg' out base hi laid_a_merge [OF ld hi]
    by (intro exI [of _ t]) (simp add: heap_inv_def t_def heap_only_def)
qed

lemma free_refines:
  assumes inv: "heap_inv base s bs" and b: "b \<in> set bs" and used: "\<not> b_free b" "\<not> is_wall b"
  shows "\<exists>t. free (b_addr b + 16) s = Inr ((), t)
    \<and> heap_inv base t (a_free (b_addr b + 16) bs) \<and> heap_only s t \<and> curr_addr t = curr_addr s
    \<and> (\<forall>x. x \<notin> hdrs bs \<longrightarrow> mem t x = mem s x)"
proof -
  obtain xs ys where bs: "bs = xs @ b # ys" using b by (auto simp: in_set_conv_decomp)
  have sg: "seg (mem s) (frist_hh s) (xs @ b # ys) 0" and ld: "laid (fst base) (xs @ b # ys) (unat (curr_addr s))"
    and hi: "unat (curr_addr s) \<le> 2147483648" and base: "0 < fst base" "walls bs = snd base"
    and last: "last_hh s = b_addr (last bs)"
    using inv bs by (auto simp: heap_inv_def)
  have hdr: "header_at (mem s) b" using sg by (auto simp: seg_append)
  define s1 where "s1 = wr32 (b_addr b + 8) 1 s"
  define cs where "cs = xs @ Block (b_addr b) (b_size b) True # ys"
  have cs: "mark_free (b_addr b) bs = cs" using mark_free_split [OF ld] by (simp add: bs cs_def)
  have "free (b_addr b + 16) s = merge_free_blocks s1"
    using hdr used by (simp add: free_def Let_def sizeof_header_def header_at_def s1_def)
  moreover have "\<exists>t. merge_free_blocks s1 = Inr ((), t) \<and> heap_inv base t (a_merge cs) \<and> heap_only s1 t
      \<and> curr_addr t = curr_addr s1 \<and> (\<forall>x. x \<notin> hdrs cs \<longrightarrow> mem t x = mem s1 x)"
  proof (rule merge_free_blocks_spec)
    show "seg (mem s1) (frist_hh s1) cs 0"
      using seg_flag [OF sg ld hi _ used(2), of 1] by (simp add: s1_def cs_def)
    show "laid (fst base) cs (unat (curr_addr s1))" using laid_flag [OF ld] by (simp add: s1_def cs_def)
    show "last_hh s1 = b_addr (last cs)" using last by (simp add: s1_def cs_def bs)
  qed (use hi base used bs in \<open>auto simp: s1_def cs_def\<close>)
  moreover have "x \<notin> hdrs bs \<Longrightarrow> mem s1 x = mem s x" for x
    using store_in_header(1) [of x "b_addr b" 8] hdr_plain [OF used(2)] by (simp add: s1_def bs)
  moreover have "hdrs cs = hdrs bs" using used(2) by (simp add: cs_def bs hdr_span_def)
  moreover have "heap_only s1 t = heap_only s t" for t by (simp add: heap_only_def s1_def)
  moreover have "curr_addr s1 = curr_addr s" by (simp add: s1_def)
  ultimately show ?thesis by (simp add: a_free_def cs)
qed

section \<open>malloc refines first fit\<close>

text \<open>Room for a request: a free block that fits, or space below 2 GiB above \<open>curr_addr\<close>.\<close>

definition heap_room :: "u32 \<Rightarrow> 'a kheap_scheme \<Rightarrow> block list \<Rightarrow> bool" where
  "heap_room sz s bs \<longleftrightarrow> (\<exists>b \<in> set bs. fits sz b)
     \<or> unat (curr_addr s) + 4 * (unat sz + 16) \<le> 2147483648"

text \<open>The areas in use: the address given to the client and the size of the block.\<close>

definition live :: "block list \<Rightarrow> (u32 \<times> u32) set" where
  "live bs = {(b_addr b + 16, b_size b) | b. b \<in> set bs \<and> \<not> b_free b \<and> \<not> is_wall b}"

definition same_live :: "block list \<Rightarrow> memory \<Rightarrow> memory \<Rightarrow> bool" where
  "same_live bs m m' \<longleftrightarrow> (\<forall>b \<in> set bs. \<forall>x \<in> payload b. \<not> b_free b \<longrightarrow> m' x = m x)"

lemma dropWhile_fits_Nil: "dropWhile (\<lambda>b. \<not> fits sz b) bs = [] \<longleftrightarrow> (\<forall>b \<in> set bs. \<not> fits sz b)"
  by (simp add: dropWhile_eq_Nil_conv)

lemma payload_hdrs:
  assumes "laid lo bs hi" and "hi \<le> 4294967296" and "b \<in> set bs"
  shows "payload b \<inter> hdrs bs = {}"
proof -
  obtain xs ys where bs: "bs = xs @ b # ys" using assms(3) by (auto simp: in_set_conv_decomp)
  have bb: "bend b \<le> 4294967296" using laid_in [OF assms(1,3)] assms(2) by simp
  have "payload b \<inter> hdr_span c = {}" if "c \<in> set xs \<union> set ys" for c
    using laid_extents [OF assms(1)[unfolded bs] assms(2) that] payload_extent [OF bb] hdr_extent [of c]
    by blast
  then show ?thesis using hdr_payload [OF bb] by (auto simp: hdrs_def bs)
qed

lemma malloc_step:
  assumes inv: "heap_inv base s bs" and room: "heap_room sz s bs"
  shows "\<exists>t. malloc sz s = Inr (fst (a_malloc sz (curr_addr s) bs), t)
    \<and> heap_inv base t (snd (a_malloc sz (curr_addr s) bs)) \<and> heap_only s t
    \<and> same_live bs (mem s) (mem t)"
proof (cases "dropWhile (\<lambda>b. \<not> fits sz b) bs")
  case Nil
  then have none: "\<forall>b \<in> set bs. \<not> fits sz b" by (simp add: dropWhile_fits_Nil)
  with room have space: "unat (curr_addr s) + 4 * (unat sz + 16) \<le> 2147483648"
    by (auto simp: heap_room_def)
  obtain t where t: "malloc sz s = Inr (curr_addr s + 16, t)"
    "heap_inv base t (bs @ [Block (curr_addr s) sz False])" "heap_only s t"
    and out: "\<forall>x. x \<notin> span (curr_addr s) 16 \<and> (bs \<noteq> [] \<longrightarrow> x \<notin> hdr_span (last bs)) \<longrightarrow> mem t x = mem s x"
    using malloc_fresh [OF inv none space] by blast
  have ld: "laid (fst base) bs (unat (curr_addr s))" and hi: "unat (curr_addr s) \<le> 2147483648"
    using inv by (simp_all add: heap_inv_def)
  have "mem t x = mem s x" if b: "b \<in> set bs" and x: "x \<in> payload b" for b x
  proof -
    have bb: "bend b \<le> unat (curr_addr s)" using laid_in [OF ld b] by simp
    have "apart (b_addr b) (16 + unat (b_size b)) (curr_addr s) 16"
      by (rule apart_below) (use bb hi in \<open>simp_all add: bend_def\<close>)
    then have "x \<notin> span (curr_addr s) 16"
      using x payload_extent [of b] bb hi apart_disjoint unfolding extent_def by force
    moreover have "bs \<noteq> [] \<Longrightarrow> x \<notin> hdr_span (last bs)"
      using payload_hdrs [OF ld _ b] hi x by (force simp: hdrs_def)
    ultimately show ?thesis using out by blast
  qed
  with t show ?thesis unfolding a_malloc_def Nil same_live_def by auto
next
  case (Cons b ys)
  note at = list_at_fit [OF Cons]
  obtain t where t: "malloc sz s = Inr (b_addr b + 16, t)"
    "heap_inv base t (takeWhile (\<lambda>b. \<not> fits sz b) bs @ a_split sz b @ ys)" "heap_only s t"
    and out: "\<forall>x. x \<notin> extent b \<longrightarrow> mem t x = mem s x"
    using malloc_reuse [OF inv Cons] by blast
  have ld: "laid (fst base) (takeWhile (\<lambda>b. \<not> fits sz b) bs @ b # ys) (unat (curr_addr s))"
    and hi: "unat (curr_addr s) \<le> 2147483648"
    using inv at(1) by (simp_all add: heap_inv_def)
  have "mem t x = mem s x" if c: "c \<in> set bs" "\<not> b_free c" and x: "x \<in> payload c" for c x
  proof -
    have "c \<noteq> b" using at(2) c by (auto simp: fits_def)
    then have c': "c \<in> set (takeWhile (\<lambda>b. \<not> fits sz b) bs) \<union> set ys" using c(1) at(1)
      by (metis UnCI UnE set_ConsD set_append)
    have "extent b \<inter> extent c = {}" by (rule laid_extents [OF ld _ c']) (use hi in simp)
    moreover have "bend c \<le> 4294967296"
      using laid_in [OF ld, of c] c' hi by auto
    ultimately show ?thesis using out payload_extent [of c] x by blast
  qed
  with t show ?thesis unfolding a_malloc_def Cons same_live_def by auto
qed

text \<open>The areas in use after an allocation and after a release.\<close>

lemma live_append: "live (xs @ ys) = live xs \<union> live ys"
  by (auto simp: live_def)

lemma live_Cons: "live (b # bs) = (if b_free b \<or> is_wall b then live bs else insert (b_addr b + 16, b_size b) (live bs))"
  by (auto simp: live_def)

lemma live_Nil [simp]: "live [] = {}"
  by (simp add: live_def)

lemma live_a_merge [simp]: "live (a_merge bs) = live bs"
  by (induction bs rule: a_merge.induct) (auto simp: live_Cons)

lemma live_a_split: "b_free b \<Longrightarrow> \<exists>k. live (a_split sz b) = {(b_addr b + 16, k)} \<and> (sz \<le> b_size b \<longrightarrow> sz \<le> k)"
  by (auto simp: a_split_def live_Cons)

lemma live_a_malloc:
  "\<exists>k. live (snd (a_malloc sz brk bs)) = insert (fst (a_malloc sz brk bs), k) (live bs) \<and> sz \<le> k"
proof (cases "dropWhile (\<lambda>b. \<not> fits sz b) bs")
  case Nil
  show ?thesis unfolding a_malloc_def Nil by (auto simp: live_append live_Cons)
next
  case (Cons b ys)
  note at = list_at_fit [OF Cons]
  have free: "b_free b" "sz \<le> b_size b" using at(2) by (auto simp: fits_def)
  obtain k where k: "live (a_split sz b) = {(b_addr b + 16, k)}" "sz \<le> k"
    using live_a_split [OF free(1)] free(2) by blast
  have "live bs = live (takeWhile (\<lambda>b. \<not> fits sz b) bs) \<union> live ys"
    by (subst at(1)) (simp add: live_append live_Cons free)
  then show ?thesis unfolding a_malloc_def Cons by (auto simp: live_append k intro!: exI [of _ k])
qed

lemma live_a_free:
  assumes "laid lo bs hi" and "b \<in> set bs" and "\<not> b_free b" and "\<not> is_wall b"
  shows "live (a_free (b_addr b + 16) bs) = live bs - {(b_addr b + 16, b_size b)}"
proof -
  obtain xs ys where bs: "bs = xs @ b # ys" using assms(2) by (auto simp: in_set_conv_decomp)
  have d: "\<forall>c \<in> set xs \<union> set ys. b_addr c \<noteq> b_addr b"
    using laid_distinct [of lo xs b ys hi] assms(1) bs by blast
  have "(b_addr b + 16, k) \<notin> live xs \<union> live ys" for k
    using d by (auto simp: live_def)
  then show ?thesis
    using mark_free_split [of lo xs b ys hi] assms(1,3,4)
    by (auto simp: a_free_def bs live_append live_Cons)
qed

lemma live_apart:
  assumes ld: "laid lo bs hi" and hi: "hi \<le> 4294967296"
    and p: "(p, k) \<in> live bs" and q: "(q, l) \<in> live bs" and ne: "(p, k) \<noteq> (q, l)"
  shows "span p (unat k) \<inter> span q (unat l) = {}"
proof -
  obtain b where b: "b \<in> set bs" "p = b_addr b + 16" "k = b_size b" using p by (auto simp: live_def)
  obtain c where c: "c \<in> set bs" "q = b_addr c + 16" "l = b_size c" using q by (auto simp: live_def)
  obtain xs ys where bs: "bs = xs @ b # ys" using b(1) by (auto simp: in_set_conv_decomp)
  have "c \<in> set xs \<union> set ys" using bs c ne b by auto
  then have "extent b \<inter> extent c = {}" using laid_extents [of lo xs b ys hi c] ld hi bs by simp
  moreover have "bend b \<le> 4294967296" "bend c \<le> 4294967296"
    using laid_in [OF ld b(1)] laid_in [OF ld c(1)] hi by simp_all
  ultimately show ?thesis
    using payload_extent [of b] payload_extent [of c] b c by (auto simp: payload_def)
qed

text \<open>Clients may write into the areas in use: the list of blocks does not see it.\<close>

lemma heap_inv_write:
  assumes inv: "heap_inv base s bs" and p: "(p, k) \<in> live bs"
    and out: "\<And>x. x \<notin> span p (unat k) \<Longrightarrow> m x = mem s x"
  shows "heap_inv base (s\<lparr>mem := m\<rparr>) bs"
proof -
  obtain b where b: "b \<in> set bs" "p = b_addr b + 16" "k = b_size b" using p by (auto simp: live_def)
  have sg: "seg (mem s) (frist_hh s) bs 0" and ld: "laid (fst base) bs (unat (curr_addr s))"
    and hi: "unat (curr_addr s) \<le> 2147483648"
    using inv by (simp_all add: heap_inv_def)
  have "seg m (frist_hh s) bs 0"
  proof (rule seg_frame [OF sg])
    fix c x assume c: "c \<in> set bs" "x \<in> hdr_span c"
    have "payload b \<inter> hdrs bs = {}" by (rule payload_hdrs [OF ld _ b(1)]) (use hi in simp)
    then have "x \<notin> payload b" using c by (auto simp: hdrs_def)
    then show "m x = mem s x" using out b by (simp add: payload_def)
  qed
  then show ?thesis using inv by (simp add: heap_inv_def)
qed

section \<open>The allocator as an interface\<close>

text \<open>
  What a client of the heap may rely on. \<open>h\<close> is the state of the allocator as the client does not
  see it, \<open>live h\<close> the areas in use. An allocation adds one area of at least the size asked for;
  two areas in use do not meet; a release takes one area away; neither changes a byte of another
  area in use; a client may write into its own.
\<close>

locale allocator =
  fixes inv :: "'s \<Rightarrow> 'h \<Rightarrow> bool"
    and areas :: "'h \<Rightarrow> (u32 \<times> u32) set"
    and room :: "u32 \<Rightarrow> 's \<Rightarrow> 'h \<Rightarrow> bool"
    and alloc :: "u32 \<Rightarrow> 's \<Rightarrow> (u32, 's) run"
    and release :: "u32 \<Rightarrow> 's \<Rightarrow> (unit, 's) run"
    and get :: "'s \<Rightarrow> memory"
    and put :: "memory \<Rightarrow> 's \<Rightarrow> 's"
  assumes get_put: "get (put m s) = m"
    and alloc_ok: "inv s h \<Longrightarrow> room n s h \<Longrightarrow> \<exists>p k t h'. alloc n s = Inr (p, t) \<and> inv t h' \<and> n \<le> k
      \<and> areas h' = insert (p, k) (areas h) \<and> (p, k) \<notin> areas h
      \<and> (\<forall>(q, l) \<in> areas h. \<forall>x \<in> span q (unat l). get t x = get s x)"
    and areas_apart: "inv s h \<Longrightarrow> (p, k) \<in> areas h \<Longrightarrow> (q, l) \<in> areas h \<Longrightarrow> (p, k) \<noteq> (q, l) \<Longrightarrow>
      span p (unat k) \<inter> span q (unat l) = {}"
    and release_ok: "inv s h \<Longrightarrow> (p, k) \<in> areas h \<Longrightarrow> \<exists>t h'. release p s = Inr ((), t) \<and> inv t h'
      \<and> areas h' = areas h - {(p, k)}
      \<and> (\<forall>(q, l) \<in> areas h'. \<forall>x \<in> span q (unat l). get t x = get s x)"
    and write_ok: "inv s h \<Longrightarrow> (p, k) \<in> areas h \<Longrightarrow>
      (\<And>x. x \<notin> span p (unat k) \<Longrightarrow> m x = get s x) \<Longrightarrow> inv (put m s) h"
begin

lemma alloc_apart:
  assumes "inv s h" and "room n s h"
  shows "\<exists>p k t h'. alloc n s = Inr (p, t) \<and> inv t h' \<and> n \<le> k
    \<and> areas h' = insert (p, k) (areas h) \<and> (p, k) \<notin> areas h
    \<and> (\<forall>(q, l) \<in> areas h. span p (unat k) \<inter> span q (unat l) = {})
    \<and> (\<forall>(q, l) \<in> areas h. \<forall>x \<in> span q (unat l). get t x = get s x)"
proof -
  obtain p k t h' where *: "alloc n s = Inr (p, t)" "inv t h'" "n \<le> k"
      "areas h' = insert (p, k) (areas h)" "(p, k) \<notin> areas h"
      "\<forall>(q, l) \<in> areas h. \<forall>x \<in> span q (unat l). get t x = get s x"
    using alloc_ok [OF assms] by blast
  have "span p (unat k) \<inter> span q (unat l) = {}" if "(q, l) \<in> areas h" for q l
    by (rule areas_apart [OF *(2)]) (use * that in auto)
  then have "\<forall>(q, l) \<in> areas h. span p (unat k) \<inter> span q (unat l) = {}" by blast
  with * show ?thesis
    by - (rule exI [of _ p], rule exI [of _ k], rule exI [of _ t], rule exI [of _ h'], auto)
qed

text \<open>Allocate, copy the old area over, release it: what is left of the data is in the new one.\<close>

lemma move_area:
  assumes inv: "inv s h" and room: "room n s h" and q: "(q, l) \<in> areas h"
    and copy: "\<And>p m. (\<And>x. x \<notin> span p (unat n) \<Longrightarrow> cp p m x = m x)"
    and data: "\<And>p m i. span p (unat n) \<inter> span q (unat l) = {} \<Longrightarrow> i < min (unat n) (unat l) \<Longrightarrow>
      cp p m (p + of_nat i) = m (q + of_nat i)"
  shows "\<exists>p k t h'. and_then (alloc n s) (\<lambda>p s1. and_then (release q (put (cp p (get s1)) s1))
      (\<lambda>_ s2. Inr (p, s2))) = Inr (p, t) \<and> inv t h' \<and> n \<le> k
    \<and> areas h' = insert (p, k) (areas h - {(q, l)})
    \<and> (\<forall>i < min (unat n) (unat l). get t (p + of_nat i) = get s (q + of_nat i))
    \<and> (\<forall>(r, j) \<in> areas h - {(q, l)}. \<forall>x \<in> span r (unat j). get t x = get s x)"
proof -
  obtain p k s1 h1 where A: "alloc n s = Inr (p, s1)" "inv s1 h1" "n \<le> k"
      "areas h1 = insert (p, k) (areas h)" "(p, k) \<notin> areas h"
    and apart: "\<forall>(q, l) \<in> areas h. span p (unat k) \<inter> span q (unat l) = {}"
    and same1: "\<forall>(q, l) \<in> areas h. \<forall>x \<in> span q (unat l). get s1 x = get s x"
    using alloc_apart [OF inv room] by (elim exE conjE)
  define s2 where "s2 = put (cp p (get s1)) s1"
  have nk: "span p (unat n) \<subseteq> span p (unat k)" using A(3) by (simp add: span_mono u32_le_unat)
  have inv2: "inv s2 h1" unfolding s2_def
    by (rule write_ok [OF A(2), of p k]) (use A(4) in simp, rule copy, use nk in blast)
  obtain t h' where B: "release q s2 = Inr ((), t)" "inv t h'" "areas h' = areas h1 - {(q, l)}"
    and same2: "\<forall>(r, j) \<in> areas h'. \<forall>x \<in> span r (unat j). get t x = get s2 x"
    using release_ok [OF inv2, of q l] A(4) q by auto
  have h': "areas h' = insert (p, k) (areas h - {(q, l)})" using B(3) A(4,5) q by auto
  have s2: "get s2 = cp p (get s1)" by (simp add: s2_def get_put)
  have moved: "get t (p + of_nat i) = get s (q + of_nat i)" if i: "i < min (unat n) (unat l)" for i
  proof -
    have in_p: "p + of_nat i \<in> span p (unat n)" and in_q: "q + of_nat i \<in> span q (unat l)"
      using i u32_bound [of n] by (simp_all add: span_add_of_nat)
    have "get t (p + of_nat i) = cp p (get s1) (p + of_nat i)"
      using same2 h' in_p nk s2 by auto
    also have "\<dots> = get s1 (q + of_nat i)"
    proof (rule data [OF _ i])
      have "span p (unat k) \<inter> span q (unat l) = {}" using apart q by blast
      then show "span p (unat n) \<inter> span q (unat l) = {}" using nk by blast
    qed
    also have "\<dots> = get s (q + of_nat i)" using same1 q in_q by auto
    finally show ?thesis .
  qed
  have rest: "get t x = get s x" if r: "(r, j) \<in> areas h - {(q, l)}" "x \<in> span r (unat j)" for r j x
  proof -
    have "(r, j) \<in> areas h'" using h' r(1) by blast
    then have "get t x = cp p (get s1) x" using same2 r(2) s2 by auto
    also have "\<dots> = get s1 x"
    proof (rule copy)
      have "span p (unat k) \<inter> span r (unat j) = {}" using apart r(1) by blast
      then show "x \<notin> span p (unat n)" using nk r(2) by blast
    qed
    also have "\<dots> = get s x" using same1 r by auto
    finally show ?thesis .
  qed
  have "and_then (alloc n s) (\<lambda>p s1. and_then (release q (put (cp p (get s1)) s1))
      (\<lambda>_ s2. Inr (p, s2))) = Inr (p, t)"
    using A(1) B(1) by (simp add: s2_def)
  moreover have "\<forall>i < min (unat n) (unat l). get t (p + of_nat i) = get s (q + of_nat i)"
    using moved by blast
  moreover have "\<forall>(r, j) \<in> areas h - {(q, l)}. \<forall>x \<in> span r (unat j). get t x = get s x"
    using rest by blast
  ultimately show ?thesis using A(3) B(2) h' by blast
qed

end

lemma same_live_areas:
  "same_live bs m m' \<Longrightarrow> (q, l) \<in> live bs \<Longrightarrow> x \<in> span q (unat l) \<Longrightarrow> m' x = m x"
  by (auto simp: same_live_def live_def payload_def)

lemma live_fresh:
  assumes "heap_inv base s bs" and "heap_room sz s bs"
  shows "(fst (a_malloc sz (curr_addr s) bs), k) \<notin> live bs"
proof (cases "dropWhile (\<lambda>b. \<not> fits sz b) bs")
  case Nil
  have ld: "laid (fst base) bs (unat (curr_addr s))" using assms(1) by (simp add: heap_inv_def)
  have "\<forall>b \<in> set bs. b_addr b \<noteq> curr_addr s"
    using laid_in [OF ld] by (force simp: bend_def)
  then show ?thesis unfolding a_malloc_def Nil by (force simp: live_def)
next
  case (Cons b ys)
  note at = list_at_fit [OF Cons]
  have ld: "laid (fst base) (takeWhile (\<lambda>b. \<not> fits sz b) bs @ b # ys) (unat (curr_addr s))"
    using assms(1) at(1) by (simp add: heap_inv_def)
  have "\<forall>c \<in> set bs. c = b \<or> b_addr c \<noteq> b_addr b"
    using laid_distinct [OF ld] at(1) by (metis UnCI UnE set_ConsD set_append)
  moreover have "b_free b" using at(2) by (simp add: fits_def)
  ultimately show ?thesis unfolding a_malloc_def Cons by (fastforce simp: live_def)
qed

interpretation kh: allocator "heap_inv base" live heap_room malloc free mem "\<lambda>m s. s\<lparr>mem := m\<rparr>"
  for base
proof unfold_locales
  fix s :: "'a kheap_scheme" and h n
  assume inv: "heap_inv base s h" and room: "heap_room n s h"
  obtain t where t: "malloc n s = Inr (fst (a_malloc n (curr_addr s) h), t)"
    "heap_inv base t (snd (a_malloc n (curr_addr s) h))" "same_live h (mem s) (mem t)"
    using malloc_step [OF inv room] by blast
  obtain k where "live (snd (a_malloc n (curr_addr s) h)) =
      insert (fst (a_malloc n (curr_addr s) h), k) (live h)" "n \<le> k"
    using live_a_malloc by blast
  then show "\<exists>p k t h'. malloc n s = Inr (p, t) \<and> heap_inv base t h' \<and> n \<le> k
      \<and> live h' = insert (p, k) (live h) \<and> (p, k) \<notin> live h
      \<and> (\<forall>(q, l) \<in> live h. \<forall>x \<in> span q (unat l). mem t x = mem s x)"
    using t live_fresh [OF inv room] same_live_areas [OF t(3)]
    by - (rule exI [of _ "fst (a_malloc n (curr_addr s) h)"], rule exI [of _ k], rule exI [of _ t],
        rule exI [of _ "snd (a_malloc n (curr_addr s) h)"], auto)
next
  fix s :: "'a kheap_scheme" and h p k q l
  assume "heap_inv base s h" "(p, k) \<in> live h" "(q, l) \<in> live h" "(p, k) \<noteq> (q, l)"
  then show "span p (unat k) \<inter> span q (unat l) = {}"
    using live_apart [of "fst base" h "unat (curr_addr s)" p k q l] by (simp add: heap_inv_def)
next
  fix s :: "'a kheap_scheme" and h p k
  assume inv: "heap_inv base s h" and "(p, k) \<in> live h"
  then obtain b where b: "b \<in> set h" "\<not> b_free b" "\<not> is_wall b" "p = b_addr b + 16" "k = b_size b"
    by (auto simp: live_def)
  have ld: "laid (fst base) h (unat (curr_addr s))" and hi: "unat (curr_addr s) \<le> 2147483648"
    using inv by (simp_all add: heap_inv_def)
  obtain t where t: "free p s = Inr ((), t)" "heap_inv base t (a_free p h)"
    and out: "\<forall>x. x \<notin> hdrs h \<longrightarrow> mem t x = mem s x"
    using free_refines [OF inv b(1-3)] b(4) by blast
  have lv: "live (a_free p h) = live h - {(p, k)}" using live_a_free [OF ld b(1-3)] b(4,5) by simp
  have "mem t x = mem s x" if q: "(q, l) \<in> live h" and x: "x \<in> span q (unat l)" for q l x
  proof -
    obtain c where "c \<in> set h" "q = b_addr c + 16" "l = b_size c"
      using q by (auto simp: live_def)
    moreover from this have "x \<in> payload c" using x by (simp add: payload_def)
    ultimately show ?thesis using payload_hdrs [OF ld, of c] hi out by auto
  qed
  with t lv show "\<exists>t h'. free p s = Inr ((), t) \<and> heap_inv base t h' \<and> live h' = live h - {(p, k)}
      \<and> (\<forall>(q, l) \<in> live h'. \<forall>x \<in> span q (unat l). mem t x = mem s x)"
    by - (rule exI [of _ t], rule exI [of _ "a_free p h"], auto)
qed (simp_all add: heap_inv_write)

section \<open>Neighbours, and giving back what was just taken\<close>

text \<open>After a \<open>free\<close> no two neighbouring blocks are free.\<close>

fun merged :: "block list \<Rightarrow> bool" where
  "merged (b # c # bs) \<longleftrightarrow> \<not> (b_free b \<and> b_free c) \<and> merged (c # bs)"
| "merged _ \<longleftrightarrow> True"

lemma hd_a_merge: "b_free (hd (a_merge (b # bs))) = b_free b"
  by (induction "b # bs" arbitrary: b bs rule: a_merge.induct) auto

lemma merged_Cons: "merged (b # bs) \<longleftrightarrow> (bs \<noteq> [] \<longrightarrow> \<not> (b_free b \<and> b_free (hd bs))) \<and> merged bs"
  by (cases bs) auto

lemma merged_a_merge: "merged (a_merge bs)"
  by (induction bs rule: a_merge.induct) (auto simp: merged_Cons hd_a_merge)

lemma a_merge_id: "merged bs \<Longrightarrow> a_merge bs = bs"
  by (induction bs rule: merged.induct) auto

lemma merged_append: "merged (xs @ ys) \<longleftrightarrow> merged xs \<and> merged ys
    \<and> (xs \<noteq> [] \<and> ys \<noteq> [] \<longrightarrow> \<not> (b_free (last xs) \<and> b_free (hd ys)))"
  by (induction xs) (auto simp: merged_Cons hd_append)

lemma a_merge_prefix:
  "merged (xs @ [b]) \<Longrightarrow> b_free b \<Longrightarrow> a_merge (xs @ b # ys) = xs @ a_merge (b # ys)"
proof (induction xs)
  case (Cons x xs)
  then show ?case by (cases xs) auto
qed simp

lemma a_free_split:
  assumes ld: "laid lo (xs @ b # ys) hi" and hi: "hi \<le> 2147483648"
    and m: "merged (xs @ b # ys)" and fit: "fits sz b" and ld': "laid lo (xs @ a_split sz b @ ys) hi"
  shows "a_free (b_addr b + 16) (xs @ a_split sz b @ ys) = xs @ b # ys"
proof -
  have free: "b_free b" using fit by (simp add: fits_def)
  obtain c cs where c: "a_split sz b = c # cs" "b_addr c = b_addr b"
    by (cases "unat sz + 16 < unat (b_size b)") (auto simp: a_split_def)
  have mx: "merged (xs @ [d])" if "b_free d" for d
    using m free that by (auto simp: merged_append merged_Cons)
  have mb: "merged (b # ys)" using m by (simp add: merged_append)
  have "mark_free (b_addr b) (xs @ c # cs @ ys) = xs @ Block (b_addr b) (b_size c) True # cs @ ys"
    using mark_free_split [of lo xs c "cs @ ys" hi] ld' c by simp
  moreover have "a_merge (Block (b_addr b) (b_size c) True # cs @ ys) = b # ys"
  proof (cases "unat sz + 16 < unat (b_size b)")
    case True
    then have cs: "b_size c = sz" "cs = [Block (b_addr b + 16 + sz) (b_size b - sz - 16) True]"
      using c by (auto simp: a_split_def)
    have "Block (b_addr b) (sz + (b_size b - sz - 16 + 16)) True = b"
      using free by (cases b) auto
    then show ?thesis using cs a_merge_id [OF mb] by simp
  next
    case False
    then have "c = Block (b_addr b) (b_size b) False" "cs = []" using c by (auto simp: a_split_def)
    then show ?thesis using free a_merge_id [OF mb] by (cases b) auto
  qed
  ultimately show ?thesis
    using a_merge_prefix [OF mx, of "Block (b_addr b) (b_size c) True" "cs @ ys"]
    by (simp add: a_free_def c)
qed

section \<open>Properties\<close>

text \<open>Two concrete heaps: one that has no block yet, and one with a single block of 64 bytes.\<close>

definition fresh_heap :: kheap where
  "fresh_heap = \<lparr>mem = (\<lambda>_. 0), io_log = [], in8 = (\<lambda>_ _. 0), in16 = (\<lambda>_ _. 0),
     term_row = 0, term_column = 0, term_color = 7,
     curr_addr = 0x200000, max_page_addr = 0x210000, frist_hh = 0, last_hh = 0\<rparr>"

definition one_block :: "bool \<Rightarrow> kheap" where
  "one_block f = fresh_heap\<lparr>curr_addr := 0x200140, frist_hh := 0x200000, last_hh := 0x200000,
     mem := put_header 0x200000 \<lparr>magic_number = MAGIC_KHEAP, hdr_size = 64,
       hdr_freed = (if f then 1 else 0), hdr_next = 0\<rparr> (\<lambda>_. 0)\<rparr>"

lemma fresh_heap_inv: "heap_inv (1, {}) fresh_heap []"
  by (simp add: heap_inv_def fresh_heap_def)

lemma fresh_heap_room: "heap_room 64 fresh_heap []"
  by (simp add: heap_room_def fresh_heap_def)

lemma one_block_inv: "heap_inv (1, {}) (one_block f) [Block 0x200000 64 f]"
  using load_put_header [where a = "0x200000", simplified]
  by (simp add: heap_inv_def one_block_def fresh_heap_def header_at_def bend_def)

lemma one_block_room: "heap_room 64 (one_block f) [Block 0x200000 64 f]"
  by (simp add: heap_room_def one_block_def fresh_heap_def)

lemma one_block_live: "(0x200010, 64) \<in> live [Block 0x200000 64 False]"
  by (simp add: live_Cons)

text \<open>
  C4. \<open>malloc\<close> refines first fit with splitting: on a well-formed heap with room it returns the
  address the abstract allocator chooses, leaves a well-formed heap for the abstract result, and
  changes nothing but memory and the allocator's own pointers.
\<close>

theorem malloc_refines:
  assumes "heap_inv base s bs" and "heap_room sz s bs"
  shows "\<exists>t. malloc sz s = Inr (fst (a_malloc sz (curr_addr s) bs), t)
    \<and> heap_inv base t (snd (a_malloc sz (curr_addr s) bs)) \<and> heap_only s t"
  using malloc_step [OF assms] by blast

lemma malloc_refines_witness:
  "\<exists>t. malloc 64 fresh_heap = Inr (0x200010, t) \<and> heap_inv (1, {}) t [Block 0x200000 64 False]"
  using malloc_refines [OF fresh_heap_inv fresh_heap_room]
  by (auto simp: a_malloc_def fresh_heap_def)

text \<open>
  C5. \<open>free\<close> of an area in use refines the abstract release: the block is marked free, every run
  of neighbouring free blocks becomes one block, the list in memory stays well formed with
  \<open>last_hh\<close> at its end, and no byte outside the headers changes.
\<close>

theorem free_refines_release:
  assumes "heap_inv base s bs" and "b \<in> set bs" and "\<not> b_free b" and "\<not> is_wall b"
  shows "\<exists>t. free (b_addr b + 16) s = Inr ((), t)
    \<and> heap_inv base t (a_free (b_addr b + 16) bs) \<and> merged (a_free (b_addr b + 16) bs)
    \<and> heap_only s t \<and> (\<forall>x. x \<notin> hdrs bs \<longrightarrow> mem t x = mem s x)"
  using free_refines [OF assms] merged_a_merge by (auto simp: a_free_def)

lemma free_refines_release_witness:
  "\<exists>t. free 0x200010 (one_block False) = Inr ((), t) \<and> heap_inv (1, {}) t [Block 0x200000 64 True]"
  using free_refines_release [OF one_block_inv, of "Block 0x200000 64 False"]
  by (auto simp: a_free_def mark_free_def)

text \<open>
  C8. An area \<open>malloc\<close> returns has at least the size asked for, meets no area in use, and the
  contents of every area in use are what they were.
\<close>

theorem malloc_isolated:
  assumes "heap_inv base s bs" and "heap_room n s bs"
  shows "\<exists>p k t bs'. malloc n s = Inr (p, t) \<and> heap_inv base t bs' \<and> n \<le> k
    \<and> live bs' = insert (p, k) (live bs) \<and> (p, k) \<notin> live bs
    \<and> (\<forall>(q, l) \<in> live bs. span p (unat k) \<inter> span q (unat l) = {})
    \<and> (\<forall>(q, l) \<in> live bs. \<forall>x \<in> span q (unat l). mem t x = mem s x)"
  by (rule kh.alloc_apart [OF assms])

lemma malloc_isolated_witness:
  "\<exists>p (k :: u32) t. malloc 64 (one_block False) = Inr (p, t) \<and> 64 \<le> k
    \<and> span p (unat k) \<inter> span 0x200010 64 = {}"
proof -
  obtain p t and k :: u32 where "malloc 64 (one_block False) = Inr (p, t)" "64 \<le> k"
    "\<forall>(q, l) \<in> live [Block 0x200000 64 False]. span p (unat k) \<inter> span q (unat l) = {}"
    using malloc_isolated [OF one_block_inv [of False] one_block_room [of False]]
    by (elim exE conjE) (rule that)
  then show ?thesis using one_block_live by force
qed

text \<open>
  C17. \<open>realloc\<close> of an area in use returns an area of at least the new size that starts with the
  old contents, up to the smaller of the two sizes; the old area is given back and every other
  area in use keeps its contents.
\<close>

theorem realloc_moves:
  assumes "heap_inv base s bs" and "heap_room n s bs" and "(q, l) \<in> live bs"
  shows "\<exists>p k t bs'. realloc q n s = Inr (p, t) \<and> heap_inv base t bs' \<and> n \<le> k
    \<and> live bs' = insert (p, k) (live bs - {(q, l)})
    \<and> (\<forall>i < min (unat n) (unat l). mem t (p + of_nat i) = mem s (q + of_nat i))
    \<and> (\<forall>(r, j) \<in> live bs - {(q, l)}. \<forall>x \<in> span r (unat j). mem t x = mem s x)"
  unfolding realloc_def
proof (rule kh.move_area [OF assms])
  fix p m i
  assume apart: "span p (unat n) \<inter> span q (unat l) = {}" and i: "i < min (unat n) (unat l)"
  have "q + of_nat j \<notin> span p (unat n)" if "j < min (unat n) (unat l)" for j
    using apart span_add_of_nat [of j "unat l" q] that u32_bound [of l] by auto
  then show "memcpy p q n m (p + of_nat i) = m (q + of_nat i)"
    by (rule memcpy_prefix [where k = "min (unat n) (unat l)"]) (use i in simp_all)
qed (rule memcpy_outside)

lemma realloc_moves_witness:
  "\<exists>p k t bs'. realloc 0x200010 64 (one_block False) = Inr (p, t) \<and> 64 \<le> k
    \<and> live bs' = {(p, k)} \<and> (\<forall>i < 64. mem t (p + of_nat i) = mem (one_block False) (0x200010 + of_nat i))"
  using realloc_moves [OF one_block_inv one_block_room one_block_live] by (simp add: live_Cons) blast

text \<open>
  C18. Taking an area from a free block and giving it back restores the heap: when no two
  neighbours are free and some free block fits, \<open>free\<close> after \<open>malloc\<close> leaves the same blocks.
\<close>

theorem malloc_free_restores:
  assumes inv: "heap_inv base s bs" and m: "merged bs" and fit: "\<exists>b \<in> set bs. fits sz b"
  shows "\<exists>p s1 t. malloc sz s = Inr (p, s1) \<and> free p s1 = Inr ((), t) \<and> heap_inv base t bs"
proof -
  obtain b ys where d: "dropWhile (\<lambda>b. \<not> fits sz b) bs = b # ys"
    using fit dropWhile_fits_Nil [of sz bs] by (metis neq_Nil_conv)
  define xs where "xs = takeWhile (\<lambda>b. \<not> fits sz b) bs"
  note at = list_at_fit [OF d, folded xs_def]
  obtain s1 where s1: "malloc sz s = Inr (b_addr b + 16, s1)" "heap_inv base s1 (xs @ a_split sz b @ ys)"
    unfolding xs_def using malloc_reuse [OF inv d] by blast
  define c where "c = hd (a_split sz b)"
  have c: "c \<in> set (a_split sz b)" "\<not> b_free c" "\<not> is_wall c" "b_addr c = b_addr b"
    by (simp_all add: c_def a_split_def)
  obtain t where t: "free (b_addr b + 16) s1 = Inr ((), t)"
    "heap_inv base t (a_free (b_addr b + 16) (xs @ a_split sz b @ ys))"
    using free_refines [OF s1(2), of c] c by auto
  have "curr_addr s1 = curr_addr s" using malloc_reuse [OF inv d] s1(1) by auto
  then have "a_free (b_addr b + 16) (xs @ a_split sz b @ ys) = xs @ b # ys"
    using a_free_split [of "fst base" xs b ys "unat (curr_addr s)" sz] inv m at s1(2) by (auto simp: heap_inv_def)
  with s1(1) t at(1) show ?thesis by auto
qed

lemma malloc_free_restores_witness:
  "\<exists>p s1 t. malloc 16 (one_block True) = Inr (p, s1) \<and> free p s1 = Inr ((), t)
    \<and> heap_inv (1, {}) t [Block 0x200000 64 True]"
  by (rule malloc_free_restores [OF one_block_inv]) (simp_all add: fits_def)

text \<open>
  \<open>free\<close> of a pointer that has no header in front of it touches nothing of the heap: it
  reports on the screen and returns.
\<close>

theorem free_foreign_reports:
  assumes "magic_at s (p - sizeof_header) \<noteq> MAGIC_KHEAP" and "term_ok s"
  shows "\<exists>t. free p s = Inr ((), t) \<and> term_only s t"
proof -
  define w where "w = magic_at s (p - sizeof_header)"
  have "\<exists>cs. fmt_render (lit ''free(...): magic number mismatch (%x != %x)'') [VWord w, VWord MAGIC_KHEAP]
      = Some cs"
    by (simp add: lit_def)
  then obtain t where t: "free p s = Inr ((), t)"
    using assms(1) by (auto simp: free_def Let_def yell_def term_printf_def vprintf_render w_def)
  have "run_effect term_effect s (free p s)"
    using assms(1) yell_effect by (simp add: free_def Let_def)
  with t assms(2) show ?thesis by (simp add: term_effect_def)
qed

lemma free_foreign_reports_witness:
  "\<exists>t. free 0x5000 fresh_heap = Inr ((), t) \<and> term_only fresh_heap t"
  by (rule free_foreign_reports)
    (simp_all add: fresh_heap_def MAGIC_KHEAP_def load32_def term_ok_def vga_consts)

end
