(* ===== verification/Device.thy ===== *)
theory Device
  imports Interrupts KHeap_Spec
begin

text \<open>
  File-system nodes as objects in memory (\<^verbatim>\<open>struct vfs_t\<close> of \<^verbatim>\<open>src/fs/vfs.h\<close>, 88 bytes) and the table
  of devices (\<^verbatim>\<open>src/kernel/device.c\<close>), an array of 64 nodes in the kernel heap. A callback is the
  address of a function of the kernel, 0 for none. What \<open>vfs_node_new\<close> leaves uninitialised on the
  stack, the bytes of the name behind its first, is an argument.
\<close>

section \<open>Nodes\<close>

record Vfs_t =
  vn_name :: "u8 list"
  vn_flag :: u32
  vn_read :: u32
  vn_write :: u32
  vn_open :: u32
  vn_close :: u32
  vn_read_dir :: u32
  vn_find_dir :: u32
  vn_master :: u32

datatype VfsFlag = VFS_INVALID | VFS_FILE | VFS_DIRECTORY | VFS_CHAR_DEV | VFS_BLOCK_DEV
  | VFS_PIPE | VFS_SYMLINK | VFS_MOUNTPOINT | VFS_FILESYSTEM

fun flag_value :: "VfsFlag \<Rightarrow> u32" where
  "flag_value VFS_INVALID = 0"
| "flag_value VFS_FILE = 1"
| "flag_value VFS_DIRECTORY = 2"
| "flag_value VFS_CHAR_DEV = 3"
| "flag_value VFS_BLOCK_DEV = 4"
| "flag_value VFS_PIPE = 5"
| "flag_value VFS_SYMLINK = 6"
| "flag_value VFS_MOUNTPOINT = 8"
| "flag_value VFS_FILESYSTEM = 16"

definition VFS_NAME_MAX :: nat where "VFS_NAME_MAX = 55"
definition sizeof_vfs :: u32 where "sizeof_vfs = 88"

text \<open>A byte array in memory.\<close>

definition put_bytes :: "u32 \<Rightarrow> u8 list \<Rightarrow> memory \<Rightarrow> memory" where
  "put_bytes a bs m = (\<lambda>x. if x \<in> span a (length bs) then bs ! unat (x - a) else m x)"

definition get_bytes :: "memory \<Rightarrow> u32 \<Rightarrow> nat \<Rightarrow> u8 list" where
  "get_bytes m a n = map (\<lambda>i. m (a + of_nat i)) [0..<n]"

definition put_vfs :: "u32 \<Rightarrow> Vfs_t \<Rightarrow> memory \<Rightarrow> memory" where
  "put_vfs a v m =
     store32 (a + 84) (vn_master v) (store32 (a + 80) (vn_find_dir v) (store32 (a + 76) (vn_read_dir v)
     (store32 (a + 72) (vn_close v) (store32 (a + 68) (vn_open v) (store32 (a + 64) (vn_write v)
     (store32 (a + 60) (vn_read v) (store32 (a + 56) (vn_flag v) (put_bytes a (vn_name v) m))))))))"

definition get_vfs :: "memory \<Rightarrow> u32 \<Rightarrow> Vfs_t" where
  "get_vfs m a = \<lparr>vn_name = get_bytes m a 55, vn_flag = load32 m (a + 56), vn_read = load32 m (a + 60),
     vn_write = load32 m (a + 64), vn_open = load32 m (a + 68), vn_close = load32 m (a + 72),
     vn_read_dir = load32 m (a + 76), vn_find_dir = load32 m (a + 80), vn_master = load32 m (a + 84)\<rparr>"

definition vfs_node_new :: "u8 list \<Rightarrow> Vfs_t" where
  "vfs_node_new stack = \<lparr>vn_name = stack[0 := 0], vn_flag = flag_value VFS_INVALID, vn_read = 0,
     vn_write = 0, vn_open = 0, vn_close = 0, vn_read_dir = 0, vn_find_dir = 0, vn_master = 0\<rparr>"

text \<open>\<open>memcpy\<close> of a literal into the name of a node on the stack.\<close>

definition copy_name :: "u8 list \<Rightarrow> Vfs_t \<Rightarrow> Vfs_t" where
  "copy_name bs v = v\<lparr>vn_name := bs @ drop (length bs) (vn_name v)\<rparr>"

section \<open>The table of devices\<close>

record devices = interrupts +
  m_devices :: u32
  m_devices_number :: u32

definition devices_init :: "'a devices_scheme \<Rightarrow> (unit, 'a devices_scheme) run" where
  "devices_init s =
     and_then (malloc (sizeof_vfs * 64) s)
       (\<lambda>p s1. Inr ((), s1\<lparr>m_devices := p, m_devices_number := 0\<rparr>))"

definition devices_at :: "u32 \<Rightarrow> 'a devices_scheme \<Rightarrow> u32" where
  "devices_at index s = m_devices s + sizeof_vfs * index"

definition devices_number :: "'a devices_scheme \<Rightarrow> u32" where
  "devices_number s = m_devices_number s"

text \<open>The name is printed from the copy on the stack; without a NUL in it the code reads on.\<close>

definition devices_add :: "Vfs_t \<Rightarrow> 'a devices_scheme \<Rightarrow> (u32, 'a devices_scheme) run" where
  "devices_add dev s =
     (let s1 = s\<lparr>mem := put_vfs (m_devices s + sizeof_vfs * m_devices_number s) dev (mem s)\<rparr>
      in if 0 \<notin> set (vn_name dev) then Inl Undefined
         else and_then
           (term_printf ''[DEVICES] Added new device %s, on index %x\<newline>''
              [VLit (takeWhile (\<lambda>c. c \<noteq> 0) (vn_name dev)), VWord (m_devices_number s1)] s1)
           (\<lambda>_ s2. Inr (m_devices_number s2, s2\<lparr>m_devices_number := m_devices_number s2 + 1\<rparr>)))"

section \<open>Nodes in memory\<close>

text \<open>Two fields of a node do not meet; the fields lie inside the node.\<close>

lemma node_fields_apart:
  assumes "unat i + 4 \<le> unat j \<or> unat j + 4 \<le> unat i" and "unat i < 88" and "unat j < 88"
  shows "apart (a + i) 4 (a + j) 4"
proof -
  have "(a + j) - (a + i) = j - i" "(a + i) - (a + j) = i - j" by simp_all
  then show ?thesis
    using assms u32_bound [of i] u32_bound [of j] by (auto simp: apart_def u32_diff_unat)
qed

lemma put_bytes_in:
  "i < length bs \<Longrightarrow> length bs \<le> 4294967296 \<Longrightarrow> put_bytes a bs m (a + of_nat i) = bs ! i"
  by (simp add: put_bytes_def in_span u32_of_nat_unat)

lemma put_bytes_outside: "x \<notin> span a (length bs) \<Longrightarrow> put_bytes a bs m x = m x"
  by (simp add: put_bytes_def)

lemma field_in_node:
  assumes "unat i + 4 \<le> 88"
  shows "span (a + i) 4 \<subseteq> span a 88"
  by (rule span_sub) (use assms in simp_all)

lemma put_vfs_outside:
  assumes "length (vn_name v) = 55" and "x \<notin> span a 88"
  shows "put_vfs a v m x = m x"
proof -
  have f: "x \<notin> span (a + i) 4" if "unat i + 4 \<le> 88" for i
    using field_in_node [OF that] assms(2) by blast
  have "span a 55 \<subseteq> span a 88" by (rule span_mono) simp
  then have "x \<notin> span a 55" using assms(2) by blast
  then show ?thesis
    using assms(1) by (simp add: put_vfs_def c32.st_outside f put_bytes_outside)
qed

lemma name_byte:
  assumes "i < 55" and "55 \<le> unat j" and "unat j < 4294967292"
  shows "store32 (a + j) w m (a + of_nat i) = m (a + of_nat i)"
proof (rule c32.st_outside)
  have i: "unat (of_nat i :: u32) = i" using assms(1) by (simp add: u32_of_nat_unat)
  have "(a + of_nat i) - (a + j) = of_nat i - j" by simp
  then show "a + of_nat i \<notin> span (a + j) 4"
    using assms i by (simp add: in_span u32_diff_unat)
qed

lemma get_bytes_put:
  assumes "length bs = n" and "n \<le> 4294967296"
  shows "get_bytes (put_bytes a bs m) a n = bs"
  using assms by (auto simp: get_bytes_def put_bytes_in intro: nth_equalityI)

lemma get_vfs_frame:
  assumes "\<And>x. x \<in> span a 88 \<Longrightarrow> m' x = m x"
  shows "get_vfs m' a = get_vfs m a"
proof -
  have "load32 m' (a + i) = load32 m (a + i)" if "unat i + 4 \<le> 88" for i
    by (rule c32.ld_local) (use field_in_node [OF that] assms in blast)
  moreover have "m' (a + of_nat i) = m (a + of_nat i)" if "i < 55" for i
    using assms span_add_of_nat [of i 88 a] that by simp
  ultimately show ?thesis by (simp add: get_vfs_def get_bytes_def)
qed

text \<open>The slots of the table.\<close>

definition table_ok :: "'a devices_scheme \<Rightarrow> bool" where
  "table_ok s \<longleftrightarrow> span (m_devices s) 5632 \<inter> vga_span = {} \<and> unat (m_devices s) + 5632 \<le> 4294967296"

lemma slot_unat:
  assumes "table_ok s" and "unat i < 64"
  shows "unat (devices_at i s) = unat (m_devices s) + 88 * unat i"
proof -
  have "unat (88 * i) = 88 * unat i" using assms(2) by (simp add: unat_word_ariths)
  then show ?thesis using assms
    by (simp add: devices_at_def sizeof_vfs_def table_ok_def u32_add_unat)
qed

lemma slot_in_table:
  assumes "table_ok s" and "unat i < 64"
  shows "span (devices_at i s) 88 \<subseteq> span (m_devices s) 5632"
proof -
  have "unat (88 * i) = 88 * unat i" using assms(2) by (simp add: unat_word_ariths)
  then show ?thesis unfolding devices_at_def sizeof_vfs_def
    by (intro span_sub) (use assms(2) in simp_all)
qed

lemma slots_apart:
  assumes "table_ok s" and "unat i < 64" and "unat j < 64" and "i \<noteq> j"
  shows "span (devices_at i s) 88 \<inter> span (devices_at j s) 88 = {}"
proof -
  have ineq: "apart (devices_at i s) 88 (devices_at j s) 88"
    if ij: "unat i < unat j" "unat j < 64" for i j
  proof -
    have "unat (devices_at i s) = unat (m_devices s) + 88 * unat i"
      "unat (devices_at j s) = unat (m_devices s) + 88 * unat j"
      using slot_unat [OF assms(1)] ij by simp_all
    then show ?thesis
      by (intro apart_below) (use ij assms(1) in \<open>simp_all add: table_ok_def\<close>)
  qed
  have "apart (devices_at i s) 88 (devices_at j s) 88"
    using assms ineq [of i j] ineq [of j i] by (auto intro: apart_sym simp: u32_eq_unat nat_neq_iff)
  then show ?thesis by (rule apart_disjoint)
qed

section \<open>Properties\<close>

text \<open>
  A node written to memory field by field reads back as it was: no field of the layout
  overlaps another, and no byte outside its 88 bytes changes.
\<close>

theorem vfs_node_roundtrip:
  assumes "length (vn_name v) = VFS_NAME_MAX"
  shows "get_vfs (put_vfs a v m) a = v \<and> {x. put_vfs a v m x \<noteq> m x} \<subseteq> span a (unat sizeof_vfs)"
proof -
  have name: "get_bytes (put_vfs a v m) a 55 = vn_name v"
  proof -
    have "get_bytes (put_vfs a v m) a 55 = get_bytes (put_bytes a (vn_name v) m) a 55"
      by (simp add: get_bytes_def put_vfs_def name_byte)
    then show ?thesis using assms by (simp add: get_bytes_put VFS_NAME_MAX_def)
  qed
  have "{x. put_vfs a v m x \<noteq> m x} \<subseteq> span a 88"
    using put_vfs_outside [of v _ a m] assms by (auto simp: VFS_NAME_MAX_def)
  moreover have "get_vfs (put_vfs a v m) a = v"
    unfolding get_vfs_def name
    by (simp add: put_vfs_def cells c32_32.ld_st_apart node_fields_apart)
  ultimately show ?thesis by (simp add: sizeof_vfs_def)
qed

definition a_node :: Vfs_t where
  "a_node = \<lparr>vn_name = lit ''kb'' @ replicate 53 0, vn_flag = 3, vn_read = 0x1234, vn_write = 0,
     vn_open = 0, vn_close = 0, vn_read_dir = 0, vn_find_dir = 0, vn_master = 0\<rparr>"

lemma vfs_node_roundtrip_witness: "get_vfs (put_vfs 0x1000 a_node (\<lambda>_. 0)) 0x1000 = a_node"
  by (rule vfs_node_roundtrip [THEN conjunct1]) (simp add: a_node_def VFS_NAME_MAX_def lit_def)

text \<open>
  \<open>devices_add\<close> with a free slot returns the slot's index, stores the device there and leaves
  the devices in all other slots as they were.
\<close>

theorem devices_add_stores:
  assumes ok: "table_ok s" "term_ok s" and n: "unat (m_devices_number s) < 64"
    and name: "length (vn_name dev) = 55" "0 \<in> set (vn_name dev)"
  shows "\<exists>t. devices_add dev s = Inr (m_devices_number s, t)
    \<and> m_devices_number t = m_devices_number s + 1 \<and> get_vfs (mem t) (devices_at (m_devices_number s) t) = dev
    \<and> {i. unat i < 64 \<and> get_vfs (mem t) (devices_at i t) \<noteq> get_vfs (mem s) (devices_at i s)}
      \<subseteq> {m_devices_number s}"
proof -
  define k where "k = m_devices_number s"
  define s1 where "s1 = s\<lparr>mem := put_vfs (devices_at k s) dev (mem s)\<rparr>"
  obtain cs where "fmt_render (lit ''[DEVICES] Added new device %s, on index %x\<newline>'')
      [VLit (takeWhile (\<lambda>c. c \<noteq> 0) (vn_name dev)), VWord k] = Some cs"
    by (simp add: lit_def)
  note print = vprintf_render [OF this, of s1]
  define s2 where "s2 = term_puts cs s1"
  define t where "t = s2\<lparr>m_devices_number := m_devices_number s2 + 1\<rparr>"
  have "term_ok s1" using ok(2) by (simp add: s1_def term_ok_def)
  then have only: "term_only s1 s2"
    using term_puts_effect [of s1 cs] by (simp add: s2_def term_effect_def)
  then have "terminal.more s2 = terminal.more s1" by (simp add: term_only_def)
  then have more: "m_devices s2 = m_devices s" "m_devices_number s2 = k"
    by (cases s2; cases s1; cases s; simp add: s1_def k_def)+
  have run: "devices_add dev s = Inr (k, t)"
    using name(2) print more
    by (simp add: devices_add_def Let_def term_printf_def devices_at_def [symmetric]
        k_def [symmetric] s1_def [symmetric] s2_def [symmetric] t_def)
      (simp add: s1_def k_def)
  have slot: "mem t x = mem s1 x" if "unat i < 64" "x \<in> span (devices_at i s) 88" for i x
    using slot_in_table [OF ok(1) that(1)] that(2) ok(1) only
    by (auto simp: t_def term_only_def table_ok_def)
  have at: "devices_at i t = devices_at i s" for i by (simp add: devices_at_def t_def more)
  have "get_vfs (mem t) (devices_at k s) = dev"
    using get_vfs_frame [of "devices_at k s" "mem t" "mem s1"] slot [of k] n
      vfs_node_roundtrip [of dev "devices_at k s" "mem s"] name(1)
    by (simp add: s1_def k_def VFS_NAME_MAX_def)
  moreover have "get_vfs (mem t) (devices_at i s) = get_vfs (mem s) (devices_at i s)"
    if i: "unat i < 64" "i \<noteq> k" for i
  proof (rule get_vfs_frame)
    fix x assume x: "x \<in> span (devices_at i s) 88"
    then have "x \<notin> span (devices_at k s) 88" using slots_apart [OF ok(1) i(1), of k] n i(2) by (auto simp: k_def)
    then show "mem t x = mem s x"
      using slot [OF i(1) x] name(1) by (simp add: s1_def put_vfs_outside)
  qed
  moreover have "m_devices_number t = k + 1" by (simp add: t_def more)
  ultimately show ?thesis
    using run by (intro exI [of _ t]) (auto simp: k_def [symmetric] at)
qed

definition devices_start :: devices where
  "devices_start = \<lparr>mem = (\<lambda>_. 0), io_log = [], in8 = (\<lambda>_ _. 0), in16 = (\<lambda>_ _. 0),
     term_row = 0, term_column = 0, term_color = 7,
     curr_addr = 0x200000, max_page_addr = 0x210000, frist_hh = 0, last_hh = 0,
     frames = 0x400, frames_max = 32, alloced_frames = 0,
     kernel_page_dir = 0, current_page_dir = 0x8000, cr3 = 0x8000, paging_on = False,
     the_idt = replicate 256 (new_gate 0 0), idtr_limit = 0, idtr_base = 0, idtr_loaded = False,
     m_devices = 0x300000, m_devices_number = 0\<rparr>"

lemma devices_add_stores_witness:
  "\<exists>t. devices_add a_node devices_start = Inr (0, t) \<and> get_vfs (mem t) (devices_at 0 t) = a_node"
proof -
  have "table_ok devices_start"
    by (auto simp: table_ok_def devices_start_def in_span_unat vga_span_unat)
  moreover have "term_ok devices_start" by (simp add: term_ok_def devices_start_def vga_consts)
  ultimately show ?thesis
    using devices_add_stores [of devices_start a_node]
    by (force simp: a_node_def lit_def devices_start_def)
qed

end
