(* ===== verification/Keyboard.thy ===== *)
theory Keyboard
  imports Device
begin

text \<open>
  The keyboard driver, \<^verbatim>\<open>src/drivers/keyboard.c\<close>: the interrupt handler puts the character of a key
  into a buffer of 255 bytes, the readers take the latest one out. Handler and readers interleave:
  \<open>kb_step\<close> is the relation of their steps. Leaving the loop \<open>while(!signal)\<close> of \<open>kb_wait_get\<close> and
  clearing \<open>signal\<close> is a step (\<open>Woke\<close>) that is enabled once \<open>signal\<close> is set, and an interrupt may come
  between it and the \<open>kb_get\<close> that follows; run on its own, without interrupts, the loop never ends. A store behind the end of the
  buffer is \<open>Undefined\<close>.
\<close>

unbundle bit_operations_syntax

section \<open>State and operations\<close>

record keyboard = devices +
  current_ch :: u8
  kb_buffer :: "u8 list"
  handled_index :: u32
  kb_signal :: u32
  wait_enabled :: u32

definition kbdus :: "u8 list" where
  "kbdus = [
     0, 27, 49, 50, 51, 52, 53, 54, 55, 56, 57, 48, 45, 61, 8,
     9, 113, 119, 101, 114, 116, 121, 117, 105, 111, 112, 91, 93, 10, 0,
     97, 115, 100, 102, 103, 104, 106, 107, 108, 59, 39, 96, 0, 92, 122,
     120, 99, 118, 98, 110, 109, 44, 46, 47, 0, 42, 0, 32, 0, 0,
     0, 0, 0, 0, 0, 0, 0, 0, 0, 0, 0, 0, 0, 0, 45,
     0, 0, 0, 43, 0, 0, 0, 0, 0, 0, 0, 0, 0, 0, 0] @ replicate 38 0"

definition KB_SIGNAL_OUT :: u32 where "KB_SIGNAL_OUT = 0x40"

definition kb_interrupt_hander ::
  "u32 \<Rightarrow> 'a keyboard_scheme \<Rightarrow> (unit, 'a keyboard_scheme) run" where
  "kb_interrupt_hander regs s =
     (case x86_inb 0x60 s of (code, s1) \<Rightarrow>
        if code AND 0x80 \<noteq> 0 then Inr ((), pic_send_eoi 1 s1)
        else let s2 = s1\<lparr>current_ch := kbdus ! unat code\<rparr>
             in if unat (handled_index s2) < length (kb_buffer s2)
                then let s3 = s2\<lparr>kb_buffer := (kb_buffer s2)[unat (handled_index s2) := current_ch s2],
                                 handled_index := handled_index s2 + 1\<rparr>
                     in Inr ((), pic_send_eoi 1 (s3\<lparr>kb_signal := 1\<rparr>))
                else Inl Undefined)"

definition kb_get_curr :: "'a keyboard_scheme \<Rightarrow> u8" where
  "kb_get_curr s = current_ch s"

definition kb_get :: "'a keyboard_scheme \<Rightarrow> u8 \<times> 'a keyboard_scheme" where
  "kb_get s =
     (if handled_index s = 0 then (kb_get_curr s, s)
      else let s1 = s\<lparr>handled_index := handled_index s - 1\<rparr>
           in (kb_buffer s1 ! unat (handled_index s1), s1))"

definition kb_wait_get :: "'a keyboard_scheme \<Rightarrow> (u8, 'a keyboard_scheme) run" where
  "kb_wait_get s = (if kb_signal s = 0 then Inl Hangs else Inr (kb_get (s\<lparr>kb_signal := 0\<rparr>)))"

definition keyboard_read_callback ::
  "u32 \<Rightarrow> u32 \<Rightarrow> u32 \<Rightarrow> u32 \<Rightarrow> 'a keyboard_scheme \<Rightarrow> u32 \<times> 'a keyboard_scheme" where
  "keyboard_read_callback kb_node offset sz buffer s =
     (let ret = (if kb_signal s \<noteq> 0 then KB_SIGNAL_OUT else 0);
          asize = offset + sz;
          s1 = fold (\<lambda>i s. if of_nat i < offset then s
                           else case kb_get s of (c, s') \<Rightarrow> wr8 (buffer + of_nat i) c s')
                 [0..<unat asize] s
      in (ret, s1\<lparr>kb_signal := 0\<rparr>))"

text \<open>\<open>handler\<close> is the address of \<open>kb_interrupt_hander\<close>, \<open>reader\<close> that of the read callback.\<close>

definition kb_init ::
  "u32 \<Rightarrow> u32 \<Rightarrow> u8 list \<Rightarrow> u8 \<Rightarrow> 'a keyboard_scheme \<Rightarrow> (u32, 'a keyboard_scheme) run" where
  "kb_init handler reader stack pic_loc s =
     and_then (set_idt_gate (unat pic_loc + 1) handler INT_GATE_FLAGS s) (\<lambda>_ s1.
       let s2 = pic_IRQ_remove_mask 1 s1;
           device_handler = copy_name (lit ''kb'' @ [0]) (vfs_node_new stack);
           device_handler = device_handler\<lparr>vn_read := reader, vn_flag := flag_value VFS_CHAR_DEV\<rparr>
       in devices_add device_handler s2)"

section \<open>Steps\<close>

datatype kb_event = Irq u8 | Woke | Got u8

inductive kb_step :: "'a keyboard_scheme \<Rightarrow> kb_event \<Rightarrow> 'a keyboard_scheme \<Rightarrow> bool" where
  irq: "kb_interrupt_hander regs s = Inr ((), t) \<Longrightarrow> kb_step s (Irq (in8 s (io_log s) 0x60)) t"
| woke: "kb_signal s \<noteq> 0 \<Longrightarrow> kb_step s Woke (s\<lparr>kb_signal := 0\<rparr>)"
| got: "kb_get s = (c, t) \<Longrightarrow> kb_step s (Got c) t"

inductive kb_run :: "'a keyboard_scheme \<Rightarrow> kb_event list \<Rightarrow> 'a keyboard_scheme \<Rightarrow> bool" where
  start: "kb_run s [] s"
| step: "kb_run s es t \<Longrightarrow> kb_step t e u \<Longrightarrow> kb_run s (es @ [e]) u"

inductive_cases kb_step_Irq: "kb_step s (Irq code) t"
inductive_cases kb_step_Woke: "kb_step s Woke t"
inductive_cases kb_step_Got: "kb_step s (Got c) t"

definition kb_inv :: "'a keyboard_scheme \<Rightarrow> bool" where
  "kb_inv s \<longleftrightarrow> length (kb_buffer s) = 255 \<and> unat (handled_index s) \<le> 255"

section \<open>The driver as a stack\<close>

record kb_stack =
  unread :: "u8 list"
  latest :: u8
  ready :: bool

definition abs_kb :: "'a keyboard_scheme \<Rightarrow> kb_stack" where
  "abs_kb s = \<lparr>unread = rev (take (unat (handled_index s)) (kb_buffer s)), latest = current_ch s,
     ready = (kb_signal s \<noteq> 0)\<rparr>"

definition a_key :: "u8 \<Rightarrow> kb_stack \<Rightarrow> kb_stack" where
  "a_key code k = (if bit code 7 then k
     else k\<lparr>unread := kbdus ! unat code # unread k, latest := kbdus ! unat code, ready := True\<rparr>)"

definition a_get :: "kb_stack \<Rightarrow> u8 \<times> kb_stack" where
  "a_get k = (case unread k of [] \<Rightarrow> (latest k, k) | c # cs \<Rightarrow> (c, k\<lparr>unread := cs\<rparr>))"

fun a_kb_step :: "kb_event \<Rightarrow> kb_stack \<Rightarrow> kb_stack option" where
  "a_kb_step (Irq code) k = Some (a_key code k)"
| "a_kb_step (Got c) k = (if fst (a_get k) = c then Some (snd (a_get k)) else None)"
| "a_kb_step Woke k = (if ready k then Some (k\<lparr>ready := False\<rparr>) else None)"

fun a_kb_run :: "kb_event list \<Rightarrow> kb_stack \<Rightarrow> kb_stack option" where
  "a_kb_run [] k = Some k"
| "a_kb_run (e # es) k = (case a_kb_step e k of None \<Rightarrow> None | Some k' \<Rightarrow> a_kb_run es k')"

lemma a_kb_run_append:
  "a_kb_run (es @ fs) k = (case a_kb_run es k of None \<Rightarrow> None | Some k' \<Rightarrow> a_kb_run fs k')"
  by (induction es arbitrary: k) (auto split: option.splits)

lemma break_code: "code AND 0x80 \<noteq> 0 \<longleftrightarrow> bit code 7" for code :: u8
proof -
  have "(0x80 :: u8) = push_bit 7 1" by simp
  then show ?thesis by (simp only: bit_iff_and_push_bit_not_eq_0)
qed

lemma eoi_fields [simp]:
  "kb_inv (pic_send_eoi l s) = kb_inv s" "abs_kb (pic_send_eoi l s) = abs_kb s"
  "kb_signal (pic_send_eoi l s) = kb_signal s"
  by (simp_all add: pic_send_eoi_def x86_outb_def kb_inv_def abs_kb_def)

text \<open>The handler, on each of its branches.\<close>

lemma handler_break:
  "bit (in8 s (io_log s) 0x60) 7 \<Longrightarrow> \<exists>t. kb_interrupt_hander regs s = Inr ((), t)
     \<and> kb_inv t = kb_inv s \<and> abs_kb t = abs_kb s"
  by (simp add: kb_interrupt_hander_def x86_inb_def Let_def break_code) (simp add: kb_inv_def abs_kb_def)

lemma handler_full:
  "\<not> bit (in8 s (io_log s) 0x60) 7 \<Longrightarrow> kb_inv s \<Longrightarrow> unat (handled_index s) = 255 \<Longrightarrow>
     kb_interrupt_hander regs s = Inl Undefined"
  by (simp add: kb_interrupt_hander_def x86_inb_def Let_def break_code kb_inv_def)

lemma handler_key:
  assumes "\<not> bit (in8 s (io_log s) 0x60) 7" and inv: "kb_inv s" and "unat (handled_index s) < 255"
  shows "\<exists>t. kb_interrupt_hander regs s = Inr ((), t) \<and> kb_inv t
    \<and> abs_kb t = a_key (in8 s (io_log s) 0x60) (abs_kb s)"
proof -
  define i where "i = unat (handled_index s)"
  have i: "unat (handled_index s + 1) = Suc i"
    using assms(3) u32_add_unat [of "handled_index s" 1] by (simp add: i_def)
  have "take (Suc i) ((kb_buffer s)[i := c]) = take i (kb_buffer s) @ [c]" for c
    using inv assms(3) by (simp add: kb_inv_def i_def take_Suc_conv_app_nth)
  then show ?thesis
    using assms by (simp add: kb_interrupt_hander_def x86_inb_def Let_def break_code)
      (simp add: kb_inv_def abs_kb_def a_key_def i_def [symmetric] i)
qed

lemma kb_get_refines:
  assumes "kb_inv s" and "kb_get s = (c, t)"
  shows "kb_inv t \<and> a_get (abs_kb s) = (c, abs_kb t)"
proof (cases "handled_index s = 0")
  case True
  with assms show ?thesis by (auto simp: kb_get_def kb_get_curr_def a_get_def abs_kb_def)
next
  case False
  define i where "i = unat (handled_index s - 1)"
  have "0 < unat (handled_index s)" using False by (simp add: unat_gt_0)
  then have i: "unat (handled_index s) = Suc i" by (simp add: i_def u32_diff_unat)
  have "take (Suc i) (kb_buffer s) = take i (kb_buffer s) @ [kb_buffer s ! i]"
    using assms(1) i by (simp add: kb_inv_def take_Suc_conv_app_nth)
  then show ?thesis
    using assms False i by (auto simp: kb_get_def Let_def kb_inv_def a_get_def abs_kb_def i_def [symmetric])
qed

lemma kb_step_refines:
  assumes "kb_step s e t" and inv: "kb_inv s"
  shows "kb_inv t \<and> a_kb_step e (abs_kb s) = Some (abs_kb t)"
  using assms(1)
proof cases
  case (irq regs)
  show ?thesis
  proof (cases "bit (in8 s (io_log s) 0x60) 7")
    case True
    with irq handler_break [OF True, of regs] inv show ?thesis by (auto simp: a_key_def)
  next
    case False
    have "unat (handled_index s) < 255"
      using handler_full [OF False inv, of regs] irq inv by (force simp: kb_inv_def)
    from handler_key [OF False inv this, of regs] irq show ?thesis by auto
  qed
next
  case woke
  with inv show ?thesis by (simp add: kb_inv_def abs_kb_def)
next
  case (got c)
  with kb_get_refines [OF inv got(2)] show ?thesis by simp
qed

lemma wait_steps:
  "kb_wait_get s = Inr (c, t) \<longleftrightarrow> (\<exists>u. kb_step s Woke u \<and> kb_step u (Got c) t)"
  by (auto simp: kb_wait_get_def intro: kb_step.intros elim: kb_step_Woke kb_step_Got)

section \<open>Reading a block\<close>

text \<open>What \<open>n\<close> calls of \<open>kb_get\<close> return.\<close>

fun a_gets :: "nat \<Rightarrow> kb_stack \<Rightarrow> u8 list \<times> kb_stack" where
  "a_gets 0 k = ([], k)"
| "a_gets (Suc n) k = (case a_gets n k of (cs, k1) \<Rightarrow> case a_get k1 of (c, k2) \<Rightarrow> (cs @ [c], k2))"

lemma a_gets_length: "length (fst (a_gets n k)) = n"
  by (induction n) (auto split: prod.splits)

lemma put_bytes_snoc:
  assumes "length cs < 4294967295"
  shows "put_bytes a (cs @ [c]) m = (put_bytes a cs m)(a + of_nat (length cs) := c)"
proof
  fix x
  have n: "unat (of_nat (length cs) :: u32) = length cs" using assms by (intro u32_of_nat_unat) simp
  show "put_bytes a (cs @ [c]) m x = ((put_bytes a cs m)(a + of_nat (length cs) := c)) x"
  proof (cases "x = a + of_nat (length cs)")
    case True
    then show ?thesis using n by (simp add: put_bytes_def in_span)
  next
    case False
    then have "x \<in> span a (Suc (length cs)) \<longleftrightarrow> x \<in> span a (length cs)"
      using span_Suc [of "length cs" x a] assms by simp
    with False show ?thesis by (auto simp: put_bytes_def nth_append in_span)
  qed
qed

lemma kb_get_mem [simp]: "mem (snd (kb_get s)) = mem s" "kb_signal (snd (kb_get s)) = kb_signal s"
  by (simp_all add: kb_get_def Let_def)

lemma wr8_kb [simp]: "kb_inv (s\<lparr>mem := m\<rparr>) = kb_inv s" "abs_kb (s\<lparr>mem := m\<rparr>) = abs_kb s"
  by (simp_all add: kb_inv_def abs_kb_def)

lemma clear_signal [simp]:
  "abs_kb (s\<lparr>kb_signal := 0\<rparr>) = (abs_kb s)\<lparr>ready := False\<rparr>"
  "kb_inv (s\<lparr>kb_signal := v\<rparr>) = kb_inv s"
  by (simp_all add: kb_inv_def abs_kb_def)

definition read_round :: "u32 \<Rightarrow> u32 \<Rightarrow> nat \<Rightarrow> 'a keyboard_scheme \<Rightarrow> 'a keyboard_scheme" where
  "read_round offset buffer i s =
     (if of_nat i < offset then s else case kb_get s of (c, s') \<Rightarrow> wr8 (buffer + of_nat i) c s')"

lemma read_rounds:
  assumes "kb_inv s" and "unat offset + n < 4294967296"
  shows "let t = fold (read_round offset buffer) [0..<unat offset + n] s
    in kb_inv t \<and> abs_kb t = snd (a_gets n (abs_kb s)) \<and> kb_signal t = kb_signal s
      \<and> mem t = put_bytes (buffer + offset) (fst (a_gets n (abs_kb s))) (mem s)"
  using assms(2)
proof (induction n)
  case 0
  have "fold (read_round offset buffer) [0..<k] s = s" if "k \<le> unat offset" for k
    using that
  proof (induction k)
    case (Suc k)
    then have "(of_nat k :: u32) < offset"
      using u32_bound [of offset] by (simp add: u32_less_unat u32_of_nat_unat)
    with Suc show ?case by (simp add: read_round_def)
  qed simp
  then show ?case using assms(1) by (simp add: put_bytes_def span_def Let_def)
next
  case (Suc n)
  define t where "t = fold (read_round offset buffer) [0..<unat offset + n] s"
  have IH: "kb_inv t" "abs_kb t = snd (a_gets n (abs_kb s))" "kb_signal t = kb_signal s"
    "mem t = put_bytes (buffer + offset) (fst (a_gets n (abs_kb s))) (mem s)"
    using Suc by (simp_all add: t_def Let_def)
  obtain c t' where get: "kb_get t = (c, t')" by (cases "kb_get t")
  note G = kb_get_refines [OF IH(1) get]
  have m': "mem t' = mem t" "kb_signal t' = kb_signal t"
    using kb_get_mem [of t] get by simp_all
  have "\<not> of_nat (unat offset + n) < offset"
    using Suc.prems u32_of_nat_unat [of "unat offset + n"] by (simp add: u32_less_unat)
  then have "fold (read_round offset buffer) [0..<unat offset + Suc n] s
      = wr8 (buffer + of_nat (unat offset + n)) c t'"
    by (simp add: t_def [symmetric] read_round_def get)
  moreover have "(mem t')(buffer + of_nat (unat offset + n) := c)
      = put_bytes (buffer + offset) (fst (a_gets n (abs_kb s)) @ [c]) (mem s)"
    using Suc.prems put_bytes_snoc [of "fst (a_gets n (abs_kb s))" "buffer + offset" c "mem s"]
    by (simp add: m' IH(4) a_gets_length add.assoc)
  ultimately show ?case
    using G IH(2,3) m'(2) by (auto simp: Let_def split: prod.splits)
qed

section \<open>Properties\<close>

definition keyboard_start :: keyboard where
  "keyboard_start = \<lparr>mem = (\<lambda>_. 0), io_log = [], in8 = (\<lambda>_ _. 0x1E), in16 = (\<lambda>_ _. 0),
     term_row = 0, term_column = 0, term_color = 7,
     curr_addr = 0x200000, max_page_addr = 0x210000, frist_hh = 0, last_hh = 0,
     frames = 0x400, frames_max = 32, alloced_frames = 0,
     kernel_page_dir = 0, current_page_dir = 0x8000, cr3 = 0x8000, paging_on = False,
     the_idt = replicate 256 (new_gate 0 0), idtr_limit = 0, idtr_base = 0, idtr_loaded = False,
     m_devices = 0x300000, m_devices_number = 0,
     current_ch = 0, kb_buffer = replicate 255 0, handled_index = 0, kb_signal = 0, wait_enabled = 0\<rparr>"

lemma keyboard_start_inv: "kb_inv keyboard_start"
  by (simp add: kb_inv_def keyboard_start_def)

lemma kb_run_abs:
  assumes "kb_run s es t" and "kb_inv s"
  shows "kb_inv t \<and> a_kb_run es (abs_kb s) = Some (abs_kb t)"
  using assms
proof induction
  case (start s)
  then show ?case by simp
next
  case (step s es t e u)
  with kb_step_refines [of t e u] show ?case by (simp add: a_kb_run_append)
qed

text \<open>
  C14. However interrupts and readers interleave, the driver behaves as a stack of unread
  characters: a key pushes its character, a read pops the latest one (or repeats it when all are
  read), and the buffer bounds hold in every state that is reached.
\<close>

theorem kb_run_refines_stack:
  assumes "kb_run s es t" and "kb_inv s"
  shows "kb_inv t \<and> a_kb_run es (abs_kb s) = Some (abs_kb t)"
  using assms by (rule kb_run_abs)

lemma one_key: "\<exists>t. kb_run keyboard_start [Irq 0x1E] t"
proof -
  have "\<exists>t. kb_interrupt_hander 0 keyboard_start = Inr ((), t)"
    by (simp add: kb_interrupt_hander_def x86_inb_def Let_def keyboard_start_def)
  then obtain t where "kb_interrupt_hander 0 keyboard_start = Inr ((), t)" by blast
  then have "kb_step keyboard_start (Irq (in8 keyboard_start (io_log keyboard_start) 0x60)) t"
    by (rule kb_step.irq)
  from kb_run.step [OF kb_run.start this]
  have "kb_run keyboard_start [Irq (in8 keyboard_start (io_log keyboard_start) 0x60)] t" by simp
  moreover have "in8 keyboard_start (io_log keyboard_start) 0x60 = 0x1E" by (simp add: keyboard_start_def)
  ultimately show ?thesis by auto
qed

lemma keyboard_start_abs: "abs_kb keyboard_start = \<lparr>unread = [], latest = 0, ready = False\<rparr>"
  by (simp add: abs_kb_def keyboard_start_def)

lemma kb_run_refines_stack_witness:
  "\<exists>t. kb_run keyboard_start [Irq 0x1E] t \<and> unread (abs_kb t) = [0x61]"
proof -
  obtain t where t: "kb_run keyboard_start [Irq 0x1E] t" using one_key by blast
  have "\<not> bit (0x1E :: u8) 7" by (simp add: bit_numeral_rec)
  then have "Some (abs_kb t) = Some \<lparr>unread = [0x61], latest = 0x61, ready = True\<rparr>"
    using kb_run_refines_stack [OF t keyboard_start_inv]
    by (simp add: a_key_def keyboard_start_abs kbdus_def)
  with t show ?thesis by auto
qed

text \<open>Scancodes that arrive one after the other, with no reader between them; \<open>key_codes\<close> are those of pressed keys.\<close>

fun type_codes :: "u8 list \<Rightarrow> 'a keyboard_scheme \<Rightarrow> (unit, 'a keyboard_scheme) run" where
  "type_codes [] s = Inr ((), s)"
| "type_codes (c # cs) s = and_then (kb_interrupt_hander 0 (s\<lparr>in8 := \<lambda>_ _. c\<rparr>)) (\<lambda>_ t. type_codes cs t)"

definition key_codes :: "u8 list \<Rightarrow> u8 list" where
  "key_codes cs = filter (\<lambda>c. \<not> bit c 7) cs"

definition key_stack :: "u8 list \<Rightarrow> u8 list" where
  "key_stack cs = rev (map (\<lambda>c. kbdus ! unat c) (key_codes cs))"

lemma key_stack_simps: "key_stack [] = []"
  "key_stack (c # cs) = key_stack cs @ (if bit c 7 then [] else [kbdus ! unat c])"
  by (simp_all add: key_stack_def key_codes_def)

lemma unread_index: "kb_inv s \<Longrightarrow> length (unread (abs_kb s)) = unat (handled_index s)"
  by (simp add: kb_inv_def abs_kb_def)

lemma ports_kb [simp]: "kb_inv (s\<lparr>in8 := p\<rparr>) = kb_inv s" "abs_kb (s\<lparr>in8 := p\<rparr>) = abs_kb s"
  by (simp_all add: kb_inv_def abs_kb_def)

lemma type_codes_key:
  assumes inv: "kb_inv s" and room: "bit c 7 \<or> unat (handled_index s) < 255"
  shows "\<exists>t. kb_interrupt_hander 0 (s\<lparr>in8 := \<lambda>_ _. c\<rparr>) = Inr ((), t) \<and> kb_inv t
    \<and> unread (abs_kb t) = key_stack [c] @ unread (abs_kb s)"
proof (cases "bit c 7")
  case True
  with handler_break [of "s\<lparr>in8 := \<lambda>_ _. c\<rparr>" 0] inv show ?thesis by (auto simp: key_stack_simps)
next
  case False
  with handler_key [of "s\<lparr>in8 := \<lambda>_ _. c\<rparr>" 0] inv room show ?thesis by (auto simp: key_stack_simps a_key_def)
qed

lemma type_codes_fits:
  "kb_inv s \<Longrightarrow> length (unread (abs_kb s)) + length (key_codes cs) \<le> 255 \<Longrightarrow>
     \<exists>t. type_codes cs s = Inr ((), t) \<and> kb_inv t \<and> unread (abs_kb t) = key_stack cs @ unread (abs_kb s)"
proof (induction cs arbitrary: s)
  case (Cons c cs)
  have "bit c 7 \<or> unat (handled_index s) < 255" using Cons.prems unread_index [of s] by (auto simp: key_codes_def split: if_splits)
  then obtain t where t: "kb_interrupt_hander 0 (s\<lparr>in8 := \<lambda>_ _. c\<rparr>) = Inr ((), t)" "kb_inv t"
      "unread (abs_kb t) = key_stack [c] @ unread (abs_kb s)"
    using type_codes_key [OF Cons.prems(1)] by blast
  have "length (unread (abs_kb t)) + length (key_codes cs) \<le> 255"
    using Cons.prems(2) by (simp add: t(3) key_stack_simps key_codes_def split: if_splits)
  from Cons.IH [OF t(2) this] show ?case by (auto simp: t(1,3) key_stack_simps)
qed (simp add: key_stack_simps)

lemma type_codes_overflows:
  "kb_inv s \<Longrightarrow> 255 < length (unread (abs_kb s)) + length (key_codes cs) \<Longrightarrow>
     type_codes cs s = Inl Undefined \<and> (\<exists>ds c es t. cs = ds @ c # es \<and> \<not> bit c 7 \<and> type_codes ds s = Inr ((), t)
       \<and> unread (abs_kb t) = key_stack ds @ unread (abs_kb s) \<and> unat (handled_index t) = 255 \<and> length (kb_buffer t) = 255
       \<and> kb_interrupt_hander 0 (t\<lparr>in8 := \<lambda>_ _. c\<rparr>) = Inl Undefined)"
proof (induction cs arbitrary: s)
  case Nil
  then show ?case by (simp add: unread_index key_codes_def kb_inv_def)
next
  case (Cons c cs)
  show ?case
  proof (cases "bit c 7 \<or> unat (handled_index s) < 255")
    case True
    then obtain t where t: "kb_interrupt_hander 0 (s\<lparr>in8 := \<lambda>_ _. c\<rparr>) = Inr ((), t)" "kb_inv t"
        "unread (abs_kb t) = key_stack [c] @ unread (abs_kb s)"
      using type_codes_key [OF Cons.prems(1)] by blast
    have "255 < length (unread (abs_kb t)) + length (key_codes cs)"
      using Cons.prems(2) by (simp add: t(3) key_stack_simps key_codes_def split: if_splits)
    from Cons.IH [OF t(2) this] obtain ds d es u where u: "type_codes cs t = Inl Undefined" "cs = ds @ d # es" "\<not> bit d 7"
        "type_codes ds t = Inr ((), u)" "unread (abs_kb u) = key_stack ds @ unread (abs_kb t)" "unat (handled_index u) = 255"
        "length (kb_buffer u) = 255" "kb_interrupt_hander 0 (u\<lparr>in8 := \<lambda>_ _. d\<rparr>) = Inl Undefined"
      by blast
    then show ?thesis
      by (intro conjI exI [of _ "c # ds"] exI [of _ d] exI [of _ es] exI [of _ u]) (simp_all add: t(1,3) key_stack_simps)
  next
    case False
    then have "unat (handled_index s) = 255" using Cons.prems(1) by (simp add: kb_inv_def)
    with False Cons.prems(1) handler_full [of "s\<lparr>in8 := \<lambda>_ _. c\<rparr>" 0] show ?thesis
      by (intro conjI exI [of _ "[]"] exI [of _ c] exI [of _ cs] exI [of _ s]) (simp_all add: key_stack_simps kb_inv_def)
  qed
qed

text \<open>
  C38. The keyboard buffer, for every sequence of scancodes that no reader interrupts. As long as the unread characters
  and the pressed keys are at most 255, every key is handled and its character lies on top of those before it, in the
  order of the keys; releases change nothing. Of a longer sequence everything up to the key that fills the buffer is
  handled in the same way, and at the next pressed key the handler stores its character at index 255, the first
  byte behind the end of the buffer.
\<close>

theorem kb_overflow:
  assumes "kb_inv s"
  shows "if length (unread (abs_kb s)) + length (key_codes cs) \<le> 255
    then \<exists>t. type_codes cs s = Inr ((), t) \<and> kb_inv t \<and> unread (abs_kb t) = key_stack cs @ unread (abs_kb s)
    else type_codes cs s = Inl Undefined \<and> (\<exists>ds c es t. cs = ds @ c # es \<and> \<not> bit c 7 \<and> type_codes ds s = Inr ((), t)
      \<and> unread (abs_kb t) = key_stack ds @ unread (abs_kb s) \<and> unat (handled_index t) = 255 \<and> length (kb_buffer t) = 255
      \<and> kb_interrupt_hander 0 (t\<lparr>in8 := \<lambda>_ _. c\<rparr>) = Inl Undefined)"
  using type_codes_fits [OF assms, of cs] type_codes_overflows [OF assms, of cs] by auto

lemma kb_overflow_witness:
  "(\<exists>t. type_codes (replicate 255 0x1E) keyboard_start = Inr ((), t) \<and> unread (abs_kb t) = replicate 255 0x61)
   \<and> type_codes (replicate 256 0x1E) keyboard_start = Inl Undefined"
proof -
  have "\<not> bit (0x1E :: u8) 7" "kbdus ! unat (0x1E :: u8) = 0x61" by (simp_all add: bit_numeral_rec kbdus_def)
  then have k: "key_codes (replicate n 0x1E) = replicate n 0x1E" "key_stack (replicate n 0x1E) = replicate n 0x61" for n
    by (simp_all add: key_codes_def key_stack_def filter_replicate map_replicate_const)
  have "\<exists>t. type_codes (replicate 255 0x1E) keyboard_start = Inr ((), t) \<and> unread (abs_kb t) = replicate 255 0x61"
    using kb_overflow [OF keyboard_start_inv, of "replicate 255 0x1E"]
    by (auto simp only: k keyboard_start_abs kb_stack.simps length_replicate append_Nil2 list.size split: if_splits)
  moreover have "type_codes (replicate 256 0x1E) keyboard_start = Inl Undefined"
    using kb_overflow [OF keyboard_start_inv, of "replicate 256 0x1E"]
    by (auto simp only: k keyboard_start_abs kb_stack.simps length_replicate list.size split: if_splits)
  ultimately show ?thesis by blast
qed

text \<open>
  C39. A wake-up can be lost: two keys and one \<open>kb_wait_get\<close> leave the first key unread and
  \<open>signal\<close> clear, so that the next \<open>kb_wait_get\<close> waits although there is a key.
\<close>

theorem kb_lost_wakeup:
  assumes "kb_run s [Irq a, Irq b, Woke, Got c] t" and "kb_inv s"
    and "\<not> bit a 7" and "\<not> bit b 7"
  shows "c = kbdus ! unat b \<and> unread (abs_kb t) = kbdus ! unat a # unread (abs_kb s)
    \<and> kb_wait_get t = Inl Hangs"
proof -
  have "a_kb_run [Irq a, Irq b, Woke, Got c] (abs_kb s) = Some (abs_kb t)"
    using kb_run_abs assms(1,2) by blast
  then have "c = kbdus ! unat b \<and> abs_kb t = (abs_kb s)\<lparr>unread := kbdus ! unat a # unread (abs_kb s),
      latest := kbdus ! unat b, ready := False\<rparr>"
    using assms(3,4)
    by (auto simp: a_key_def a_get_def split: if_splits dest!: sym [of _ "abs_kb t"])
  moreover from this have "\<not> ready (abs_kb t)" by simp
  ultimately show ?thesis by (simp add: kb_wait_get_def) (simp add: abs_kb_def)
qed

lemma kb_lost_wakeup_witness:
  "\<exists>t. kb_run keyboard_start [Irq 0x1E, Irq 0x1E, Woke, Got 0x61] t \<and> unread (abs_kb t) = [0x61]
     \<and> kb_wait_get t = Inl Hangs"
proof -
  have code: "\<not> bit (0x1E :: u8) 7" "kbdus ! unat (0x1E :: u8) = 0x61"
    by (simp_all add: bit_numeral_rec kbdus_def)
  obtain t1 where t1: "kb_run keyboard_start [Irq 0x1E] t1" using one_key by blast
  note A = kb_run_abs [OF t1 keyboard_start_inv]
  define s1 where "s1 = t1\<lparr>in8 := (\<lambda>_ _. 0x1E)\<rparr>"
  have "kb_step keyboard_start (Irq 0x1E) t1"
    using t1 by cases (auto elim: kb_run.cases)
  then have in8: "in8 t1 = (\<lambda>_ _. 0x1E)"
    by cases (auto simp: kb_interrupt_hander_def x86_inb_def Let_def pic_send_eoi_def x86_outb_def
        keyboard_start_def split: if_splits)
  have u1: "unread (abs_kb t1) = [0x61]" "kb_inv t1"
    using A code by (auto simp: a_key_def keyboard_start_abs dest!: sym [of _ "abs_kb t1"])
  then have "length (take (unat (handled_index t1)) (kb_buffer t1)) = 1"
    by (metis abs_kb_def kb_stack.select_convs(1) length_rev list.size(3,4) One_nat_def add.right_neutral add_Suc_right)
  then have "unat (handled_index t1) < 255" using u1(2) by (simp add: kb_inv_def)
  with handler_key [of t1 0] in8 code u1(2)
  obtain t2 where t2: "kb_interrupt_hander 0 t1 = Inr ((), t2)" "kb_inv t2"
    "abs_kb t2 = a_key 0x1E (abs_kb t1)" by auto
  from kb_step.irq [OF t2(1)] have s2: "kb_step t1 (Irq 0x1E) t2" by (simp add: in8)
  have "ready (abs_kb t2)" using t2(3) code by (simp add: a_key_def)
  then have "kb_signal t2 \<noteq> 0" by (simp add: abs_kb_def)
  then have s3: "kb_step t2 Woke (t2\<lparr>kb_signal := 0\<rparr>)" by (rule kb_step.woke)
  obtain c t where g: "kb_get (t2\<lparr>kb_signal := 0\<rparr>) = (c, t)" by (cases "kb_get (t2\<lparr>kb_signal := 0\<rparr>)")
  then have "kb_run keyboard_start [Irq 0x1E, Irq 0x1E, Woke, Got c] t"
    using kb_run.step [OF kb_run.step [OF kb_run.step [OF t1 s2] s3] kb_step.got [OF g]] by simp
  with kb_lost_wakeup [OF this keyboard_start_inv code(1) code(1)] show ?thesis
    by (auto simp: code(2) [simplified] keyboard_start_abs)
qed

text \<open>
  \<open>keyboard_read_callback\<close> stores the next \<open>size\<close> characters, latest first, behind the first
  \<open>offset\<close> bytes of the buffer, writes no other byte, clears \<open>signal\<close> and reports whether it was
  set.
\<close>

theorem keyboard_read_stores:
  assumes "kb_inv s" and "unat offset + unat n < 4294967296"
  shows "\<exists>t. keyboard_read_callback node offset n buffer s
      = (if ready (abs_kb s) then KB_SIGNAL_OUT else 0, t)
    \<and> mem t = put_bytes (buffer + offset) (fst (a_gets (unat n) (abs_kb s))) (mem s)
    \<and> abs_kb t = (snd (a_gets (unat n) (abs_kb s)))\<lparr>ready := False\<rparr> \<and> kb_inv t"
proof -
  define t where "t = fold (read_round offset buffer) [0..<unat offset + unat n] s"
  have T: "kb_inv t" "abs_kb t = snd (a_gets (unat n) (abs_kb s))"
    "mem t = put_bytes (buffer + offset) (fst (a_gets (unat n) (abs_kb s))) (mem s)"
    using read_rounds [OF assms, of buffer] by (simp_all add: t_def Let_def)
  have "unat (offset + n) = unat offset + unat n" by (rule u32_add_unat [OF assms(2)])
  then have "keyboard_read_callback node offset n buffer s
      = (if ready (abs_kb s) then KB_SIGNAL_OUT else 0, t\<lparr>kb_signal := 0\<rparr>)"
    by (simp add: keyboard_read_callback_def Let_def t_def read_round_def [abs_def] abs_kb_def)
  then show ?thesis
    using T by (intro exI [of _ "t\<lparr>kb_signal := 0\<rparr>"]) simp
qed

lemma keyboard_read_stores_witness:
  "\<exists>t. keyboard_read_callback 0 0 2 0x5000 keyboard_start = (0, t)
     \<and> mem t = put_bytes 0x5000 [0, 0] (\<lambda>_. 0)"
proof -
  have "fst (a_gets 2 (abs_kb keyboard_start)) = [0, 0]"
    unfolding keyboard_start_abs numeral_2_eq_2 by (simp add: a_get_def)
  moreover have "mem keyboard_start = (\<lambda>_. 0)" by (simp add: keyboard_start_def)
  moreover have "\<not> ready (abs_kb keyboard_start)" by (simp add: keyboard_start_abs)
  ultimately show ?thesis
    using keyboard_read_stores [OF keyboard_start_inv, of 0 2 0 "0x5000"] by simp blast
qed

end
