(* ===== verification/Ata.thy ===== *)
theory Ata
  imports Keyboard
begin

text \<open>
  The disk driver, \<^verbatim>\<open>src/drivers/ata.c\<close>: programmed input from the master drive of the primary bus.
  The driver polls the status register; the two polling loops are \<open>partial_function\<close>s, for a drive
  that never answers keeps them running for ever. \<open>_ata_wait_drq\<close> and \<open>ata_read_callback\<close> have no
  \<open>return\<close>: what their caller finds in the register is an argument (\<open>eax\<close>).
\<close>

unbundle bit_operations_syntax

section \<open>State and operations\<close>

record ata = keyboard +
  is_master_exist :: u32

definition ATA_STATUS_BSY :: u8 where "ATA_STATUS_BSY = 0x80"
definition ATA_STATUS_RDY :: u8 where "ATA_STATUS_RDY = 0x40"
definition ATA_STATUS_DRQ :: u8 where "ATA_STATUS_DRQ = 0x08"
definition ATA_STATUS_ERR :: u8 where "ATA_STATUS_ERR = 0x01"
definition ATA_COM_READ :: u8 where "ATA_COM_READ = 0x20"
definition ATA_COM_IDENTIFY :: u8 where "ATA_COM_IDENTIFY = 0xEC"
definition ATA_MASTER_HD :: u8 where "ATA_MASTER_HD = 0xA0"
definition ATA_PRIMARY_IO :: u16 where "ATA_PRIMARY_IO = 0x1F0"
definition ATA_PRIMARY_DEVCTL :: u16 where "ATA_PRIMARY_DEVCTL = 0x3F6"
definition ATA_REG_DATA :: u16 where "ATA_REG_DATA = 0"
definition ATA_REG_SECCOUNT0 :: u16 where "ATA_REG_SECCOUNT0 = 2"
definition ATA_REG_LBA0 :: u16 where "ATA_REG_LBA0 = 3"
definition ATA_REG_LBA1 :: u16 where "ATA_REG_LBA1 = 4"
definition ATA_REG_LBA2 :: u16 where "ATA_REG_LBA2 = 5"
definition ATA_REG_HDDEVSEL :: u16 where "ATA_REG_HDDEVSEL = 6"
definition ATA_REG_COMMAND :: u16 where "ATA_REG_COMMAND = 7"
definition ATA_REG_STATUS :: u16 where "ATA_REG_STATUS = 7"
definition ATA_SECTOR_SIZE :: u32 where "ATA_SECTOR_SIZE = 512"
definition ATA_ERR_BUS_FETCH :: u8 where "ATA_ERR_BUS_FETCH = - 1"
definition ATA_ERR_DRIVE_FETCH :: u8 where "ATA_ERR_DRIVE_FETCH = - 2"

lemmas ata_ports = ATA_PRIMARY_IO_def ATA_PRIMARY_DEVCTL_def ATA_REG_DATA_def ATA_REG_SECCOUNT0_def
  ATA_REG_LBA0_def ATA_REG_LBA1_def ATA_REG_LBA2_def ATA_REG_HDDEVSEL_def ATA_REG_COMMAND_def
  ATA_REG_STATUS_def

definition ata_delay400ns :: "'a machine_scheme \<Rightarrow> 'a machine_scheme" where
  "ata_delay400ns s = fold (\<lambda>_ s. snd (x86_inb 0x1FC s)) [0..<4 :: nat] s"

definition ata_reset :: "'a machine_scheme \<Rightarrow> 'a machine_scheme" where
  "ata_reset s = x86_outb ATA_PRIMARY_DEVCTL 0x00 (ata_delay400ns (x86_outb ATA_PRIMARY_DEVCTL 0x04 s))"

definition ata_interrupt_primary_bus :: "'a machine_scheme \<Rightarrow> 'a machine_scheme" where
  "ata_interrupt_primary_bus s = pic_send_eoi 14 s"

definition ata_interrupt_secondary_bus :: "'a machine_scheme \<Rightarrow> 'a machine_scheme" where
  "ata_interrupt_secondary_bus s = pic_send_eoi 15 s"

partial_function (option) ata_wait_bsy :: "'a machine_scheme \<Rightarrow> (unit \<times> 'a machine_scheme) option" where
  "ata_wait_bsy s =
     (case x86_inb (ATA_PRIMARY_IO + ATA_REG_STATUS) s of (v, s1) \<Rightarrow>
        if v AND ATA_STATUS_BSY \<noteq> 0 then ata_wait_bsy s1 else Some ((), s1))"

partial_function (option) ata_wait_drq :: "'a machine_scheme \<Rightarrow> (unit \<times> 'a machine_scheme) option" where
  "ata_wait_drq s =
     (case x86_inb (ATA_PRIMARY_IO + ATA_REG_STATUS) s of (v, s1) \<Rightarrow>
        if v AND ATA_STATUS_RDY = 0 then ata_wait_drq s1 else Some ((), s1))"

definition ata_poll :: "u8 \<Rightarrow> 'a terminal_scheme \<Rightarrow> (u8, 'a terminal_scheme) run" where
  "ata_poll eax s =
     and_then (of_loop (ata_wait_bsy (ata_delay400ns s))) (\<lambda>_ s1.
     and_then (of_loop (ata_wait_drq s1)) (\<lambda>_ s2.
       if eax AND ATA_STATUS_ERR \<noteq> 0
       then and_then (yell ''ata device faliure'' [] s2) (\<lambda>_ s3. Inr (1, s3))
       else Inr (0, s2)))"

partial_function (option) identify_wait ::
  "u8 \<Rightarrow> 'a machine_scheme \<Rightarrow> (u8 \<times> 'a machine_scheme) option" where
  "identify_wait status s =
     (if status AND ATA_STATUS_BSY \<noteq> 0
      then case x86_inb (ATA_PRIMARY_IO + ATA_REG_STATUS) (ata_delay400ns s) of
             (status', s1) \<Rightarrow> identify_wait status' s1
      else Some (status, s))"

text \<open>The local array \<open>identify_data\<close> is filled and dropped, so only the reads are left.\<close>

definition identify_read :: "'a machine_scheme \<Rightarrow> 'a machine_scheme" where
  "identify_read s = fold (\<lambda>_ s. snd (x86_inw (ATA_PRIMARY_IO + ATA_REG_DATA) s)) [0..<256 :: nat] s"

definition identify_command :: "'a machine_scheme \<Rightarrow> 'a machine_scheme" where
  "identify_command s =
     (let s1 = x86_outb (ATA_PRIMARY_IO + ATA_REG_HDDEVSEL) ATA_MASTER_HD s;
          s2 = x86_outb (ATA_PRIMARY_IO + ATA_REG_SECCOUNT0) 0x0 s1;
          s3 = x86_outb (ATA_PRIMARY_IO + ATA_REG_LBA0) 0x0 s2;
          s4 = x86_outb (ATA_PRIMARY_IO + ATA_REG_LBA1) 0x0 s3;
          s5 = x86_outb (ATA_PRIMARY_IO + ATA_REG_LBA2) 0x0 s4
      in x86_outb (ATA_PRIMARY_IO + ATA_REG_COMMAND) ATA_COM_IDENTIFY s5)"

definition ide_identify :: "u8 \<Rightarrow> 'a terminal_scheme \<Rightarrow> (u8, 'a terminal_scheme) run" where
  "ide_identify eax s =
     (case x86_inb (ATA_PRIMARY_IO + ATA_REG_STATUS) (identify_command s) of (status0, s1) \<Rightarrow>
      and_then (of_loop (identify_wait status0 (ata_delay400ns s1))) (\<lambda>status s2.
      and_then (of_loop (ata_wait_bsy s2)) (\<lambda>_ s3.
        if status = 0 then Inr (ATA_ERR_BUS_FETCH, s3)
        else and_then (of_loop (ata_wait_bsy s3)) (\<lambda>_ s4.
          case x86_inb (ATA_PRIMARY_IO + ATA_REG_LBA1) s4 of (mid, s5) \<Rightarrow>
          case x86_inb (ATA_PRIMARY_IO + ATA_REG_LBA2) s5 of (hi, s6) \<Rightarrow>
            if mid \<noteq> 0 \<or> hi \<noteq> 0 then Inr (ATA_ERR_DRIVE_FETCH, s6)
            else and_then (ata_poll eax s6) (\<lambda>failed s7.
              if failed \<noteq> 0 then Inr (ATA_ERR_DRIVE_FETCH, s7)
              else and_then (of_loop (ata_wait_bsy s7)) (\<lambda>_ s8. Inr (0, identify_read s8)))))))"

definition read_command :: "u32 \<Rightarrow> 'a machine_scheme \<Rightarrow> 'a machine_scheme" where
  "read_command lba s =
     (let s1 = x86_outb (ATA_PRIMARY_IO + ATA_REG_HDDEVSEL) (0xE0 OR ucast (drop_bit 24 lba AND 0xF)) s;
          s2 = x86_outb (ATA_PRIMARY_IO + ATA_REG_SECCOUNT0) 0x1 s1;
          s3 = x86_outb (ATA_PRIMARY_IO + ATA_REG_LBA0) (ucast lba) s2;
          s4 = x86_outb (ATA_PRIMARY_IO + ATA_REG_LBA1) (ucast (drop_bit 8 lba)) s3;
          s5 = x86_outb (ATA_PRIMARY_IO + ATA_REG_LBA2) (ucast (drop_bit 16 lba)) s4
      in x86_outb (ATA_PRIMARY_IO + ATA_REG_COMMAND) ATA_COM_READ s5)"

definition read_word :: "u32 \<Rightarrow> nat \<Rightarrow> 'a machine_scheme \<Rightarrow> 'a machine_scheme" where
  "read_word data i s =
     (case x86_inw (ATA_PRIMARY_IO + ATA_REG_DATA) s of (out, s1) \<Rightarrow>
        wr8 (data + of_nat (2 * i + 1)) (ucast (drop_bit 8 out AND 0xFF))
          (wr8 (data + of_nat (2 * i)) (ucast (out AND 0xFF)) s1))"

definition ata_read_sector :: "u32 \<Rightarrow> u32 \<Rightarrow> 'a ata_scheme \<Rightarrow> (u8, 'a ata_scheme) run" where
  "ata_read_sector lba data s =
     (if is_master_exist s = 0 then Inr (- 1, s)
      else and_then (of_loop (ata_wait_bsy s)) (\<lambda>_ s1.
           and_then (of_loop (ata_wait_bsy (read_command lba s1))) (\<lambda>_ s2.
           and_then (of_loop (ata_wait_drq s2)) (\<lambda>_ s3.
             Inr (0, fold (read_word data) [0..<256] s3)))))"

fun read_sectors :: "u32 \<Rightarrow> u32 \<Rightarrow> nat list \<Rightarrow> 'a ata_scheme \<Rightarrow> (unit, 'a ata_scheme) run" where
  "read_sectors offset ptr [] s = Inr ((), s)"
| "read_sectors offset ptr (i # is) s =
     and_then (ata_read_sector (offset + of_nat i) ptr s)
       (\<lambda>_ s1. read_sectors offset (ptr + ATA_SECTOR_SIZE) is s1)"

definition ata_read_callback ::
  "u32 \<Rightarrow> u32 \<Rightarrow> u32 \<Rightarrow> u32 \<Rightarrow> u32 \<Rightarrow> 'a ata_scheme \<Rightarrow> (u32, 'a ata_scheme) run" where
  "ata_read_callback eax node offset sz ptr s =
     and_then (read_sectors offset ptr [0..<unat sz] s) (\<lambda>_ s1. Inr (eax, s1))"

text \<open>\<open>primary\<close> and \<open>reader\<close> are the addresses of the handler and of the read callback.\<close>

definition ata_init ::
  "u32 \<Rightarrow> u32 \<Rightarrow> u8 \<Rightarrow> u8 list \<Rightarrow> u8 \<Rightarrow> 'a ata_scheme \<Rightarrow> (u32, 'a ata_scheme) run" where
  "ata_init primary reader eax stack pic_loc s =
     and_then (set_idt_gate (unat pic_loc + 14) primary TRAP_GATE_FLAGS s) (\<lambda>_ s1.
     and_then (set_idt_gate (unat pic_loc + 15) primary TRAP_GATE_FLAGS s1) (\<lambda>_ s2.
     let s3 = ata_reset (pic_IRQ_remove_mask 15 (pic_IRQ_remove_mask 14 s2))
     in and_then (ide_identify eax s3) (\<lambda>status s4.
          if status \<noteq> 0 then panic ''Can't fetch ata bus'' [] s4
          else let s5 = s4\<lparr>is_master_exist := 1\<rparr>;
                   device_handler = copy_name (lit ''ata'' @ [0]) (vfs_node_new stack);
                   device_handler = device_handler\<lparr>vn_read := reader, vn_flag := flag_value VFS_BLOCK_DEV\<rparr>
               in devices_add device_handler s5)))"

section \<open>Polling\<close>

text \<open>
  What a poll of the status register does, any number of times: \<open>polls\<close>. The two loops of the
  driver are one search, for the first poll with a given answer.
\<close>

definition poll_once :: "'a machine_scheme \<Rightarrow> 'a machine_scheme" where
  "poll_once s = snd (x86_inb 0x1F7 s)"

definition status_of :: "'a machine_scheme \<Rightarrow> u8" where
  "status_of s = fst (x86_inb 0x1F7 s)"

abbreviation polls :: "nat \<Rightarrow> 'a machine_scheme \<Rightarrow> 'a machine_scheme" where
  "polls n s \<equiv> (poll_once ^^ n) s"

locale polling =
  fixes wait :: "'s \<Rightarrow> (unit \<times> 's) option"
    and step :: "'s \<Rightarrow> 's"
    and busy :: "'s \<Rightarrow> bool"
  assumes unfold: "wait s = (if busy s then wait (step s) else Some ((), step s))"
    and returned: "wait s = Some r \<Longrightarrow> \<exists>n. \<not> busy ((step ^^ n) s)"
begin

lemma returns: "\<not> busy ((step ^^ n) s) \<Longrightarrow> \<exists>k. wait s = Some ((), (step ^^ Suc k) s)"
proof (induction n arbitrary: s)
  case 0
  then show ?case by (intro exI [of _ 0]) (simp add: unfold)
next
  case (Suc n)
  show ?case
  proof (cases "busy s")
    case False
    then show ?thesis by (intro exI [of _ 0]) (simp add: unfold [of s])
  next
    case True
    have "\<not> busy ((step ^^ n) (step s))" using Suc.prems by (simp add: funpow_swap1)
    then obtain k where "wait (step s) = Some ((), (step ^^ Suc k) (step s))"
      using Suc.IH by blast
    then show ?thesis using True by (intro exI [of _ "Suc k"]) (simp add: unfold [of s] funpow_swap1)
  qed
qed

lemma returns_iff: "wait s \<noteq> None \<longleftrightarrow> (\<exists>n. \<not> busy ((step ^^ n) s))"
  using returns returned by fastforce

end

lemma poll_port: "ATA_PRIMARY_IO + ATA_REG_STATUS = 0x1F7"
  by (simp add: ata_ports)

lemma first_poll: "(\<not> Q s \<Longrightarrow> \<exists>n. Q (polls n (poll_once s))) \<Longrightarrow> \<exists>n. Q (polls n s)"
  by (cases "Q s") (metis funpow_0, metis funpow_Suc_right o_apply)

lemma bsy_unfold:
  "ata_wait_bsy s = (if status_of s AND ATA_STATUS_BSY \<noteq> 0 then ata_wait_bsy (poll_once s) else Some ((), poll_once s))"
  by (simp add: ata_wait_bsy.simps [of s] poll_port poll_once_def status_of_def split: prod.split)

lemma bsy_returned: "ata_wait_bsy s = Some r \<Longrightarrow> \<exists>n. \<not> (status_of (polls n s) AND ATA_STATUS_BSY \<noteq> 0)"
proof (induction rule: ata_wait_bsy.raw_induct [rotated, consumes 1, case_names step])
  case (step wait s r)
  show ?case
  proof (rule first_poll)
    assume "\<not> \<not> (status_of s AND ATA_STATUS_BSY \<noteq> 0)"
    then have "wait (poll_once s) = Some r"
      using step(2) by (simp add: poll_port poll_once_def status_of_def split: prod.splits)
    then show "\<exists>n. \<not> (status_of (polls n (poll_once s)) AND ATA_STATUS_BSY \<noteq> 0)" by (rule step(1))
  qed
qed

lemma drq_unfold:
  "ata_wait_drq s = (if status_of s AND ATA_STATUS_RDY = 0 then ata_wait_drq (poll_once s) else Some ((), poll_once s))"
  by (simp add: ata_wait_drq.simps [of s] poll_port poll_once_def status_of_def split: prod.split)

lemma drq_returned: "ata_wait_drq s = Some r \<Longrightarrow> \<exists>n. \<not> (status_of (polls n s) AND ATA_STATUS_RDY = 0)"
proof (induction rule: ata_wait_drq.raw_induct [rotated, consumes 1, case_names step])
  case (step wait s r)
  show ?case
  proof (rule first_poll)
    assume "\<not> \<not> (status_of s AND ATA_STATUS_RDY = 0)"
    then have "wait (poll_once s) = Some r"
      using step(2) by (simp add: poll_port poll_once_def status_of_def split: prod.splits)
    then show "\<exists>n. \<not> (status_of (polls n (poll_once s)) AND ATA_STATUS_RDY = 0)" by (rule step(1))
  qed
qed


interpretation bsy: polling ata_wait_bsy poll_once "\<lambda>s. status_of s AND ATA_STATUS_BSY \<noteq> 0"
  by unfold_locales (rule bsy_unfold, rule bsy_returned)

interpretation drq: polling ata_wait_drq poll_once "\<lambda>s. status_of s AND ATA_STATUS_RDY = 0"
  by unfold_locales (rule drq_unfold, rule drq_returned)

section \<open>Reading sectors\<close>

text \<open>
  What the drive sees: the commands written to it and the data words read from it. \<open>drive_command\<close>
  decodes a command of LBA28 (master drive, one byte of the address in each register).
\<close>

definition outs :: "io_event list \<Rightarrow> io_event list" where
  "outs log = filter (\<lambda>e. case e of OutB _ _ \<Rightarrow> True | _ \<Rightarrow> False) log"

fun words_in :: "io_event list \<Rightarrow> u16 list" where
  "words_in [] = []"
| "words_in (InW p w # es) = w # words_in es"
| "words_in (_ # es) = words_in es"

definition read_bytes :: "u32 \<Rightarrow> io_event list" where
  "read_bytes lba = [OutB 0x1F6 (0xE0 OR ucast (drop_bit 24 lba AND 0xF)), OutB 0x1F2 1,
     OutB 0x1F3 (ucast lba), OutB 0x1F4 (ucast (drop_bit 8 lba)), OutB 0x1F5 (ucast (drop_bit 16 lba)),
     OutB 0x1F7 0x20]"

fun drive_command :: "io_event list \<Rightarrow> (u8 \<times> u32 \<times> u8) option" where
  "drive_command [OutB dp d, OutB np n, OutB ap a, OutB bp b, OutB cp c, OutB xp x] =
     (if [dp, np, ap, bp, cp, xp] = [0x1F6, 0x1F2, 0x1F3, 0x1F4, 0x1F5, 0x1F7] \<and> d AND 0xF0 = 0xE0
      then Some (x, ucast a OR push_bit 8 (ucast b) OR push_bit 16 (ucast c)
             OR push_bit 24 (ucast (d AND 0xF)), n)
      else None)"
| "drive_command _ = None"

definition word_bytes :: "u16 \<Rightarrow> u8 list" where
  "word_bytes w = [ucast w, ucast (drop_bit 8 w)]"

abbreviation sector_bytes :: "u16 list \<Rightarrow> u8 list" where
  "sector_bytes ws \<equiv> concat (map word_bytes ws)"

text \<open>A drive that, whatever was done before, gets out of its busy state and gets ready.\<close>

definition answers :: "'a machine_scheme \<Rightarrow> bool" where
  "answers s \<longleftrightarrow> (\<forall>log. (\<exists>n. status_of (polls n (s\<lparr>io_log := log\<rparr>)) AND ATA_STATUS_BSY = 0)
     \<and> (\<exists>n. status_of (polls n (s\<lparr>io_log := log\<rparr>)) AND ATA_STATUS_RDY \<noteq> 0))"

lemma words_in_append [simp]: "words_in (xs @ ys) = words_in xs @ words_in ys"
  by (induction xs rule: words_in.induct) simp_all

lemma words_in_InW [simp]: "words_in (map (InW p) ws) = ws"
  by (induction ws) simp_all

lemma outs_append [simp]: "outs (xs @ ys) = outs xs @ outs ys"
  by (simp add: outs_def)

lemma outs_InW [simp]: "outs (map (InW p) ws) = []"
  by (simp add: outs_def)

lemma sector_bytes_length [simp]: "length (sector_bytes ws) = 2 * length ws"
  by (induction ws) (simp_all add: word_bytes_def)

lemma poll_once_log: "poll_once s = s\<lparr>io_log := io_log s @ [InB 0x1F7 (status_of s)]\<rparr>"
  by (simp add: poll_once_def status_of_def x86_inb_def Let_def)

lemma polls_log:
  "\<exists>log. polls n s = s\<lparr>io_log := io_log s @ log\<rparr> \<and> outs log = [] \<and> words_in log = []"
proof (induction n)
  case 0
  show ?case by (intro exI [of _ "[]"]) (simp add: outs_def)
next
  case (Suc n)
  then obtain log where "polls n s = s\<lparr>io_log := io_log s @ log\<rparr>" "outs log = []" "words_in log = []"
    by blast
  then show ?case
    by (intro exI [of _ "log @ [InB 0x1F7 (status_of (polls n s))]"])
      (simp add: poll_once_log [of "s\<lparr>io_log := io_log s @ log\<rparr>"] outs_def)
qed

text \<open>A status loop of a drive that answers only reads.\<close>

lemma wait_runs:
  assumes "answers s"
  shows "\<exists>log. ata_wait_bsy (s\<lparr>io_log := l\<rparr>) = Some ((), s\<lparr>io_log := l @ log\<rparr>)
      \<and> outs log = [] \<and> words_in log = []"
    and "\<exists>log. ata_wait_drq (s\<lparr>io_log := l\<rparr>) = Some ((), s\<lparr>io_log := l @ log\<rparr>)
      \<and> outs log = [] \<and> words_in log = []"
proof -
  obtain i j where "status_of (polls i (s\<lparr>io_log := l\<rparr>)) AND ATA_STATUS_BSY = 0"
    and "status_of (polls j (s\<lparr>io_log := l\<rparr>)) AND ATA_STATUS_RDY \<noteq> 0"
    using assms unfolding answers_def by blast
  then obtain k k' where w: "ata_wait_bsy (s\<lparr>io_log := l\<rparr>) = Some ((), polls (Suc k) (s\<lparr>io_log := l\<rparr>))"
      "ata_wait_drq (s\<lparr>io_log := l\<rparr>) = Some ((), polls (Suc k') (s\<lparr>io_log := l\<rparr>))"
    using bsy.returns [of i "s\<lparr>io_log := l\<rparr>"] drq.returns [of j "s\<lparr>io_log := l\<rparr>"] by blast
  show "\<exists>log. ata_wait_bsy (s\<lparr>io_log := l\<rparr>) = Some ((), s\<lparr>io_log := l @ log\<rparr>)
      \<and> outs log = [] \<and> words_in log = []"
    using polls_log [of "Suc k" "s\<lparr>io_log := l\<rparr>"] unfolding w by auto
  show "\<exists>log. ata_wait_drq (s\<lparr>io_log := l\<rparr>) = Some ((), s\<lparr>io_log := l @ log\<rparr>)
      \<and> outs log = [] \<and> words_in log = []"
    using polls_log [of "Suc k'" "s\<lparr>io_log := l\<rparr>"] unfolding w by auto
qed

lemma answers_frame:
  "answers (s\<lparr>io_log := l\<rparr>) = answers s" "answers (s\<lparr>mem := m\<rparr>) = answers s"
proof -
  have io_mem: "s\<lparr>mem := m, io_log := log\<rparr> = s\<lparr>io_log := log, mem := m\<rparr>" for log by simp
  have st: "status_of (u\<lparr>mem := m\<rparr>) = status_of u" for u :: "'a machine_scheme"
    by (simp add: status_of_def x86_inb_def Let_def)
  have pl: "polls n (u\<lparr>mem := m\<rparr>) = (polls n u)\<lparr>mem := m\<rparr>" for n and u :: "'a machine_scheme"
  proof (induction n)
    case (Suc n)
    then show ?case
      using poll_once_log [of "(polls n u)\<lparr>mem := m\<rparr>"] poll_once_log [of "polls n u"] by (simp add: st)
  qed simp
  have "status_of (polls n (s\<lparr>mem := m, io_log := log\<rparr>)) = status_of (polls n (s\<lparr>io_log := log\<rparr>))"
    for n log
    using pl [of n "s\<lparr>io_log := log\<rparr>"] st [of "polls n (s\<lparr>io_log := log\<rparr>)"] by (simp only: io_mem)
  then show "answers (s\<lparr>mem := m\<rparr>) = answers s" by (simp add: answers_def)
qed (simp add: answers_def)

lemma read_command_log: "read_command lba s = s\<lparr>io_log := io_log s @ read_bytes lba\<rparr>"
  by (simp add: read_command_def read_bytes_def ata_ports ATA_COM_READ_def x86_outb_def Let_def)

lemma read_word_step:
  "read_word a i s = (let w = in16 s (io_log s) 0x1F0 in
     s\<lparr>mem := (mem s)(a + of_nat (2 * i) := ucast w, a + of_nat (2 * i + 1) := ucast (drop_bit 8 w)),
       io_log := io_log s @ [InW 0x1F0 w]\<rparr>)"
proof -
  have "w AND 0xFF = take_bit 8 w" for w :: u16 by (simp add: take_bit_eq_mask mask_eq_exp_minus_1)
  then have "ucast (w AND 0xFF) = (ucast w :: u8)" for w :: u16
    by (intro bit_word_eqI) (auto simp: bit_simps)
  then show ?thesis
    by (simp add: read_word_def x86_inw_def ata_ports Let_def)
qed

lemma read_words:
  assumes "n \<le> 256"
  shows "\<exists>ws. length ws = n \<and> fold (read_word a) [0..<n] s =
    s\<lparr>mem := put_bytes a (sector_bytes ws) (mem s), io_log := io_log s @ map (InW 0x1F0) ws\<rparr>
    \<and> (\<forall>i < n. ws ! i = in16 s (io_log s @ map (InW 0x1F0) (take i ws)) 0x1F0)"
  using assms
proof (induction n)
  case 0
  show ?case by (simp add: put_bytes_def in_span)
next
  case (Suc n)
  then obtain ws where ws: "length ws = n" "fold (read_word a) [0..<n] s =
    s\<lparr>mem := put_bytes a (sector_bytes ws) (mem s), io_log := io_log s @ map (InW 0x1F0) ws\<rparr>"
    "\<forall>i < n. ws ! i = in16 s (io_log s @ map (InW 0x1F0) (take i ws)) 0x1F0"
    by auto
  define w where "w = in16 s (io_log s @ map (InW 0x1F0) ws) 0x1F0"
  have pb: "put_bytes a (sector_bytes (ws @ [w])) m = (put_bytes a (sector_bytes ws) m)
      (a + of_nat (2 * n) := ucast w, a + of_nat (2 * n + 1) := ucast (drop_bit 8 w))" for m
    using put_bytes_snoc [of "sector_bytes ws" a "ucast w" m] Suc.prems ws(1)
      put_bytes_snoc [of "sector_bytes ws @ [ucast w]" a "ucast (drop_bit 8 w)" m]
    by (simp add: word_bytes_def)
  have "fold (read_word a) [0..<Suc n] s = read_word a n (fold (read_word a) [0..<n] s)" by simp
  also have "\<dots> = s\<lparr>mem := put_bytes a (sector_bytes (ws @ [w])) (mem s),
      io_log := io_log s @ map (InW 0x1F0) (ws @ [w])\<rparr>"
    unfolding ws(2) pb read_word_step by (simp add: w_def Let_def)
  finally show ?case using ws(1,3) by (intro exI [of _ "ws @ [w]"]) (auto simp: nth_append less_Suc_eq w_def)
qed

lemma put_bytes_append:
  assumes "length xs + length ys \<le> 4294967296"
  shows "put_bytes a (xs @ ys) m = put_bytes (a + of_nat (length xs)) ys (put_bytes a xs m)"
proof (cases "ys = []")
  case False
  then have n: "unat (of_nat (length xs) :: u32) = length xs"
    using assms by (cases ys) (auto intro: u32_of_nat_unat)
  show ?thesis
  proof
    fix x
    define d where "d = x - a"
    have x: "x - (a + of_nat (length xs)) = d - of_nat (length xs)" by (simp add: d_def)
    show "put_bytes a (xs @ ys) m x
      = put_bytes (a + of_nat (length xs)) ys (put_bytes a xs m) x"
      unfolding put_bytes_def in_span x d_def [symmetric] u32_diff_unat [of d] n
      using assms u32_bound [of d] by (auto simp: nth_append)
  qed
qed (simp add: put_bytes_def in_span)


text \<open>One sector: the command, two waits, 256 words, each what the drive gives after those before it.\<close>

definition quiet :: "io_event list \<Rightarrow> bool" where
  "quiet log \<longleftrightarrow> outs log = [] \<and> words_in log = []"

definition words_after :: "'a machine_scheme \<Rightarrow> u32 \<Rightarrow> u16 list \<Rightarrow> bool" where
  "words_after s lba ws \<longleftrightarrow> (\<exists>pre post. quiet post
     \<and> (\<forall>i < 256. ws ! i = in16 s (pre @ read_bytes lba @ post @ map (InW 0x1F0) (take i ws)) 0x1F0))"

lemma read_sector_run:
  assumes "answers s" and "is_master_exist s \<noteq> 0"
  shows "\<exists>ws log. length ws = 256
    \<and> ata_read_sector lba a s = Inr (0, s\<lparr>mem := put_bytes a (sector_bytes ws) (mem s), io_log := log\<rparr>)
    \<and> outs log = outs (io_log s) @ read_bytes lba \<and> words_in log = words_in (io_log s) @ ws
    \<and> words_after s lba ws"
proof -
  obtain l1 where l1: "ata_wait_bsy s = Some ((), s\<lparr>io_log := io_log s @ l1\<rparr>)" "outs l1 = []" "words_in l1 = []"
    using wait_runs(1) [OF assms(1), of "io_log s"] by auto
  let ?k1 = "io_log s @ l1 @ read_bytes lba"
  obtain l2 where l2: "ata_wait_bsy (s\<lparr>io_log := ?k1\<rparr>) = Some ((), s\<lparr>io_log := ?k1 @ l2\<rparr>)"
      "outs l2 = []" "words_in l2 = []"
    using wait_runs(1) [OF assms(1)] by blast
  let ?k2 = "?k1 @ l2"
  obtain l3 where l3: "ata_wait_drq (s\<lparr>io_log := ?k2\<rparr>) = Some ((), s\<lparr>io_log := ?k2 @ l3\<rparr>)"
      "outs l3 = []" "words_in l3 = []"
    using wait_runs(2) [OF assms(1)] by blast
  let ?k3 = "?k2 @ l3"
  obtain ws where ws: "length ws = 256" "fold (read_word a) [0..<256] (s\<lparr>io_log := ?k3\<rparr>) =
    s\<lparr>io_log := ?k3, mem := put_bytes a (sector_bytes ws) (mem s), io_log := ?k3 @ map (InW 0x1F0) ws\<rparr>"
    "\<forall>i < 256. ws ! i = in16 s (?k3 @ map (InW 0x1F0) (take i ws)) 0x1F0"
    using read_words [of 256 a "s\<lparr>io_log := ?k3\<rparr>"] by auto
  have "outs (read_bytes lba) = read_bytes lba" "words_in (read_bytes lba) = []"
    by (simp_all add: outs_def read_bytes_def)
  moreover have "ata_read_sector lba a s = Inr (0, s\<lparr>mem := put_bytes a (sector_bytes ws) (mem s),
      io_log := ?k3 @ map (InW 0x1F0) ws\<rparr>)"
    using assms(2) l2(1) l3(1) ws(2) by (simp add: ata_read_sector_def l1(1) read_command_log)
  moreover have "words_after s lba ws"
    unfolding words_after_def using ws(3) l2(2,3) l3(2,3)
    by (intro exI [of _ "io_log s @ l1"] exI [of _ "l2 @ l3"]) (simp add: quiet_def)
  ultimately show ?thesis
    by (intro exI [of _ ws] exI [of _ "?k3 @ map (InW 0x1F0) ws"])
      (simp add: ws(1) l1 l2 l3)
qed

lemma read_sectors_run:
  assumes "answers s" and "is_master_exist s \<noteq> 0" and "512 * length is \<le> 4294967296"
  shows "\<exists>ws log. length ws = 256 * length is
    \<and> read_sectors off a is s = Inr ((), s\<lparr>mem := put_bytes a (sector_bytes ws) (mem s), io_log := log\<rparr>)
    \<and> outs log = outs (io_log s) @ concat (map (\<lambda>i. read_bytes (off + of_nat i)) is)
    \<and> words_in log = words_in (io_log s) @ ws
    \<and> (\<forall>j < length is. words_after s (off + of_nat (is ! j)) (take 256 (drop (256 * j) ws)))"
  using assms
proof (induction "is" arbitrary: a s)
  case Nil
  show ?case by (intro exI [of _ "[]"] exI [of _ "io_log s"]) (simp add: put_bytes_def in_span)
next
  case (Cons i "is")
  obtain ws l where 1: "length ws = 256" "ata_read_sector (off + of_nat i) a s
      = Inr (0, s\<lparr>mem := put_bytes a (sector_bytes ws) (mem s), io_log := l\<rparr>)"
    "outs l = outs (io_log s) @ read_bytes (off + of_nat i)" "words_in l = words_in (io_log s) @ ws"
    "words_after s (off + of_nat i) ws"
    using read_sector_run [OF Cons.prems(1,2)] by blast
  define s1 where "s1 = s\<lparr>mem := put_bytes a (sector_bytes ws) (mem s), io_log := l\<rparr>"
  have "answers s1" "is_master_exist s1 \<noteq> 0"
    using Cons.prems(1,2) by (simp_all add: s1_def answers_frame)
  then obtain vs k where 2: "length vs = 256 * length is" "read_sectors off (a + ATA_SECTOR_SIZE) is s1
      = Inr ((), s1\<lparr>mem := put_bytes (a + ATA_SECTOR_SIZE) (sector_bytes vs) (mem s1), io_log := k\<rparr>)"
    "outs k = outs (io_log s1) @ concat (map (\<lambda>i. read_bytes (off + of_nat i)) is)"
    "words_in k = words_in (io_log s1) @ vs"
    "\<forall>j < length is. words_after s1 (off + of_nat (is ! j)) (take 256 (drop (256 * j) vs))"
    using Cons.IH [of s1 "a + ATA_SECTOR_SIZE"] Cons.prems(3) by auto
  have "put_bytes a (sector_bytes (ws @ vs)) (mem s)
      = put_bytes (a + ATA_SECTOR_SIZE) (sector_bytes vs) (mem s1)"
    using put_bytes_append [of "sector_bytes ws" "sector_bytes vs" a "mem s"] 1(1) 2(1) Cons.prems(3)
    by (simp add: s1_def ATA_SECTOR_SIZE_def)
  moreover have "words_after s (off + of_nat ((i # is) ! j)) (take 256 (drop (256 * j) (ws @ vs)))"
    if "j < length (i # is)" for j
    using that 1(1,5) 2(5) by (cases j) (simp_all add: words_after_def s1_def)
  ultimately show ?case
    using 1 2 by (intro exI [of _ "ws @ vs"] exI [of _ k]) (simp add: s1_def [symmetric], simp add: s1_def)
qed

text \<open>The command decodes to the address, cut to 28 bits.\<close>

lemma read_bytes_decode: "drive_command (read_bytes lba) = Some (0x20, lba AND 0x0FFFFFFF, 1)"
proof -
  have m: "(0x0FFFFFFF :: u32) = mask 28" "(0xF :: u32) = mask 4" "(0xF :: u8) = mask 4"
    "(0xF0 :: u8) = push_bit 4 (mask 4)"
    "(0xE0 :: u8) = push_bit 5 (mask 3)"
    by (simp_all add: mask_eq_exp_minus_1)
  have d: "(0xE0 OR ucast (drop_bit 24 lba AND 0xF)) AND 0xF0 = (0xE0 :: u8)"
    unfolding m by (rule bit_word_eqI) (auto simp: bit_simps)
  have "ucast (ucast lba :: u8) OR push_bit 8 (ucast (ucast (drop_bit 8 lba) :: u8))
     OR push_bit 16 (ucast (ucast (drop_bit 16 lba) :: u8))
     OR push_bit 24 (ucast ((0xE0 OR ucast (drop_bit 24 lba AND 0xF)) AND 0xF :: u8))
     = lba AND 0x0FFFFFFF"
    unfolding m
  proof (rule bit_word_eqI, goal_cases)
    case (1 n)
    consider "n < 8" | "8 \<le> n" "n < 16" | "16 \<le> n" "n < 24" | "24 \<le> n" "n < 28" | "28 \<le> n" by linarith
    then show ?case using 1 by cases (auto simp: bit_simps)
  qed
  with d show ?thesis by (simp add: read_bytes_def)
qed

section \<open>Properties\<close>

text \<open>
  C30. Reading sectors from a drive that answers, however long it stays busy each time: the callback
  sends one LBA28 read command per sector, for consecutive addresses and nothing else, and stores the
  256 data words of each, low byte first, in \<open>512 * size\<close> consecutive bytes at the destination; no
  other byte of memory changes.
\<close>

theorem ata_read_fills:
  assumes "answers s" and "is_master_exist s \<noteq> 0" and "unat sz \<le> 8388608"
  shows "\<exists>ws log. ata_read_callback eax node off sz a s
      = Inr (eax, s\<lparr>mem := put_bytes a (sector_bytes ws) (mem s), io_log := log\<rparr>)
    \<and> length ws = 256 * unat sz \<and> words_in log = words_in (io_log s) @ ws
    \<and> outs log = outs (io_log s) @ concat (map (\<lambda>i. read_bytes (off + of_nat i)) [0..<unat sz])
    \<and> (\<forall>lba. drive_command (read_bytes lba) = Some (0x20, lba AND 0x0FFFFFFF, 1))"
proof -
  have "512 * length [0..<unat sz] \<le> 4294967296" using assms(3) by simp
  from read_sectors_run [OF assms(1,2) this, of off a]
  show ?thesis by (elim exE conjE, intro exI) (simp add: ata_read_callback_def read_bytes_decode)
qed

text \<open>A drive that is busy at every other poll; each data word holds 0x4241.\<close>

definition ata_start :: ata where
  "ata_start = \<lparr>mem = (\<lambda>_. 0), io_log = [],
     in8 = (\<lambda>log p. if p = 0x1F7 \<and> even (length log) then 0x80 else if p = 0x1F7 then 0x40 else 0),
     in16 = (\<lambda>_ _. 0x4241),
     term_row = 0, term_column = 0, term_color = 7,
     curr_addr = 0x200000, max_page_addr = 0x210000, frist_hh = 0, last_hh = 0,
     frames = 0x400, frames_max = 32, alloced_frames = 0,
     kernel_page_dir = 0, current_page_dir = 0x8000, cr3 = 0x8000, paging_on = False,
     the_idt = replicate 256 (new_gate 0 0), idtr_limit = 0, idtr_base = 0, idtr_loaded = False,
     m_devices = 0x300000, m_devices_number = 0,
     current_ch = 0, kb_buffer = replicate 255 0, handled_index = 0, kb_signal = 0, wait_enabled = 0,
     is_master_exist = 1\<rparr>"

lemma ata_start_answers: "answers ata_start"
  unfolding answers_def
proof (intro allI conjI)
  fix log
  let ?s = "ata_start\<lparr>io_log := log\<rparr>"
  have st: "status_of (ata_start\<lparr>io_log := l\<rparr>) = (if even (length l) then 0x80 else 0x40)" for l
    by (simp add: status_of_def x86_inb_def Let_def ata_start_def)
  have "poll_once ?s = ata_start\<lparr>io_log := log @ [InB 0x1F7 (status_of ?s)]\<rparr>"
    by (simp add: poll_once_log)
  then have "status_of ?s = 0x40 \<or> status_of (poll_once ?s) = 0x40" by (simp add: st)
  then have "status_of (polls 0 ?s) = 0x40 \<or> status_of (polls 1 ?s) = 0x40" by simp
  then obtain n where "status_of (polls n ?s) = 0x40" by blast
  then show "\<exists>n. status_of (polls n ?s) AND ATA_STATUS_BSY = 0"
    and "\<exists>n. status_of (polls n ?s) AND ATA_STATUS_RDY \<noteq> 0"
    by (intro exI [of _ n]; simp add: ATA_STATUS_BSY_def ATA_STATUS_RDY_def)+
qed

lemma ata_read_fills_witness:
  "\<exists>t ws. ata_read_callback 0 0 5 2 0x5000 ata_start = Inr (0, t) \<and> length ws = 512
     \<and> mem t = put_bytes 0x5000 (sector_bytes ws) (\<lambda>_. 0)"
  using ata_read_fills [OF ata_start_answers, of 2 0 0 5 "0x5000"]
  by (force simp: ata_start_def)

text \<open>A drive that shows the same status at every poll.\<close>

lemma same_status: "status_of (polls n (s\<lparr>in8 := \<lambda>_ _. v\<rparr>)) = v"
proof -
  obtain log where "polls n (s\<lparr>in8 := \<lambda>_ _. v\<rparr>) = s\<lparr>in8 := \<lambda>_ _. v\<rparr>\<lparr>io_log := log\<rparr>"
    using polls_log [of n "s\<lparr>in8 := \<lambda>_ _. v\<rparr>"] by auto
  then show ?thesis by (simp add: status_of_def x86_inb_def Let_def)
qed

lemma ready_answers: "answers (s\<lparr>in8 := \<lambda>_ _. 0x40, is_master_exist := 1\<rparr>)"
  unfolding answers_def
proof (intro allI conjI)
  fix log
  have "s\<lparr>in8 := \<lambda>_ _. 0x40, is_master_exist := 1\<rparr>\<lparr>io_log := log\<rparr>
      = (s\<lparr>is_master_exist := 1, io_log := log\<rparr>)\<lparr>in8 := \<lambda>_ _. 0x40\<rparr>" by simp
  then have st: "status_of (polls 0 (s\<lparr>in8 := \<lambda>_ _. 0x40, is_master_exist := 1\<rparr>\<lparr>io_log := log\<rparr>)) = 0x40"
    by (simp only: same_status)
  show "\<exists>n. status_of (polls n (s\<lparr>in8 := \<lambda>_ _. 0x40, is_master_exist := 1\<rparr>\<lparr>io_log := log\<rparr>)) AND ATA_STATUS_BSY = 0"
    by (rule exI [of _ 0], simp only: st, simp add: ATA_STATUS_BSY_def)
  show "\<exists>n. status_of (polls n (s\<lparr>in8 := \<lambda>_ _. 0x40, is_master_exist := 1\<rparr>\<lparr>io_log := log\<rparr>)) AND ATA_STATUS_RDY \<noteq> 0"
    by (rule exI [of _ 0], simp only: st, simp add: ATA_STATUS_RDY_def)
qed

text \<open>
  C31. The drive is polled without a timeout, and before the data for the wrong bit. \<open>_ata_wait_bsy\<close> returns exactly
  if BSY is clear at some poll, and reading a sector from a drive that stays busy never returns.
  \<open>_ata_wait_drq\<close> should by its name and its comment wait for DRQ (data request); it waits for RDY (drive ready)
  and returns exactly if RDY is set at some poll, whatever DRQ is. So it waits for ever on a drive that
  shows DRQ without RDY, and on a drive that is ready and never shows DRQ a sector is read all the
  same: 256 words that the drive never offered go to the buffer, and the result is 0 for success.
\<close>

theorem ata_wait_returns_iff:
  fixes s :: "'a machine_scheme" and t :: "'a ata_scheme"
  shows "(ata_wait_bsy s \<noteq> None \<longleftrightarrow> (\<exists>n. status_of (polls n s) AND ATA_STATUS_BSY = 0))
    \<and> (ata_wait_drq s \<noteq> None \<longleftrightarrow> (\<exists>n. status_of (polls n s) AND ATA_STATUS_RDY \<noteq> 0))
    \<and> (ata_read_sector lba a t = Inl Hangs \<or> is_master_exist t = 0
      \<or> (\<exists>n. status_of (polls n t) AND ATA_STATUS_BSY = 0))
    \<and> ata_wait_drq (s\<lparr>in8 := \<lambda>_ _. ATA_STATUS_DRQ\<rparr>) = None
    \<and> (\<exists>u ws. ata_read_sector lba a (t\<lparr>in8 := \<lambda>_ _. ATA_STATUS_RDY, is_master_exist := 1\<rparr>) = Inr (0, u)
      \<and> length ws = 256 \<and> mem u = put_bytes a (sector_bytes ws) (mem t)
      \<and> (\<forall>n. status_of (polls n (t\<lparr>in8 := \<lambda>_ _. ATA_STATUS_RDY\<rparr>)) AND ATA_STATUS_DRQ = 0))"
proof (intro conjI)
  show "ata_wait_bsy s \<noteq> None \<longleftrightarrow> (\<exists>n. status_of (polls n s) AND ATA_STATUS_BSY = 0)"
    "ata_wait_drq s \<noteq> None \<longleftrightarrow> (\<exists>n. status_of (polls n s) AND ATA_STATUS_RDY \<noteq> 0)"
    using bsy.returns_iff [of s] drq.returns_iff [of s] by auto
  show "ata_read_sector lba a t = Inl Hangs \<or> is_master_exist t = 0
      \<or> (\<exists>n. status_of (polls n t) AND ATA_STATUS_BSY = 0)"
    using bsy.returns_iff [of t] by (cases "ata_wait_bsy t") (auto simp: ata_read_sector_def)
  show "ata_wait_drq (s\<lparr>in8 := \<lambda>_ _. ATA_STATUS_DRQ\<rparr>) = None"
    using drq.returns_iff [of "s\<lparr>in8 := \<lambda>_ _. ATA_STATUS_DRQ\<rparr>"]
    by (cases "ata_wait_drq (s\<lparr>in8 := \<lambda>_ _. ATA_STATUS_DRQ\<rparr>)") (auto simp: same_status ATA_STATUS_DRQ_def ATA_STATUS_RDY_def)
  show "\<exists>u ws. ata_read_sector lba a (t\<lparr>in8 := \<lambda>_ _. ATA_STATUS_RDY, is_master_exist := 1\<rparr>) = Inr (0, u)
      \<and> length ws = 256 \<and> mem u = put_bytes a (sector_bytes ws) (mem t)
      \<and> (\<forall>n. status_of (polls n (t\<lparr>in8 := \<lambda>_ _. ATA_STATUS_RDY\<rparr>)) AND ATA_STATUS_DRQ = 0)"
    using read_sector_run [OF ready_answers, of t lba a]
    by (force simp: same_status ATA_STATUS_DRQ_def ATA_STATUS_RDY_def)
qed

text \<open>Code that only talks to the ports.\<close>

definition ports_only :: "'a machine_scheme \<Rightarrow> 'a machine_scheme \<Rightarrow> bool" where
  "ports_only s t \<longleftrightarrow> (\<exists>l. t = s\<lparr>io_log := l\<rparr>)"

interpretation ports: effect ports_only
proof
  fix s t u :: "'a machine_scheme"
  show "ports_only s s" by (auto simp: ports_only_def intro: exI [of _ "io_log s"])
  show "ports_only s t \<Longrightarrow> ports_only t u \<Longrightarrow> ports_only s u" by (auto simp: ports_only_def)
qed

lemma ports_steps:
  "ports_only s (x86_outb p v s)" "ports_only s (snd (x86_inb p s))" "ports_only s (poll_once s)"
  by (auto simp: ports_only_def x86_outb_def x86_inb_def poll_once_def Let_def)

lemma ports_delay: "ports_only s (ata_delay400ns s)"
  unfolding ata_delay400ns_def by (rule ports.fold_effect) (rule ports_steps)

lemma ports_reset: "ports_only s (ata_reset s)"
  unfolding ata_reset_def by (meson ports.R_trans ports_steps ports_delay)

lemma ports_identify: "ports_only s (identify_command s)"
  unfolding identify_command_def Let_def by (meson ports.R_trans ports_steps(1))

lemma ports_unmask: "ports_only s (pic_IRQ_remove_mask l s)"
proof -
  obtain p b where pb: "pic_IRQ_fix_line_and_port l = (p, b)" by fastforce
  obtain v s1 where "x86_inb p s = (v, s1)" by fastforce
  then show ?thesis
    using ports.R_trans [OF ports_steps(2) [of s p] ports_steps(1)]
    by (simp add: pic_IRQ_remove_mask_def pb)
qed

lemma ports_only_in8: "ports_only s t \<Longrightarrow> in8 t = in8 s"
  by (auto simp: ports_only_def)

lemma no_drive_status: "in8 s = (\<lambda>_ _. 0) \<Longrightarrow> x86_inb p s = (0, snd (x86_inb p s))"
  by (simp add: x86_inb_def Let_def)

lemma identify_no_drive:
  fixes s :: "'a terminal_scheme"
  assumes "in8 s = (\<lambda>_ _. 0)"
  shows "\<exists>t. ide_identify eax s = Inr (ATA_ERR_BUS_FETCH, t) \<and> ports_only s t"
proof -
  have "in8 (identify_command s) = (\<lambda>_ _. 0)" using ports_only_in8 [OF ports_identify [of s]] assms by simp
  then obtain s0 where s0: "x86_inb 0x1F7 (identify_command s) = (0, s0)"
    using no_drive_status by blast
  define s1 where "s1 = ata_delay400ns s0"
  have "ports_only (identify_command s) s0" using ports_steps(2) [of "identify_command s" "0x1F7"] s0 by simp
  then have eff: "ports_only s s1"
    unfolding s1_def by (meson ports.R_trans ports_identify ports_delay)
  have "identify_wait 0 s1 = Some (0, s1)" by (simp add: identify_wait.simps)
  moreover have "ata_wait_bsy s1 = Some ((), poll_once s1)"
    using ports_only_in8 [OF eff] assms by (simp add: bsy_unfold [of s1] status_of_def x86_inb_def Let_def)
  ultimately have "ide_identify eax s = Inr (ATA_ERR_BUS_FETCH, poll_once s1)"
    by (simp add: ide_identify_def poll_port s0 s1_def [symmetric])
  then show ?thesis using ports.R_trans [OF eff ports_steps(3)] by blast
qed

text \<open>
  Without a drive (every port reads 0) \<open>ata_init\<close> stops the machine through \<open>panic\<close>; by then both
  vectors of the disk, of the primary and of the secondary bus, lead to the handler of the primary bus,
  and no drive is taken to exist.
\<close>

theorem ata_init_no_drive:
  assumes "in8 s = (\<lambda>_ _. 0)" and "unat pic_loc + 15 < length (the_idt s)" and "term_ok s"
  shows "\<exists>t. ata_init primary reader eax stack pic_loc s = Inl (Halted t)
    \<and> is_master_exist t = is_master_exist s
    \<and> gate_handler (the_idt t ! (unat pic_loc + 14)) = primary
    \<and> gate_handler (the_idt t ! (unat pic_loc + 15)) = primary"
proof -
  define g where "g = new_gate primary TRAP_GATE_FLAGS"
  define s2 where "s2 = s\<lparr>the_idt := (the_idt s)[unat pic_loc + 14 := g, unat pic_loc + 15 := g]\<rparr>"
  define s3 where "s3 = ata_reset (pic_IRQ_remove_mask 15 (pic_IRQ_remove_mask 14 s2))"
  have eff: "ports_only s2 s3"
    unfolding s3_def by (meson ports.R_trans ports_reset ports_unmask)
  then have "in8 s3 = (\<lambda>_ _. 0)" using ports_only_in8 assms(1) by (fastforce simp: s2_def)
  then obtain s4 where s4: "ide_identify eax s3 = Inr (ATA_ERR_BUS_FETCH, s4)" "ports_only s3 s4"
    using identify_no_drive by blast
  then obtain l where l: "s4 = s2\<lparr>io_log := l\<rparr>"
    using ports.R_trans [OF eff s4(2)] unfolding ports_only_def by blast
  have "fmt_render (lit ''Can't fetch ata bus'') [] = Some (lit ''Can't fetch ata bus'')"
    by (simp add: lit_def)
  from panic_render [OF this, of s4] obtain t
    where t: "(panic ''Can't fetch ata bus'' [] s4 :: (u32, 'a ata_scheme) run) = Inl (Halted t)" by blast
  then have run: "ata_init primary reader eax stack pic_loc s = Inl (Halted t)"
    using assms(2) s4(1)
    by (simp add: ata_init_def set_idt_gate_def s2_def [symmetric] s3_def [symmetric] g_def [symmetric]
        ATA_ERR_BUS_FETCH_def)
  have "term_ok s4" using assms(3) by (simp add: l s2_def term_ok_def)
  then have "term_only s4 t"
    using panic_effect [where 'b = u32, of s4 "''Can't fetch ata bus''" "[]"] t
    by (simp add: term_effect_def)
  then have "terminal.more t = terminal.more s2" by (simp add: term_only_def l)
  then have "the_idt t = the_idt s2" "is_master_exist t = is_master_exist s2"
    by (cases t; cases s2; simp)+
  then show ?thesis using run assms(2) by (simp add: s2_def g_def gate_handler_new)
qed

lemma ata_init_no_drive_witness:
  "\<exists>t. ata_init 0x1000 0x2000 0 (replicate 55 0) 32 (ata_start\<lparr>in8 := \<lambda>_ _. 0, is_master_exist := 0\<rparr>)
      = Inl (Halted t) \<and> gate_handler (the_idt t ! 47) = 0x1000"
proof -
  have "term_ok (ata_start\<lparr>in8 := \<lambda>_ _. 0, is_master_exist := 0\<rparr>)"
    by (simp add: term_ok_def ata_start_def vga_consts)
  then show ?thesis
    using ata_init_no_drive [of "ata_start\<lparr>in8 := \<lambda>_ _. 0, is_master_exist := 0\<rparr>" 32]
    by (force simp: ata_start_def)
qed

end
