(* ===== verification/Vfs_Calls.thy ===== *)
theory Vfs_Calls
  imports Ata
begin

text \<open>
  Calls through the function pointers of a node (\<^verbatim>\<open>src/fs/vfs.c\<close>: \<open>vread\<close> .. \<open>vfind_dir\<close>). A node
  holds the addresses of its callbacks; which function lies at an address is the linker's choice, so
  the addresses of functions (\<open>fn_\<close>), of string literals (\<open>str_\<close>) and of locals passed by address
  (\<open>local_\<close>) are fields of an environment, with what uninitialised locals find on the stack and what a
  function without \<open>return\<close> leaves in \<open>eax\<close>. The six calls take the dispatch to the
  functions of one kind as an argument, because the file systems call \<open>vread\<close> on their device and are
  callbacks themselves. A call of anything that is not a callback of that kind is \<open>Undefined\<close>.
\<close>

section \<open>Environment and state\<close>

text \<open>A directory entry of \<^verbatim>\<open>fat.h\<close>: an uninitialised one lies on the stack of \<open>fat_dir_finddir\<close>.\<close>

record FatEntry =
  fe_filename :: "u8 list"
  fe_ext :: "u8 list"
  fe_attributes :: u8
  fe_reserved :: "u8 list"
  fe_modify_time :: u16
  fe_modify_date :: u16
  fe_starting_cluster :: u16
  fe_file_size :: u32

record env =
  fn_ata_read :: u32
  fn_keyboard_read :: u32
  fn_term_write :: u32
  fn_fat_file_read :: u32
  fn_fat_read_dir :: u32
  fn_fat_find_dir :: u32
  fn_fat_dir_readdir :: u32
  fn_fat_dir_finddir :: u32
  fn_devfs_read_dir :: u32
  fn_devfs_find_dir :: u32
  fn_syscall_dispatch :: u32
  fn_div_by_zero :: u32
  fn_general_protection :: u32
  fn_page_fault :: u32
  fn_pit_timer :: u32
  fn_keyboard_handler :: u32
  fn_ata_primary :: u32
  isr_stubs :: "u32 list"
  idt_address :: u32
  addr_syscall_cnt :: u32
  str_slash :: u32
  str_dev :: u32
  str_mafest :: u32
  str_bin_init :: u32
  str_krnl_exit_code :: u32
  str_prog_names :: "u32 list"
  local_dirent :: u32
  local_block :: u32
  local_input :: u32
  stack_junk :: "u8 list"
  stack_fe :: FatEntry
  left_eax :: u32
  left_poll :: u8

definition callbacks :: "env \<Rightarrow> u32 list" where
  "callbacks k = [fn_ata_read k, fn_keyboard_read k, fn_term_write k, fn_fat_file_read k,
     fn_fat_read_dir k, fn_fat_find_dir k, fn_fat_dir_readdir k, fn_fat_dir_finddir k,
     fn_devfs_read_dir k, fn_devfs_find_dir k]"

text \<open>The globals of \<^verbatim>\<open>vfs.c\<close> and the static variable of \<open>strtok\<close>.\<close>

record vfs = ata +
  mount_points :: u32
  mount_count :: u32
  strtok_input :: u32

abbreviation node_flag :: "'a machine_scheme \<Rightarrow> u32 \<Rightarrow> u32" where
  "node_flag s a \<equiv> rd32 s (a + 56)"
abbreviation node_read :: "'a machine_scheme \<Rightarrow> u32 \<Rightarrow> u32" where
  "node_read s a \<equiv> rd32 s (a + 60)"
abbreviation node_write :: "'a machine_scheme \<Rightarrow> u32 \<Rightarrow> u32" where
  "node_write s a \<equiv> rd32 s (a + 64)"
abbreviation node_open :: "'a machine_scheme \<Rightarrow> u32 \<Rightarrow> u32" where
  "node_open s a \<equiv> rd32 s (a + 68)"
abbreviation node_close :: "'a machine_scheme \<Rightarrow> u32 \<Rightarrow> u32" where
  "node_close s a \<equiv> rd32 s (a + 72)"
abbreviation node_read_dir :: "'a machine_scheme \<Rightarrow> u32 \<Rightarrow> u32" where
  "node_read_dir s a \<equiv> rd32 s (a + 76)"
abbreviation node_find_dir :: "'a machine_scheme \<Rightarrow> u32 \<Rightarrow> u32" where
  "node_find_dir s a \<equiv> rd32 s (a + 80)"
abbreviation node_master :: "'a machine_scheme \<Rightarrow> u32 \<Rightarrow> u32" where
  "node_master s a \<equiv> rd32 s (a + 84)"

section \<open>The six calls\<close>

type_synonym ('s) io_call = "u32 \<Rightarrow> u32 \<Rightarrow> u32 \<Rightarrow> u32 \<Rightarrow> u32 \<Rightarrow> 's \<Rightarrow> (u32, 's) run"
type_synonym ('s) node_call = "u32 \<Rightarrow> u32 \<Rightarrow> 's \<Rightarrow> (u32, 's) run"
type_synonym ('s) dir_call = "u32 \<Rightarrow> u32 \<Rightarrow> u32 \<Rightarrow> u32 \<Rightarrow> 's \<Rightarrow> (u32, 's) run"

definition vread :: "'a machine_scheme io_call \<Rightarrow> u32 \<Rightarrow> u32 \<Rightarrow> u32 \<Rightarrow> u32 \<Rightarrow>
    'a machine_scheme \<Rightarrow> (u32, 'a machine_scheme) run" where
  "vread call node offset sz ptr s =
     (if node_read s node \<noteq> 0 then call (node_read s node) node offset sz ptr s else Inr (- 1, s))"

definition vwrite :: "'a machine_scheme io_call \<Rightarrow> u32 \<Rightarrow> u32 \<Rightarrow> u32 \<Rightarrow> u32 \<Rightarrow>
    'a machine_scheme \<Rightarrow> (u32, 'a machine_scheme) run" where
  "vwrite call node offset sz ptr s =
     (if node_write s node \<noteq> 0 then call (node_write s node) node offset sz ptr s else Inr (- 1, s))"

definition vopen :: "'a machine_scheme node_call \<Rightarrow> u32 \<Rightarrow>
    'a machine_scheme \<Rightarrow> (u32, 'a machine_scheme) run" where
  "vopen call node s =
     (if node_open s node \<noteq> 0 then call (node_open s node) node s else Inr (- 1, s))"

definition vclose :: "'a machine_scheme node_call \<Rightarrow> u32 \<Rightarrow>
    'a machine_scheme \<Rightarrow> (u32, 'a machine_scheme) run" where
  "vclose call node s =
     (if node_close s node \<noteq> 0 then call (node_close s node) node s else Inr (- 1, s))"

definition is_dir :: "u32 \<Rightarrow> bool" where
  "is_dir flag \<longleftrightarrow> flag = flag_value VFS_DIRECTORY \<or> flag = flag_value VFS_FILESYSTEM"

definition vread_dir :: "'a machine_scheme dir_call \<Rightarrow> u32 \<Rightarrow> u32 \<Rightarrow> u32 \<Rightarrow>
    'a machine_scheme \<Rightarrow> (u32, 'a machine_scheme) run" where
  "vread_dir call node index dirent s =
     (if node_read_dir s node \<noteq> 0 \<and> is_dir (node_flag s node)
      then call (node_read_dir s node) node index dirent s else Inr (- 1, s))"

text \<open>\<open>vfind_dir\<close> tests \<open>read_dir\<close> and calls \<open>find_dir\<close>.\<close>

definition vfind_dir :: "'a machine_scheme dir_call \<Rightarrow> u32 \<Rightarrow> u32 \<Rightarrow> u32 \<Rightarrow>
    'a machine_scheme \<Rightarrow> (u32, 'a machine_scheme) run" where
  "vfind_dir call node name target s =
     (if node_read_dir s node \<noteq> 0 \<and> is_dir (node_flag s node)
      then call (node_find_dir s node) node name target s else Inr (- 1, s))"

text \<open>The read callbacks of the devices: what a file system reads its sectors with.\<close>

definition device_read :: "env \<Rightarrow> 'a ata_scheme io_call" where
  "device_read k f node offset sz ptr s =
     (if f = fn_ata_read k then ata_read_callback (left_eax k) node offset sz ptr s
      else if f = fn_keyboard_read k then Inr (keyboard_read_callback node offset sz ptr s)
      else Inl Undefined)"

text \<open>The console as a device (\<open>term_init_device\<close> of \<^verbatim>\<open>framebuffer.c\<close>): the name is copied without its NUL.\<close>

definition term_init_device :: "env \<Rightarrow> 'a devices_scheme \<Rightarrow> (unit, 'a devices_scheme) run" where
  "term_init_device k s =
     (let device_handler = copy_name (lit ''video'') (vfs_node_new (stack_junk k));
          device_handler = device_handler\<lparr>vn_write := fn_term_write k, vn_flag := flag_value VFS_CHAR_DEV\<rparr>
      in and_then (devices_add device_handler s) (\<lambda>_ s1. Inr ((), s1)))"

text \<open>The write callbacks.\<close>

definition device_write :: "env \<Rightarrow> 'a terminal_scheme io_call" where
  "device_write k f node offset sz ptr s =
     (if f = fn_term_write k
      then Inr (left_eax k, term_write_callback node offset sz ptr s)
      else Inl Undefined)"

text \<open>No function of the kernel is an open or a close callback.\<close>

definition no_call :: "'s node_call" where
  "no_call f node s = Inl Undefined"

end
