(* ===== verification/Fat.thy ===== *)
theory Fat
  imports Vfs_Calls
begin

text \<open>
  The FAT16 file system, \<^verbatim>\<open>src/fs/fat.c\<close>. The boot sector's parameter block and a directory entry are
  records read from memory at their packed offsets; a node, the sector buffers and the results of
  \<open>strtok\<close> are objects in memory. The cluster loop, the two loops of \<open>strtok\<close> and the walk along a path
  are \<open>partial_function\<close>s. A local that is passed by address only to be filled (\<open>fatbpb\<close>, \<open>fe\<close>) is a
  result. The functions without \<open>return\<close> whose result no caller reads return nothing.
\<close>

section \<open>On-disk data\<close>

record FatBpB =
  OEMName :: "u8 list"
  BytesPerSector :: u16
  SectorsPerCluster :: u8
  ReservedSectors :: u16
  NumberOfFats :: u8
  NumDirEntries :: u16
  NumSectors :: u16
  Media :: u8
  SectorsPerFat :: u16
  SectorsPerTrack :: u16
  HeadsPerCyl :: u16
  HiddenSectors :: u32
  LongSectors :: u32

definition get_bpb :: "memory \<Rightarrow> u32 \<Rightarrow> FatBpB" where
  "get_bpb m a = \<lparr>OEMName = get_bytes m a 8, BytesPerSector = load16 m (a + 8),
     SectorsPerCluster = load8 m (a + 10), ReservedSectors = load16 m (a + 11),
     NumberOfFats = load8 m (a + 13), NumDirEntries = load16 m (a + 14), NumSectors = load16 m (a + 16),
     Media = load8 m (a + 18), SectorsPerFat = load16 m (a + 19), SectorsPerTrack = load16 m (a + 21),
     HeadsPerCyl = load16 m (a + 23), HiddenSectors = load32 m (a + 25), LongSectors = load32 m (a + 29)\<rparr>"

definition get_entry :: "memory \<Rightarrow> u32 \<Rightarrow> FatEntry" where
  "get_entry m a = \<lparr>fe_filename = get_bytes m a 8, fe_ext = get_bytes m (a + 8) 3,
     fe_attributes = load8 m (a + 11), fe_reserved = get_bytes m (a + 12) 10,
     fe_modify_time = load16 m (a + 22), fe_modify_date = load16 m (a + 24),
     fe_starting_cluster = load16 m (a + 26), fe_file_size = load32 m (a + 28)\<rparr>"

definition FAT16_EOF :: u16 where "FAT16_EOF = 0xFFF8"
definition sizeof_entry :: u32 where "sizeof_entry = 32"

definition root_lba :: "FatBpB \<Rightarrow> u32" where
  "root_lba bpb = ucast (NumberOfFats bpb) * ucast (SectorsPerFat bpb) + ucast (ReservedSectors bpb)"

definition parse_bpb :: "env \<Rightarrow> u32 \<Rightarrow> 'a vfs_scheme \<Rightarrow> (FatBpB, 'a vfs_scheme) run" where
  "parse_bpb k dev s =
     and_then (malloc 512 s) (\<lambda>buffer s1.
     and_then (vread (device_read k) dev 0 1 buffer s1) (\<lambda>_ s2.
       let bpb = get_bpb (mem s2) (buffer + 3)
       in and_then (free buffer s2) (\<lambda>_ s3. Inr (bpb, s3))))"

section \<open>Mounting\<close>

text \<open>The comparison with the boot signature in \<open>fat_check\<close> sets a local that is not returned.\<close>

definition fat_check :: "env \<Rightarrow> u32 \<Rightarrow> 'a vfs_scheme \<Rightarrow> (u32, 'a vfs_scheme) run" where
  "fat_check k device s =
     (if node_flag s device \<noteq> flag_value VFS_BLOCK_DEV \<or> node_read s device = 0 then Inr (1, s)
      else and_then (malloc 512 s) (\<lambda>buffer s1.
           and_then (vread (device_read k) device 0 1 buffer s1) (\<lambda>_ s2.
           and_then (free buffer s2) (\<lambda>_ s3. Inr (0, s3)))))"

definition fat_mount :: "env \<Rightarrow> u32 \<Rightarrow> 'a vfs_scheme \<Rightarrow> (u32, 'a vfs_scheme) run" where
  "fat_mount k device s =
     (if node_flag s device \<noteq> flag_value VFS_BLOCK_DEV \<or> node_read s device = 0 then Inr (0, s)
      else and_then (malloc sizeof_vfs s) (\<lambda>node s1.
        let s2 = s1\<lparr>mem := put_bytes node (lit ''FAT16'') (mem s1)\<rparr>;
            s3 = wr32 (node + 56) (flag_value VFS_FILESYSTEM) s2;
            s4 = wr32 (node + 76) (fn_fat_read_dir k) s3;
            s5 = wr32 (node + 80) (fn_fat_find_dir k) s4;
            s6 = wr32 (node + 84) device s5
        in Inr (0, wr32 (device + 84) node s6)))"

section \<open>Nodes of files and directories\<close>

definition fat_file_create :: "env \<Rightarrow> u32 \<Rightarrow> u32 \<Rightarrow> u32 \<Rightarrow> 'a machine_scheme \<Rightarrow> 'a machine_scheme" where
  "fat_file_create k node path device s =
     (let s1 = s\<lparr>mem := put_vfs node (vfs_node_new (stack_junk k)) (mem s)\<rparr>;
          s2 = s1\<lparr>mem := memcpy node path (of_nat VFS_NAME_MAX) (mem s1)\<rparr>
      in wr32 (node + 56) (flag_value VFS_FILE)
           (wr32 (node + 84) device (wr32 (node + 60) (fn_fat_file_read k) s2)))"

definition fat_dir_create :: "env \<Rightarrow> u32 \<Rightarrow> u32 \<Rightarrow> u32 \<Rightarrow> 'a machine_scheme \<Rightarrow> 'a machine_scheme" where
  "fat_dir_create k node path device s =
     (let s1 = s\<lparr>mem := put_vfs node (vfs_node_new (stack_junk k)) (mem s)\<rparr>;
          s2 = s1\<lparr>mem := memcpy node path (of_nat VFS_NAME_MAX) (mem s1)\<rparr>
      in wr32 (node + 56) (flag_value VFS_DIRECTORY)
           (wr32 (node + 80) (fn_fat_dir_finddir k) (wr32 (node + 76) (fn_fat_dir_readdir k) s2)))"

definition fat_node_create ::
  "env \<Rightarrow> u32 \<Rightarrow> u32 \<Rightarrow> u32 \<Rightarrow> FatEntry \<Rightarrow> 'a machine_scheme \<Rightarrow> 'a machine_scheme" where
  "fat_node_create k node path device entry s =
     (if fe_attributes entry = 0x10 then fat_dir_create k node path device s
      else fat_file_create k node path device s)"

section \<open>Looking up an entry\<close>

text \<open>
  A sector holds 16 entries. \<open>strlen(path)\<close>, evaluated for each entry by the code, does not change
  in the loop. 0 is \<open>NULL\<close>.
\<close>

fun find_entry :: "memory \<Rightarrow> u32 \<Rightarrow> u32 \<Rightarrow> u32 list \<Rightarrow> u32" where
  "find_entry m path n [] = 0"
| "find_entry m path n (entry # es) = (if memcmp entry path n m = 0 then entry else find_entry m path n es)"

definition sector_entries :: "u32 \<Rightarrow> u32 list" where
  "sector_entries b512 = map (\<lambda>i. b512 + of_nat (32 * i)) [0..<16]"

definition fat_get_filehandle_buffer :: "u32 \<Rightarrow> u32 \<Rightarrow> 'a machine_scheme \<Rightarrow> (u32, 'a machine_scheme) run" where
  "fat_get_filehandle_buffer path b512 s =
     (case strlen (mem s) path of None \<Rightarrow> Inl Hangs
      | Some n \<Rightarrow> Inr (find_entry (mem s) path n (sector_entries b512), s))"

definition fat_get_filehandle_rootdir ::
  "env \<Rightarrow> u32 \<Rightarrow> u32 \<Rightarrow> 'a vfs_scheme \<Rightarrow> (u32, 'a vfs_scheme) run" where
  "fat_get_filehandle_rootdir k dev path s =
     and_then (parse_bpb k dev s) (\<lambda>fatbpb s1.
     and_then (malloc 512 s1) (\<lambda>buffer s2.
     and_then (vread (device_read k) dev (root_lba fatbpb) 1 buffer s2) (\<lambda>_ s3.
     and_then (fat_get_filehandle_buffer path buffer s3) (\<lambda>result_ptr s4.
     and_then (malloc sizeof_entry s4) (\<lambda>status s5.
     and_then (free buffer (s5\<lparr>mem := memcpy status result_ptr sizeof_entry (mem s5)\<rparr>)) (\<lambda>_ s6.
       Inr (status, s6)))))))"

section \<open>Reading along the cluster chain\<close>

fun copy_cluster :: "u32 \<Rightarrow> u32 \<Rightarrow> u32 \<Rightarrow> u32 \<Rightarrow> nat \<Rightarrow> u32 \<Rightarrow> memory \<Rightarrow> u32 \<times> memory" where
  "copy_cluster ptr buffer sz i 0 index m = (index, m)"
| "copy_cluster ptr buffer sz i (Suc left) index m =
     (let m1 = m(ptr + index := m (buffer + i))
      in if sz < index + 1 then (index + 1, m1)
         else copy_cluster ptr buffer sz (i + 1) left (index + 1) m1)"

definition cluster_lba :: "FatBpB \<Rightarrow> u16 \<Rightarrow> u32" where
  "cluster_lba bpb cl = (root_lba bpb + 32) + (ucast cl - 2) * ucast (SectorsPerCluster bpb)"

partial_function (option) chain_loop ::
  "env \<Rightarrow> FatBpB \<Rightarrow> u32 \<Rightarrow> u32 \<Rightarrow> u32 \<Rightarrow> u32 \<Rightarrow> u32 \<Rightarrow> u16 \<Rightarrow> u32 \<Rightarrow> 'a vfs_scheme \<Rightarrow>
     (unit, 'a vfs_scheme) run option" where
  "chain_loop k bpb file buffer buffer_size sz ptr current_cluster index s =
     (if \<not> current_cluster \<le> FAT16_EOF then Some (Inr ((), s))
      else case vread (device_read k) (node_master s file) (cluster_lba bpb current_cluster)
                  (ucast (SectorsPerCluster bpb)) buffer s of
        Inl e \<Rightarrow> Some (Inl e)
      | Inr (_, s1) \<Rightarrow>
          (case copy_cluster ptr buffer sz 0 (unat buffer_size) index (mem s1) of (index', m) \<Rightarrow>
             let s2 = s1\<lparr>mem := m\<rparr>;
                 fat_offset = ucast current_cluster * 2 :: u32;
                 bps = ucast (BytesPerSector bpb) :: u32
             in if bps = 0 then Some (Inl Undefined)
                else case vread (device_read k) (node_master s2 file)
                            (ucast (ReservedSectors bpb) + fat_offset div bps) 1 buffer s2 of
                  Inl e \<Rightarrow> Some (Inl e)
                | Inr (_, s3) \<Rightarrow>
                    chain_loop k bpb file buffer buffer_size sz ptr
                      (load16 (mem s3) (buffer + fat_offset mod bps)) index' s3))"

definition of_run_loop :: "('x, 's) run option \<Rightarrow> ('x, 's) run" where
  "of_run_loop r = (case r of None \<Rightarrow> Inl Hangs | Some x \<Rightarrow> x)"

definition fat_file_read_with_handle ::
  "env \<Rightarrow> u32 \<Rightarrow> FatEntry \<Rightarrow> u32 \<Rightarrow> u32 \<Rightarrow> 'a vfs_scheme \<Rightarrow> (u32, 'a vfs_scheme) run" where
  "fat_file_read_with_handle k file handle sz ptr s =
     (if \<not> (node_flag s file = flag_value VFS_FILE \<or> node_flag s file = flag_value VFS_DIRECTORY)
      then Inr (1, s)
      else and_then (parse_bpb k (node_master s file) s) (\<lambda>fatbpb s1.
        let buffer_size = 512 * ucast (SectorsPerCluster fatbpb)
        in and_then (malloc buffer_size s1) (\<lambda>buffer s2.
           and_then (of_run_loop (chain_loop k fatbpb file buffer buffer_size sz ptr
                       (fe_starting_cluster handle) 0 s2)) (\<lambda>_ s3.
           and_then (free buffer s3) (\<lambda>_ s4. Inr (0, s4))))))"

section \<open>Splitting a path\<close>

partial_function (option) strtok_copy ::
  "u8 \<Rightarrow> u32 \<Rightarrow> u32 \<Rightarrow> 'a vfs_scheme \<Rightarrow> ((bool \<times> u32) \<times> 'a vfs_scheme) option" where
  "strtok_copy ch result i s =
     (let c = mem s (strtok_input s + i)
      in if c = 0 then Some ((False, i), s)
         else if c \<noteq> ch then strtok_copy ch result (i + 1) (wr8 (result + i) c s)
         else Some ((True, i), s))"

partial_function (option) strtok_loop ::
  "u8 \<Rightarrow> 'a vfs_scheme \<Rightarrow> (u32, 'a vfs_scheme) run option" where
  "strtok_loop ch s =
     (if strtok_input s = 0 then Some (Inr (0, s))
      else case strlen (mem s) (strtok_input s) of None \<Rightarrow> None
      | Some n \<Rightarrow>
        (case malloc (n + 1) s of Inl e \<Rightarrow> Some (Inl e)
         | Inr (result, s1) \<Rightarrow>
           (case strtok_copy ch result 0 s1 of None \<Rightarrow> None
            | Some ((sep, i), s2) \<Rightarrow>
                let s3 = wr8 (result + i) 0 s2
                in if \<not> sep then Some (Inr (result, s3\<lparr>strtok_input := 0\<rparr>))
                   else let s4 = s3\<lparr>strtok_input := strtok_input s3 + i + 1\<rparr>
                        in if i = 0 then strtok_loop ch s4 else Some (Inr (result, s4)))))"

definition strtok :: "u32 \<Rightarrow> u8 \<Rightarrow> 'a vfs_scheme \<Rightarrow> (u32, 'a vfs_scheme) run" where
  "strtok path ch s = of_run_loop (strtok_loop ch (if path \<noteq> 0 then s\<lparr>strtok_input := path\<rparr> else s))"

fun basename_loop :: "memory \<Rightarrow> u32 \<Rightarrow> nat \<Rightarrow> nat" where
  "basename_loop m path 0 = 0"
| "basename_loop m path (Suc i) = (if m (path + of_nat i) \<noteq> 0x2F then basename_loop m path i else Suc i)"

definition fat_basename :: "u32 \<Rightarrow> u32 \<Rightarrow> 'a machine_scheme \<Rightarrow> (u32, 'a machine_scheme) run" where
  "fat_basename path target s =
     (case strlen (mem s) path of None \<Rightarrow> Inl Hangs
      | Some n \<Rightarrow> let i = of_nat (basename_loop (mem s) path (unat (n - 1)))
                  in Inr (i, wr32 target (path + i) s))"

text \<open>The walk along the path; 0 is the exit to \<open>fully_break\<close>.\<close>

partial_function (option) walk_loop ::
  "env \<Rightarrow> u32 \<Rightarrow> u32 \<Rightarrow> u32 \<Rightarrow> u32 \<Rightarrow> 'a vfs_scheme \<Rightarrow> (u32, 'a vfs_scheme) run option" where
  "walk_loop k file buffer nodename entry s =
     (if nodename = 0 then Some (Inr (entry, s))
      else case and_then (free nodename s) (\<lambda>_ s1.
                and_then (strtok 0 0x2F s1) (\<lambda>name s2.
                and_then (fat_get_filehandle_buffer name buffer s2) (\<lambda>ent s3.
                  if ent = 0 \<or> fe_attributes (get_entry (mem s3) ent) \<noteq> 0x10
                  then and_then (free name s3) (\<lambda>_ s4. Inr ((False, name, ent), s4))
                  else and_then (fat_file_read_with_handle k file (get_entry (mem s3) ent) 512 buffer s3)
                         (\<lambda>_ s4. Inr ((True, name, ent), s4))))) of
             Inl e \<Rightarrow> Some (Inl e)
           | Inr ((again, name, ent), s4) \<Rightarrow>
               if again then walk_loop k file buffer name ent s4 else Some (Inr (ent, s4)))"

definition fat_get_filehandle ::
  "env \<Rightarrow> u32 \<Rightarrow> 'a vfs_scheme \<Rightarrow> (u32 \<times> FatEntry option, 'a vfs_scheme) run" where
  "fat_get_filehandle k file s =
     and_then (strtok file 0x2F s) (\<lambda>nodename s1.
     and_then (malloc 512 s1) (\<lambda>buffer s2.
     and_then (fat_get_filehandle_rootdir k (node_master s2 file) nodename s2) (\<lambda>result s3.
       if result = 0 then Inr ((1, None), s3)
       else and_then
         (if fe_attributes (get_entry (mem s3) result) \<noteq> 0x10
          then and_then (free nodename s3) (\<lambda>_ s4. Inr (result, s4))
          else and_then (fat_file_read_with_handle k file (get_entry (mem s3) result) 512 buffer s3)
                 (\<lambda>_ s4. of_run_loop (walk_loop k file buffer nodename result s4)))
         (\<lambda>entry s5.
            let retent = (if entry = 0 then None else Some (get_entry (mem s5) entry))
            in and_then (free buffer s5) (\<lambda>_ s6.
               and_then (free result s6) (\<lambda>_ s7.
                 Inr ((if entry = 0 then 1 else 0, retent), s7)))))))"

section \<open>The callbacks\<close>

definition fat_file_read :: "env \<Rightarrow> u32 \<Rightarrow> u32 \<Rightarrow> u32 \<Rightarrow> u32 \<Rightarrow> 'a vfs_scheme \<Rightarrow> (u32, 'a vfs_scheme) run" where
  "fat_file_read k file offset sz ptr s =
     and_then (fat_get_filehandle k file s) (\<lambda>(status, fe) s1.
       case fe of None \<Rightarrow> Inr (1, s1)
       | Some fe \<Rightarrow> and_then (fat_file_read_with_handle k file fe sz ptr s1) (\<lambda>_ s2. Inr (0, s2)))"

text \<open>The first entry of the root directory in use with at least \<open>index\<close> entries in use before it.\<close>

fun nth_used_entry :: "memory \<Rightarrow> u32 \<Rightarrow> u32 \<Rightarrow> u32 list \<Rightarrow> u32 option" where
  "nth_used_entry m index count [] = None"
| "nth_used_entry m index count (entry # es) =
     (if fe_starting_cluster (get_entry m entry) = 0 then nth_used_entry m index count es
      else if \<not> index \<le> count then nth_used_entry m index (count + 1) es
      else Some entry)"

definition fat_read_dir :: "env \<Rightarrow> u32 \<Rightarrow> u32 \<Rightarrow> u32 \<Rightarrow> 'a vfs_scheme \<Rightarrow> (u32, 'a vfs_scheme) run" where
  "fat_read_dir k dev index dirent s =
     (if 16 < index then Inr (1, wr8 dirent 0 s)
      else and_then (parse_bpb k (node_master s dev) s) (\<lambda>fatbpb s1.
           and_then (malloc 512 s1) (\<lambda>buffer s2.
           and_then (vread (device_read k) (node_master s2 dev) (root_lba fatbpb) 1 buffer s2) (\<lambda>_ s3.
             case nth_used_entry (mem s3) index 0 (sector_entries buffer) of
               Some entry \<Rightarrow> Inr (0, s3\<lparr>mem := memcpy dirent entry 8 (mem s3)\<rparr>)
             | None \<Rightarrow> and_then (free buffer s3) (\<lambda>_ s4. Inr (1, s4))))))"

definition fat_find_dir :: "env \<Rightarrow> u32 \<Rightarrow> u32 \<Rightarrow> u32 \<Rightarrow> 'a vfs_scheme \<Rightarrow> (u32, 'a vfs_scheme) run" where
  "fat_find_dir k fatfs path target s =
     (if node_flag s fatfs \<noteq> flag_value VFS_FILESYSTEM then Inr (- 2, s)
      else let s1 = fat_file_create k target path (node_master s fatfs) s
           in and_then (fat_get_filehandle k target s1) (\<lambda>(status, fe) s2.
                case fe of None \<Rightarrow> Inr (1, s2)
                | Some fe \<Rightarrow> Inr (0, fat_node_create k target path (node_master s2 fatfs) fe s2)))"

definition fat_dir_readdir :: "env \<Rightarrow> u32 \<Rightarrow> u32 \<Rightarrow> u32 \<Rightarrow> 'a vfs_scheme \<Rightarrow> (u32, 'a vfs_scheme) run" where
  "fat_dir_readdir k dir index out s =
     (if node_flag s dir \<noteq> flag_value VFS_DIRECTORY then Inr (- 2, s)
      else and_then (fat_get_filehandle k dir s) (\<lambda>(status, fe) s1.
        case fe of None \<Rightarrow> Inr (1, s1)
        | Some fe \<Rightarrow>
            and_then (malloc 512 s1) (\<lambda>buffer s2.
            and_then (fat_file_read_with_handle k dir fe 512 buffer s2) (\<lambda>_ s3.
            and_then (free buffer (s3\<lparr>mem := memcpy out (buffer + index * 32) 8 (mem s3)\<rparr>)) (\<lambda>_ s4.
              Inr (0, s4))))))"

text \<open>
  \<open>fat_dir_finddir\<close> returns 1 when the lookup succeeds; it goes on with the entry \<open>fe\<close> it found on the
  stack, which the lookup has not written.
\<close>

definition fat_dir_finddir ::
  "env \<Rightarrow> u32 \<Rightarrow> u32 \<Rightarrow> u32 \<Rightarrow> 'a vfs_scheme \<Rightarrow> (u32, 'a vfs_scheme) run" where
  "fat_dir_finddir k dir filename target s =
     (if node_flag s dir \<noteq> flag_value VFS_DIRECTORY then Inr (- 2, s)
      else and_then (fat_get_filehandle k dir s) (\<lambda>(status, fe) s1.
        if status = 0 then Inr (1, s1)
        else
            and_then (malloc 512 s1) (\<lambda>buffer s2.
            and_then (fat_file_read_with_handle k dir (stack_fe k) 512 buffer s2) (\<lambda>_ s3.
            and_then (fat_get_filehandle_buffer filename buffer s3) (\<lambda>entry s4.
              if entry = 0 then and_then (free buffer s4) (\<lambda>_ s5. Inr (1, s5))
              else and_then (free buffer
                     (fat_node_create k target entry (node_master s4 dir) (get_entry (mem s4) entry) s4))
                     (\<lambda>_ s5. Inr (0, s5)))))))"

end
