(* ===== verification/Vfs.thy ===== *)
theory Vfs
  imports Fat
begin

text \<open>
  Opening files by path: the device file system (\<^verbatim>\<open>src/fs/devfs.c\<close>), the mount table and \<open>fopen\<close>
  (\<^verbatim>\<open>src/fs/vfs.c\<close>). The mount table is an array of pairs (path, device) in memory;
  \<open>_find_relative_mount\<close> shortens a copy of the path until it is a mount path. Paths given as
  literals by the callers are pointers.
\<close>

section \<open>The device file system\<close>

definition devfs_check :: "u32 \<Rightarrow> 'a machine_scheme \<Rightarrow> u32" where
  "devfs_check device s = (if node_flag s device \<noteq> flag_value VFS_BLOCK_DEV then 1 else 0)"

definition devfs_mount :: "env \<Rightarrow> u32 \<Rightarrow> 'a kheap_scheme \<Rightarrow> (u32, 'a kheap_scheme) run" where
  "devfs_mount k device s =
     (if node_flag s device \<noteq> flag_value VFS_BLOCK_DEV then Inr (1, s)
      else and_then (malloc sizeof_vfs s) (\<lambda>node s1.
        let s2 = s1\<lparr>mem := put_bytes node (lit ''DEVFS'') (mem s1)\<rparr>;
            s3 = wr32 (node + 56) (flag_value VFS_FILESYSTEM) s2;
            s4 = wr32 (node + 76) (fn_devfs_read_dir k) s3;
            s5 = wr32 (node + 80) (fn_devfs_find_dir k) s4;
            s6 = wr32 (node + 84) device s5
        in Inr (0, wr32 (device + 84) node s6)))"

definition devfs_make_instance :: "u32 \<Rightarrow> u32 \<Rightarrow> 'a machine_scheme \<Rightarrow> 'a machine_scheme" where
  "devfs_make_instance target dev s = s\<lparr>mem := memcpy target dev sizeof_vfs (mem s)\<rparr>"

definition devfs_read_dir :: "u32 \<Rightarrow> u32 \<Rightarrow> u32 \<Rightarrow> 'a devices_scheme \<Rightarrow> (u32, 'a devices_scheme) run" where
  "devfs_read_dir dev index dirent s =
     (if devices_number s < index then Inr (1, s)
      else let tar_name = devices_at index s
           in case strlen (mem s) tar_name of None \<Rightarrow> Inl Hangs
              | Some n \<Rightarrow> Inr (0, s\<lparr>mem := memcpy dirent tar_name n (mem s)\<rparr>))"

fun devfs_find_loop ::
  "u32 \<Rightarrow> u32 \<Rightarrow> u32 list \<Rightarrow> 'a devices_scheme \<Rightarrow> (u32, 'a devices_scheme) run" where
  "devfs_find_loop path target [] s = Inr (1, s)"
| "devfs_find_loop path target (i # is) s =
     (case strcmp (mem s) (devices_at i s) path of None \<Rightarrow> Inl Hangs
      | Some r \<Rightarrow> if r = 0 then Inr (0, devfs_make_instance target (devices_at i s) s)
                  else devfs_find_loop path target is s)"

definition devfs_find_dir :: "u32 \<Rightarrow> u32 \<Rightarrow> u32 \<Rightarrow> 'a devices_scheme \<Rightarrow> (u32, 'a devices_scheme) run" where
  "devfs_find_dir dev path target s =
     devfs_find_loop path target (map of_nat [0..<unat (devices_number s)]) s"

section \<open>The functions behind the addresses\<close>

definition call_read :: "env \<Rightarrow> 'a vfs_scheme io_call" where
  "call_read k f node offset sz ptr s =
     (if f = fn_fat_file_read k then fat_file_read k node offset sz ptr s
      else device_read k f node offset sz ptr s)"

definition call_read_dir :: "env \<Rightarrow> 'a vfs_scheme dir_call" where
  "call_read_dir k f node index dirent s =
     (if f = fn_fat_read_dir k then fat_read_dir k node index dirent s
      else if f = fn_fat_dir_readdir k then fat_dir_readdir k node index dirent s
      else if f = fn_devfs_read_dir k then devfs_read_dir node index dirent s
      else Inl Undefined)"

definition call_find_dir :: "env \<Rightarrow> 'a vfs_scheme dir_call" where
  "call_find_dir k f node name target s =
     (if f = fn_fat_find_dir k then fat_find_dir k node name target s
      else if f = fn_fat_dir_finddir k then fat_dir_finddir k node name target s
      else if f = fn_devfs_find_dir k then devfs_find_dir node name target s
      else Inl Undefined)"

section \<open>The mount table\<close>

definition mount_path_at :: "u32 \<Rightarrow> 'a vfs_scheme \<Rightarrow> u32" where
  "mount_path_at i s = rd32 s (mount_points s + 8 * i)"

definition mount_device_at :: "u32 \<Rightarrow> 'a vfs_scheme \<Rightarrow> u32" where
  "mount_device_at i s = rd32 s (mount_points s + 8 * i + 4)"

definition vfs_init :: "'a vfs_scheme \<Rightarrow> (unit, 'a vfs_scheme) run" where
  "vfs_init s =
     and_then (malloc 8 s) (\<lambda>p s1. Inr ((), s1\<lparr>mount_points := p, mount_count := 0\<rparr>))"

definition add_mount :: "u32 \<Rightarrow> u32 \<Rightarrow> 'a vfs_scheme \<Rightarrow> 'a vfs_scheme" where
  "add_mount path device s =
     (let entry = mount_points s + 8 * mount_count s
      in (wr32 (entry + 4) device (wr32 entry path s))\<lparr>mount_count := mount_count s + 1\<rparr>)"

definition vmount_exit_err :: "string \<Rightarrow> 'a vfs_scheme \<Rightarrow> (u32, 'a vfs_scheme) run" where
  "vmount_exit_err err_msg s =
     and_then (term_printf ''Unable to mount device (%s)\<newline>'' [VLit (lit err_msg)] s)
       (\<lambda>_ s1. Inr (1, s1))"

definition vmount_done :: "u32 \<Rightarrow> u32 \<Rightarrow> 'a vfs_scheme \<Rightarrow> (u32, 'a vfs_scheme) run" where
  "vmount_done device path s =
     and_then (term_printf ''Mounted %s in path: %s\<newline>'' [VWord device, VWord path] (add_mount path device s))
       (\<lambda>_ s1. Inr (0, s1))"

text \<open>For another type than 0 and 1 the code stores an uninitialised entry.\<close>

definition vmount_device ::
  "env \<Rightarrow> u32 \<Rightarrow> u32 \<Rightarrow> u32 \<Rightarrow> 'a vfs_scheme \<Rightarrow> (u32, 'a vfs_scheme) run" where
  "vmount_device k device path type s =
     (if type = 0 then
        and_then (fat_check k device s) (\<lambda>r s1.
          if r \<noteq> 0 then vmount_exit_err ''Not a Fat16 device'' s1
          else and_then (fat_mount k device s1) (\<lambda>r s2.
            if r \<noteq> 0 then vmount_exit_err ''fat_mount(..) returned with error'' s2
            else vmount_done device path s2))
      else if type = 1 then
        if devfs_check device s \<noteq> 0 then vmount_exit_err ''Not a devfs device'' s
        else and_then (devfs_mount k device s) (\<lambda>r s1.
          if r \<noteq> 0 then vmount_exit_err ''dev_mount(..) returned with error'' s1
          else vmount_done device path s1)
      else Inl Undefined)"

definition mount_devfs_device :: "env \<Rightarrow> u32 \<Rightarrow> 'a vfs_scheme \<Rightarrow> (unit, 'a vfs_scheme) run" where
  "mount_devfs_device k path s =
     (let device_handler = copy_name (lit ''devman'' @ [0]) (vfs_node_new (stack_junk k));
          device_handler = device_handler\<lparr>vn_flag := flag_value VFS_BLOCK_DEV\<rparr>
      in and_then (devices_add device_handler s) (\<lambda>dev_id s1.
         and_then (vmount_device k (devices_at dev_id s1) path 1 s1) (\<lambda>_ s2. Inr ((), s2))))"

section \<open>Looking up a path\<close>

text \<open>The inner loop: the first mount path equal to \<open>mount_path\<close>, or none.\<close>

fun match_mount :: "u32 \<Rightarrow> u32 list \<Rightarrow> 'a vfs_scheme \<Rightarrow> u32 option option" where
  "match_mount mount_path [] s = Some None"
| "match_mount mount_path (i # is) s =
     (case strcmp (mem s) mount_path (mount_path_at i s) of None \<Rightarrow> None
      | Some r \<Rightarrow> if r = 0 then Some (Some i) else match_mount mount_path is s)"

partial_function (option) mount_loop ::
  "env \<Rightarrow> u32 \<Rightarrow> 'a vfs_scheme \<Rightarrow> (u32 \<times> 'a vfs_scheme) option" where
  "mount_loop k mount_path s =
     (case match_mount mount_path (map of_nat [0..<unat (mount_count s)]) s of None \<Rightarrow> None
      | Some (Some i) \<Rightarrow> Some (i, s)
      | Some None \<Rightarrow>
          (case strcmp (mem s) mount_path (str_slash k) of None \<Rightarrow> None
           | Some r \<Rightarrow>
               if r = 0 then Some (0, s)
               else (case strdeltoc mount_path 0x2F (mem s) of None \<Rightarrow> None
                     | Some (_, m) \<Rightarrow> mount_loop k mount_path (s\<lparr>mem := m\<rparr>))))"

definition of_strlen :: "u32 \<Rightarrow> 'a machine_scheme \<Rightarrow> (u32, 'a machine_scheme) run" where
  "of_strlen p s = (case strlen (mem s) p of None \<Rightarrow> Inl Hangs | Some n \<Rightarrow> Inr (n, s))"

definition find_relative_mount :: "env \<Rightarrow> u32 \<Rightarrow> 'a vfs_scheme \<Rightarrow> (u32, 'a vfs_scheme) run" where
  "find_relative_mount k path s =
     and_then (of_strlen path s) (\<lambda>n s1.
     and_then (malloc (n + 1) s1) (\<lambda>mount_path s2.
     and_then (of_strlen path s2) (\<lambda>n' s3.
     and_then (of_loop (mount_loop k mount_path (s3\<lparr>mem := memcpy mount_path path (n' + 1) (mem s3)\<rparr>)))
       (\<lambda>i s4. and_then (free mount_path s4) (\<lambda>_ s5. Inr (i, s5))))))"

definition fopen :: "env \<Rightarrow> u32 \<Rightarrow> 'a vfs_scheme \<Rightarrow> (u32, 'a vfs_scheme) run" where
  "fopen k path s =
     and_then (malloc sizeof_vfs s) (\<lambda>file s1.
     and_then (find_relative_mount k path s1) (\<lambda>mnt_i s2.
       let info_path = mount_path_at mnt_i s2; device = mount_device_at mnt_i s2
       in and_then (of_strlen path s2) (\<lambda>n s3.
          and_then (of_strlen info_path s3) (\<lambda>l s4.
            if n \<le> l
            then Inr (file, s4\<lparr>mem := memcpy file (node_master s4 device) sizeof_vfs (mem s4)\<rparr>)
            else and_then (vfind_dir (call_find_dir k) (node_master s4 device) (path + l) file s4) (\<lambda>r s5.
              if r \<noteq> 0 then and_then (free file s5) (\<lambda>_ s6. Inr (0, s6))
              else and_then (vopen no_call file s5) (\<lambda>_ s6. Inr (file, s6)))))))"

definition fclose :: "u32 \<Rightarrow> 'a kheap_scheme \<Rightarrow> (u32, 'a kheap_scheme) run" where
  "fclose node s =
     and_then (vclose no_call node s) (\<lambda>stat s1. and_then (free node s1) (\<lambda>_ s2. Inr (stat, s2)))"

end
