(* ===== verification/Elf.thy ===== *)
theory Elf
  imports Vfs
begin

text \<open>
  The program loader, \<^verbatim>\<open>src/utils/elf.c\<close>. The file lies in a kernel buffer below 4 MiB, where virtual
  and physical addresses agree; a segment's destination is a virtual address, so the copy into it goes
  through the page tables byte by byte (an unmapped byte is a page fault, \<open>Undefined\<close> here). The
  loaded program is not code of the kernel: what running it at an entry address does is an argument.
\<close>

record ElfProgramHeader =
  p_type :: u32
  p_offset :: u32
  p_vaddr :: u32
  p_paddr :: u32
  p_filesz :: u32
  p_memsz :: u32
  p_flags :: u32
  p_align :: u32

definition get_program_header :: "memory \<Rightarrow> u32 \<Rightarrow> ElfProgramHeader" where
  "get_program_header m a = \<lparr>p_type = load32 m a, p_offset = load32 m (a + 4), p_vaddr = load32 m (a + 8),
     p_paddr = load32 m (a + 12), p_filesz = load32 m (a + 16), p_memsz = load32 m (a + 20),
     p_flags = load32 m (a + 24), p_align = load32 m (a + 28)\<rparr>"

record ElfHeader =
  e_ident :: "u8 list"
  e_type :: u16
  e_machine :: u16
  e_version :: u32
  e_entry :: u32
  e_phoff :: u32
  e_shoff :: u32
  e_flags :: u32
  e_ehsize :: u16
  e_phentsize :: u16
  e_phnum :: u16
  e_shentsize :: u16
  e_shnum :: u16
  e_shstrndx :: u16

definition get_elf_header :: "memory \<Rightarrow> u32 \<Rightarrow> ElfHeader" where
  "get_elf_header m a = \<lparr>e_ident = get_bytes m a 16, e_type = load16 m (a + 16), e_machine = load16 m (a + 18),
     e_version = load32 m (a + 20), e_entry = load32 m (a + 24), e_phoff = load32 m (a + 28),
     e_shoff = load32 m (a + 32), e_flags = load32 m (a + 36), e_ehsize = load16 m (a + 40),
     e_phentsize = load16 m (a + 42), e_phnum = load16 m (a + 44), e_shentsize = load16 m (a + 46),
     e_shnum = load16 m (a + 48), e_shstrndx = load16 m (a + 50)\<rparr>"

text \<open>The four bytes are compared as a loop with an early exit: \<open>header->e_ident[i] != target_sig[i]\<close>.\<close>

definition target_sig :: "u8 list" where "target_sig = [0x7f, 0x45, 0x4c, 0x46]"

definition elf_probe :: "memory \<Rightarrow> u32 \<Rightarrow> bool" where
  "elf_probe m buffer \<longleftrightarrow>
     (let header = get_elf_header m buffer in list_all (\<lambda>i. e_ident header ! i = target_sig ! i) [0..<4])"

text \<open>\<open>memcpy\<close> to virtual addresses.\<close>

definition virt :: "'a paging_scheme \<Rightarrow> u32 \<Rightarrow> u32 option" where
  "virt s v = (if paging_on s then translate (mem s) (cr3 s) v else Some v)"

fun memcpy_virt :: "u32 \<Rightarrow> u32 \<Rightarrow> nat list \<Rightarrow> 'a paging_scheme \<Rightarrow> (unit, 'a paging_scheme) run" where
  "memcpy_virt dst src [] s = Inr ((), s)"
| "memcpy_virt dst src (i # is) s =
     (case virt s (src + of_nat i) of None \<Rightarrow> Inl Undefined
      | Some p \<Rightarrow>
        (case virt s (dst + of_nat i) of None \<Rightarrow> Inl Undefined
         | Some q \<Rightarrow> memcpy_virt dst src is (wr8 q (mem s p) s)))"

function load_segments ::
  "u32 \<Rightarrow> u32 \<Rightarrow> nat \<Rightarrow> u32 \<Rightarrow> 'a paging_scheme \<Rightarrow> (unit, 'a paging_scheme) run" where
  "load_segments buffer phys_loc i ph s =
     (if \<not> i < unat (e_phnum (get_elf_header (mem s) buffer)) then Inr ((), s)
      else let h = get_program_header (mem s) ph
           in if p_type h \<noteq> 1 then load_segments buffer phys_loc (Suc i) (ph + 32) s
              else case and_then (paging_map (p_vaddr h) phys_loc s) (\<lambda>_ s1.
                          let h' = get_program_header (mem s1) ph
                          in memcpy_virt (p_vaddr h') (buffer + p_offset h') [0..<unat (p_filesz h')] s1) of
                     Inl e \<Rightarrow> Inl e
                   | Inr (_, s2) \<Rightarrow> load_segments buffer phys_loc (Suc i) (ph + 32) s2)"
  by pat_completeness auto
termination
proof (relation "measure (\<lambda>(buffer, phys_loc, i, ph, s). 65536 - i)", goal_cases)
  case 1 show ?case by simp
next
  case (2 buffer phys_loc i ph s)
  have "unat (e_phnum (get_elf_header (mem s) buffer)) < 65536" by (rule order_less_le_trans [OF unsigned_less]) simp
  with 2 show ?case by simp
next
  case (3 buffer phys_loc i ph s)
  have "unat (e_phnum (get_elf_header (mem s) buffer)) < 65536" by (rule order_less_le_trans [OF unsigned_less]) simp
  with 3 show ?case by simp
qed

declare load_segments.simps [simp del]

definition elf_stat ::
  "(u32 \<Rightarrow> 'a paging_scheme \<Rightarrow> (u32, 'a paging_scheme) run) \<Rightarrow> u32 \<Rightarrow> u32 \<Rightarrow>
     'a paging_scheme \<Rightarrow> (u32, 'a paging_scheme) run" where
  "elf_stat run_code buffer sz s =
     (if \<not> elf_probe (mem s) buffer \<or> sz < 4
      then and_then (term_printf ''Not a elf format'' [] s) (\<lambda>_ s1. Inr (0, s1))
      else if e_type (get_elf_header (mem s) buffer) \<noteq> 2
      then and_then (term_printf ''Not a executable!\<newline>'' [] s) (\<lambda>_ s1. Inr (0, s1))
      else and_then (frame_alloc_ex 3 s) (\<lambda>phys_loc s1.
           and_then (load_segments buffer phys_loc 0 (buffer + e_phoff (get_elf_header (mem s) buffer)) s1) (\<lambda>_ s2.
           and_then (run_code (e_entry (get_elf_header (mem s2) buffer)) s2) (\<lambda>retcode s3.
             Inr (retcode, frame_free_ex phys_loc 3 s3)))))"

end
