(* ===== verification/Syscalls.thy ===== *)
theory Syscalls
  imports Elf
begin

text \<open>
  System calls: the eleven handlers of \<^verbatim>\<open>src/kernel/systemcalls.h\<close> and the dispatcher
  \<^verbatim>\<open>src/kernel/systemcalls.asm\<close>. The dispatcher compares \<open>eax\<close> with \<open>syscall_cnt-1\<close>, which the
  assembler reads as the address of the variable; a number between the end of the table and that address
  calls whatever word lies there, \<open>Undefined\<close> here. The registers the handlers get are those of the
  caller, and the dispatcher restores them; \<open>eax\<close> is left with the handler's result.
\<close>

record syscall_regs =
  r_esp :: u32
  r_ebx :: u32
  r_ecx :: u32
  r_edx :: u32
  r_esi :: u32
  r_edi :: u32
  r_ebp :: u32
  r_ds :: u32
  r_es :: u32
  r_fs :: u32
  r_gs :: u32
  r_eax :: u32

record syscalls = vfs +
  retval :: u32

type_synonym 'a handler = "syscall_regs \<Rightarrow> 'a syscalls_scheme \<Rightarrow> (u32, 'a syscalls_scheme) run"

definition SYSCALLS_COUNT :: nat where "SYSCALLS_COUNT = 11"

text \<open>\<open>sc_print\<close> returns nothing; the dispatcher stores what it leaves in \<open>eax\<close>.\<close>

definition sc_print :: "env \<Rightarrow> 'a handler" where
  "sc_print k regs s = and_then (term_writestring (r_ebx regs) s) (\<lambda>_ s1. Inr (left_eax k, s1))"

definition sc_open :: "env \<Rightarrow> 'a handler" where
  "sc_open k regs s =
     and_then (fopen k (r_ebx regs) s) (\<lambda>node s1.
       Inr (if node = 0 then 0 else 1, wr32 (r_ecx regs) node s1))"

definition sc_close :: "'a handler" where
  "sc_close regs s = fclose (r_ebx regs) s"

definition sc_read :: "env \<Rightarrow> 'a handler" where
  "sc_read k regs s = vread (call_read k) (r_ebx regs) 0 (r_ecx regs) (r_edx regs) s"

definition sc_write :: "env \<Rightarrow> 'a handler" where
  "sc_write k regs s = vwrite (device_write k) (r_ebx regs) 0 (r_ecx regs) (r_edx regs) s"

definition sc_readdir :: "env \<Rightarrow> 'a handler" where
  "sc_readdir k regs s =
     and_then (vread_dir (call_read_dir k) (r_ebx regs) (r_ecx regs) (local_dirent k) s) (\<lambda>status s1.
       Inr (status, s1\<lparr>mem := memcpy (r_edx regs) (local_dirent k) (r_esi regs) (mem s1)\<rparr>))"

definition sc_finddir :: "env \<Rightarrow> 'a handler" where
  "sc_finddir k regs s =
     and_then (malloc sizeof_vfs s) (\<lambda>p s1.
       let s2 = wr32 (r_edx regs) p s1
       in and_then (vfind_dir (call_find_dir k) (r_ebx regs) (r_ecx regs) (rd32 s2 (r_edx regs)) s2) (\<lambda>_ s3.
          and_then (vopen no_call (rd32 s3 (r_edx regs)) s3) (\<lambda>_ s4. Inr (0, s4))))"

definition sc_kmalloc :: "'a handler" where
  "sc_kmalloc regs s =
     and_then (malloc (r_ebx regs) s) (\<lambda>p s1. Inr (0, wr32 (r_ecx regs) p s1))"

definition sc_kfree :: "'a handler" where
  "sc_kfree regs s = and_then (free (r_ebx regs) s) (\<lambda>_ s1. Inr (0, s1))"

definition sc_realloc :: "'a handler" where
  "sc_realloc regs s =
     and_then (realloc (r_ecx regs) (r_ebx regs) s) (\<lambda>p s1. Inr (0, wr32 (r_edx regs) p s1))"

definition sc_sysc_status :: "'a handler" where
  "sc_sysc_status regs s = Inr (0, wr32 (r_ebx regs) (retval s) s)"

definition syscalls_table :: "env \<Rightarrow> 'a handler list" where
  "syscalls_table k = [sc_print k, sc_open k, sc_close, sc_read k, sc_write k, sc_readdir k,
     sc_finddir k, sc_kmalloc, sc_kfree, sc_realloc, sc_sysc_status]"

definition syscall_dispatch ::
  "env \<Rightarrow> syscall_regs \<Rightarrow> 'a syscalls_scheme \<Rightarrow> (syscall_regs, 'a syscalls_scheme) run" where
  "syscall_dispatch k regs s =
     (if addr_syscall_cnt k - 1 < r_eax regs then Inr (regs, s)
      else if unat (r_eax regs) < SYSCALLS_COUNT
      then and_then ((syscalls_table k ! unat (r_eax regs)) regs s)
             (\<lambda>r s1. Inr (regs\<lparr>r_eax := r\<rparr>, s1\<lparr>retval := r\<rparr>))
      else Inl Undefined)"

text \<open>\<open>syscalltest_prog\<close> of \<^verbatim>\<open>src/kernel/main.asm\<close>: two calls, with the other registers as they are.\<close>

definition syscalltest_prog ::
  "env \<Rightarrow> syscall_regs \<Rightarrow> 'a syscalls_scheme \<Rightarrow> (unit, 'a syscalls_scheme) run" where
  "syscalltest_prog k regs s =
     and_then (syscall_dispatch k (regs\<lparr>r_eax := 0, r_ebx := str_krnl_exit_code k\<rparr>) s) (\<lambda>regs1 s1.
     and_then (syscall_dispatch k (regs1\<lparr>r_eax := 1, r_ebx := 9\<rparr>) s1) (\<lambda>_ s2. Inr ((), s2)))"

end
