(* ===== verification/Shell.thy ===== *)
theory Shell
  imports Syscalls
begin

text \<open>
  The kernel's main file, \<^verbatim>\<open>src/kernel/kernel.c\<close>: the built-in programs, the shell and the boot
  sequence. The shell's input buffer is a local of 255 bytes; a store behind it is \<open>Undefined\<close>. The loop
  of the shell has no end: \<open>mini_shell\<close> runs it for the keys it gets, one \<open>shell_key\<close> per round. A
  built-in program is called through a pointer, here a constructor of \<open>prog\<close>.
\<close>

section \<open>State\<close>

datatype prog = Help | Helloworld | Ataread | Malloctest | Crashme | Fatreader | Runinit
  | Syscalltest | Devfstest | Cls

record kernel = syscalls +
  shell_progs :: "(prog \<times> u32) list"
  input_index :: u8
  gdt_loaded :: bool
  interrupts_on :: bool

text \<open>What runs code that is not the kernel's: a loaded program, and the registers a program starts with.\<close>

record 's outside =
  run_code :: "u32 \<Rightarrow> 's \<Rightarrow> (u32, 's) run"
  regs_now :: syscall_regs

definition gdt_init :: "'a kernel_scheme \<Rightarrow> 'a kernel_scheme" where
  "gdt_init s = s\<lparr>gdt_loaded := True\<rparr>"

definition x86_int_on :: "'a kernel_scheme \<Rightarrow> 'a kernel_scheme" where
  "x86_int_on s = s\<lparr>interrupts_on := True\<rparr>"

definition x86_int_off :: "'a kernel_scheme \<Rightarrow> 'a kernel_scheme" where
  "x86_int_off s = s\<lparr>interrupts_on := False\<rparr>"

text \<open>\<open>term_writestring\<close> of a literal.\<close>

definition write_lit :: "string \<Rightarrow> 'a terminal_scheme \<Rightarrow> 'a terminal_scheme" where
  "write_lit cs s = term_puts (lit cs) s"

section \<open>The built-in programs\<close>

definition cls_prog :: "'a terminal_scheme \<Rightarrow> (unit, 'a terminal_scheme) run" where
  "cls_prog s = Inr ((), term_clean s)"

partial_function (option) devfstest_loop ::
  "env \<Rightarrow> u32 \<Rightarrow> u32 \<Rightarrow> 'a vfs_scheme \<Rightarrow> (unit, 'a vfs_scheme) run option" where
  "devfstest_loop k handle index s =
     (case vread_dir (call_read_dir k) handle index (local_dirent k) s of
        Inl e \<Rightarrow> Some (Inl e)
      | Inr (r, s1) \<Rightarrow>
          if r \<noteq> 0 then Some (Inr ((), s1))
          else (case term_printf ''(%x) %s\<newline>'' [VWord index, VWord (local_dirent k)] s1 of
                  Inl e \<Rightarrow> Some (Inl e)
                | Inr (_, s2) \<Rightarrow> devfstest_loop k handle (index + 1) s2))"

definition devfstest_prog :: "env \<Rightarrow> 'a vfs_scheme \<Rightarrow> (unit, 'a vfs_scheme) run" where
  "devfstest_prog k s =
     and_then (fopen k (str_dev k) s) (\<lambda>handle s1.
       if handle = 0 then Inr ((), s1)
       else and_then (of_run_loop (devfstest_loop k handle 0 s1)) (\<lambda>_ s2.
            and_then (fclose handle s2) (\<lambda>_ s3. Inr ((), s3))))"

definition fatreader_prog :: "env \<Rightarrow> 'a vfs_scheme \<Rightarrow> (unit, 'a vfs_scheme) run" where
  "fatreader_prog k s =
     and_then (malloc 0x2000 s) (\<lambda>buffer s1.
       if buffer = 0 then Inr ((), s1)
       else and_then (fopen k (str_mafest k) s1) (\<lambda>fat s2.
         if fat = 0 then and_then (yell ''cannot find file\<newline>'' [] s2) (\<lambda>_ s3. free buffer s3)
         else and_then (vread (call_read k) fat 0 0x2000 buffer s2) (\<lambda>r s3.
           if r \<noteq> 0
           then and_then (yell ''unable to read\<newline>'' [] s3) (\<lambda>_ s4.
                and_then (fclose fat s4) (\<lambda>_ s5. free buffer s5))
           else and_then (fclose fat s3) (\<lambda>_ s4.
                and_then (term_printf ''%s\<newline>'' [VWord buffer] s4) (\<lambda>_ s5. free buffer s5)))))"

definition runinit_prog ::
  "env \<Rightarrow> 'a vfs_scheme outside \<Rightarrow> 'a vfs_scheme \<Rightarrow> (unit, 'a vfs_scheme) run" where
  "runinit_prog k out s =
     and_then (malloc 0x1000 (write_lit ''Starting /BIN/INIT!\<newline>'' s)) (\<lambda>buffer s1.
     and_then (fopen k (str_bin_init k) s1) (\<lambda>fat s2.
       if fat = 0 then and_then (yell ''cannot find init binnary\<newline>'' [] s2) (\<lambda>_ s3. free buffer s3)
       else and_then (vread (call_read k) fat 0 0x1000 buffer s2) (\<lambda>r s3.
         if r \<noteq> 0
         then and_then (yell ''unable to read init binnary\<newline>'' [] s3) (\<lambda>_ s4.
              and_then (fclose fat s4) (\<lambda>_ s5. free buffer s5))
         else and_then (fclose fat s3) (\<lambda>_ s4.
              and_then (elf_stat (run_code out) buffer 0x1000 s4) (\<lambda>status s5.
              and_then (term_printf ''\<newline>Init returned: %x!\<newline>'' [VWord status] s5)
                (\<lambda>_ s6. free buffer s6))))))"

text \<open>The names are pointers to literals, printed from memory.\<close>

fun help_loop :: "u32 list \<Rightarrow> 'a terminal_scheme \<Rightarrow> (unit, 'a terminal_scheme) run" where
  "help_loop [] s = Inr ((), s)"
| "help_loop (name # names) s =
     and_then (term_printf ''%s\<newline>'' [VWord name] s) (\<lambda>_ s1. help_loop names s1)"

definition help_prog :: "'a kernel_scheme \<Rightarrow> (unit, 'a kernel_scheme) run" where
  "help_prog s = help_loop (map snd (shell_progs s)) s"

definition helloworld_prog :: "'a kheap_scheme \<Rightarrow> (unit, 'a kheap_scheme) run" where
  "helloworld_prog s = kheap_print_headers (write_lit ''Hello, World!'' s)"

fun ataread_loop :: "u32 \<Rightarrow> nat list \<Rightarrow> 'a terminal_scheme \<Rightarrow> (unit, 'a terminal_scheme) run" where
  "ataread_loop block [] s = Inr ((), s)"
| "ataread_loop block (i # is) s =
     (let ch = ucast (mem s (block + of_nat i))
      in and_then (term_printf ''%x(%c) '' [VWord ch, VWord ch] s) (\<lambda>_ s1. ataread_loop block is s1))"

definition ataread_prog :: "env \<Rightarrow> 'a vfs_scheme \<Rightarrow> (unit, 'a vfs_scheme) run" where
  "ataread_prog k s =
     (let s1 = write_lit ''Reading from ata drive!\<newline>'' s
      in and_then (vread (call_read k) (devices_at 0 s1) 0 1 (local_block k) s1)
           (\<lambda>_ s2. ataread_loop (local_block k) [0..<unat ATA_SECTOR_SIZE] s2))"

definition malloctest_prog :: "'a kheap_scheme \<Rightarrow> (unit, 'a kheap_scheme) run" where
  "malloctest_prog s =
     and_then (malloc 8 (write_lit ''Testing malloc: \<newline>'' s)) (\<lambda>ptr1 s1.
     and_then (term_printf ''ptr1: %x\<newline>'' [VWord ptr1] s1) (\<lambda>_ s2.
     and_then (free ptr1 s2) (\<lambda>_ s3.
     and_then (malloc 8 s3) (\<lambda>ptr2 s4.
     and_then (term_printf ''ptr2: %x\<newline>'' [VWord ptr2] s4) (\<lambda>_ s5.
     and_then (malloc 16 s5) (\<lambda>ptr3 s6.
     and_then (term_printf ''ptr3: %x\<newline>'' [VWord ptr3] s6) (\<lambda>_ s7.
     and_then (free ptr2 s7) (\<lambda>_ s8. free ptr3 s8))))))))"

partial_function (option) crashme_loop ::
  "u32 \<Rightarrow> 'a frames_scheme \<Rightarrow> (unit, 'a frames_scheme) run option" where
  "crashme_loop i s =
     (case malloc 0x100 s of Inl e \<Rightarrow> Some (Inl e)
      | Inr (ptr, s1) \<Rightarrow>
          (case term_printf ''Ptr: %x\<newline>Len: %x\<newline> (%x - %x) \<newline>''
                  [VWord ptr, VWord (i + 0x100), VWord (frame_count s1), VWord (frame_max s1)] s1 of
             Inl e \<Rightarrow> Some (Inl e)
           | Inr (_, s2) \<Rightarrow> crashme_loop (i + 0x100) s2))"

definition crashme_prog :: "'a frames_scheme \<Rightarrow> (unit, 'a frames_scheme) run" where
  "crashme_prog s = of_run_loop (crashme_loop 0 (write_lit ''You asked for it!'' s))"

fun run_prog :: "env \<Rightarrow> 'a kernel_scheme outside \<Rightarrow> prog \<Rightarrow> 'a kernel_scheme \<Rightarrow> (unit, 'a kernel_scheme) run" where
  "run_prog k out Help s = help_prog s"
| "run_prog k out Helloworld s = helloworld_prog s"
| "run_prog k out Ataread s = ataread_prog k s"
| "run_prog k out Malloctest s = malloctest_prog s"
| "run_prog k out Crashme s = crashme_prog s"
| "run_prog k out Fatreader s = fatreader_prog k s"
| "run_prog k out Runinit s = runinit_prog k out s"
| "run_prog k out Syscalltest s = syscalltest_prog k (regs_now out) s"
| "run_prog k out Devfstest s = devfstest_prog k s"
| "run_prog k out Cls s = cls_prog s"

section \<open>The shell\<close>

definition mini_shell_add_entry :: "prog \<Rightarrow> u32 \<Rightarrow> 'a kernel_scheme \<Rightarrow> (unit, 'a kernel_scheme) run" where
  "mini_shell_add_entry p prog_name s =
     (if length (shell_progs s) < 255 then Inr ((), s\<lparr>shell_progs := shell_progs s @ [(p, prog_name)]\<rparr>)
      else Inl Undefined)"

fun add_entries :: "(prog \<times> u32) list \<Rightarrow> 'a kernel_scheme \<Rightarrow> (unit, 'a kernel_scheme) run" where
  "add_entries [] s = Inr ((), s)"
| "add_entries ((p, name) # es) s = and_then (mini_shell_add_entry p name s) (\<lambda>_ s1. add_entries es s1)"

definition prog_entries :: "env \<Rightarrow> (prog \<times> u32) list" where
  "prog_entries k = zip [Help, Helloworld, Ataread, Malloctest, Crashme, Fatreader, Runinit, Syscalltest,
     Devfstest, Cls] (str_prog_names k)"

abbreviation shell_prefix :: string where "shell_prefix \<equiv> ''>> ''"

definition shell_start :: "env \<Rightarrow> 'a kernel_scheme \<Rightarrow> (unit, 'a kernel_scheme) run" where
  "shell_start k s =
     and_then (add_entries (prog_entries k) s) (\<lambda>_ s1.
     and_then (term_printf (''running the build-in shell!\<newline>'' @ ''type 'init' to rerun init program\<newline>''
                 @ ''type 'help' to see other commands\<newline>'') [] s1) (\<lambda>_ s2.
       Inr ((), (write_lit shell_prefix s2)\<lparr>input_index := 0\<rparr>)))"

text \<open>\<open>parse_input\<close>: the first program whose name agrees with the input on the input's length.\<close>

fun find_prog :: "memory \<Rightarrow> u32 \<Rightarrow> u32 \<Rightarrow> (prog \<times> u32) list \<Rightarrow> prog option" where
  "find_prog m input n [] = None"
| "find_prog m input n ((p, name) # es) =
     (if memcmp input name n m \<noteq> 0 then find_prog m input n es else Some p)"

definition shell_parse ::
  "env \<Rightarrow> 'a kernel_scheme outside \<Rightarrow> 'a kernel_scheme \<Rightarrow> (unit, 'a kernel_scheme) run" where
  "shell_parse k out s =
     and_then
       (case find_prog (mem s) (local_input k) (ucast (input_index s)) (shell_progs s) of
          Some p \<Rightarrow> run_prog k out p s
        | None \<Rightarrow> Inr ((), term_setcolor (vga_color_value VGA_COLOR_LIGHT_GREY)
                    (write_lit ''Input error!'' (term_setcolor (vga_color_value VGA_COLOR_LIGHT_RED) s))))
       (\<lambda>_ s1. Inr ((), (write_lit shell_prefix (term_putchar 10 s1))\<lparr>input_index := 0\<rparr>))"

definition shell_key ::
  "env \<Rightarrow> 'a kernel_scheme outside \<Rightarrow> u8 \<Rightarrow> 'a kernel_scheme \<Rightarrow> (unit, 'a kernel_scheme) run" where
  "shell_key k out ch s =
     (if ch = 8 then
        if input_index s = 0 then Inr ((), s)
        else let s1 = s\<lparr>input_index := input_index s - 1\<rparr>;
                 s2 = write_lit shell_prefix (term_putchar 10 s1)
             in Inr ((), fold (\<lambda>i s. term_putchar (mem s (local_input k + of_nat i)) s)
                           [0..<unat (input_index s2)] s2)
      else if ch = 10 then shell_parse k out (term_putchar 10 s)
      else if unat (input_index s) < 255
      then let s1 = wr8 (local_input k + ucast (input_index s)) ch s
           in Inr ((), term_putchar ch (s1\<lparr>input_index := input_index s1 + 1\<rparr>))
      else Inl Undefined)"

fun shell_keys ::
  "env \<Rightarrow> 'a kernel_scheme outside \<Rightarrow> u8 list \<Rightarrow> 'a kernel_scheme \<Rightarrow> (unit, 'a kernel_scheme) run" where
  "shell_keys k out [] s = Inr ((), s)"
| "shell_keys k out (ch # chs) s = and_then (shell_key k out ch s) (\<lambda>_ s1. shell_keys k out chs s1)"

definition mini_shell ::
  "env \<Rightarrow> 'a kernel_scheme outside \<Rightarrow> u8 list \<Rightarrow> 'a kernel_scheme \<Rightarrow> (unit, 'a kernel_scheme) run" where
  "mini_shell k out chs s = and_then (shell_start k s) (\<lambda>_ s1. shell_keys k out chs s1)"

end
