(* ===== verification/Boot.thy ===== *)
theory Boot
  imports Shell
begin

text \<open>
  The boot sequence: \<open>kernel_main\<close> of \<^verbatim>\<open>src/kernel/kernel.c\<close>, from the information block of the boot
  loader (\<^verbatim>\<open>src/utils/multiboot.h\<close>) to the shell, in the order of the code. The locals it reads from the
  block are results of \<open>boot_memory\<close>.
\<close>

unbundle bit_operations_syntax

record multiboot_info =
  mbi_flags :: u32
  mbi_mem_lower :: u32
  mbi_mem_upper :: u32
  mbi_boot_device :: u32
  mbi_cmdline :: u32
  mbi_mods_count :: u32
  mbi_mods_addr :: u32
  mbi_mmap_length :: u32
  mbi_mmap_addr :: u32

record multiboot_mmap_entry =
  mm_size :: u32
  mm_addr :: "64 word"
  mm_len :: "64 word"
  mm_type :: u32

definition load64 :: "memory \<Rightarrow> u32 \<Rightarrow> 64 word" where
  "load64 m a = ucast (load32 m a) OR push_bit 32 (ucast (load32 m (a + 4)))"

definition get_multiboot_info :: "memory \<Rightarrow> u32 \<Rightarrow> multiboot_info" where
  "get_multiboot_info m a = \<lparr>mbi_flags = load32 m a, mbi_mem_lower = load32 m (a + 4),
     mbi_mem_upper = load32 m (a + 8), mbi_boot_device = load32 m (a + 12), mbi_cmdline = load32 m (a + 16),
     mbi_mods_count = load32 m (a + 20), mbi_mods_addr = load32 m (a + 24),
     mbi_mmap_length = load32 m (a + 44), mbi_mmap_addr = load32 m (a + 48)\<rparr>"

definition get_mmap_entry :: "memory \<Rightarrow> u32 \<Rightarrow> multiboot_mmap_entry" where
  "get_mmap_entry m a = \<lparr>mm_size = load32 m a, mm_addr = load64 m (a + 4), mm_len = load64 m (a + 12),
     mm_type = load32 m (a + 20)\<rparr>"

definition frame_start :: "multiboot_mmap_entry \<Rightarrow> u32" where
  "frame_start e = (if mm_addr e < 0x400 then 0x400 else ucast (mm_addr e))"

definition frame_end :: "multiboot_mmap_entry \<Rightarrow> u32" where
  "frame_end e = ucast (mm_addr e + mm_len e)"

definition boot_memory ::
  "u32 \<Rightarrow> 'a terminal_scheme \<Rightarrow> (u32 \<times> u32, 'a terminal_scheme) run" where
  "boot_memory mbi s =
     (let s1 = term_setcolor (vga_color_value VGA_COLOR_CYAN)
                 (write_lit ''Starting this junk up!\<newline>'' (term_init s));
          s2 = term_setcolor (vga_color_value VGA_COLOR_LIGHT_CYAN)
                 (write_lit ''[Init] Cheaking for memory map\<newline>'' s1)
      in and_then
           (if drop_bit 6 (mbi_flags (get_multiboot_info (mem s2) mbi)) AND 0x1 = 0
            then yell ''invalid memory map given by GRUB'en'' [] s2 else Inr ((), s2)) (\<lambda>_ s3.
         let e = get_mmap_entry (mem s3) (mbi_mmap_addr (get_multiboot_info (mem s3) mbi));
             frame_start_addr = frame_start e; frame_end_addr = frame_end e
         in and_then
              (if frame_end_addr < frame_start_addr
               then panic ''Invalid memory region part propotions (invalid grub memory map?)'' [] s3
               else Inr ((), s3)) (\<lambda>_ s4.
            and_then (term_printf ''MEM SIZE: %x \<newline>''
                        [VWord (mbi_mem_upper (get_multiboot_info (mem s4) mbi))] s4) (\<lambda>_ s5.
              Inr ((frame_start_addr, frame_end_addr), term_setcolor (vga_color_value VGA_COLOR_CYAN) s5)))))"

definition boot_idt :: "env \<Rightarrow> 'a kernel_scheme \<Rightarrow> (unit, 'a kernel_scheme) run" where
  "boot_idt k s =
     (let s1 = gdt_init (write_lit ''[Init] Loading GDT\<newline>'' s);
          s2 = x86_int_off (write_lit ''[Init] Loading IDT\<newline>'' s1)
      in and_then (idt_init (idt_address k) (isr_stubs k) s2) (\<lambda>_ s3.
         and_then (set_idt_gate 0x80 (fn_syscall_dispatch k) INT_GATE_USER_FLAGS s3) (\<lambda>_ s4.
         and_then (set_idt_gate 0 (fn_div_by_zero k) TRAP_GATE_FLAGS s4) (\<lambda>_ s5.
         and_then (set_idt_gate 0xD (fn_general_protection k) TRAP_GATE_FLAGS s5) (\<lambda>_ s6.
         and_then (set_idt_gate 14 (fn_page_fault k) TRAP_GATE_FLAGS s6) (\<lambda>_ s7.
         let s8 = pic_init (pic_disable (write_lit ''[Init] Setting up interrupts\<newline>'' s7))
         in and_then (set_idt_gate 0x20 (fn_pit_timer k) INT_GATE_FLAGS s8) (\<lambda>_ s9.
              Inr ((), pic_IRQ_remove_mask 2 (pic_IRQ_remove_mask 0 s9)))))))))"

definition boot_paging ::
  "u32 \<Rightarrow> u32 \<Rightarrow> 'a paging_scheme \<Rightarrow> (unit, 'a paging_scheme) run" where
  "boot_paging frame_start_addr frame_end_addr s =
     and_then (paging_init (frame_init frame_start_addr frame_end_addr (write_lit ''[Init] Enable paging\<newline>'' s)))
       (\<lambda>_ s1. and_then (malloc 0x800 s1) (\<lambda>ptr s2. free ptr s2))"

definition boot_devices :: "env \<Rightarrow> 'a kernel_scheme \<Rightarrow> (unit, 'a kernel_scheme) run" where
  "boot_devices k s =
     and_then (vfs_init (write_lit ''[Init] Setting devices subsystem\<newline>'' s)) (\<lambda>_ s1.
     and_then (devices_init s1) (\<lambda>_ s2.
     and_then (ata_init (fn_ata_primary k) (fn_ata_read k) (left_poll k) (stack_junk k) 0x20 s2) (\<lambda>dev_id s3.
     and_then (term_init_device k s3) (\<lambda>_ s4.
     and_then (vmount_device k (devices_at dev_id s4) (str_slash k) 0 s4) (\<lambda>_ s5.
     and_then (mount_devfs_device k (str_dev k) s5) (\<lambda>_ s6.
     and_then (kb_init (fn_keyboard_handler k) (fn_keyboard_read k) (stack_junk k) 0x20 s6) (\<lambda>_ s7.
     let s8 = term_setcolor (vga_color_value VGA_COLOR_LIGHT_GREEN) (x86_int_on s7);
         s9 = write_lit ''\<newline>Welcome to CookiesOS (ver. 2.6.5)!\<newline>\<newline>'' s8
     in Inr ((), term_setcolor (vga_color_value VGA_COLOR_LIGHT_GREY) s9))))))))"

text \<open>
  The shell does not return, so that \<open>runinit_prog\<close> behind it is never reached; \<open>chs\<close> are the keys it
  has got so far.
\<close>

definition kernel_main ::
  "env \<Rightarrow> 'a kernel_scheme outside \<Rightarrow> u32 \<Rightarrow> u8 list \<Rightarrow> 'a kernel_scheme \<Rightarrow> (unit, 'a kernel_scheme) run" where
  "kernel_main k out mbi chs s =
     and_then (boot_memory mbi s) (\<lambda>(frame_start_addr, frame_end_addr) s1.
     and_then (boot_idt k s1) (\<lambda>_ s2.
     and_then (boot_paging frame_start_addr frame_end_addr s2) (\<lambda>_ s3.
     and_then (boot_devices k s3) (\<lambda>_ s4. mini_shell k out chs s4))))"

end
