(* ===== verification/Heap_Client.thy ===== *)
theory Heap_Client
  imports KHeap_Spec
begin

text \<open>
  The allocator as the file systems and the shell use it: many allocations, each a part of a budget, by
  code that keeps its other data outside the heap. The interface of \<open>KHeap_Spec\<close> is extended by the
  space left, by the addresses the allocator never writes and by the part of the state it never changes.
\<close>

locale budget_allocator = allocator inv areas room alloc release get put
  for inv :: "'s \<Rightarrow> 'h \<Rightarrow> bool"
    and areas :: "'h \<Rightarrow> (u32 \<times> u32) set"
    and room :: "u32 \<Rightarrow> 's \<Rightarrow> 'h \<Rightarrow> bool"
    and alloc :: "u32 \<Rightarrow> 's \<Rightarrow> (u32, 's) run"
    and release :: "u32 \<Rightarrow> 's \<Rightarrow> (unit, 's) run"
    and get :: "'s \<Rightarrow> memory"
    and put :: "memory \<Rightarrow> 's \<Rightarrow> 's" +
  fixes space :: "'s \<Rightarrow> nat"
    and cost :: "u32 \<Rightarrow> nat"
    and fixed :: "u32 set"
    and keeps :: "'s \<Rightarrow> 's \<Rightarrow> bool"
  assumes space_room: "inv s h \<Longrightarrow> cost n \<le> space s \<Longrightarrow> room n s h"
    and alloc_budget: "inv s h \<Longrightarrow> cost n \<le> space s \<Longrightarrow> alloc n s = Inr (p, t) \<Longrightarrow>
      space s \<le> space t + cost n \<and> keeps s t \<and> (\<forall>x \<in> fixed. get t x = get s x)"
    and release_budget: "inv s h \<Longrightarrow> (p, k) \<in> areas h \<Longrightarrow> release p s = Inr (u, t) \<Longrightarrow>
      space t = space s \<and> keeps s t \<and> (\<forall>x \<in> fixed. get t x = get s x)"
    and areas_fixed: "inv s h \<Longrightarrow> (p, k) \<in> areas h \<Longrightarrow> p \<noteq> 0 \<and> span p (unat k) \<inter> fixed = {}"
    and write_safe: "inv s h \<Longrightarrow> (\<And>x. x \<notin> fixed \<Longrightarrow> (\<And>q l. (q, l) \<in> areas h \<Longrightarrow> x \<notin> span q (unat l)) \<Longrightarrow>
      m x = get s x) \<Longrightarrow> inv (put m s) h"
begin

text \<open>The addresses a client may rely on: fixed ones and those of the areas in use.\<close>

definition safe :: "'h \<Rightarrow> u32 set" where
  "safe h = fixed \<union> {x. \<exists>(q, l) \<in> areas h. x \<in> span q (unat l)}"

lemma safe_mono: "areas h \<subseteq> areas h' \<Longrightarrow> safe h \<subseteq> safe h'"
  by (auto simp: safe_def)

lemma write_in_safe: "inv s h \<Longrightarrow> (\<And>x. x \<notin> safe h \<Longrightarrow> m x = get s x) \<Longrightarrow> inv (put m s) h"
  by (rule write_safe) (auto simp: safe_def)

lemma take_area:
  assumes inv: "inv s h" and "cost n \<le> space s"
  shows "\<exists>p k t h'. alloc n s = Inr (p, t) \<and> inv t h' \<and> p \<noteq> 0 \<and> n \<le> k
    \<and> areas h' = insert (p, k) (areas h) \<and> (p, k) \<notin> areas h
    \<and> span p (unat k) \<inter> safe h = {} \<and> keeps s t \<and> space s \<le> space t + cost n
    \<and> (\<forall>x \<in> safe h. get t x = get s x)"
proof -
  obtain p k t h' where A: "alloc n s = Inr (p, t)" "inv t h'" "n \<le> k"
      "areas h' = insert (p, k) (areas h)" "(p, k) \<notin> areas h"
      "\<forall>(q, l) \<in> areas h. span p (unat k) \<inter> span q (unat l) = {}"
      "\<forall>(q, l) \<in> areas h. \<forall>x \<in> span q (unat l). get t x = get s x"
    using alloc_apart [OF inv space_room [OF assms]] by (elim exE conjE)
  have B: "p \<noteq> 0" "span p (unat k) \<inter> fixed = {}" using areas_fixed [OF A(2), of p k] A(4) by auto
  note C = alloc_budget [OF assms A(1)]
  have "span p (unat k) \<inter> safe h = {}" using A(6) B(2) unfolding safe_def by blast
  moreover have "\<forall>x \<in> safe h. get t x = get s x" using A(7) C unfolding safe_def by blast
  ultimately show ?thesis using A(1-5) B(1) C by blast
qed

lemma give_area:
  assumes inv: "inv s h" and p: "(p, k) \<in> areas h"
  shows "\<exists>t h'. release p s = Inr ((), t) \<and> inv t h' \<and> areas h' = areas h - {(p, k)}
    \<and> keeps s t \<and> space t = space s \<and> (\<forall>x \<in> safe h'. get t x = get s x)"
proof -
  obtain t h' where A: "release p s = Inr ((), t)" "inv t h'" "areas h' = areas h - {(p, k)}"
      "\<forall>(q, l) \<in> areas h'. \<forall>x \<in> span q (unat l). get t x = get s x"
    using release_ok [OF assms] by blast
  moreover note release_budget [OF assms A(1)]
  ultimately have "\<forall>x \<in> safe h'. get t x = get s x" unfolding safe_def by blast
  with A release_budget [OF assms A(1)] show ?thesis by blast
qed

end

text \<open>
  On the heap of the kernel: nothing below its start, nothing from 2 GiB on and nothing behind a wall is ever
  written.
\<close>

definition heap_space :: "'a kheap_scheme \<Rightarrow> nat" where
  "heap_space s = 2147483648 - unat (curr_addr s)"

definition alloc_cost :: "u32 \<Rightarrow> nat" where
  "alloc_cost n = 4 * (unat n + 16)"

definition off_heap :: "heap_base \<Rightarrow> u32 set" where
  "off_heap base = {x. unat x < fst base \<or> 2147483648 \<le> unat x} \<union> {x. \<exists>(q, l) \<in> snd base. x \<in> span q (unat l)}"

lemma wall_area:
  assumes inv: "heap_inv base s bs" and q: "(q, l) \<in> snd base"
  shows "hdrs bs \<inter> span q (unat l) = {}" and "b \<in> set bs \<Longrightarrow> \<not> is_wall b \<Longrightarrow> extent b \<inter> span q (unat l) = {}"
    and "x \<in> span q (unat l) \<Longrightarrow> unat x < unat (curr_addr s)"
proof -
  have ld: "laid (fst base) bs (unat (curr_addr s))" and hi: "unat (curr_addr s) \<le> 2147483648"
    using inv by (simp_all add: heap_inv_def)
  obtain w where w: "w \<in> set bs" "is_wall w" "(q, l) = (b_addr w, 8) \<or> (q, l) = (b_addr w + 16, b_size w)"
  proof -
    have "(q, l) \<in> walls bs" using inv q by (simp add: heap_inv_def)
    then show ?thesis using that by (auto simp: walls_def)
  qed
  obtain xs ys where bs: "bs = xs @ w # ys" using w(1) by (auto simp: in_set_conv_decomp)
  have e: "bend w \<le> unat (curr_addr s)" using laid_in [OF ld w(1)] by simp
  have low: "span (b_addr w) 8 \<subseteq> extent w" by (simp add: extent_def span_mono)
  have sub: "span q (unat l) \<subseteq> extent w" using payload_extent [of w] low e hi w(3) by (auto simp: payload_def)
  have mark: "hdr_span c \<inter> span (b_addr w) 8 = {}" if c: "c \<in> set bs" for c
  proof (cases "c \<in> set xs \<union> set ys")
    case True
    then have "extent w \<inter> extent c = {}" using laid_extents [of "fst base" xs w ys "unat (curr_addr s)" c] ld hi bs by simp
    then show ?thesis using low hdr_extent [of c] by blast
  next
    case False
    then have "c = w" using c bs by auto
    moreover have "apart (b_addr w) 8 (b_addr w + 8) 8"
      using e hi by (intro apart_below) (simp_all add: bend_def u32_add_numeral_unat)
    ultimately show ?thesis using w(2) apart_disjoint [of "b_addr w" 8 "b_addr w + 8" 8] by (simp add: hdr_span_def Int_commute)
  qed
  then show "hdrs bs \<inter> span q (unat l) = {}"
    using payload_hdrs [OF ld _ w(1)] hi w(3) by (fastforce simp: payload_def hdrs_def)
  show "extent b \<inter> span q (unat l) = {}" if b: "b \<in> set bs" "\<not> is_wall b"
  proof -
    have "b \<in> set xs \<union> set ys" using b bs w(2) by auto
    then have "extent w \<inter> extent b = {}" using laid_extents [of "fst base" xs w ys "unat (curr_addr s)" b] ld hi bs by simp
    then show ?thesis using sub by blast
  qed
  show "unat x < unat (curr_addr s)" if "x \<in> span q (unat l)"
    using that sub e hi by (auto simp: extent_def bend_def in_span_unat)
qed

lemma extent_bounds:
  assumes "heap_inv base s bs" and "b \<in> set bs"
  shows "extent b \<inter> {x. unat x < fst base \<or> 2147483648 \<le> unat x} = {}"
proof -
  have ld: "laid (fst base) bs (unat (curr_addr s))" and hi: "unat (curr_addr s) \<le> 2147483648"
    using assms(1) by (simp_all add: heap_inv_def)
  have "fst base \<le> unat (b_addr b)" "bend b \<le> 2147483648" using laid_in [OF ld assms(2)] hi by auto
  moreover from this have "unat (b_addr b) + (16 + unat (b_size b)) \<le> 4294967296" by (simp add: bend_def)
  ultimately show ?thesis by (auto simp: extent_def in_span_unat bend_def)
qed

lemma extent_off_heap:
  assumes "heap_inv base s bs" and "b \<in> set bs" and "\<not> is_wall b"
  shows "extent b \<inter> off_heap base = {}"
  using extent_bounds [OF assms(1,2)] wall_area(2) [OF assms(1) _ assms(2,3)] by (fastforce simp: off_heap_def)

lemma hdrs_off_heap:
  assumes "heap_inv base s bs"
  shows "hdrs bs \<inter> off_heap base = {}"
proof -
  have "hdrs bs \<inter> {x. unat x < fst base \<or> 2147483648 \<le> unat x} = {}"
    using extent_bounds [OF assms] hdr_extent unfolding hdrs_def by blast
  then show ?thesis using wall_area(1) [OF assms] by (fastforce simp: off_heap_def)
qed

lemma malloc_budget:
  assumes inv: "heap_inv base s bs" and room: "alloc_cost n \<le> heap_space s" and run: "malloc n s = Inr (p, t)"
  shows "heap_space s \<le> heap_space t + alloc_cost n \<and> heap_only s t
    \<and> (\<forall>x \<in> off_heap base. mem t x = mem s x)"
proof -
  have ld: "laid (fst base) bs (unat (curr_addr s))" and hi: "unat (curr_addr s) \<le> 2147483648"
    using inv by (simp_all add: heap_inv_def)
  show ?thesis
  proof (cases "dropWhile (\<lambda>b. \<not> fits n b) bs")
    case Nil
    then have none: "\<forall>b \<in> set bs. \<not> fits n b" by (simp add: dropWhile_fits_Nil)
    have space: "unat (curr_addr s) + 4 * (unat n + 16) \<le> 2147483648"
      using room hi by (simp add: alloc_cost_def heap_space_def)
    obtain t' where t': "malloc n s = Inr (curr_addr s + 16, t')" "heap_only s t'"
      "unat (curr_addr t') = unat (curr_addr s) + 4 * (unat n + 16)"
      "\<forall>x. x \<notin> span (curr_addr s) 16 \<and> (bs \<noteq> [] \<longrightarrow> x \<notin> hdr_span (last bs)) \<longrightarrow> mem t' x = mem s x"
      using malloc_fresh [OF inv none space] by blast
    have "span (curr_addr s) 16 \<inter> off_heap base = {}"
      using laid_bounds [OF ld] space wall_area(3) [OF inv] by (fastforce simp: in_span_unat off_heap_def)
    moreover have "bs \<noteq> [] \<Longrightarrow> hdr_span (last bs) \<inter> off_heap base = {}"
      using hdrs_off_heap [OF inv] last_in_set [of bs] by (fastforce simp: hdrs_def)
    ultimately show ?thesis using t' run by (auto simp: heap_space_def alloc_cost_def)
  next
    case (Cons b ys)
    note at = list_at_fit [OF Cons]
    obtain t' where t': "malloc n s = Inr (b_addr b + 16, t')" "heap_only s t'" "curr_addr t' = curr_addr s"
      "\<forall>x. x \<notin> extent b \<longrightarrow> mem t' x = mem s x"
      using malloc_reuse [OF inv Cons] by blast
    have "b \<in> set bs" by (subst at(1)) simp
    moreover have "\<not> is_wall b" using at(2) by (simp add: fits_def)
    ultimately have "extent b \<inter> off_heap base = {}" by (rule extent_off_heap [OF inv])
    with t' run show ?thesis by (auto simp: heap_space_def)
  qed
qed

lemma free_budget:
  assumes inv: "heap_inv base s bs" and p: "(p, k) \<in> live bs" and run: "free p s = Inr (u, t)"
  shows "heap_space t = heap_space s \<and> heap_only s t \<and> (\<forall>x \<in> off_heap base. mem t x = mem s x)"
proof -
  have ld: "laid (fst base) bs (unat (curr_addr s))" and hi: "unat (curr_addr s) \<le> 2147483648"
    using inv by (simp_all add: heap_inv_def)
  obtain b where b: "b \<in> set bs" "\<not> b_free b" "\<not> is_wall b" "p = b_addr b + 16" using p by (auto simp: live_def)
  obtain t' where t': "free p s = Inr ((), t')" "heap_only s t'" "curr_addr t' = curr_addr s"
    "\<forall>x. x \<notin> hdrs bs \<longrightarrow> mem t' x = mem s x"
    using free_refines [OF inv b(1-3)] b(4) by blast
  with t' run show ?thesis using hdrs_off_heap [OF inv] by (auto simp: heap_space_def)
qed

lemma live_off_heap:
  assumes inv: "heap_inv base s bs" and p: "(p, k) \<in> live bs"
  shows "p \<noteq> 0 \<and> span p (unat k) \<inter> off_heap base = {} \<and> unat p + unat k \<le> 2147483648"
proof -
  have ld: "laid (fst base) bs (unat (curr_addr s))" and hi: "unat (curr_addr s) \<le> 2147483648"
    using inv by (simp_all add: heap_inv_def)
  obtain b where b: "b \<in> set bs" "p = b_addr b + 16" "k = b_size b" "\<not> is_wall b" using p by (auto simp: live_def)
  have e: "bend b \<le> 2147483648" using laid_in [OF ld b(1)] hi by simp
  then have "unat p = unat (b_addr b) + 16"
    unfolding b(2) by (intro u32_add_numeral_unat) (simp add: bend_def)
  then have "p \<noteq> 0" "unat p + unat k \<le> 2147483648" using e b(3) by (auto simp: bend_def)
  moreover have "span p (unat k) \<subseteq> extent b"
    using payload_extent [of b] e b(2,3) by (simp add: payload_def)
  ultimately show ?thesis using extent_off_heap [OF inv b(1,4)] by blast
qed

lemma heap_inv_write_safe:
  assumes inv: "heap_inv base s bs"
    and out: "\<And>x. x \<notin> off_heap base \<Longrightarrow> (\<And>q l. (q, l) \<in> live bs \<Longrightarrow> x \<notin> span q (unat l)) \<Longrightarrow> m x = mem s x"
  shows "heap_inv base (s\<lparr>mem := m\<rparr>) bs"
proof -
  have sg: "seg (mem s) (frist_hh s) bs 0" and ld: "laid (fst base) bs (unat (curr_addr s))"
    and hi: "unat (curr_addr s) \<le> 2147483648"
    using inv by (simp_all add: heap_inv_def)
  have "seg m (frist_hh s) bs 0"
  proof (rule seg_frame [OF sg])
    fix c x assume c: "c \<in> set bs" "x \<in> hdr_span c"
    have "x \<notin> off_heap base" using hdrs_off_heap [OF inv] c by (auto simp: hdrs_def)
    moreover have "x \<notin> span q (unat l)" if "(q, l) \<in> live bs" for q l
    proof -
      obtain b where b: "b \<in> set bs" "q = b_addr b + 16" "l = b_size b" using \<open>(q, l) \<in> live bs\<close> by (auto simp: live_def)
      have "payload b \<inter> hdrs bs = {}" by (rule payload_hdrs [OF ld _ b(1)]) (use hi in simp)
      then show ?thesis using c b(2,3) by (auto simp: hdrs_def payload_def)
    qed
    ultimately show "m x = mem s x" by (rule out)
  qed
  then show ?thesis using inv by (simp add: heap_inv_def)
qed

interpretation hc: budget_allocator "heap_inv base" live heap_room malloc free mem "\<lambda>m s. s\<lparr>mem := m\<rparr>"
  heap_space alloc_cost "off_heap base" heap_only
  for base
proof unfold_locales
  fix s :: "'a kheap_scheme" and h n
  assume "heap_inv base s h" "alloc_cost n \<le> heap_space s"
  then show "heap_room n s h" by (auto simp: heap_room_def alloc_cost_def heap_space_def heap_inv_def)
qed (auto dest: malloc_budget free_budget live_off_heap intro: heap_inv_write_safe)

text \<open>What the interface says of a heap, spelled out once for its clients.\<close>

definition usable :: "heap_base \<Rightarrow> block list \<Rightarrow> u32 set" where
  "usable base bs = off_heap base \<union> {x. \<exists>(q, l) \<in> live bs. x \<in> span q (unat l)}"

lemma hc_safe: "hc.safe base bs = usable base bs"
  by (simp add: hc.safe_def usable_def)

lemmas usable_mono = hc.safe_mono [unfolded hc_safe]
lemmas heap_take = hc.take_area [unfolded hc_safe]
lemmas heap_give = hc.give_area [unfolded hc_safe]
lemmas heap_write = hc.write_in_safe [unfolded hc_safe]

lemma usable_area: "(q, l) \<in> live bs \<Longrightarrow> span q (unat l) \<subseteq> usable base bs"
  by (auto simp: usable_def)

lemma heap_only_trans: "heap_only s t \<Longrightarrow> heap_only t u \<Longrightarrow> heap_only s u"
  by (simp add: heap_only_def)

lemma heap_only_mem: "heap_only s t \<Longrightarrow> heap_only s (t\<lparr>mem := m\<rparr>)"
  by (simp add: heap_only_def)

end
