(* ===== verification/Samples.thy ===== *)
theory Samples
  imports Boot Heap_Client
begin

text \<open>
  Concrete states for the witnesses: a link map, the state the boot loader leaves, with an empty heap
  from 2 MiB on, a program that does nothing the model follows, and the file of a program.
\<close>

definition boot_env :: env where
  "boot_env = \<lparr>fn_ata_read = 0x1001, fn_keyboard_read = 0x1002, fn_term_write = 0x1003, fn_fat_file_read = 0x1004,
     fn_fat_read_dir = 0x1005, fn_fat_find_dir = 0x1006, fn_fat_dir_readdir = 0x1007, fn_fat_dir_finddir = 0x1008,
     fn_devfs_read_dir = 0x1009, fn_devfs_find_dir = 0x100A, fn_syscall_dispatch = 0x100B, fn_div_by_zero = 0x100C,
     fn_general_protection = 0x100D, fn_page_fault = 0x100E, fn_pit_timer = 0x100F, fn_keyboard_handler = 0x1010,
     fn_ata_primary = 0x1011, isr_stubs = map (\<lambda>i. 0x2000 + 16 * of_nat i) [0..<32], idt_address = 0x3000,
     addr_syscall_cnt = 0x4000, str_slash = 0x5000, str_dev = 0x5010, str_mafest = 0x5020, str_bin_init = 0x5030,
     str_krnl_exit_code = 0x5040, str_prog_names = map (\<lambda>i. 0x5100 + 16 * of_nat i) [0..<10],
     local_dirent = 0x90000, local_block = 0x90100, local_input = 0x90400, stack_junk = replicate 55 0,
     stack_fe = \<lparr>fe_filename = replicate 8 0, fe_ext = replicate 3 0, fe_attributes = 0, fe_reserved = replicate 10 0,
       fe_modify_time = 0, fe_modify_date = 0, fe_starting_cluster = 0, fe_file_size = 0\<rparr>,
     left_eax = 0, left_poll = 0\<rparr>"

definition kernel_start :: kernel where
  "kernel_start = \<lparr>mem = (\<lambda>_. 0), io_log = [], in8 = (\<lambda>_ _. 0), in16 = (\<lambda>_ _. 0),
     term_row = 0, term_column = 0, term_color = 7,
     curr_addr = 0x200000, max_page_addr = 0x210000, frist_hh = 0, last_hh = 0,
     frames = 0x400, frames_max = 0, alloced_frames = 0,
     kernel_page_dir = 0, current_page_dir = 0, cr3 = 0, paging_on = False,
     the_idt = replicate 256 (new_gate 0 0), idtr_limit = 0, idtr_base = 0, idtr_loaded = False,
     m_devices = 0, m_devices_number = 0,
     current_ch = 0, kb_buffer = replicate 255 0, handled_index = 0, kb_signal = 0, wait_enabled = 0,
     is_master_exist = 0, mount_points = 0, mount_count = 0, strtok_input = 0, retval = 0,
     shell_progs = [], input_index = 0, gdt_loaded = False, interrupts_on = False\<rparr>"

lemma kernel_start_ok: "term_ok kernel_start"
  by (simp add: term_ok_def kernel_start_def vga_consts)

definition no_program :: "'s outside" where
  "no_program = \<lparr>run_code = (\<lambda>_ s. Inl Undefined), regs_now = \<lparr>r_esp = 0, r_ebx = 0, r_ecx = 0, r_edx = 0,
     r_esi = 0, r_edi = 0, r_ebp = 0, r_ds = 0, r_es = 0, r_fs = 0, r_gs = 0, r_eax = 0\<rparr>\<rparr>"

lemma kernel_start_heap: "heap_inv (0x200000, {}) kernel_start []"
  by (simp add: heap_inv_def kernel_start_def)

lemma kernel_start_space: "heap_space kernel_start = 2145386496"
  by (simp add: heap_space_def kernel_start_def)

lemma usable_Nil: "x \<in> usable (base, {}) [] \<longleftrightarrow> unat x < base \<or> 2147483648 \<le> unat x"
  by (simp add: usable_def off_heap_def)

text \<open>A program with two segments of one page each: six bytes at \<open>0x8049010\<close>, one byte at \<open>0x804A012\<close>.\<close>

definition sample_elf :: "u8 list" where
  "sample_elf = [0x7F, 0x45, 0x4C, 0x46] @ replicate 12 0 @ [2, 0] @ replicate 6 0 @ [0x10, 0x90, 4, 8, 52, 0, 0, 0]
     @ replicate 12 0 @ [2, 0] @ replicate 6 0
     @ [1, 0, 0, 0, 0x80, 0, 0, 0, 0x10, 0x90, 4, 8] @ replicate 4 0 @ [6, 0, 0, 0] @ replicate 12 0
     @ [1, 0, 0, 0, 0x86, 0, 0, 0, 0x12, 0xA0, 4, 8] @ replicate 4 0 @ [1, 0, 0, 0] @ replicate 12 0
     @ replicate 12 0 @ [0xB8, 7, 0, 0, 0, 0xC3, 0x55]"

lemma sample_elf_length [simp]: "length sample_elf = 135"
  by (simp add: sample_elf_def)

end
