(* ===== verification/Syscall_Spec.thy ===== *)
theory Syscall_Spec
  imports Samples
begin

text \<open>
  System calls end to end: a call that allocates reaches the allocator through the dispatcher, what the
  caller gets is an area of its own, and programs that allocate, write and free in any order keep what they
  hold.
\<close>

section \<open>Properties\<close>

lemma syscall_kmalloc_run:
  assumes inv: "heap_inv base s bs" and space: "alloc_cost (r_ebx regs) \<le> heap_space s"
    and num: "r_eax regs = 7" "7 \<le> addr_syscall_cnt k - 1"
    and cell: "span (r_ecx regs) 4 \<subseteq> usable base bs"
  shows "\<exists>p n t bs'. syscall_dispatch k regs s = Inr (regs\<lparr>r_eax := 0\<rparr>, t) \<and> retval t = 0
    \<and> load32 (mem t) (r_ecx regs) = p \<and> r_ebx regs \<le> n \<and> heap_inv base t bs'
    \<and> live bs' = insert (p, n) (live bs) \<and> span p (unat n) \<inter> usable base bs = {}
    \<and> (\<forall>x \<in> usable base bs - span (r_ecx regs) 4. mem t x = mem s x)"
proof -
  obtain p n s1 bs' where A: "malloc (r_ebx regs) s = Inr (p, s1)" "heap_inv base s1 bs'" "r_ebx regs \<le> n"
    "live bs' = insert (p, n) (live bs)" "span p (unat n) \<inter> usable base bs = {}"
    "\<forall>x \<in> usable base bs. mem s1 x = mem s x"
    using heap_take [OF inv space] by blast
  define t where "t = (wr32 (r_ecx regs) p s1)\<lparr>retval := 0\<rparr>"
  have "usable base bs \<subseteq> usable base bs'" by (rule usable_mono) (use A(4) in auto)
  then have "heap_inv base (wr32 (r_ecx regs) p s1) bs'"
    by (intro heap_write [OF A(2)] c32.st_outside) (use cell in blast)
  then have "heap_inv base t bs'" by (simp add: t_def heap_inv_def)
  moreover have "syscall_dispatch k regs s = Inr (regs\<lparr>r_eax := 0\<rparr>, t)"
    using num A(1) by (simp add: syscall_dispatch_def syscalls_table_def SYSCALLS_COUNT_def sc_kmalloc_def t_def)
  moreover have "mem t x = mem s x" if "x \<in> usable base bs - span (r_ecx regs) 4" for x
    using A(6) that by (simp add: t_def c32.st_outside)
  moreover have "load32 (mem t) (r_ecx regs) = p" "retval t = 0" by (simp_all add: t_def cells)
  ultimately have "syscall_dispatch k regs s = Inr (regs\<lparr>r_eax := 0\<rparr>, t) \<and> retval t = 0
    \<and> load32 (mem t) (r_ecx regs) = p \<and> r_ebx regs \<le> n \<and> heap_inv base t bs'
    \<and> live bs' = insert (p, n) (live bs) \<and> span p (unat n) \<inter> usable base bs = {}
    \<and> (\<forall>x \<in> usable base bs - span (r_ecx regs) 4. mem t x = mem s x)"
    using A(3-5) by simp
  then show ?thesis
    by (rule exI [of _ p, OF exI [of _ n, OF exI [of _ t, OF exI [of _ bs']]]])
qed

text \<open>
  C24. The system call \<open>kmalloc\<close>, from the dispatcher to the heap: it returns to the caller with every
  register but \<open>eax\<close> restored, records the status 0, and stores at the caller's cell the address of an
  area of at least the size asked for that meets no area in use and nothing outside the heap; of
  the memory the caller may rely on, only its cell changes.
\<close>

theorem syscall_kmalloc_isolated:
  assumes inv: "heap_inv base s bs" and space: "alloc_cost (r_ebx regs) \<le> heap_space s"
    and num: "r_eax regs = 7" "7 \<le> addr_syscall_cnt k - 1"
    and cell: "span (r_ecx regs) 4 \<subseteq> usable base bs"
  shows "\<exists>p n t bs'. syscall_dispatch k regs s = Inr (regs\<lparr>r_eax := 0\<rparr>, t) \<and> retval t = 0
    \<and> load32 (mem t) (r_ecx regs) = p \<and> r_ebx regs \<le> n \<and> heap_inv base t bs'
    \<and> live bs' = insert (p, n) (live bs) \<and> span p (unat n) \<inter> usable base bs = {}
    \<and> (\<forall>x \<in> usable base bs - span (r_ecx regs) 4. mem t x = mem s x)"
  using assms by (rule syscall_kmalloc_run)

definition regs_kmalloc :: syscall_regs where
  "regs_kmalloc = \<lparr>r_esp = 0, r_ebx = 64, r_ecx = 0x9000, r_edx = 0, r_esi = 0, r_edi = 0, r_ebp = 0, r_ds = 0,
     r_es = 0, r_fs = 0, r_gs = 0, r_eax = 7\<rparr>"

lemma syscall_kmalloc_isolated_witness:
  "\<exists>p n t. syscall_dispatch boot_env regs_kmalloc kernel_start = Inr (regs_kmalloc\<lparr>r_eax := 0\<rparr>, t)
     \<and> load32 (mem t) 0x9000 = p \<and> (64 :: u32) \<le> n \<and> (p, n) \<in> {(p, n). span p (unat n) \<inter> usable (0x200000, {}) [] = {}}"
proof -
  have "span (r_ecx regs_kmalloc) 4 \<subseteq> usable (0x200000, {}) []"
    by (auto simp: regs_kmalloc_def usable_Nil in_span_unat)
  then obtain p t and n :: u32 where
    "syscall_dispatch boot_env regs_kmalloc kernel_start = Inr (regs_kmalloc\<lparr>r_eax := 0\<rparr>, t)"
    "load32 (mem t) (r_ecx regs_kmalloc) = p" "r_ebx regs_kmalloc \<le> n" "span p (unat n) \<inter> usable (0x200000, {}) [] = {}"
    using syscall_kmalloc_isolated [OF kernel_start_heap, of regs_kmalloc boot_env]
    by (auto simp: kernel_start_space alloc_cost_def regs_kmalloc_def boot_env_def)
  then show ?thesis by (auto simp: regs_kmalloc_def)
qed

section \<open>A program on the heap of the kernel\<close>

lemma syscall_kfree_run:
  fixes s :: "'a syscalls_scheme"
  assumes inv: "heap_inv base s bs" and p: "(r_ebx regs, n) \<in> live bs"
    and num: "r_eax regs = 8" "8 \<le> addr_syscall_cnt k - 1"
  shows "\<exists>t bs'. syscall_dispatch k regs s = Inr (regs\<lparr>r_eax := 0\<rparr>, t) \<and> heap_inv base t bs'
    \<and> live bs' = live bs - {(r_ebx regs, n)} \<and> (\<forall>x \<in> usable base bs'. mem t x = mem s x)"
proof -
  obtain s1 bs' where A: "free (r_ebx regs) s = Inr ((), s1)" "heap_inv base s1 bs'"
    "live bs' = live bs - {(r_ebx regs, n)}" "\<forall>x \<in> usable base bs'. mem s1 x = mem s x"
    using heap_give [OF inv p] by blast
  have "syscall_dispatch k regs s = Inr (regs\<lparr>r_eax := 0\<rparr>, s1\<lparr>retval := 0\<rparr>)"
    using num A(1) by (simp add: syscall_dispatch_def syscalls_table_def SYSCALLS_COUNT_def sc_kfree_def)
  moreover have "heap_inv base (s1\<lparr>retval := 0\<rparr>) bs'" using A(2) by (simp add: heap_inv_def)
  ultimately show ?thesis
    using A(3,4) by (intro exI [of _ "s1\<lparr>retval := 0\<rparr>"] exI [of _ bs']) simp
qed

text \<open>
  What a program does with the heap: it allocates, frees what it was given, and writes inside what it was
  given. \<open>G\<close> records, for each area it holds, the bytes it relies on: those it found there or wrote last.
\<close>

inductive user_step :: "env \<Rightarrow> heap_base \<Rightarrow> 'a syscalls_scheme \<Rightarrow> (u32 \<rightharpoonup> u8 list) \<Rightarrow>
    'a syscalls_scheme \<Rightarrow> (u32 \<rightharpoonup> u8 list) \<Rightarrow> bool" for k base where
  user_alloc: "r_eax regs = 7 \<Longrightarrow> span (r_ecx regs) 4 \<subseteq> off_heap base \<Longrightarrow> alloc_cost (r_ebx regs) \<le> heap_space s \<Longrightarrow>
    syscall_dispatch k regs s = Inr (regs', t) \<Longrightarrow> p = load32 (mem t) (r_ecx regs) \<Longrightarrow>
    user_step k base s G t (G(p \<mapsto> get_bytes (mem t) p (unat (r_ebx regs))))"
| user_free: "r_eax regs = 8 \<Longrightarrow> r_ebx regs \<in> dom G \<Longrightarrow> syscall_dispatch k regs s = Inr (regs', t) \<Longrightarrow>
    user_step k base s G t (G(r_ebx regs := None))"
| user_write: "G p = Some bs \<Longrightarrow> length cs = length bs \<Longrightarrow>
    user_step k base s G (s\<lparr>mem := put_bytes p cs (mem s)\<rparr>) (G(p \<mapsto> cs))"

inductive user_run :: "env \<Rightarrow> heap_base \<Rightarrow> 'a syscalls_scheme \<Rightarrow> (u32 \<rightharpoonup> u8 list) \<Rightarrow>
    'a syscalls_scheme \<Rightarrow> (u32 \<rightharpoonup> u8 list) \<Rightarrow> bool" for k base where
  run_refl: "user_run k base s G s G"
| run_step: "user_run k base s G t H \<Longrightarrow> user_step k base t H u I \<Longrightarrow> user_run k base s G u I"

definition holds_areas :: "(u32 \<rightharpoonup> u8 list) \<Rightarrow> block list \<Rightarrow> memory \<Rightarrow> bool" where
  "holds_areas G bs m \<longleftrightarrow> (\<forall>p cs. G p = Some cs \<longrightarrow>
     (\<exists>n. (p, n) \<in> live bs \<and> length cs \<le> unat n \<and> get_bytes m p (length cs) = cs))"

definition user_ok :: "heap_base \<Rightarrow> 'a kheap_scheme \<Rightarrow> (u32 \<rightharpoonup> u8 list) \<Rightarrow> bool" where
  "user_ok base s G \<longleftrightarrow> (\<exists>bs. heap_inv base s bs \<and> holds_areas G bs (mem s))"

lemma live_off: "heap_inv base s bs \<Longrightarrow> (p, n) \<in> live bs \<Longrightarrow> span p (unat n) \<inter> off_heap base = {}"
  using live_off_heap by blast

lemma live_disjoint:
  assumes "heap_inv base s bs" and "(p, n) \<in> live bs" and "(q, l) \<in> live bs" and "p \<noteq> q"
  shows "span p (unat n) \<inter> span q (unat l) = {}"
proof (rule live_apart)
  show "laid (fst base) bs (unat (curr_addr s))" "unat (curr_addr s) \<le> 4294967296"
    using assms(1) by (simp_all add: heap_inv_def)
qed (use assms in auto)

text \<open>The areas other than \<open>p\<close> keep what they hold when their bytes are kept.\<close>

lemma holds_areas_step:
  assumes H: "holds_areas G bs m"
    and keep: "\<And>q l. q \<noteq> p \<Longrightarrow> (q, l) \<in> live bs \<Longrightarrow> (q, l) \<in> live bs' \<and> (\<forall>x \<in> span q (unat l). m' x = m x)"
    and new: "\<And>cs. v = Some cs \<Longrightarrow> \<exists>n. (p, n) \<in> live bs' \<and> length cs \<le> unat n \<and> get_bytes m' p (length cs) = cs"
  shows "holds_areas (G(p := v)) bs' m'"
  unfolding holds_areas_def
proof (intro allI impI)
  fix q cs assume G: "(G(p := v)) q = Some cs"
  show "\<exists>n. (q, n) \<in> live bs' \<and> length cs \<le> unat n \<and> get_bytes m' q (length cs) = cs"
  proof (cases "q = p")
    case False
    then obtain l where l: "(q, l) \<in> live bs" "length cs \<le> unat l" "get_bytes m q (length cs) = cs"
      using G H by (auto simp: holds_areas_def)
    have "m' (q + of_nat i) = m (q + of_nat i)" if "i < length cs" for i
      using keep [OF False l(1)] that l(2) u32_bound [of l] by (auto intro!: span_add_of_nat)
    then have "get_bytes m' q (length cs) = get_bytes m q (length cs)" by (simp add: get_bytes_def)
    with l(3) have "get_bytes m' q (length cs) = cs" by simp
    then show ?thesis using keep [OF False l(1)] l by blast
  qed (use G new in simp)
qed

lemma user_step_ok:
  assumes "user_step k base s G t H" and "8 \<le> addr_syscall_cnt k - 1" and "user_ok base s G"
  shows "user_ok base t H"
  using assms
proof (induction rule: user_step.induct)
  case (user_alloc regs s regs' t p G)
  obtain bs where bs: "heap_inv base s bs" "holds_areas G bs (mem s)" using user_alloc.prems(2) by (auto simp: user_ok_def)
  have cell: "span (r_ecx regs) 4 \<subseteq> usable base bs" using user_alloc.hyps(2) by (auto simp: usable_def)
  have "7 \<le> addr_syscall_cnt k - 1" using user_alloc.prems(1) by (rule order_trans [rotated]) simp
  from syscall_kmalloc_run [OF bs(1) user_alloc.hyps(3,1) this cell] user_alloc.hyps(4,5)
  obtain n bs' where A: "r_ebx regs \<le> n" "heap_inv base t bs'" "live bs' = insert (p, n) (live bs)"
    "\<forall>x \<in> usable base bs - span (r_ecx regs) 4. mem t x = mem s x"
    by auto
  have "holds_areas (G(p \<mapsto> get_bytes (mem t) p (unat (r_ebx regs)))) bs' (mem t)"
  proof (rule holds_areas_step [OF bs(2)])
    show "\<exists>n. (p, n) \<in> live bs' \<and> length cs \<le> unat n \<and> get_bytes (mem t) p (length cs) = cs"
      if "Some (get_bytes (mem t) p (unat (r_ebx regs))) = Some cs" for cs
      using that A(1,3) by (auto simp: get_bytes_def u32_le_unat intro!: exI [of _ n])
    show "(q, l) \<in> live bs' \<and> (\<forall>x \<in> span q (unat l). mem t x = mem s x)"
      if q: "(q, l) \<in> live bs" for q l
      using A(3,4) usable_area [OF q, of base] live_off [OF bs(1) q] user_alloc.hyps(2) q by blast
  qed
  then show ?case using A(2) unfolding user_ok_def by blast
next
  case (user_free regs G s regs' t)
  obtain bs where bs: "heap_inv base s bs" "holds_areas G bs (mem s)" using user_free.prems(2) by (auto simp: user_ok_def)
  then obtain n where n: "(r_ebx regs, n) \<in> live bs" using user_free.hyps(2) by (auto simp: holds_areas_def)
  from syscall_kfree_run [OF bs(1) n user_free.hyps(1) user_free.prems(1)] user_free.hyps(3)
  obtain bs' where A: "heap_inv base t bs'" "live bs' = live bs - {(r_ebx regs, n)}" "\<forall>x \<in> usable base bs'. mem t x = mem s x"
    by auto
  have "holds_areas (G(r_ebx regs := None)) bs' (mem t)"
  proof (rule holds_areas_step [OF bs(2)])
    show "(q, l) \<in> live bs' \<and> (\<forall>x \<in> span q (unat l). mem t x = mem s x)"
      if "q \<noteq> r_ebx regs" "(q, l) \<in> live bs" for q l
    proof -
      have q: "(q, l) \<in> live bs'" using that A(2) by simp
      then show ?thesis using usable_area [OF q, of base] A(3) by blast
    qed
  qed simp
  then show ?case using A(1) unfolding user_ok_def by blast
next
  case (user_write G p bs cs s)
  obtain h where h: "heap_inv base s h" "holds_areas G h (mem s)" using user_write.prems(2) by (auto simp: user_ok_def)
  then obtain n where n: "(p, n) \<in> live h" "length cs \<le> unat n"
    using user_write.hyps by (auto simp: holds_areas_def)
  define m where "m = put_bytes p cs (mem s)"
  have out: "m x = mem s x" if "x \<notin> span p (unat n)" for x
    using that span_mono [OF n(2), of p] by (auto simp: m_def intro!: put_bytes_outside)
  have "heap_inv base (s\<lparr>mem := m\<rparr>) h" by (rule heap_inv_write [OF h(1) n(1) out])
  moreover have "holds_areas (G(p \<mapsto> cs)) h m"
  proof (rule holds_areas_step [OF h(2)])
    show "(q, l) \<in> live h \<and> (\<forall>x \<in> span q (unat l). m x = mem s x)" if "q \<noteq> p" "(q, l) \<in> live h" for q l
      using live_disjoint [OF h(1) n(1) that(2)] that out by blast
    have "get_bytes m p (length cs) = cs"
      using n(2) u32_bound [of n] by (intro nth_equalityI) (simp_all add: m_def get_bytes_def put_bytes_in)
    then show "\<exists>n. (p, n) \<in> live h \<and> length ds \<le> unat n \<and> get_bytes m p (length ds) = ds" if "Some cs = Some ds" for ds
      using that n by auto
  qed
  ultimately show ?case unfolding user_ok_def m_def by auto
qed

text \<open>
  C6. Programs share the kernel's heap safely: whatever a program allocates, writes and frees through the
  system calls, in any order, the heap stays well-formed and every area it holds keeps the bytes it last
  wrote there (or found when it got it) until it writes or frees that area itself.
\<close>

theorem user_run_keeps_areas:
  assumes "user_run k base s G t H" and "8 \<le> addr_syscall_cnt k - 1" and "user_ok base s G"
  shows "user_ok base t H \<and> (\<forall>p cs. H p = Some cs \<longrightarrow> get_bytes (mem t) p (length cs) = cs)"
proof -
  have "user_ok base t H"
    using assms by (induction rule: user_run.induct) (auto intro: user_step_ok)
  then show ?thesis unfolding user_ok_def holds_areas_def by blast
qed

lemma user_run_keeps_areas_witness:
  "\<exists>p t cs. user_run boot_env (0x200000, {}) kernel_start Map.empty t [p \<mapsto> cs] \<and> length cs = 64
     \<and> get_bytes (mem t) p 64 = cs"
proof -
  have off: "span (r_ecx regs_kmalloc) 4 \<subseteq> off_heap (0x200000, {})"
    by (auto simp: regs_kmalloc_def off_heap_def in_span_unat)
  then have cell: "span (r_ecx regs_kmalloc) 4 \<subseteq> usable (0x200000, {}) []" by (auto simp: usable_def)
  have cost: "alloc_cost (r_ebx regs_kmalloc) \<le> heap_space kernel_start"
    by (simp add: kernel_start_space alloc_cost_def regs_kmalloc_def)
  obtain t where t: "syscall_dispatch boot_env regs_kmalloc kernel_start = Inr (regs_kmalloc\<lparr>r_eax := 0\<rparr>, t)"
    using syscall_kmalloc_run [OF kernel_start_heap cost _ _ cell, of boot_env]
    by (auto simp: regs_kmalloc_def boot_env_def)
  define p cs where "p = load32 (mem t) (r_ecx regs_kmalloc)" and "cs = get_bytes (mem t) p (unat (r_ebx regs_kmalloc))"
  have "user_step boot_env (0x200000, {}) kernel_start Map.empty t [p \<mapsto> cs]"
    unfolding cs_def by (rule user_alloc [OF _ off cost t p_def]) (simp add: regs_kmalloc_def)
  then have run: "user_run boot_env (0x200000, {}) kernel_start Map.empty t [p \<mapsto> cs]" by (rule run_step [OF run_refl])
  have "user_ok (0x200000, {}) kernel_start Map.empty"
    using kernel_start_heap by (auto simp: user_ok_def holds_areas_def)
  then have "get_bytes (mem t) p (length cs) = cs"
    using user_run_keeps_areas [OF run] by (simp add: boot_env_def)
  moreover have "length cs = 64" by (simp add: cs_def get_bytes_def regs_kmalloc_def)
  ultimately show ?thesis using run by metis
qed

end
