(* ===== verification/Boot_Init.thy ===== *)
theory Boot_Init
  imports Shell_Spec
begin

text \<open>
  The first parts of the boot sequence: the memory map, the descriptor tables and interrupts, and paging.
  Each has a lemma on what it returns and what it changes; \<open>Boot_Spec\<close> puts them together with the devices.
\<close>

unbundle bit_operations_syntax

section \<open>What printing, ports and the heap leave alone\<close>

text \<open>
  \<open>calm s t\<close>: nothing but memory, the log of port accesses, the cursor and the pointers of the heap is
  different. Console output, port accesses and the heap are calm, so that every other global is kept along
  any sequence of them.
\<close>

definition calm :: "'a kheap_scheme \<Rightarrow> 'a kheap_scheme \<Rightarrow> bool" where
  "calm s t \<longleftrightarrow> t = s\<lparr>mem := mem t, io_log := io_log t, term_row := term_row t,
     term_column := term_column t, term_color := term_color t,
     curr_addr := curr_addr t, frist_hh := frist_hh t, last_hh := last_hh t\<rparr>"

interpretation calm: effect calm
proof unfold_locales
  fix s t u :: "'a kheap_scheme"
  show "calm s s" by (simp add: calm_def)
  assume "calm s t" "calm t u"
  then show "calm s u" unfolding calm_def by (cases s; cases t; cases u) simp
qed

lemma calm_term:
  fixes s t :: "'a kheap_scheme"
  assumes "term_only s t"
  shows "calm s t" and "curr_addr t = curr_addr s" and "frist_hh t = frist_hh s" and "last_hh t = last_hh s"
  using assms unfolding calm_def term_only_def by (cases s; cases t; simp)+

lemma calm_heap: "heap_only s t \<Longrightarrow> calm s t"
  unfolding calm_def heap_only_def by (cases s; cases t) simp

lemma calm_mem: "calm s (s\<lparr>mem := m\<rparr>)"
  by (simp add: calm_def)

lemma calm_ports: "ports_only s t \<Longrightarrow> calm s t"
  for s :: "'a kheap_scheme"
  by (auto simp: calm_def ports_only_def)

text \<open>The globals above the heap, read off.\<close>

lemma calm_fields:
  assumes "calm s t"
  shows "in8 t = in8 s" "in16 t = in16 s" "max_page_addr t = max_page_addr s" "kheap.more t = kheap.more s"
  using assms unfolding calm_def by (cases s; cases t; simp)+

lemma calm_kernel:
  fixes s t :: "'a kernel_scheme"
  assumes "calm s t"
  shows "frames t = frames s" "frames_max t = frames_max s" "alloced_frames t = alloced_frames s"
    "kernel_page_dir t = kernel_page_dir s" "current_page_dir t = current_page_dir s" "cr3 t = cr3 s"
    "paging_on t = paging_on s" "the_idt t = the_idt s" "idtr_loaded t = idtr_loaded s"
    "m_devices t = m_devices s" "m_devices_number t = m_devices_number s" "is_master_exist t = is_master_exist s"
    "mount_points t = mount_points s" "mount_count t = mount_count s" "shell_progs t = shell_progs s"
    "gdt_loaded t = gdt_loaded s" "interrupts_on t = interrupts_on s" "input_index t = input_index s"
    "kb_buffer t = kb_buffer s" "handled_index t = handled_index s" "kb_signal t = kb_signal s"
    "current_ch t = current_ch s" "strtok_input t = strtok_input s" "retval t = retval s"
    "idtr_base t = idtr_base s" "idtr_limit t = idtr_limit s"
  using assms unfolding calm_def by (cases s; cases t; simp)+

section \<open>The memory map\<close>

text \<open>What the boot loader hands over: a memory map is given, and its first region does not end before it starts.\<close>

definition first_region :: "memory \<Rightarrow> u32 \<Rightarrow> multiboot_mmap_entry" where
  "first_region m mbi = get_mmap_entry m (mbi_mmap_addr (get_multiboot_info m mbi))"

definition good_map :: "memory \<Rightarrow> u32 \<Rightarrow> bool" where
  "good_map m mbi \<longleftrightarrow> drop_bit 6 (mbi_flags (get_multiboot_info m mbi)) AND 1 \<noteq> 0
     \<and> span mbi 52 \<inter> vga_span = {} \<and> span (mbi_mmap_addr (get_multiboot_info m mbi)) 24 \<inter> vga_span = {}
     \<and> frame_start (first_region m mbi) \<le> frame_end (first_region m mbi)"

lemma printf_run:
  assumes "fmt_render (lit fmt) args = Some cs" and "term_ok s"
  shows "\<exists>t. term_printf fmt args s = Inr ((), t) \<and> term_only s t \<and> term_ok t"
  using vprintf_render [OF assms(1), of s] term_printf_effect [of s fmt args] assms(2)
  by (simp add: term_printf_def term_effect_def)

lemma write_lit_run: "term_ok s \<Longrightarrow> term_ok (write_lit cs s) \<and> term_only s (write_lit cs s)"
  using term_puts_effect [of s "lit cs"] by (simp add: write_lit_def term_effect_def)

lemma boot_memory_run:
  fixes s :: "'a terminal_scheme"
  assumes ok: "term_ok s" and map: "good_map (mem s) mbi"
  shows "\<exists>t. boot_memory mbi s = Inr ((frame_start (first_region (mem s) mbi), frame_end (first_region (mem s) mbi)), t)
    \<and> term_only s t \<and> term_ok t"
proof -
  let ?a = "mbi_mmap_addr (get_multiboot_info (mem s) mbi)"
  define s2 where "s2 = term_setcolor (vga_color_value VGA_COLOR_LIGHT_CYAN)
    (write_lit ''[Init] Cheaking for memory map\<newline>'' (term_setcolor (vga_color_value VGA_COLOR_CYAN)
      (write_lit ''Starting this junk up!\<newline>'' (term_init s))))"
  have "term_effect s s2"
    unfolding s2_def write_lit_def term_init_def by (intro console_steps console.R_refl)
  then have s2: "term_ok s2" "term_only s s2" using ok by (simp_all add: term_effect_def)
  have out: "mem s2 x = mem s x" if "x \<notin> vga_span" for x
    using s2(2) that by (simp add: term_only_def)
  have info: "get_multiboot_info (mem s2) mbi = get_multiboot_info (mem s) mbi"
    by (rule multiboot_info_frame) (use out map in \<open>auto simp: good_map_def\<close>)
  have entry: "get_mmap_entry (mem s2) ?a = get_mmap_entry (mem s) ?a"
    by (rule mmap_entry_frame) (use out map in \<open>auto simp: good_map_def\<close>)
  obtain cs where "fmt_render (lit ''MEM SIZE: %x \<newline>'') [VWord (mbi_mem_upper (get_multiboot_info (mem s) mbi))] = Some cs"
    by (simp add: lit_def)
  from printf_run [OF this s2(1)] obtain s5
    where s5: "term_printf ''MEM SIZE: %x \<newline>'' [VWord (mbi_mem_upper (get_multiboot_info (mem s) mbi))] s2 = Inr ((), s5)"
      "term_only s2 s5" "term_ok s5" by blast
  have "\<not> frame_end (get_mmap_entry (mem s) ?a) < frame_start (get_mmap_entry (mem s) ?a)"
    using map by (simp add: good_map_def first_region_def not_less)
  then have "boot_memory mbi s = Inr ((frame_start (first_region (mem s) mbi), frame_end (first_region (mem s) mbi)),
      term_setcolor (vga_color_value VGA_COLOR_CYAN) s5)"
    unfolding boot_memory_def Let_def s2_def [symmetric]
    using map s5(1) by (simp add: info entry good_map_def first_region_def)
  moreover have "term_effect s5 (term_setcolor (vga_color_value VGA_COLOR_CYAN) s5)" by (rule term_setcolor_effect)
  ultimately show ?thesis
    using s5(3) term_only_trans [OF term_only_trans [OF s2(2) s5(2)]] by (auto simp: term_effect_def)
qed

section \<open>Descriptor tables and interrupts\<close>

text \<open>What no part of the boot sequence changes: the hardware and the globals of the keyboard and the shell.\<close>

definition boot_frame :: "'a kernel_scheme \<Rightarrow> 'a kernel_scheme \<Rightarrow> bool" where
  "boot_frame s t \<longleftrightarrow> in8 t = in8 s \<and> in16 t = in16 s \<and> current_ch t = current_ch s \<and> kb_buffer t = kb_buffer s
     \<and> handled_index t = handled_index s \<and> kb_signal t = kb_signal s \<and> strtok_input t = strtok_input s
     \<and> retval t = retval s \<and> shell_progs t = shell_progs s \<and> input_index t = input_index s"

interpretation booting: effect boot_frame
  by unfold_locales (simp_all add: boot_frame_def)

lemma calm_boot: "calm s t \<Longrightarrow> boot_frame s t"
  by (simp add: boot_frame_def calm_fields calm_kernel)

text \<open>The interrupt table \<open>boot_idt\<close> leaves.\<close>

definition boot_gates :: "env \<Rightarrow> IdtEntry list \<Rightarrow> IdtEntry list" where
  "boot_gates k t = (fold (\<lambda>i t. t[i := new_gate (isr_stubs k ! i) TRAP_GATE_FLAGS]) [0..<32] t)
     [0x80 := new_gate (fn_syscall_dispatch k) INT_GATE_USER_FLAGS,
      0 := new_gate (fn_div_by_zero k) TRAP_GATE_FLAGS,
      0xD := new_gate (fn_general_protection k) TRAP_GATE_FLAGS,
      14 := new_gate (fn_page_fault k) TRAP_GATE_FLAGS,
      0x20 := new_gate (fn_pit_timer k) INT_GATE_FLAGS]"

lemma boot_gates_length [simp]: "length (boot_gates k t) = length t"
  by (simp add: boot_gates_def)

lemma ports_pic: "ports_only s (pic_init (pic_disable s))"
  unfolding pic_init_def pic_remap_def pic_disable_def Let_def
  by (intro ports.R_trans [OF _ ports_steps(1)] ports.R_refl)

text \<open>Console output in the middle of the boot sequence.\<close>

lemma calm_lit:
  fixes s :: "'a kernel_scheme"
  assumes "term_ok s"
  shows "term_ok (write_lit cs s)" "calm s (write_lit cs s)" "curr_addr (write_lit cs s) = curr_addr s"
    "frist_hh (write_lit cs s) = frist_hh s" "last_hh (write_lit cs s) = last_hh s"
    "x \<notin> vga_span \<Longrightarrow> mem (write_lit cs s) x = mem s x"
  using write_lit_run [OF assms, of cs] calm_term [of s "write_lit cs s"] by (simp_all add: term_only_def)

lemma ports_keep:
  fixes s t :: "'a kernel_scheme"
  assumes "ports_only s t"
  shows "mem t = mem s" "term_ok t = term_ok s" "curr_addr t = curr_addr s" "frist_hh t = frist_hh s"
    "last_hh t = last_hh s" "calm s t"
  using assms calm_ports [OF assms] by (auto simp: ports_only_def term_ok_def)

lemma boot_idt_run:
  fixes s :: "'a kernel_scheme"
  assumes ok: "term_ok s" and len: "length (the_idt s) = 256"
  shows "\<exists>t. boot_idt k s = Inr ((), t) \<and> boot_frame s t \<and> term_ok t
    \<and> the_idt t = boot_gates k (the_idt s) \<and> idtr_loaded t \<and> idtr_base t = idt_address k
    \<and> gdt_loaded t \<and> \<not> interrupts_on t
    \<and> curr_addr t = curr_addr s \<and> frist_hh t = frist_hh s \<and> (\<forall>x. x \<notin> vga_span \<longrightarrow> mem t x = mem s x)"
proof -
  define s0 where "s0 = write_lit ''[Init] Loading GDT\<newline>'' s"
  note w0 = calm_lit [OF ok, where cs = "''[Init] Loading GDT\<newline>''", folded s0_def]
  define s1 where "s1 = gdt_init s0"
  have ok1: "term_ok s1" using w0(1) by (simp add: s1_def gdt_init_def term_ok_def)
  define s2 where "s2 = write_lit ''[Init] Loading IDT\<newline>'' s1"
  note w2 = calm_lit [OF ok1, where cs = "''[Init] Loading IDT\<newline>''", folded s2_def]
  define idt where "idt = fold (\<lambda>i t. t[i := new_gate (isr_stubs k ! i) TRAP_GATE_FLAGS]) [0..<32] (the_idt s)"
  define gs where "gs = idt[0x80 := new_gate (fn_syscall_dispatch k) INT_GATE_USER_FLAGS,
      0 := new_gate (fn_div_by_zero k) TRAP_GATE_FLAGS, 0xD := new_gate (fn_general_protection k) TRAP_GATE_FLAGS,
      14 := new_gate (fn_page_fault k) TRAP_GATE_FLAGS]"
  define s7 where "s7 = (x86_int_off s2)\<lparr>idtr_base := idt_address k, idtr_limit := 2048, idtr_loaded := True, the_idt := gs\<rparr>"
  have idt2: "the_idt s2 = the_idt s"
    using calm_kernel(8) [OF w0(2)] calm_kernel(8) [OF w2(2)] by (simp add: s1_def gdt_init_def)
  have ok7: "term_ok s7" using w2(1) by (simp add: s7_def x86_int_off_def term_ok_def)
  define s8 where "s8 = write_lit ''[Init] Setting up interrupts\<newline>'' s7"
  note w8 = calm_lit [OF ok7, where cs = "''[Init] Setting up interrupts\<newline>''", folded s8_def]
  define s9 where "s9 = pic_init (pic_disable s8)"
  note p9 = ports_keep [OF ports_pic, of s8, folded s9_def]
  define s10 where "s10 = s9\<lparr>the_idt := boot_gates k (the_idt s)\<rparr>"
  define t where "t = pic_IRQ_remove_mask 2 (pic_IRQ_remove_mask 0 s10)"
  have "ports_only s10 t" unfolding t_def by (meson ports.R_trans ports_unmask)
  note pt = ports_keep [OF this]
  have idt9: "the_idt s9 = gs" using calm_kernel(8) [OF w8(2)] calm_kernel(8) [OF p9(6)] by (simp add: s7_def)
  have gates: "set [0..<32] \<subseteq> {..<256 :: nat}" by auto
  have i7: "and_then (idt_init (idt_address k) (isr_stubs k) (x86_int_off s2)) (\<lambda>_ s3.
      and_then (set_idt_gate 0x80 (fn_syscall_dispatch k) INT_GATE_USER_FLAGS s3) (\<lambda>_ s4.
      and_then (set_idt_gate 0 (fn_div_by_zero k) TRAP_GATE_FLAGS s4) (\<lambda>_ s5.
      and_then (set_idt_gate 0xD (fn_general_protection k) TRAP_GATE_FLAGS s5) (\<lambda>_ s6.
      and_then (set_idt_gate 14 (fn_page_fault k) TRAP_GATE_FLAGS s6) f)))) = f () s7" for f
    using len gates by (simp add: idt_init_def set_exception_gates_run set_idt_gate_def idt2 x86_int_off_def
        s7_def gs_def idt_def del: length_greater_0_conv flip: length_greater_0_conv)
  have "boot_idt k s = Inr ((), t)"
    using len idt9 unfolding boot_idt_def Let_def s0_def [symmetric] s1_def [symmetric] s2_def [symmetric] i7
      s8_def [symmetric] s9_def [symmetric]
    by (simp add: set_idt_gate_def gs_def idt_def t_def s10_def boot_gates_def)
  moreover have "boot_frame s t"
  proof -
    have "boot_frame s0 s1" "boot_frame s2 s7" "boot_frame s9 s10"
      by (simp_all add: boot_frame_def s1_def gdt_init_def s7_def x86_int_off_def s10_def)
    then show ?thesis using calm_boot [OF w0(2)] calm_boot [OF w2(2)] calm_boot [OF w8(2)] calm_boot [OF p9(6)]
      calm_boot [OF pt(6)] by (simp add: boot_frame_def)
  qed
  moreover have "idtr_loaded t \<and> idtr_base t = idt_address k \<and> gdt_loaded t \<and> \<not> interrupts_on t
      \<and> the_idt t = boot_gates k (the_idt s)"
    using calm_kernel [OF w2(2)] calm_kernel [OF w8(2)] calm_kernel [OF p9(6)] calm_kernel [OF pt(6)]
    by (simp add: s1_def gdt_init_def s7_def x86_int_off_def s10_def)
  ultimately show ?thesis
    using w0 w2 w8 p9 pt by (simp add: s1_def gdt_init_def s7_def x86_int_off_def s10_def term_ok_def)
qed

section \<open>Frames and paging\<close>

text \<open>
  The boot loader's first region starts below \<open>0x400\<close>, so the frame bitmap is at \<open>0x400\<close>, inside frame 0. The
  page table takes frame 0 and overwrites it; its 257th entry then is the first word of the bitmap. The
  directory goes to frame 3, and marking frames 3 to 5 sets three flags of that entry.
\<close>

lemma bitmap_word: "k < 32 \<Longrightarrow> used m fr k = bit (load32 m fr) k"
  by (simp add: used_def)

lemma frames_total_32: "32 \<le> unat (frames_max s) \<Longrightarrow> 32 \<le> frames_total s"
  unfolding frames_total_def by presburger

lemma run_at_word:
  "run_at (used m fr) n k \<longleftrightarrow> (\<forall>i < n. \<not> bit (load32 m fr) (k + i))" if "k + n \<le> 32"
  using that by (auto simp: run_at_def bitmap_word)

definition boot_word :: u32 where "boot_word = 0x100039"

lemma boot_alloc_table:
  fixes s :: "'a frames_scheme"
  assumes fr: "frames s = 0x400" and n: "32 \<le> unat (frames_max s)" and free: "load32 (mem s) 0x400 = 0"
  shows "\<exists>m. frame_alloc s = Inr (0, s\<lparr>mem := m, alloced_frames := alloced_frames s + 1\<rparr>)
    \<and> (\<forall>x. x \<notin> span 0x400 4 \<longrightarrow> m x = mem s x)"
proof -
  have "\<not> used (mem s) (frames s) 0" using free by (simp add: fr bitmap_word)
  then have "find (\<lambda>k. \<not> used (mem s) (frames s) k) [0..<frames_total s] = Some 0"
    using frames_total_32 [OF n] by (simp add: upt_conv_Cons)
  from alloc_single [OF this] show ?thesis
    by (auto simp: frame_set_def fr intro!: c32.st_outside)
qed

lemma boot_alloc_dir:
  fixes s :: "'a frames_scheme"
  assumes fr: "frames s = 0x400" and n: "32 \<le> unat (frames_max s)" and w: "load32 (mem s) 0x400 = 0x100001"
  shows "frame_alloc_ex 3 s = Inr (0x3000, s\<lparr>mem := store32 0x400 boot_word (mem s),
    alloced_frames := alloced_frames s + 3\<rparr>)"
proof -
  have "run_at (used (mem s) 0x400) 3 1" "\<not> run_at (used (mem s) 0x400) 3 0"
    by (auto simp: run_at_word w numeral_3_eq_3 less_Suc_eq)
  then have "frame_frist_free 3 s = 3"
    using frist_free_at [of 3 1 s] frames_total_32 [OF n] by (simp add: fr)
  then show ?thesis
    by (simp add: frame_alloc_ex_def Let_def frame_set_def fr upt_rec cells store_twice w FRAME_BLOCK_SIZE_def boot_word_def)
qed

text \<open>The memory the two allocations and the two tables leave, in the order of the writes.\<close>

definition boot_tables :: "memory \<Rightarrow> memory" where
  "boot_tables m = store32 0x3000 3 (fill_directory 0x3000 (store32 0x400 boot_word (fill_table 0 m)))"

lemma boot_tables_outside: "0x4000 \<le> unat x \<Longrightarrow> boot_tables m x = m x"
  unfolding boot_tables_def
  by (simp add: c32.st_outside fill_directory_outside fill_table_outside in_span_unat)

lemma low_word:
  assumes "\<And>x. unat x < 0x4000 \<Longrightarrow> m x = boot_tables m0 x" and "unat a + 4 \<le> 0x4000"
  shows "load32 m a = load32 (boot_tables m0) a"
  by (rule c32.ld_local) (use assms in \<open>simp add: in_span_unat\<close>)

lemma boot_table_entry:
  assumes low: "\<And>x. unat x < 0x4000 \<Longrightarrow> m x = boot_tables m0 x" and i: "i < 1024"
  shows "load32 m (4 * of_nat i) = (if i = 256 then boot_word else 1 OR of_nat i * 4096)"
proof -
  have ui: "unat (4 * of_nat i :: u32) = 4 * i" using i u32_of_nat_unat [of "4 * i"] by simp
  have "load32 (boot_tables m0) (4 * of_nat i) = load32 (store32 0x400 boot_word (fill_table 0 m0)) (4 * of_nat i)"
    by (rule c32.ld_local)
      (use i ui in \<open>simp add: boot_tables_def c32.st_outside fill_directory_outside in_span_unat\<close>)
  also have "\<dots> = (if i = 256 then boot_word else 1 OR of_nat i * 4096)"
  proof (cases "i = 256")
    case False
    then show ?thesis
      using frame_words_apart [of 256 i 0] fill_table_entry [OF i, of 0 m0] i by (simp add: c32_32.ld_st_apart)
  qed (simp add: cells)
  finally show ?thesis using low_word [OF low, of "4 * of_nat i"] ui i by simp
qed

lemma boot_tables_identity:
  assumes low: "\<And>x. unat x < 0x4000 \<Longrightarrow> m x = boot_tables m0 x"
  shows "translate m 0x3000 v = (if v < 0x400000 then Some v else None)"
proof (rule translate_identity [where T = 0])
  have ui: "unat (4 * of_nat i :: u32) = 4 * i" if "i < 1024" for i
    using that u32_of_nat_unat [of "4 * i"] by simp
  have dir: "load32 m (0x3000 + 4 * of_nat i) = load32 (boot_tables m0) (0x3000 + 4 * of_nat i)" if "i < 1024" for i
    by (rule low_word [OF low]) (use that ui [OF that] u32_add_unat [of "0x3000" "4 * of_nat i"] in simp_all)
  show "bit (load32 m 0x3000) 0 \<and> load32 m 0x3000 AND NOT 0xFFF = 0"
    using dir [of 0] by (simp add: boot_tables_def cells)
  show "\<not> bit (load32 m (0x3000 + 4 * of_nat i)) 0" if "0 < i" "i < 1024" for i
    using dir [OF that(2)] frame_words_apart [of 0 i "0x3000"] that
      fill_directory_entry [of i "0x3000" "store32 0x400 boot_word (fill_table 0 m0)"]
    by (simp add: boot_tables_def c32_32.ld_st_apart)
  show "bit (load32 m (0 + 4 * of_nat i)) 0 \<and> load32 m (0 + 4 * of_nat i) AND NOT 0xFFF = of_nat i * 4096"
    if i: "i < 1024" for i
    using boot_table_entry [OF low i] or_low [OF frame_aligned [of "of_nat i"], of 1] i
    by (simp add: bit_or_iff boot_word_def)
qed

lemma boot_paging_tables:
  fixes s :: "'a paging_scheme"
  assumes e: "0x20000 \<le> unat e"
  shows "\<exists>m. paging_init (frame_init 0x400 e s) = Inr ((), s\<lparr>mem := boot_tables m, frames := 0x400,
      frames_max := e div 4096, alloced_frames := alloced_frames s + 4, kernel_page_dir := 0x3000,
      current_page_dir := 0x3000, cr3 := 0x3000, paging_on := True\<rparr>)
    \<and> (\<forall>x. 0x20400 \<le> unat x \<longrightarrow> m x = mem s x)"
proof -
  define n where "n = e div 4096"
  define s1 where "s1 = frame_init 0x400 e s"
  have un: "unat n = unat e div 4096" by (simp add: n_def unat_div)
  then have n: "32 \<le> unat n" "unat n < 1048576" using e u32_bound [of e] by simp_all
  have un8: "unat (n div 8) = unat n div 8" by (simp add: unat_div)
  have s1: "s1 = s\<lparr>mem := memset 0x400 0 (n div 8) (mem s), frames := 0x400, frames_max := n\<rparr>"
    by (simp add: s1_def frame_init_def Let_def n_def FRAME_BLOCK_SIZE_def FRAME_BLOCKS_PER_BYTE_def)
  have "load32 (memset 0x400 0 (n div 8) (mem s)) 0x400 = load32 (\<lambda>_. 0) 0x400"
    by (rule c32.ld_local) (use n in \<open>auto simp: memset_eq in_span un8\<close>)
  then have "load32 (mem s1) 0x400 = 0" by (simp add: s1 load32_def)
  then obtain m where a1: "frame_alloc s1 = Inr (0, s1\<lparr>mem := m, alloced_frames := alloced_frames s1 + 1\<rparr>)"
    and m: "\<forall>x. x \<notin> span 0x400 4 \<longrightarrow> m x = mem s1 x"
    using boot_alloc_table [of s1] n(1) by (auto simp: s1)
  define s2 where "s2 = s\<lparr>frames := 0x400, frames_max := n, alloced_frames := alloced_frames s + 1,
      mem := fill_table 0 m\<rparr>"
  have "frame_alloc_ex 3 s2 = Inr (0x3000, s2\<lparr>mem := store32 0x400 boot_word (mem s2),
      alloced_frames := alloced_frames s2 + 3\<rparr>)"
    by (rule boot_alloc_dir) (use n fill_table_bitmap in \<open>simp_all add: s2_def\<close>)
  note a2 = this [unfolded s2_def, simplified]
  note a1 = a1 [unfolded s1, simplified]
  have pd0: "0x3000 + 4 * pd_index 0 = 0x3000" by (simp add: pd_index_def)
  have d0: "load32 (fill_directory 0x3000 M) 0x3000 = 2" for M
    using fill_directory_entry [of 0 "0x3000" M] by simp
  have "paging_init s1 = Inr ((), s\<lparr>mem := boot_tables m, frames := 0x400,
      frames_max := n, alloced_frames := alloced_frames s + 4, kernel_page_dir := 0x3000,
      current_page_dir := 0x3000, cr3 := 0x3000, paging_on := True\<rparr>)"
    by (simp add: s1 paging_init_def paging_dir_new_def a1 a2 Let_def pd0 enable_paging_def paging_dir_switch_def
        load_page_directory_def boot_tables_def set_attribute_def set_frame_def cells store_twice d0
        PDE_PRESENT_def PDE_WRITABLE_def)
  moreover have "m x = mem s x" if "0x20400 \<le> unat x" for x
  proof -
    have "x \<notin> span 0x400 4" "x \<notin> span 0x400 (unat (n div 8))" using that n(2) by (auto simp: in_span_unat un8)
    then show ?thesis using m by (simp add: s1 memset_eq)
  qed
  ultimately show ?thesis unfolding s1_def n_def by blast
qed

text \<open>
  The memory the rest of the boot sequence leaves alone: the page tables and what the boot loader put from
  1 MiB up to the start of the heap, the image of the kernel.
\<close>

definition untouched :: "nat \<Rightarrow> u32 set" where
  "untouched base = {x. unat x < 0x4000 \<or> 0x100000 \<le> unat x \<and> unat x < base}"

definition paged :: "'a paging_scheme \<Rightarrow> bool" where
  "paged s \<longleftrightarrow> paging_on s \<and> cr3 s = 0x3000 \<and> current_page_dir s = 0x3000 \<and> kernel_page_dir s = 0x3000
     \<and> (\<exists>m. \<forall>x. unat x < 0x4000 \<longrightarrow> mem s x = boot_tables m x)"

lemma paged_identity:
  "paged s \<Longrightarrow> translate (mem s) (cr3 s) v = (if v < 0x400000 then Some v else None)"
  unfolding paged_def by (elim conjE exE) (simp add: boot_tables_identity)

text \<open>The page table lies at address 0: these are the bytes a stray read of a directory entry from there gives.\<close>

lemma load32_high_bytes: "ucast (drop_bit 16 (load32 m a)) = m (a + 2)" "ucast (drop_bit 24 (load32 m a)) = m (a + 3)"
proof -
  have high: "\<not> bit (w :: u8) (j + n)" if "8 \<le> j" for w j n
    using that bit_imp_le_length [of w "j + n"] by auto
  show "ucast (drop_bit 16 (load32 m a)) = m (a + 2)" "ucast (drop_bit 24 (load32 m a)) = m (a + 3)"
    by (auto intro!: bit_eqI simp: load32_def bit_simps high)
qed

lemma paged_low:
  assumes "paged s"
  shows "mem s 11 = 0" and "mem s 26 = 0" and "mem s 27 = 0"
proof -
  obtain m0 where low: "mem s x = boot_tables m0 x" if "unat x < 0x4000" for x using assms by (auto simp: paged_def)
  note w = boot_table_entry [where m = "mem s", OF low]
  have "load32 (mem s) 8 = 0x2001" "load32 (mem s) 24 = 0x6001" using w [of 2] w [of 6] by simp_all
  then show "mem s 11 = 0" "mem s 26 = 0" "mem s 27 = 0"
    using load32_high_bytes [of "mem s" 8] load32_high_bytes [of "mem s" 24] by simp_all
qed

lemma paged_frame:
  fixes s t :: "'a kernel_scheme"
  assumes "paged s" and "calm s t" and "\<And>x. x \<in> untouched base \<Longrightarrow> mem t x = mem s x"
  shows "paged t"
  using assms calm_kernel [OF assms(2)] by (auto simp: paged_def untouched_def)

lemma untouched_off_heap: "untouched base \<subseteq> off_heap (base, {})"  if "0x100000 \<le> base"
  using that by (auto simp: untouched_def off_heap_def)

lemma untouched_vga: "untouched base \<inter> vga_span = {}"
  by (auto simp: untouched_def vga_span_unat)

text \<open>The first block of the heap: taken and given back by \<open>kernel_main\<close> itself.\<close>

lemma first_block:
  fixes s :: "'a kheap_scheme"
  assumes "frist_hh s = 0" and base: "0 < base" "base = unat (curr_addr s)" "base + 0x10000 \<le> 2147483648"
  shows "\<exists>t u. malloc 0x800 s = Inr (curr_addr s + 16, t) \<and> free (curr_addr s + 16) t = Inr ((), u)
    \<and> heap_inv (base, {}) u [Block (curr_addr s) 0x800 True] \<and> unat (curr_addr u) = base + 0x2040
    \<and> heap_only s u \<and> (\<forall>x \<in> off_heap (base, {}). mem u x = mem s x)"
proof -
  define H where "H = curr_addr s"
  have inv: "heap_inv (base, {}) s []" using assms by (simp add: heap_inv_def)
  obtain t where t: "malloc 0x800 s = Inr (H + 16, t)" "heap_inv (base, {}) t [Block H 0x800 False]"
    "heap_only s t" "unat (curr_addr t) = base + 0x2040" "\<forall>x. x \<notin> span H 16 \<longrightarrow> mem t x = mem s x"
    using malloc_fresh [OF inv, of "0x800"] base by (auto simp: H_def)
  obtain u where u: "free (H + 16) t = Inr ((), u)" "heap_inv (base, {}) u (a_free (H + 16) [Block H 0x800 False])"
    "heap_only t u" "curr_addr u = curr_addr t" "\<forall>x. x \<notin> span H 16 \<longrightarrow> mem u x = mem t x"
    using free_refines [OF t(2), of "Block H 0x800 False"] by (auto simp: hdr_span_def)
  have "mem u x = mem s x" if "x \<in> off_heap (base, {})" for x
  proof -
    have "x \<notin> span H 16" using that base by (auto simp: off_heap_def in_span_unat H_def)
    then show ?thesis using t(5) u(5) by simp
  qed
  then show ?thesis
    using t u heap_only_trans [OF t(3) u(3)] by (auto simp: H_def a_free_def mark_free_def)
qed

lemma boot_paging_run:
  fixes s :: "'a kernel_scheme"
  assumes ok: "term_ok s" and heap: "frist_hh s = 0" "base = unat (curr_addr s)"
    and base: "0x100000 \<le> base" "base + 0x10000 \<le> 2147483648" and e: "0x20000 \<le> unat e"
  shows "\<exists>t. boot_paging 0x400 e s = Inr ((), t) \<and> boot_frame s t \<and> term_ok t \<and> paged t
    \<and> the_idt t = the_idt s \<and> idtr_loaded t = idtr_loaded s \<and> idtr_base t = idtr_base s
    \<and> gdt_loaded t = gdt_loaded s \<and> frames t = 0x400 \<and> frames_max t = e div 4096
    \<and> heap_inv (base, {}) t [Block (curr_addr s) 0x800 True] \<and> unat (curr_addr t) = base + 0x2040
    \<and> (\<forall>x. 0x100000 \<le> unat x \<and> unat x < base \<longrightarrow> mem t x = mem s x)"
proof -
  define s1 where "s1 = write_lit ''[Init] Enable paging\<newline>'' s"
  note w = calm_lit [OF ok, where cs = "''[Init] Enable paging\<newline>''", folded s1_def]
  obtain m where pg: "paging_init (frame_init 0x400 e s1) = Inr ((), s1\<lparr>mem := boot_tables m, frames := 0x400,
      frames_max := e div 4096, alloced_frames := alloced_frames s1 + 4, kernel_page_dir := 0x3000,
      current_page_dir := 0x3000, cr3 := 0x3000, paging_on := True\<rparr>)"
    and m: "\<forall>x. 0x20400 \<le> unat x \<longrightarrow> m x = mem s1 x"
    using boot_paging_tables [OF e, of s1] by blast
  define s2 where "s2 = s1\<lparr>mem := boot_tables m, frames := 0x400,
      frames_max := e div 4096, alloced_frames := alloced_frames s1 + 4, kernel_page_dir := 0x3000,
      current_page_dir := 0x3000, cr3 := 0x3000, paging_on := True\<rparr>"
  have c2: "curr_addr s2 = curr_addr s" "frist_hh s2 = 0" using w(3,4) heap by (simp_all add: s2_def)
  obtain t u where tu: "malloc 0x800 s2 = Inr (curr_addr s + 16, t)" "free (curr_addr s + 16) t = Inr ((), u)"
    "heap_inv (base, {}) u [Block (curr_addr s) 0x800 True]" "unat (curr_addr u) = base + 0x2040"
    "heap_only s2 u" and mu: "\<forall>x \<in> off_heap (base, {}). mem u x = mem s2 x"
    using first_block [of s2 base] c2 heap base by auto
  have calm: "calm s2 u" by (rule calm_heap) (rule tu)
  have run: "boot_paging 0x400 e s = Inr ((), u)"
    by (simp add: boot_paging_def s1_def [symmetric] pg s2_def [symmetric] tu)
  have "boot_frame s1 s2" by (simp add: boot_frame_def s2_def)
  then have fr: "boot_frame s u"
    using booting.R_trans [OF booting.R_trans [OF calm_boot [OF w(2)]] calm_boot [OF calm]] by blast
  have ok': "term_ok u" using w(1) tu(5) by (simp add: heap_only_def term_ok_def s2_def)
  have low: "mem u x = mem s2 x" if "unat x < base" for x using mu that by (simp add: off_heap_def)
  have paged: "paged u"
    using calm_kernel [OF calm] low base unfolding paged_def by (auto simp: s2_def)
  have img: "mem u x = mem s x" if "0x100000 \<le> unat x" "unat x < base" for x
  proof -
    have "x \<notin> vga_span" using that by (simp add: vga_span_unat)
    then show ?thesis using low [OF that(2)] that(1) m w(6) boot_tables_outside [of x m] by (simp add: s2_def)
  qed
  have "the_idt u = the_idt s" "idtr_loaded u = idtr_loaded s" "idtr_base u = idtr_base s"
    "gdt_loaded u = gdt_loaded s" "frames u = 0x400" "frames_max u = e div 4096"
    using calm_kernel [OF calm] calm_kernel [OF w(2)] by (simp_all add: s2_def)
  then show ?thesis using run fr ok' paged tu(3,4) img by blast
qed

end
