(* ===== verification/Disk_Spec.thy ===== *)
theory Disk_Spec
  imports Samples
begin

text \<open>
  A drive with a disk in it, and what the driver makes of it: \<open>vread\<close> on the drive's node is a copy of
  consecutive sectors of the disk to memory. The drive is a hypothesis about the data port: the words it
  gives after a read command of LBA28 are those of the addressed sector, in order.
\<close>

unbundle bit_operations_syntax

type_synonym disk = "u32 \<Rightarrow> u16 list"

section \<open>The drive\<close>

definition is_out :: "io_event \<Rightarrow> bool" where
  "is_out e \<longleftrightarrow> (case e of OutB _ _ \<Rightarrow> True | _ \<Rightarrow> False)"

text \<open>The last six bytes sent to the drive, and the number of words read since.\<close>

definition last_command :: "io_event list \<Rightarrow> (u8 \<times> u32 \<times> u8) option" where
  "last_command log = drive_command (drop (length (outs log) - 6) (outs log))"

definition words_since :: "io_event list \<Rightarrow> nat" where
  "words_since log = length (words_in (takeWhile (\<lambda>e. \<not> is_out e) (rev log)))"

definition drive_word :: "disk \<Rightarrow> io_event list \<Rightarrow> u16" where
  "drive_word d log = (case last_command log of
     Some (c, lba, n) \<Rightarrow> if c = 0x20 \<and> words_since log < 256 then d lba ! words_since log else 0
   | None \<Rightarrow> 0)"

definition serves :: "disk \<Rightarrow> 'a ata_scheme \<Rightarrow> bool" where
  "serves d s \<longleftrightarrow> answers s \<and> is_master_exist s \<noteq> 0 \<and> (\<forall>lba. length (d lba) = 256)
     \<and> (\<forall>log. in16 s log 0x1F0 = drive_word d log)"

text \<open>A sector of the disk as bytes, by its address on the bus; consecutive sectors.\<close>

definition sector :: "disk \<Rightarrow> u32 \<Rightarrow> u8 list" where
  "sector d lba = sector_bytes (d (lba AND 0x0FFFFFFF))"

definition sectors :: "disk \<Rightarrow> u32 \<Rightarrow> nat \<Rightarrow> u8 list" where
  "sectors d lba n = concat (map (\<lambda>i. sector d (lba + of_nat i)) [0..<n])"

section \<open>The words after a command\<close>

lemma outs_is_out: "outs log = filter is_out log"
  by (simp add: outs_def is_out_def [abs_def])

lemma quiet_no_out: "quiet log \<Longrightarrow> e \<in> set log \<Longrightarrow> \<not> is_out e"
  by (auto simp: quiet_def outs_is_out filter_empty_conv)

lemma last_command_after:
  "quiet post \<Longrightarrow> last_command (pre @ read_bytes lba @ post @ map (InW p) ws) = Some (0x20, lba AND 0x0FFFFFFF, 1)"
proof -
  assume "quiet post"
  then have "outs (pre @ read_bytes lba @ post @ map (InW p) ws) = outs pre @ read_bytes lba"
    by (simp add: quiet_def outs_def read_bytes_def)
  moreover have "length (read_bytes lba) = 6" by (simp add: read_bytes_def)
  ultimately show ?thesis by (simp add: last_command_def read_bytes_decode)
qed

lemma words_in_rev: "words_in (rev xs) = rev (words_in xs)"
  by (induction xs rule: words_in.induct) simp_all

lemma words_since_after:
  assumes "quiet post"
  shows "words_since (pre @ read_bytes lba @ post @ map (InW p) ws) = length ws"
proof -
  obtain zs where "rev (read_bytes lba) = OutB 0x1F7 0x20 # zs" by (simp add: read_bytes_def)
  moreover have "takeWhile (\<lambda>e. \<not> is_out e) ((rev (map (InW p) ws) @ rev post) @ OutB 0x1F7 0x20 # zs')
      = rev (map (InW p) ws) @ rev post" for zs'
    using quiet_no_out [OF assms] by (subst takeWhile_append2) (auto simp: is_out_def)
  moreover have "words_in (rev (map (InW p) ws) @ rev post) = rev ws"
    using assms by (simp add: quiet_def words_in_rev)
  ultimately show ?thesis by (simp add: words_since_def del: words_in_append)
qed

lemma serves_words:
  assumes "serves d s" and "words_after s lba ws" and "length ws = 256"
  shows "ws = d (lba AND 0x0FFFFFFF)"
proof (rule nth_equalityI)
  show "length ws = length (d (lba AND 0x0FFFFFFF))" using assms(1,3) by (simp add: serves_def)
  fix i assume i: "i < length ws"
  obtain pre post where pp: "quiet post"
    "\<forall>i < 256. ws ! i = in16 s (pre @ read_bytes lba @ post @ map (InW 0x1F0) (take i ws)) 0x1F0"
    using assms(2) unfolding words_after_def by blast
  have "ws ! i = drive_word d (pre @ read_bytes lba @ post @ map (InW 0x1F0) (take i ws))"
    using pp(2) i assms(1,3) unfolding serves_def by simp
  then show "ws ! i = d (lba AND 0x0FFFFFFF) ! i"
    using i assms(3) by (simp add: drive_word_def last_command_after [OF pp(1)] words_since_after [OF pp(1)])
qed

section \<open>The state a drive keeps\<close>

lemma answers_in8:
  assumes "in8 t = in8 s"
  shows "answers t = answers s"
proof -
  have st: "status_of u = in8 u (io_log u) 0x1F7" for u :: "'c machine_scheme"
    by (simp add: status_of_def x86_inb_def Let_def)
  have ext: "in8 (poll_once u) = in8 u" for u :: "'c machine_scheme" by (simp add: poll_once_log)
  have same: "io_log (polls n (t\<lparr>io_log := l\<rparr>)) = io_log (polls n (s\<lparr>io_log := l\<rparr>))
      \<and> in8 (polls n (t\<lparr>io_log := l\<rparr>)) = in8 s \<and> in8 (polls n (s\<lparr>io_log := l\<rparr>)) = in8 s" for n l
    by (induction n) (simp_all add: assms poll_once_log st)
  then have "status_of (polls n (t\<lparr>io_log := l\<rparr>)) = status_of (polls n (s\<lparr>io_log := l\<rparr>))" for n l
    unfolding st by simp
  then show ?thesis by (simp add: answers_def)
qed

lemma serves_frame:
  assumes "serves d s" and "in8 t = in8 s" and "in16 t = in16 s" and "is_master_exist t = is_master_exist s"
  shows "serves d t"
  using assms answers_in8 [OF assms(2)] by (simp add: serves_def)

text \<open>Code that writes memory and talks to the ports.\<close>

definition mem_log_only :: "'a machine_scheme \<Rightarrow> 'a machine_scheme \<Rightarrow> bool" where
  "mem_log_only s t \<longleftrightarrow> t = s\<lparr>mem := mem t, io_log := io_log t\<rparr>"

interpretation disk_io: effect mem_log_only
proof
  fix s t u :: "'a machine_scheme"
  show "mem_log_only s s" by (simp add: mem_log_only_def)
  show "mem_log_only s t \<Longrightarrow> mem_log_only t u \<Longrightarrow> mem_log_only s u"
    by (cases s; cases t; cases u; simp add: mem_log_only_def)
qed

lemma serves_heap: "serves d s \<Longrightarrow> heap_only s t \<Longrightarrow> serves d t"
  by (erule serves_frame) (cases s; cases t; simp add: heap_only_def)+

section \<open>Reading from the drive\<close>

lemma sector_length [simp]: "serves d s \<Longrightarrow> length (sector d lba) = 512"
  by (simp add: sector_def serves_def)

lemma sectors_length [simp]: "serves d s \<Longrightarrow> length (sectors d lba n) = 512 * n"
  by (induction n) (simp_all add: sectors_def)

lemma sectors_of_words:
  assumes "serves d s" and "length ws = 256 * n"
    and "\<forall>j < n. words_after s (lba + of_nat j) (take 256 (drop (256 * j) ws))"
  shows "sector_bytes ws = sectors d lba n"
  using assms(2,3)
proof (induction n arbitrary: ws)
  case (Suc n)
  let ?l = "take (256 * n) ws" and ?r = "drop (256 * n) ws"
  have "sector_bytes ?l = sectors d lba n"
  proof (rule Suc.IH)
    show "\<forall>j < n. words_after s (lba + of_nat j) (take 256 (drop (256 * j) ?l))"
      using Suc.prems(2) by (auto simp: drop_take min_def)
  qed (use Suc.prems(1) in simp)
  moreover have "?r = d ((lba + of_nat n) AND 0x0FFFFFFF)"
    by (rule serves_words [OF assms(1)]) (use Suc.prems in \<open>force+\<close>)
  moreover have "ws = ?l @ ?r" by simp
  then have "sector_bytes ws = sector_bytes ?l @ sector_bytes ?r" by (metis concat_append map_append)
  ultimately show ?case by (simp add: sectors_def sector_def)
qed (simp add: sectors_def)

lemma vread_disk:
  fixes s :: "'a ata_scheme"
  assumes "serves d s" and "node_read s node = fn_ata_read k" and "fn_ata_read k \<noteq> 0" and "unat sz \<le> 8388608"
  shows "\<exists>t. vread (device_read k) node off sz a s = Inr (left_eax k, t) \<and> serves d t
    \<and> (\<exists>log. t = s\<lparr>mem := put_bytes a (sectors d off (unat sz)) (mem s), io_log := log\<rparr>)"
proof -
  have ok: "answers s" "is_master_exist s \<noteq> 0" using assms(1) by (simp_all add: serves_def)
  have len: "512 * length [0..<unat sz] \<le> 4294967296" using assms(4) by simp
  obtain ws log where ws: "length ws = 256 * unat sz" "read_sectors off a [0..<unat sz] s
      = Inr ((), s\<lparr>mem := put_bytes a (sector_bytes ws) (mem s), io_log := log\<rparr>)"
    "\<forall>j < unat sz. words_after s (off + of_nat ([0..<unat sz] ! j)) (take 256 (drop (256 * j) ws))"
    using read_sectors_run [OF ok len, of off a] by auto
  have "sector_bytes ws = sectors d off (unat sz)"
    by (rule sectors_of_words [OF assms(1) ws(1)]) (use ws(3) in simp)
  with ws(2) have "vread (device_read k) node off sz a s
      = Inr (left_eax k, s\<lparr>mem := put_bytes a (sectors d off (unat sz)) (mem s), io_log := log\<rparr>)"
    using assms(2,3) by (simp add: vread_def device_read_def ata_read_callback_def)
  moreover have "serves d (s\<lparr>mem := m, io_log := log\<rparr>)" for m
    by (rule serves_frame [OF assms(1)]) simp_all
  ultimately show ?thesis by blast
qed

end
