(* ===== verification/Drive_Spec.thy ===== *)
theory Drive_Spec
  imports Disk_Spec
begin

text \<open>
  Finding the drive at boot (\<open>ata_init\<close> of \<^verbatim>\<open>src/drivers/ata.c\<close>): what an ATA disk does on the bus, and that
  the identification of such a disk ends and succeeds. The hypotheses on the hardware are those of the ATA
  standard: a command keeps a disk busy for a finite time only, the status of an attached disk is never 0, and
  the address registers of a disk (unlike those of a packet device) read back what was written to them.
\<close>

unbundle bit_operations_syntax

section \<open>An attached disk\<close>

definition settles :: "'a machine_scheme \<Rightarrow> bool" where
  "settles s \<longleftrightarrow> (\<forall>log. \<exists>n. \<forall>es. outs es = [] \<and> n \<le> length es \<longrightarrow>
     in8 s (log @ es) 0x1F7 AND ATA_STATUS_BSY = 0 \<and> in8 s (log @ es) 0x1F7 AND ATA_STATUS_RDY \<noteq> 0)"

text \<open>The byte last written to a port.\<close>

definition last_out :: "u16 \<Rightarrow> io_event list \<Rightarrow> u8 option" where
  "last_out p log = fold (\<lambda>e v. case e of OutB q b \<Rightarrow> if q = p then Some b else v | _ \<Rightarrow> v) log None"

definition ata_disk :: "'a machine_scheme \<Rightarrow> bool" where
  "ata_disk s \<longleftrightarrow> settles s \<and> (\<forall>log. in8 s log 0x1F7 \<noteq> 0)
     \<and> (\<forall>log. \<forall>p \<in> {0x1F4, 0x1F5}. last_out p log = Some 0 \<longrightarrow> in8 s log p = 0)"

lemma ata_disk_in8: "ata_disk s \<Longrightarrow> in8 t = in8 s \<Longrightarrow> ata_disk t"
  by (simp add: ata_disk_def settles_def)

lemma last_out_write: "last_out p (log @ [OutB q b]) = (if q = p then Some b else last_out p log)"
  by (simp add: last_out_def)

lemma last_out_quiet: "outs es = [] \<Longrightarrow> last_out p (log @ es) = last_out p log"
proof (induction es rule: rev_induct)
  case (snoc e es)
  then show ?case by (cases e) (auto simp: last_out_def outs_def)
qed simp

lemma polls_length:
  "\<exists>es. polls n s = s\<lparr>io_log := io_log s @ es\<rparr> \<and> outs es = [] \<and> length es = n"
proof (induction n)
  case (Suc n)
  then obtain es where "polls n s = s\<lparr>io_log := io_log s @ es\<rparr>" "outs es = []" "length es = n" by blast
  then show ?case
    by (intro exI [of _ "es @ [InB 0x1F7 (status_of (polls n s))]"])
      (simp add: poll_once_log [of "s\<lparr>io_log := io_log s @ es\<rparr>"] outs_def)
qed (auto simp: outs_def)

lemma settles_answers: "settles s \<Longrightarrow> answers s"
  unfolding answers_def
proof (intro allI)
  fix log assume "settles s"
  then obtain n where n: "\<And>es. outs es = [] \<Longrightarrow> n \<le> length es \<Longrightarrow>
      in8 s (log @ es) 0x1F7 AND ATA_STATUS_BSY = 0 \<and> in8 s (log @ es) 0x1F7 AND ATA_STATUS_RDY \<noteq> 0"
    unfolding settles_def by blast
  obtain es where es: "polls n (s\<lparr>io_log := log\<rparr>) = s\<lparr>io_log := log @ es\<rparr>" "outs es = []" "length es = n"
    using polls_length [of n "s\<lparr>io_log := log\<rparr>"] by auto
  then have "status_of (polls n (s\<lparr>io_log := log\<rparr>)) = in8 s (log @ es) 0x1F7"
    by (simp add: status_of_def x86_inb_def Let_def)
  then show "(\<exists>n. status_of (polls n (s\<lparr>io_log := log\<rparr>)) AND ATA_STATUS_BSY = 0)
      \<and> (\<exists>n. status_of (polls n (s\<lparr>io_log := log\<rparr>)) AND ATA_STATUS_RDY \<noteq> 0)"
    using n [OF es(2)] es(3) by (intro conjI exI [of _ n]) auto
qed

section \<open>Code that only reads ports\<close>

definition reads_only :: "'a machine_scheme \<Rightarrow> 'a machine_scheme \<Rightarrow> bool" where
  "reads_only s t \<longleftrightarrow> (\<exists>es. outs es = [] \<and> t = s\<lparr>io_log := io_log s @ es\<rparr>)"

interpretation reads: effect reads_only
proof unfold_locales
  show "reads_only s s" for s :: "'a machine_scheme"
    unfolding reads_only_def by (intro exI [of _ "[]"]) (simp add: outs_def)
  show "reads_only s t \<Longrightarrow> reads_only t u \<Longrightarrow> reads_only s u" for s t u :: "'a machine_scheme"
    unfolding reads_only_def by (elim exE conjE) (metis append.assoc ext_inject outs_append append_Nil2 machine.surjective machine.update_convs(2) machine.select_convs(2))
qed

lemma reads_in8: "reads_only s t \<Longrightarrow> in8 t = in8 s"
  by (auto simp: reads_only_def)

lemma reads_ports: "reads_only s t \<Longrightarrow> ports_only s t"
  by (auto simp: reads_only_def ports_only_def)

lemma reads_log: "outs es = [] \<Longrightarrow> reads_only s (s\<lparr>io_log := io_log s @ es\<rparr>)"
  by (auto simp: reads_only_def)

lemma reads_inb: "reads_only s (snd (x86_inb p s))" "reads_only s (snd (x86_inw p s))"
  using reads_log [of "[InB p (in8 s (io_log s) p)]" s] reads_log [of "[InW p (in16 s (io_log s) p)]" s]
  by (simp_all add: x86_inb_def x86_inw_def Let_def outs_def)

lemma reads_delay: "reads_only s (ata_delay400ns s)"
  unfolding ata_delay400ns_def by (rule reads.fold_effect) (rule reads_inb)

lemma reads_identify: "reads_only s (identify_read s)"
  unfolding identify_read_def by (rule reads.fold_effect) (rule reads_inb)

lemma reads_waits:
  assumes "answers s"
  shows "\<exists>t. ata_wait_bsy s = Some ((), t) \<and> reads_only s t"
    and "\<exists>t. ata_wait_drq s = Some ((), t) \<and> reads_only s t"
  using wait_runs [OF assms, of "io_log s"] by (auto simp: reads_only_def)

text \<open>The loop of \<open>ide_identify\<close>: one delay and one status read a round, until the disk settles.\<close>

lemma delay_log:
  "\<exists>es. ata_delay400ns s = s\<lparr>io_log := io_log s @ es\<rparr> \<and> outs es = [] \<and> length es = 4"
  by (rule exI [of _ "drop (length (io_log s)) (io_log (ata_delay400ns s))"])
    (simp add: ata_delay400ns_def upt_rec x86_inb_def Let_def outs_def)

lemma identify_wait_run:
  assumes quiet: "outs es = []"
    and free: "\<And>es. outs es = [] \<Longrightarrow> n \<le> length es \<Longrightarrow> in8 s (l @ es) 0x1F7 AND ATA_STATUS_BSY = 0"
    and status: "status \<noteq> 0" "\<And>log. in8 s log 0x1F7 \<noteq> 0"
    and now: "n < length es \<Longrightarrow> status AND ATA_STATUS_BSY = 0"
  shows "\<exists>st t. identify_wait status (s\<lparr>io_log := l @ es\<rparr>) = Some (st, t) \<and> st \<noteq> 0
    \<and> reads_only (s\<lparr>io_log := l @ es\<rparr>) t"
  using quiet status(1) now
proof (induction "Suc n - length es" arbitrary: es status rule: less_induct)
  case less
  show ?case
  proof (cases "status AND ATA_STATUS_BSY = 0")
    case True
    then show ?thesis using less.prems(2) reads.R_refl by (subst identify_wait.simps) auto
  next
    case False
    then have short: "length es \<le> n" using less.prems(3) by force
    obtain fs where fs: "ata_delay400ns (s\<lparr>io_log := l @ es\<rparr>) = s\<lparr>io_log := (l @ es) @ fs\<rparr>" "outs fs = []" "length fs = 4"
      using delay_log [of "s\<lparr>io_log := l @ es\<rparr>"] by auto
    define st' where "st' = in8 s (l @ (es @ fs)) 0x1F7"
    define gs where "gs = es @ fs @ [InB 0x1F7 st']"
    have qg: "outs gs = []" using less.prems(1) fs(2) by (simp add: gs_def outs_def)
    have "\<exists>st t. identify_wait st' (s\<lparr>io_log := l @ gs\<rparr>) = Some (st, t) \<and> st \<noteq> 0
        \<and> reads_only (s\<lparr>io_log := l @ gs\<rparr>) t"
    proof (rule less.hyps)
      show "Suc n - length gs < Suc n - length es" using short by (simp add: gs_def)
      show "st' \<noteq> 0" by (simp add: st'_def status(2))
      show "st' AND ATA_STATUS_BSY = 0" if "n < length gs"
        unfolding st'_def by (rule free) (use that less.prems(1) fs(2) in \<open>simp_all add: gs_def outs_def\<close>)
    qed (rule qg)
    then obtain st t where st: "identify_wait st' (s\<lparr>io_log := l @ gs\<rparr>) = Some (st, t)" "st \<noteq> 0"
      "reads_only (s\<lparr>io_log := l @ gs\<rparr>) t" by blast
    have "identify_wait status (s\<lparr>io_log := l @ es\<rparr>) = Some (st, t)"
      using False st(1) by (subst identify_wait.simps) (simp add: fs(1) x86_inb_def Let_def poll_port st'_def gs_def)
    moreover have "reads_only (s\<lparr>io_log := l @ es\<rparr>) (s\<lparr>io_log := l @ gs\<rparr>)"
      unfolding reads_only_def using fs(2) by (intro exI [of _ "fs @ [InB 0x1F7 st']"]) (simp add: gs_def outs_def)
    ultimately show ?thesis using st(2,3) reads.R_trans by blast
  qed
qed

lemma last_out_reads: "reads_only s t \<Longrightarrow> last_out p (io_log t) = last_out p (io_log s)"
  by (auto simp: reads_only_def last_out_quiet)

text \<open>The identification of an attached disk ends, with success.\<close>

lemma ide_identify_run:
  fixes s :: "'a terminal_scheme"
  assumes disk: "ata_disk s" and eax: "eax AND ATA_STATUS_ERR = 0"
  shows "\<exists>t. ide_identify eax s = Inr (0, t) \<and> ports_only s t"
proof -
  define s0 where "s0 = identify_command s"
  have p0: "ports_only s s0" unfolding s0_def by (rule ports_identify)
  have d0: "ata_disk s0" by (rule ata_disk_in8 [OF disk ports_only_in8 [OF p0]])
  have regs: "last_out 0x1F4 (io_log s0) = Some 0" "last_out 0x1F5 (io_log s0) = Some 0"
    by (simp_all add: s0_def identify_command_def Let_def last_out_write ata_ports del: append_assoc)
  obtain st0 s1 where s1: "x86_inb 0x1F7 s0 = (st0, s1)" by fastforce
  have r1: "reads_only s0 (ata_delay400ns s1)" using reads.R_trans [OF reads_inb(1) [of s0 "0x1F7"] reads_delay] s1 by simp
  have st0: "st0 \<noteq> 0" using s1 d0 by (auto simp: x86_inb_def Let_def ata_disk_def)
  define s1' where "s1' = ata_delay400ns s1"
  have d1: "ata_disk s1'" unfolding s1'_def by (rule ata_disk_in8 [OF d0 reads_in8 [OF r1]])
  obtain n where n: "\<And>es. outs es = [] \<Longrightarrow> n \<le> length es \<Longrightarrow> in8 s1' (io_log s1' @ es) 0x1F7 AND ATA_STATUS_BSY = 0"
    using d1 unfolding ata_disk_def settles_def by blast
  obtain st s2 where s2: "identify_wait st0 s1' = Some (st, s2)" "st \<noteq> 0" "reads_only s1' s2"
    using identify_wait_run [of "[]" n s1' "io_log s1'" st0] n st0 d1 by (auto simp: ata_disk_def outs_def)
  have wait: "\<exists>u. ata_wait_bsy t = Some ((), u) \<and> reads_only s0 u" "\<exists>u. ata_wait_drq t = Some ((), u) \<and> reads_only s0 u"
    if "reads_only s0 t" for t
  proof -
    have "answers t" using d0 reads_in8 [OF that] by (simp add: settles_answers ata_disk_def settles_def)
    then show "\<exists>u. ata_wait_bsy t = Some ((), u) \<and> reads_only s0 u" "\<exists>u. ata_wait_drq t = Some ((), u) \<and> reads_only s0 u"
      using reads_waits [of t] reads.R_trans [OF that] by blast+
  qed
  have r2: "reads_only s0 s2" using reads.R_trans [OF r1] s2(3) by (simp add: s1'_def)
  obtain s3 where s3: "ata_wait_bsy s2 = Some ((), s3)" "reads_only s0 s3" using wait(1) [OF r2] by blast
  obtain s4 where s4: "ata_wait_bsy s3 = Some ((), s4)" "reads_only s0 s4" using wait(1) [OF s3(2)] by blast
  have zero: "fst (x86_inb p t) = 0" "reads_only s0 (snd (x86_inb p t))"
    if "reads_only s0 t" "p = 0x1F4 \<or> p = 0x1F5" for t p
    using that reads_in8 [OF that(1)] last_out_reads [OF that(1)] d0 regs reads.R_trans [OF that(1) reads_inb(1)]
    by (auto simp: x86_inb_def Let_def ata_disk_def)
  obtain s5 where s5: "x86_inb 0x1F4 s4 = (0, s5)" "reads_only s0 s5"
    using zero [OF s4(2), of "0x1F4"] by (metis prod.collapse)
  obtain s6 where s6: "x86_inb 0x1F5 s5 = (0, s6)" "reads_only s0 s6"
    using zero [OF s5(2), of "0x1F5"] by (metis prod.collapse)
  obtain s7 where s7: "ata_wait_bsy (ata_delay400ns s6) = Some ((), s7)" "reads_only s0 s7"
    using wait(1) [OF reads.R_trans [OF s6(2) reads_delay]] by blast
  obtain s8 where s8: "ata_wait_drq s7 = Some ((), s8)" "reads_only s0 s8" using wait(2) [OF s7(2)] by blast
  obtain s9 where s9: "ata_wait_bsy s8 = Some ((), s9)" "reads_only s0 s9" using wait(1) [OF s8(2)] by blast
  have "ide_identify eax s = Inr (0, identify_read s9)"
    using s1 s2(2) s3 s4 s5(1) s6(1) s7(1) s8(1) s9(1) eax s2(1)
    by (simp add: ide_identify_def poll_port s0_def [symmetric] s1'_def [symmetric] ata_poll_def ATA_PRIMARY_IO_def
        ATA_REG_LBA1_def ATA_REG_LBA2_def ATA_REG_STATUS_def)
  moreover have "ports_only s (identify_read s9)"
    using ports.R_trans [OF p0 reads_ports [OF reads.R_trans [OF s9(2) reads_identify]]] .
  ultimately show ?thesis by blast
qed

end
