(* ===== verification/Boot_Tables.thy ===== *)
theory Boot_Tables
  imports Boot_Init Drive_Spec
begin

text \<open>
  What the boot sequence fills in: the table of devices as a list that \<open>devices_add\<close> appends to, and the heap
  as a list of blocks, with the exact block each \<open>malloc\<close> and \<open>free\<close> of a given size takes.
\<close>

unbundle bit_operations_syntax

section \<open>The table of devices as a list\<close>

definition devices_are :: "'a devices_scheme \<Rightarrow> Vfs_t list \<Rightarrow> bool" where
  "devices_are s ds \<longleftrightarrow> table_ok s \<and> length ds \<le> 64 \<and> m_devices_number s = of_nat (length ds)
     \<and> (\<forall>i < length ds. get_vfs (mem s) (devices_at (of_nat i) s) = ds ! i)"

lemma small_unat: "i \<le> 64 \<Longrightarrow> unat (of_nat i :: u32) = i"
  by (rule u32_of_nat_unat) simp

lemma devices_are_frame:
  assumes "devices_are s ds" and "m_devices t = m_devices s" and "m_devices_number t = m_devices_number s"
    and "\<And>x. x \<in> span (m_devices s) 5632 \<Longrightarrow> mem t x = mem s x"
  shows "devices_are t ds"
proof -
  have "get_vfs (mem t) (devices_at (of_nat i) s) = get_vfs (mem s) (devices_at (of_nat i) s)" if "i < length ds" for i
    by (rule get_vfs_frame)
      (use slot_in_table [of s "of_nat i"] that assms small_unat [of i] in \<open>force simp: devices_are_def\<close>)
  then show ?thesis using assms by (simp add: devices_are_def table_ok_def devices_at_def)
qed

text \<open>\<open>devices_add\<close> appends to the list, and changes nothing else but the screen.\<close>

lemma devices_add_run:
  assumes dev: "devices_are s ds" "length ds < 64" and ok: "term_ok s"
    and name: "length (vn_name d) = 55" "0 \<in> set (vn_name d)"
  shows "\<exists>t. devices_add d s = Inr (of_nat (length ds), t) \<and> devices_are t (ds @ [d]) \<and> term_ok t
    \<and> calm s (t\<lparr>m_devices_number := m_devices_number s\<rparr>)
    \<and> curr_addr t = curr_addr s \<and> frist_hh t = frist_hh s \<and> last_hh t = last_hh s
    \<and> (\<forall>x. x \<notin> vga_span \<and> x \<notin> span (m_devices s) 5632 \<longrightarrow> mem t x = mem s x)"
proof -
  define n where "n = m_devices_number s"
  have un: "unat n = length ds" and tab: "table_ok s"
    using dev small_unat [of "length ds"] by (simp_all add: devices_are_def n_def)
  define s1 where "s1 = s\<lparr>mem := put_vfs (devices_at n s) d (mem s)\<rparr>"
  obtain cs where "fmt_render (lit ''[DEVICES] Added new device %s, on index %x\<newline>'')
      [VLit (takeWhile (\<lambda>c. c \<noteq> 0) (vn_name d)), VWord n] = Some cs"
    by (simp add: lit_def)
  from printf_run [OF this, of s1] ok obtain u
    where u: "term_printf ''[DEVICES] Added new device %s, on index %x\<newline>''
        [VLit (takeWhile (\<lambda>c. c \<noteq> 0) (vn_name d)), VWord n] s1 = Inr ((), u)" "term_only s1 u" "term_ok u"
    by (auto simp: s1_def term_ok_def)
  define t where "t = u\<lparr>m_devices_number := n + 1\<rparr>"
  have calm: "calm s u" using calm.R_trans [OF calm_mem calm_term(1) [OF u(2)[unfolded s1_def]]] .
  then have more: "m_devices u = m_devices s" "m_devices_number u = n"
    unfolding n_def calm_def by (cases s; cases u; simp)+
  have run: "devices_add d s = Inr (n, t)"
    using name(2) u(1) more
    by (simp add: devices_add_def Let_def devices_at_def n_def [symmetric] s1_def t_def)
  have slot: "span (devices_at n s) 88 \<subseteq> span (m_devices s) 5632"
    by (rule slot_in_table [OF tab]) (use un dev(2) in simp)
  have out: "mem t x = mem s x" if "x \<notin> vga_span" "x \<notin> span (devices_at n s) 88" for x
    using that u(2) name(1) by (simp add: t_def term_only_def s1_def put_vfs_outside)
  have at: "devices_at i t = devices_at i s" for i by (simp add: devices_at_def t_def more)
  have old: "get_vfs (mem t) (devices_at (of_nat i) s) = ds ! i" if i: "i < length ds" for i
  proof -
    have ui: "unat (of_nat i :: u32) < 64" "(of_nat i :: u32) \<noteq> n"
      using i dev(2) small_unat [of i] un by auto
    have "get_vfs (mem t) (devices_at (of_nat i) s) = get_vfs (mem s) (devices_at (of_nat i) s)"
    proof (rule get_vfs_frame)
      fix x assume x: "x \<in> span (devices_at (of_nat i) s) 88"
      show "mem t x = mem s x"
        by (rule out)
          (use x slots_apart [OF tab ui(1), of n] ui un dev(2) slot_in_table [OF tab ui(1)] tab in
            \<open>auto simp: table_ok_def\<close>)
    qed
    with dev(1) i show ?thesis by (simp add: devices_are_def)
  qed
  have new: "get_vfs (mem t) (devices_at n s) = d"
  proof -
    have "get_vfs (mem t) (devices_at n s) = get_vfs (mem s1) (devices_at n s)"
      by (rule get_vfs_frame) (use slot tab u(2) in \<open>auto simp: table_ok_def t_def term_only_def\<close>)
    then show ?thesis
      using vfs_node_roundtrip [of d "devices_at n s" "mem s"] name(1) by (simp add: s1_def VFS_NAME_MAX_def)
  qed
  have tt: "m_devices t = m_devices s" "m_devices_number t = n + 1" by (simp_all add: t_def more)
  have "devices_are t (ds @ [d])"
    using old new dev un by (auto simp: devices_are_def at less_Suc_eq nth_append n_def tt table_ok_def)
  moreover have "calm s (t\<lparr>m_devices_number := m_devices_number s\<rparr>)"
  proof -
    have "t\<lparr>m_devices_number := m_devices_number s\<rparr> = u"
      using more by (cases u) (simp add: t_def n_def)
    with calm show ?thesis by simp
  qed
  moreover have "term_ok t" using u(3) by (simp add: t_def term_ok_def)
  moreover have "curr_addr t = curr_addr s" "frist_hh t = frist_hh s" "last_hh t = last_hh s"
    using calm_term(2-4) [OF u(2)] by (simp_all add: t_def s1_def)
  moreover have "n = of_nat (length ds)" using dev by (simp add: n_def devices_are_def)
  ultimately show ?thesis using run out slot by (intro exI [of _ t]) auto
qed

lemma get_vfs_master:
  "get_vfs (store32 (a + 84) v m) a = (get_vfs m a)\<lparr>vn_master := v\<rparr>"
proof -
  have name: "get_bytes (store32 (a + 84) v m) a 55 = get_bytes m a 55"
    by (simp add: get_bytes_def name_byte)
  have field: "load32 (store32 (a + 84) v m) (a + i) = load32 m (a + i)" if "unat i + 4 \<le> 84" for i
    using c32_32.ld_st_apart [OF node_fields_apart [of 84 i a]] that by simp
  show ?thesis by (simp add: get_vfs_def name field cells)
qed

lemma devices_are_master:
  assumes dev: "devices_are s ds" and i: "i < length ds" and a: "a = devices_at (of_nat i) s"
  shows "devices_are (wr32 (a + 84) v s) (ds[i := (ds ! i)\<lparr>vn_master := v\<rparr>])"
proof -
  have tab: "table_ok s" and len: "length ds \<le> 64" using dev by (simp_all add: devices_are_def)
  have at: "devices_at j (wr32 (a + 84) v s) = devices_at j s" for j by (simp add: devices_at_def)
  have "get_vfs (store32 (a + 84) v (mem s)) (devices_at (of_nat j) s) = (ds[i := (ds ! i)\<lparr>vn_master := v\<rparr>]) ! j"
    if j: "j < length ds" for j
  proof (cases "j = i")
    case True
    with dev i a show ?thesis by (simp add: devices_are_def get_vfs_master)
  next
    case False
    have ij: "unat (of_nat i :: u32) < 64" "unat (of_nat j :: u32) < 64" "(of_nat i :: u32) \<noteq> of_nat j"
      using i j len False small_unat [of i] small_unat [of j] by auto
    have "get_vfs (store32 (a + 84) v (mem s)) (devices_at (of_nat j) s) = get_vfs (mem s) (devices_at (of_nat j) s)"
    proof (rule get_vfs_frame)
      fix x assume "x \<in> span (devices_at (of_nat j) s) 88"
      then have "x \<notin> span (a + 84) 4"
        using slots_apart [OF tab ij] field_in_node [of 84 a] by (auto simp: a)
      then show "store32 (a + 84) v (mem s) x = mem s x" by (rule c32.st_outside)
    qed
    with dev j False show ?thesis by (simp add: devices_are_def)
  qed
  then show ?thesis using dev by (simp add: devices_are_def at table_ok_def)
qed

section \<open>The heap, exactly\<close>

lemma heap_keep:
  assumes inv: "heap_inv base s bs" and same: "curr_addr t = curr_addr s" "frist_hh t = frist_hh s" "last_hh t = last_hh s"
    and out: "\<And>x. x \<notin> usable base bs \<Longrightarrow> mem t x = mem s x"
  shows "heap_inv base t bs"
  using heap_write [OF inv, of "mem t"] out same by (simp add: heap_inv_def)

lemma usable_memory:
  "same_live bs m m' \<Longrightarrow> \<forall>x \<in> off_heap base. m' x = m x \<Longrightarrow> x \<in> usable base bs \<Longrightarrow> m' x = m x"
  by (auto simp: usable_def dest: same_live_areas)

lemma heap_reuse:
  assumes inv: "heap_inv base s bs" and fit: "dropWhile (\<lambda>b. \<not> fits sz b) bs = b # ys"
    and room: "alloc_cost sz \<le> heap_space s"
  shows "\<exists>t. malloc sz s = Inr (b_addr b + 16, t)
    \<and> heap_inv base t (takeWhile (\<lambda>b. \<not> fits sz b) bs @ a_split sz b @ ys)
    \<and> heap_only s t \<and> curr_addr t = curr_addr s \<and> (\<forall>x \<in> usable base bs. mem t x = mem s x)"
proof -
  obtain t where t: "malloc sz s = Inr (b_addr b + 16, t)"
    "heap_inv base t (takeWhile (\<lambda>b. \<not> fits sz b) bs @ a_split sz b @ ys)" "heap_only s t" "curr_addr t = curr_addr s"
    using malloc_reuse [OF inv fit] by blast
  have "same_live bs (mem s) (mem t)"
    using malloc_step [OF inv, of sz] t(1) fit dropWhile_fits_Nil [of sz bs] by (force simp: heap_room_def)
  then have "\<forall>x \<in> usable base bs. mem t x = mem s x"
    using usable_memory [of bs "mem s" "mem t" base] malloc_budget [OF inv room t(1)] by blast
  with t show ?thesis by blast
qed

lemma heap_fresh:
  assumes inv: "heap_inv base s bs" and none: "\<forall>b \<in> set bs. \<not> fits sz b"
    and room: "alloc_cost sz \<le> heap_space s" "unat (curr_addr s) \<le> 2147483648"
  shows "\<exists>t. malloc sz s = Inr (curr_addr s + 16, t) \<and> heap_inv base t (bs @ [Block (curr_addr s) sz False])
    \<and> heap_only s t \<and> unat (curr_addr t) = unat (curr_addr s) + alloc_cost sz \<and> (\<forall>x \<in> usable base bs. mem t x = mem s x)"
proof -
  have r: "unat (curr_addr s) + 4 * (unat sz + 16) \<le> 2147483648"
    using room by (simp add: alloc_cost_def heap_space_def)
  obtain t where t: "malloc sz s = Inr (curr_addr s + 16, t)" "heap_inv base t (bs @ [Block (curr_addr s) sz False])"
    "heap_only s t" "unat (curr_addr t) = unat (curr_addr s) + 4 * (unat sz + 16)"
    using malloc_fresh [OF inv none r] by blast
  have "same_live bs (mem s) (mem t)"
    using malloc_step [OF inv, of sz] t(1) r by (force simp: heap_room_def)
  then have "\<forall>x \<in> usable base bs. mem t x = mem s x"
    using usable_memory [of bs "mem s" "mem t" base] malloc_budget [OF inv room(1) t(1)] by blast
  with t show ?thesis by (auto simp: alloc_cost_def)
qed

lemma heap_release:
  assumes inv: "heap_inv base s bs" and b: "b \<in> set bs" "\<not> b_free b" "\<not> is_wall b"
  shows "\<exists>t. free (b_addr b + 16) s = Inr ((), t) \<and> heap_inv base t (a_free (b_addr b + 16) bs)
    \<and> heap_only s t \<and> curr_addr t = curr_addr s \<and> (\<forall>x \<in> usable base (a_free (b_addr b + 16) bs). mem t x = mem s x)"
proof -
  obtain t where t: "free (b_addr b + 16) s = Inr ((), t)" "heap_inv base t (a_free (b_addr b + 16) bs)"
    "heap_only s t" "curr_addr t = curr_addr s" "\<forall>x. x \<notin> hdrs bs \<longrightarrow> mem t x = mem s x"
    using free_refines [OF inv b] by blast
  have live: "(b_addr b + 16, b_size b) \<in> live bs" using b by (auto simp: live_def)
  obtain h where h: "live h = live bs - {(b_addr b + 16, b_size b)}" "\<forall>x \<in> usable base h. mem t x = mem s x"
    using heap_give [OF inv live] t(1) by auto
  have "live (a_free (b_addr b + 16) bs) = live h"
    using live_a_free [of "fst base" bs "unat (curr_addr s)" b] inv b h(1) by (simp add: heap_inv_def)
  then have "usable base (a_free (b_addr b + 16) bs) = usable base h" by (simp add: usable_def)
  with t h(2) show ?thesis by auto
qed

text \<open>A block in use whose mark and size are overwritten is a wall from then on.\<close>

lemma heap_wall:
  assumes inv: "heap_inv (lo, W) s (xs @ Block a n False # ys)"
    and same: "curr_addr t = curr_addr s" "frist_hh t = frist_hh s" "last_hh t = last_hh s"
    and out: "\<And>x. x \<notin> usable (lo, W) (xs @ Block a n False # ys) \<Longrightarrow> x \<notin> span a 8 \<Longrightarrow> mem t x = mem s x"
  shows "heap_inv (lo, {(a, 8), (a + 16, n)} \<union> W) t (xs @ Wall a n # ys)"
proof -
  let ?b = "Block a n False" and ?bs = "xs @ Block a n False # ys"
  have sg: "seg (mem s) (frist_hh s) ?bs 0" and ld: "laid lo ?bs (unat (curr_addr s))"
    and hi: "unat (curr_addr s) \<le> 2147483648" and w: "walls ?bs = W"
    using inv by (simp_all add: heap_inv_def)
  have hdr: "mem t x = mem s x" if c: "c \<in> set ?bs" "x \<in> hdr_span c" and x: "x \<notin> span a 8" for c x
  proof (rule out [OF _ x])
    have "x \<notin> off_heap (lo, W)" using hdrs_off_heap [OF inv] c unfolding hdrs_def by blast
    moreover have "x \<notin> payload d" if "d \<in> set ?bs" for d
      using payload_hdrs [OF ld _ that] hi c unfolding hdrs_def by fastforce
    ultimately show "x \<notin> usable (lo, W) ?bs" by (fastforce simp: usable_def live_def payload_def)
  qed
  have other: "mem t x = mem s x" if c: "c \<in> set xs \<union> set ys" "x \<in> hdr_span c" for c x
  proof -
    have "extent ?b \<inter> extent c = {}" by (rule laid_extents [OF ld _ c(1)]) (use hi in simp)
    then have "x \<notin> span a 16" using hdr_extent [of ?b] hdr_extent [of c] hdr_plain [of ?b] c(2) by auto
    then have "x \<notin> span a 8" using span_mono [of 8 16 a] by auto
    then show ?thesis using hdr [of c x] c by auto
  qed
  obtain pre: "seg (mem s) (frist_hh s) xs a" and b: "a \<noteq> 0" "load32 (mem s) (a + 8) = 0"
    and post: "seg (mem s) (load32 (mem s) (a + 12)) ys 0"
    using sg by (auto simp: seg_append header_at_def)
  have word: "load32 (mem t) (a + i) = load32 (mem s) (a + i)" if "8 \<le> unat i" "unat i \<le> 12" for i
  proof (rule c32.ld_local)
    fix x assume x: "x \<in> span (a + i) 4"
    have "x \<in> span a 16" using span_sub [of i 4 16 a] that x by auto
    moreover have "apart a 8 (a + i) 4" using that u32_diff_unat [of 0 i] by (auto simp: apart_def)
    then have "x \<notin> span a 8" using apart_disjoint x by blast
    ultimately show "mem t x = mem s x" using hdr [of ?b x] by (simp add: hdr_span_def)
  qed
  have "seg (mem t) (frist_hh s) (xs @ Wall a n # ys) 0"
    using seg_frame [OF pre, of "mem t"] seg_frame [OF post, of "mem t"] other b word [of 8] word [of 12]
    by (auto simp: seg_append header_at_def)
  moreover have "laid lo (xs @ Wall a n # ys) (unat (curr_addr s))" using ld by (simp add: laid_append bend_def)
  moreover have "last_hh s = b_addr (last (xs @ Wall a n # ys))" using inv by (auto simp: heap_inv_def)
  ultimately show ?thesis using inv same w by (simp add: heap_inv_def)
qed

end
