(* ===== verification/Mount_Spec.thy ===== *)
theory Mount_Spec
  imports Samples "HOL-Library.Sublist"
begin

text \<open>
  What \<open>_find_relative_mount\<close> computes: the path itself and its prefixes that end in a separator are
  tried from the longest to the shortest, and the first that is a mount path decides. The work is done
  on a copy in the heap that is given back.
\<close>

section \<open>The lookup on lists\<close>

definition up :: "u8 list \<Rightarrow> u8 list" where
  "up xs = take (cut_len 0x2F (butlast xs)) xs"

text \<open>The path and its proper prefixes that end in a separator, longest first.\<close>

definition ancestors :: "u8 list \<Rightarrow> u8 list list" where
  "ancestors xs = xs # filter (\<lambda>p. p \<noteq> [] \<and> last p = 0x2F) (rev (prefixes (butlast xs)))"

text \<open>The index of the first of the strings \<open>ps\<close> that is \<open>zs\<close>.\<close>

definition first_of :: "u8 list list \<Rightarrow> u8 list \<Rightarrow> nat option" where
  "first_of ps zs = find (\<lambda>j. ps ! j = zs) [0..<length ps]"

fun lookup_mount :: "u8 list list \<Rightarrow> u8 list list \<Rightarrow> nat" where
  "lookup_mount ps [] = 0"
| "lookup_mount ps (zs # rest) = (case first_of ps zs of Some j \<Rightarrow> j | None \<Rightarrow> lookup_mount ps rest)"

lemma ancestors_snoc_filter:
  "filter (\<lambda>p. p \<noteq> [] \<and> last p = 0x2F) (rev (prefixes xs)) =
     (if cut_len 0x2F xs = 0 then [] else ancestors (take (cut_len 0x2F xs) xs))"
proof (induction xs rule: rev_induct)
  case Nil
  show ?case by (simp add: cut_len_def)
next
  case (snoc x xs)
  show ?case
  proof (cases "x = 0x2F")
    case True
    then show ?thesis by (simp add: cut_len_snoc ancestors_def prefixes_snoc)
  next
    case False
    have "cut_len 0x2F xs \<le> length xs" by (rule cut_len_le)
    with False snoc show ?thesis by (simp add: cut_len_snoc prefixes_snoc)
  qed
qed

lemma ancestors_up:
  assumes "xs \<noteq> []"
  shows "ancestors xs = xs # (if up xs = [] then [] else ancestors (up xs))"
proof -
  have "take (cut_len 0x2F (butlast xs)) (butlast xs) = up xs"
    using cut_len_le [of "0x2F" "butlast xs"]
    by (auto simp: up_def butlast_conv_take min_def split: if_splits)
  moreover have "up xs = [] \<longleftrightarrow> cut_len 0x2F (butlast xs) = 0" using assms by (simp add: up_def)
  ultimately show ?thesis
    unfolding ancestors_def [of xs] ancestors_snoc_filter by simp
qed

text \<open>An absolute path is cut down to the root.\<close>

lemma up_absolute:
  assumes "hd xs = 0x2F" and "xs \<noteq> []" and "xs \<noteq> [0x2F]"
  shows "up xs \<noteq> []" and "hd (up xs) = 0x2F" and "length (up xs) < length xs"
proof -
  obtain ys where xs: "butlast xs = 0x2F # ys"
    using assms by (cases xs rule: rev_cases) (auto simp: hd_append neq_Nil_conv split: if_splits)
  have "dropWhile (\<lambda>c. c \<noteq> (0x2F :: u8)) (rev (0x2F # ys)) \<noteq> []" by (simp add: dropWhile_eq_Nil_conv)
  then have "cut_len 0x2F (butlast xs) \<noteq> 0" by (simp add: cut_len_def xs)
  then show "up xs \<noteq> []" "hd (up xs) = 0x2F"
    using assms(1,2) by (cases xs; simp add: up_def take_Cons')+
  show "length (up xs) < length xs" using cut_len_less [OF assms(2)] by (simp add: up_def)
qed

lemma root_ancestors: "ancestors [0x2F] = [[0x2F]]"
  by (simp add: ancestors_def)

text \<open>The lookup finds the longest of the candidates that is mounted.\<close>

lemma first_of_Some: "first_of ps zs = Some j \<Longrightarrow> j < length ps \<and> ps ! j = zs"
  by (auto simp: first_of_def find_Some_iff)

lemma first_of_None: "first_of ps zs = None \<longleftrightarrow> zs \<notin> set ps"
  by (auto simp: first_of_def find_None_iff in_set_conv_nth)

lemma lookup_mount_less: "ps \<noteq> [] \<Longrightarrow> lookup_mount ps zss < length ps"
  by (induction zss) (auto simp: first_of_Some split: option.splits)

lemma lookup_mount_first:
  assumes "sorted_wrt (\<lambda>a b. length b \<le> length a) zss" and "zs \<in> set zss" and "zs \<in> set ps"
  shows "ps ! lookup_mount ps zss \<in> set zss \<and> length zs \<le> length (ps ! lookup_mount ps zss)"
  using assms(1,2)
proof (induction zss)
  case (Cons ys zss)
  show ?case
  proof (cases "first_of ps ys")
    case (Some j)
    then show ?thesis using Cons.prems first_of_Some [OF Some] by auto
  next
    case None
    then have "zs \<noteq> ys" using assms(3) first_of_None by blast
    then show ?thesis using Cons None by simp
  qed
qed simp

lemma lookup_mount_index:
  "(set zss \<inter> set ps \<noteq> {} \<longrightarrow> first_of ps (ps ! lookup_mount ps zss) = Some (lookup_mount ps zss))
   \<and> (set zss \<inter> set ps = {} \<longrightarrow> lookup_mount ps zss = 0)"
proof (induction zss)
  case (Cons zs zss)
  then show ?case using first_of_None [of ps zs] first_of_Some [of ps zs] by (cases "first_of ps zs") auto
qed simp

lemma ancestors_sorted: "sorted_wrt (\<lambda>a b. length b \<le> length a) (ancestors xs)"
proof -
  have "sorted_wrt (\<lambda>a b. length b \<le> length a) (rev (prefixes ys)) \<and> (\<forall>p \<in> set (prefixes ys). length p \<le> length ys)"
    for ys :: "u8 list"
    by (induction ys rule: rev_induct) (auto simp: prefixes_snoc)
  from this [of "butlast xs"] show ?thesis
    by (auto simp: ancestors_def intro!: sorted_wrt_filter dest: prefix_length_le)
qed

lemma ancestors_prefix: "zs \<in> set (ancestors xs) \<Longrightarrow> prefix zs xs"
  unfolding ancestors_def
  by (auto simp del: butlast.simps dest: prefix_order.trans [OF _ prefixeq_butlast])

section \<open>Strings and tables in memory\<close>

definition string_in :: "u32 set \<Rightarrow> memory \<Rightarrow> u32 \<Rightarrow> u8 list \<Rightarrow> bool" where
  "string_in A m p cs \<longleftrightarrow> cstring m p cs \<and> span p (Suc (length cs)) \<subseteq> A"

lemma string_in_frame:
  assumes "string_in A m p cs" and "\<And>x. x \<in> A \<Longrightarrow> m' x = m x"
  shows "string_in A m' p cs"
proof -
  have c: "cstring m p cs" and A: "span p (Suc (length cs)) \<subseteq> A" using assms(1) by (simp_all add: string_in_def)
  have "m' (p + of_nat i) = m (p + of_nat i)" if "i \<le> length cs" for i
    using that cstring_length [OF c] A by (intro assms(2)) (auto intro!: subsetD [OF A] span_add_of_nat)
  then have "cstring m' p cs" by (rule cstring_frame [OF c])
  with A show ?thesis by (simp add: string_in_def)
qed

lemma string_in_mono: "string_in A m p cs \<Longrightarrow> A \<subseteq> B \<Longrightarrow> string_in B m p cs"
  by (auto simp: string_in_def)

lemma string_in_string: "string_in A m p cs \<Longrightarrow> cstring m p cs"
  by (simp add: string_in_def)

text \<open>The mount table and its paths lie in \<open>A\<close>.\<close>

definition mounts_in :: "u32 set \<Rightarrow> 'a vfs_scheme \<Rightarrow> u8 list list \<Rightarrow> bool" where
  "mounts_in A s ps \<longleftrightarrow> unat (mount_count s) = length ps
     \<and> (\<forall>i < length ps. span (mount_points s + 8 * of_nat i) 8 \<subseteq> A
          \<and> string_in A (mem s) (mount_path_at (of_nat i) s) (ps ! i))"

lemma mount_entry_frame:
  assumes "mounts_in A s ps" and "\<And>x. x \<in> A \<Longrightarrow> mem t x = mem s x" and "mount_points t = mount_points s"
    and "i < length ps"
  shows "mount_path_at (of_nat i) t = mount_path_at (of_nat i) s"
    and "mount_device_at (of_nat i) t = mount_device_at (of_nat i) s"
proof -
  let ?e = "mount_points s + 8 * of_nat i"
  have "span ?e 8 \<subseteq> A" using assms(1,4) by (simp add: mounts_in_def)
  moreover have "span ?e 4 \<subseteq> span ?e 8" "span (?e + 4) 4 \<subseteq> span ?e 8" by (rule span_mono, simp) (rule span_sub, simp_all)
  ultimately have "mem t x = mem s x" if "x \<in> span ?e 4 \<union> span (?e + 4) 4" for x
    using that assms(2) by blast
  then show "mount_path_at (of_nat i) t = mount_path_at (of_nat i) s"
    "mount_device_at (of_nat i) t = mount_device_at (of_nat i) s"
    unfolding mount_path_at_def mount_device_at_def assms(3) by (auto intro!: c32.ld_local)
qed

lemma mounts_in_frame:
  assumes "mounts_in A s ps" and "\<And>x. x \<in> A \<Longrightarrow> mem t x = mem s x"
    and "mount_points t = mount_points s" and "mount_count t = mount_count s"
  shows "mounts_in A t ps"
  using assms mount_entry_frame(1) [OF assms(1-3)] string_in_frame [of A "mem s"]
  by (auto simp: mounts_in_def)

lemma match_mount_find:
  assumes "mounts_in A s ps" and "cstring (mem s) p zs" and "set js \<subseteq> {..<length ps}"
  shows "match_mount p (map of_nat js) s = Some (map_option of_nat (find (\<lambda>j. ps ! j = zs) js))"
  using assms(3)
proof (induction js)
  case (Cons j js)
  then have "cstring (mem s) (mount_path_at (of_nat j) s) (ps ! j)"
    using assms(1) by (auto simp: mounts_in_def string_in_def)
  note strcmp_cstring [OF assms(2) this] cstring_nonzero [OF this]
  with Cons show ?case
    using str_diff_eq_0 [of zs "ps ! j"] cstring_nonzero [OF assms(2)] by auto
qed simp

section \<open>The loop\<close>

lemma mount_loop_lookup:
  assumes "mounts_in A s ps" and "string_in A (mem s) (str_slash k) [0x2F]"
    and "cstring (mem s) p zs" and "zs \<noteq> []" and "hd zs = 0x2F"
    and "length zs < n" and "n < 4294967296" and "span p n \<inter> A = {}"
  shows "\<exists>m. mount_loop k p s = Some (of_nat (lookup_mount ps (ancestors zs)), s\<lparr>mem := m\<rparr>)
    \<and> (\<forall>x. x \<notin> span p n \<longrightarrow> m x = mem s x)"
  using assms
proof (induction "length zs" arbitrary: zs s rule: less_induct)
  case less
  have all: "set [0..<length ps] \<subseteq> {..<length ps}" by auto
  have match: "match_mount p (map of_nat [0..<unat (mount_count s)]) s
      = Some (map_option of_nat (first_of ps zs))"
    using match_mount_find [OF less.prems(1,3) all] less.prems(1)
    by (simp add: mounts_in_def first_of_def)
  have "cstring (mem s) (str_slash k) [0x2F]" using less.prems(2) by (simp add: string_in_def)
  note root = strcmp_cstring [OF less.prems(3) this]
  have eq: "str_diff zs [0x2F] = 0 \<longleftrightarrow> zs = [0x2F]"
    using cstring_nonzero [OF less.prems(3)] by (intro str_diff_eq_0) auto
  show ?case
  proof (cases "first_of ps zs")
    case (Some j)
    then show ?thesis
      using match ancestors_up [OF less.prems(4)]
      by (intro exI [of _ "mem s"]) (simp add: mount_loop.simps [of k p s])
  next
    case None
    show ?thesis
    proof (cases "zs = [0x2F]")
      case True
      then show ?thesis
        using match None root eq
        by (intro exI [of _ "mem s"]) (simp add: mount_loop.simps [of k p s] root_ancestors)
    next
      case False
      note u = up_absolute [OF less.prems(5,4) False]
      define c where "c = cut_len 0x2F (butlast zs)"
      define m where "m = (mem s)(p + of_nat c := 0)"
      have c: "c \<noteq> 0" "c < length zs" using u(1) cut_len_less [OF less.prems(4)] by (auto simp: up_def c_def)
      have p: "p + of_nat c \<in> span p n" using c(2) less.prems(6,7) by (intro span_add_of_nat) auto
      then have out: "m x = mem s x" if "x \<notin> span p n" for x using that by (auto simp: m_def)
      then have onA: "m x = mem s x" if "x \<in> A" for x using that less.prems(8) by blast
      have step: "mount_loop k p s = mount_loop k p (s\<lparr>mem := m\<rparr>)"
        using match None root eq False strdeltoc_run [OF less.prems(3,4), of "0x2F"] c(1)
        by (simp add: mount_loop.simps [of k p s] c_def [symmetric] m_def)
      have "\<exists>m'. mount_loop k p (s\<lparr>mem := m\<rparr>)
          = Some (of_nat (lookup_mount ps (ancestors (up zs))), s\<lparr>mem := m, mem := m'\<rparr>)
        \<and> (\<forall>x. x \<notin> span p n \<longrightarrow> m' x = mem (s\<lparr>mem := m\<rparr>) x)"
      proof (rule less.hyps [OF u(3)])
        show "mounts_in A (s\<lparr>mem := m\<rparr>) ps"
          by (rule mounts_in_frame [OF less.prems(1)]) (simp_all add: onA)
        show "string_in A (mem (s\<lparr>mem := m\<rparr>)) (str_slash k) [0x2F]"
          by (rule string_in_frame [OF less.prems(2)]) (simp add: onA)
        show "cstring (mem (s\<lparr>mem := m\<rparr>)) p (up zs)"
          using cstring_cut [OF less.prems(3) c(2)] by (simp add: up_def c_def m_def)
        show "length (up zs) < n" using u(3) less.prems(6) by simp
      qed (use u less.prems(7,8) in simp_all)
      then show ?thesis
        using step out None ancestors_up [OF less.prems(4)] u(1) by auto
    qed
  qed
qed

section \<open>A copy of a string in a fresh area\<close>

lemma copied_string:
  assumes "string_in A m src cs" and "span dst n \<inter> A = {}" and "length cs < n" and "n < 4294967296"
  shows "cstring (memcpy dst src (of_nat (length cs) + 1) m) dst cs"
    and "x \<notin> span dst n \<Longrightarrow> memcpy dst src (of_nat (length cs) + 1) m x = m x"
proof -
  have c: "cstring m src cs" and A: "span src (Suc (length cs)) \<subseteq> A" using assms(1) by (simp_all add: string_in_def)
  have l: "unat (of_nat (length cs) + 1 :: u32) = Suc (length cs)"
    using u32_of_nat_unat [of "Suc (length cs)"] assms(3,4) by (simp add: add.commute)
  have sub: "span dst (Suc (length cs)) \<subseteq> span dst n" using assms(3) by (intro span_mono) simp
  have copy: "memcpy dst src (of_nat (length cs) + 1) m (dst + of_nat i) = m (src + of_nat i)"
    if "i \<le> length cs" for i
  proof (rule memcpy_prefix [where k = "Suc (length cs)"])
    fix j assume "j < Suc (length cs)"
    then have "src + of_nat j \<in> A" using A assms(3,4) by (intro subsetD [OF A] span_add_of_nat) auto
    then show "src + of_nat j \<notin> span dst (unat (of_nat (length cs) + 1 :: u32))"
      using sub assms(2) by (auto simp: l)
  qed (use that in \<open>simp_all add: l\<close>)
  show "cstring (memcpy dst src (of_nat (length cs) + 1) m) dst cs"
    by (rule cstring_intro) (simp_all add: copy cstring_nth [OF c] cstring_end [OF c])
  show "x \<notin> span dst n \<Longrightarrow> memcpy dst src (of_nat (length cs) + 1) m x = m x"
    using sub by (intro memcpy_outside) (auto simp: l)
qed

lemma heap_take_string:
  fixes s :: "'a kheap_scheme"
  assumes "heap_inv base s bs" and "4 * (l + 17) \<le> heap_space s"
  shows "\<exists>p n t bs'. malloc (of_nat l + 1) s = Inr (p, t) \<and> heap_inv base t bs' \<and> l < unat n
    \<and> live bs' = insert (p, n) (live bs) \<and> (p, n) \<notin> live bs \<and> span p (unat n) \<inter> usable base bs = {}
    \<and> heap_only s t \<and> heap_space s \<le> heap_space t + 4 * (l + 17) \<and> (\<forall>x \<in> usable base bs. mem t x = mem s x)"
proof -
  let ?n = "of_nat l + 1 :: u32"
  have un: "unat ?n = Suc l"
    using u32_of_nat_unat [of "Suc l"] assms(2) by (simp add: add.commute heap_space_def)
  then have cost: "alloc_cost ?n = 4 * (l + 17)" by (simp add: alloc_cost_def)
  have "l < unat n" if "?n \<le> n" for n using that un by (simp add: u32_le_unat)
  then show ?thesis
    using heap_take [OF assms(1), of ?n] assms(2) unfolding cost by blast
qed

lemma find_relative_mount_run:
  fixes s :: "'a vfs_scheme"
  assumes inv: "heap_inv base s bs" and room: "4 * (length xs + 17) \<le> heap_space s"
    and path: "string_in (usable base bs) (mem s) path xs" and abs: "xs \<noteq> []" "hd xs = 0x2F"
    and tab: "mounts_in (usable base bs) s ps"
    and slash: "string_in (usable base bs) (mem s) (str_slash k) [0x2F]"
  shows "\<exists>t bs'. find_relative_mount k path s = Inr (of_nat (lookup_mount ps (ancestors xs)), t)
    \<and> heap_inv base t bs' \<and> live bs' = live bs \<and> heap_only s t
    \<and> heap_space s \<le> heap_space t + 4 * (length xs + 17)
    \<and> (\<forall>x \<in> usable base bs. mem t x = mem s x)"
proof -
  let ?A = "usable base bs" and ?n = "of_nat (length xs) + 1 :: u32"
  have cs: "cstring (mem s) path xs" using path by (simp add: string_in_def)
  obtain p n s1 bs1 where M: "malloc ?n s = Inr (p, s1)" "heap_inv base s1 bs1" "length xs < unat n"
    "live bs1 = insert (p, n) (live bs)" "(p, n) \<notin> live bs" "span p (unat n) \<inter> ?A = {}" "heap_only s s1"
    "heap_space s \<le> heap_space s1 + 4 * (length xs + 17)" "\<forall>x \<in> ?A. mem s1 x = mem s x"
    using heap_take_string [OF inv room] by blast
  note len = M(3)
  have path1: "string_in ?A (mem s1) path xs" by (rule string_in_frame [OF path]) (use M(9) in blast)
  then have cs1: "cstring (mem s1) path xs" by (simp add: string_in_def)
  define s2 where "s2 = s1\<lparr>mem := memcpy p path ?n (mem s1)\<rparr>"
  note copy = copied_string [OF path1 M(6) len u32_bound]
  have same2: "mem s2 x = mem s x" if "x \<in> ?A" for x
    using copy(2) [of x] M(6,9) that by (auto simp: s2_def)
  have globals: "mount_points s2 = mount_points s" "mount_count s2 = mount_count s"
    using M(7) by (cases s; cases s1; simp add: s2_def heap_only_def)+
  have "\<exists>m. mount_loop k p s2 = Some (of_nat (lookup_mount ps (ancestors xs)), s2\<lparr>mem := m\<rparr>)
    \<and> (\<forall>x. x \<notin> span p (unat n) \<longrightarrow> m x = mem s2 x)"
  proof (rule mount_loop_lookup [OF _ _ _ abs len u32_bound M(6)])
    show "mounts_in ?A s2 ps" by (rule mounts_in_frame [OF tab]) (simp_all add: same2 globals)
    show "string_in ?A (mem s2) (str_slash k) [0x2F]" by (rule string_in_frame [OF slash]) (simp add: same2)
    show "cstring (mem s2) p xs" using copy(1) by (simp add: s2_def)
  qed
  then obtain m where L: "mount_loop k p s2 = Some (of_nat (lookup_mount ps (ancestors xs)), s2\<lparr>mem := m\<rparr>)"
    "\<forall>x. x \<notin> span p (unat n) \<longrightarrow> m x = mem s2 x" by blast
  have m1: "m x = mem s1 x" if "x \<notin> span p (unat n)" for x
    using L(2) copy(2) that by (simp add: s2_def)
  have pn: "(p, n) \<in> live bs1" using M(4) by simp
  have inv2: "heap_inv base (s1\<lparr>mem := m\<rparr>) bs1"
    by (rule heap_write [OF M(2)]) (use m1 usable_area [OF pn] in blast)
  obtain t bs' where F: "free p (s1\<lparr>mem := m\<rparr>) = Inr ((), t)" "heap_inv base t bs'"
    "live bs' = live bs1 - {(p, n)}" "heap_only (s1\<lparr>mem := m\<rparr>) t" "heap_space t = heap_space (s1\<lparr>mem := m\<rparr>)"
    "\<forall>x \<in> usable base bs'. mem t x = mem (s1\<lparr>mem := m\<rparr>) x"
    using heap_give [OF inv2 pn] by blast
  have lv: "live bs' = live bs" using F(3) M(4,5) by auto
  then have A': "usable base bs' = ?A" by (simp add: usable_def)
  have "find_relative_mount k path s = Inr (of_nat (lookup_mount ps (ancestors xs)), t)"
    using M(1) L(1) F(1)
    by (simp add: find_relative_mount_def of_strlen_def strlen_cstring [OF cs] strlen_cstring [OF cs1]
        s2_def [symmetric]) (simp add: s2_def)
  moreover have "heap_only s t" using heap_only_trans [OF M(7)] F(4) by (simp add: heap_only_def)
  moreover have "heap_space s \<le> heap_space t + 4 * (length xs + 17)" using M(8) F(5) by (simp add: heap_space_def)
  moreover have "\<forall>x \<in> ?A. mem t x = mem s x"
  proof
    fix x assume x: "x \<in> ?A"
    then have "x \<notin> span p (unat n)" using M(6) by blast
    then show "mem t x = mem s x" using F(6) m1 M(9) x unfolding A' by simp
  qed
  ultimately show ?thesis using F(2) lv by blast
qed

text \<open>
  C13. The mount point of a path: for an absolute path the lookup ends, gives the mount entry of the longest
  of the path and its ancestors that is mounted (the first of several; entry 0 when none is), and leaves no
  trace: the copy it works on is given back and nothing the caller can hold changes.
\<close>

theorem find_mount_longest_prefix:
  fixes s :: "'a vfs_scheme"
  assumes "heap_inv base s bs" and "4 * (length xs + 17) \<le> heap_space s"
    and "string_in (usable base bs) (mem s) path xs" and "xs \<noteq> []" and "hd xs = 0x2F"
    and "mounts_in (usable base bs) s ps"
    and "string_in (usable base bs) (mem s) (str_slash k) [0x2F]"
  shows "\<exists>j t bs'. find_relative_mount k path s = Inr (of_nat j, t)
    \<and> (\<forall>zs \<in> set (ancestors xs) \<inter> set ps. prefix (ps ! j) xs \<and> length zs \<le> length (ps ! j))
    \<and> (set (ancestors xs) \<inter> set ps \<noteq> {} \<longrightarrow> first_of ps (ps ! j) = Some j)
    \<and> (set (ancestors xs) \<inter> set ps = {} \<longrightarrow> j = 0)
    \<and> heap_inv base t bs' \<and> live bs' = live bs \<and> (\<forall>x \<in> usable base bs. mem t x = mem s x)"
proof -
  let ?j = "lookup_mount ps (ancestors xs)"
  have "\<forall>zs \<in> set (ancestors xs) \<inter> set ps. prefix (ps ! ?j) xs \<and> length zs \<le> length (ps ! ?j)"
    using lookup_mount_first [OF ancestors_sorted] ancestors_prefix by blast
  then show ?thesis
    using find_relative_mount_run [OF assms] lookup_mount_index [of "ancestors xs" ps] by blast
qed

text \<open>A path without a separator before its last byte is never shortened.\<close>

lemma mount_loop_stuck:
  assumes tab: "mounts_in A s ps" and slash: "cstring (mem s) (str_slash k) [0x2F]"
    and zs: "cstring (mem s) p zs" "zs \<noteq> []" "zs \<noteq> [0x2F]" "0x2F \<notin> set (butlast zs)" "zs \<notin> set ps"
  shows "mount_loop k p s = None"
proof -
  have all: "set [0..<length ps] \<subseteq> {..<length ps}" by auto
  have "first_of ps zs = None" using zs(5) by (auto simp: first_of_def find_None_iff)
  then have match: "match_mount p (map of_nat [0..<unat (mount_count s)]) s = Some None"
    using match_mount_find [OF tab zs(1) all] tab by (simp add: mounts_in_def first_of_def)
  have "str_diff zs [0x2F] \<noteq> 0"
    using str_diff_eq_0 [of zs "[0x2F]"] cstring_nonzero [OF zs(1)] zs(3) by auto
  then obtain r where r: "strcmp (mem s) p (str_slash k) = Some r" "r \<noteq> 0"
    using strcmp_cstring [OF zs(1) slash] by blast
  have "cut_len 0x2F (butlast zs) = 0" using zs(4) by (auto simp: cut_len_def dropWhile_eq_Nil_conv)
  then have d: "strdeltoc p 0x2F (mem s) = Some (0, mem s)"
    using strdeltoc_run [OF zs(1,2), of "0x2F"] by simp
  have False if "mount_loop k' p' u = Some y" "k' = k" "p' = p" "u = s" for k' p' u y
    using that
  proof (induction rule: mount_loop.raw_induct [rotated, consumes 1, case_names step])
    case (step loop k' p' u y)
    from step.prems step.hyps match r d have "loop k p s = Some y" by simp
    then show ?case by (rule step.IH) simp_all
  qed
  then show ?thesis by (cases "mount_loop k p s") auto
qed

lemma find_relative_mount_stuck:
  fixes s :: "'a vfs_scheme"
  assumes inv: "heap_inv base s bs" and room: "4 * (length xs + 17) \<le> heap_space s"
    and path: "string_in (usable base bs) (mem s) path xs"
    and xs: "xs \<noteq> []" "xs \<noteq> [0x2F]" "0x2F \<notin> set (butlast xs)" "xs \<notin> set ps"
    and tab: "mounts_in (usable base bs) s ps"
    and slash: "string_in (usable base bs) (mem s) (str_slash k) [0x2F]"
  shows "find_relative_mount k path s = Inl Hangs"
proof -
  let ?A = "usable base bs" and ?n = "of_nat (length xs) + 1 :: u32"
  obtain p s1 and n :: u32 where M: "malloc ?n s = Inr (p, s1)" "length xs < unat n"
    "span p (unat n) \<inter> ?A = {}" "heap_only s s1" "\<forall>x \<in> ?A. mem s1 x = mem s x"
    using heap_take_string [OF inv room] by blast
  have path1: "string_in ?A (mem s1) path xs" by (rule string_in_frame [OF path]) (use M(5) in blast)
  note len = strlen_cstring [of "mem s" path xs] strlen_cstring [of "mem s1" path xs]
  define s2 where "s2 = s1\<lparr>mem := memcpy p path ?n (mem s1)\<rparr>"
  note copy = copied_string [OF path1 M(3,2) u32_bound]
  have same: "mem s2 x = mem s x" if "x \<in> ?A" for x
    using copy(2) [of x] M(3,5) that by (auto simp: s2_def)
  have "mount_points s2 = mount_points s" "mount_count s2 = mount_count s"
    using M(4) by (cases s; cases s1; simp add: s2_def heap_only_def)+
  with same tab have "mounts_in ?A s2 ps" by (intro mounts_in_frame [OF tab])
  moreover have "cstring (mem s2) (str_slash k) [0x2F]"
    using string_in_frame [OF slash, of "mem s2"] same by (simp add: string_in_def)
  moreover have "cstring (mem s2) p xs" using copy(1) by (simp add: s2_def)
  ultimately have "mount_loop k p s2 = None" using xs by (rule mount_loop_stuck)
  then show ?thesis
    using M(1) path path1
    by (simp add: find_relative_mount_def of_strlen_def len string_in_def s2_def)
qed

section \<open>A mounted system\<close>

text \<open>Two mounts, / and /DEV/, of the first two of three devices, and three paths.\<close>

definition place :: "(u32 \<times> u8 list) list \<Rightarrow> memory \<Rightarrow> memory" where
  "place = fold (\<lambda>(a, bs). put_bytes a bs)"

definition mounted_kernel :: kernel where
  "mounted_kernel = kernel_start\<lparr>mount_points := 0x6000, mount_count := 2, m_devices := 0x10000,
     m_devices_number := 3,
     mem := place [(0x5000, lit ''/''), (0x5010, lit ''/DEV/''), (0x7000, lit ''/DEV/tty''), (0x7010, lit ''tty''),
       (0x7020, lit ''/DEV/x''), (0x6000, [0, 0x50, 0, 0, 0, 0, 1, 0, 0x10, 0x50, 0, 0, 0x58, 0, 1, 0]),
       (0x10000, lit ''ATA''), (0x10058, lit ''devman''), (0x100B0, lit ''tty''),
       (0x100AC, [0, 0, 2, 0]),
       (0x20000, lit ''DEVFS''), (0x20038, [16, 0, 0, 0]), (0x2004C, [9, 0x10, 0, 0, 0xA, 0x10, 0, 0])]
       (\<lambda>_. 0)\<rparr>"

lemma mounted_heap: "heap_inv (0x200000, {}) mounted_kernel []"
  by (simp add: heap_inv_def kernel_start_def mounted_kernel_def)

lemma mounted_space: "heap_space mounted_kernel = 2145386496"
  by (simp add: heap_space_def kernel_start_def mounted_kernel_def)

lemma low_usable: "unat p + n \<le> 0x200000 \<Longrightarrow> span p n \<subseteq> usable (0x200000, {}) []"
  by (auto simp: usable_Nil in_span_unat)

lemmas mounted_mem = mounted_kernel_def place_def put_bytes_def in_span lit_def string_in_def low_usable

lemma mounted_slash: "string_in (usable (0x200000, {}) []) (mem mounted_kernel) (str_slash boot_env) [0x2F]"
  by (simp add: mounted_mem boot_env_def)

lemma mounted_paths:
  "string_in (usable (0x200000, {}) []) (mem mounted_kernel) 0x7000 (lit ''/DEV/tty'')"
  "string_in (usable (0x200000, {}) []) (mem mounted_kernel) 0x7010 (lit ''tty'')"
  "string_in (usable (0x200000, {}) []) (mem mounted_kernel) 0x7020 (lit ''/DEV/x'')"
  by (simp_all add: mounted_mem)

lemma mounted_table: "mounts_in (usable (0x200000, {}) []) mounted_kernel [lit ''/'', lit ''/DEV/'']"
proof -
  have path: "mount_path_at 0 mounted_kernel = 0x5000" "mount_path_at 1 mounted_kernel = 0x5010"
    by (simp_all add: mount_path_at_def load32_def mounted_mem)
  have str: "string_in (usable (0x200000, {}) []) (mem mounted_kernel) 0x5000 (lit ''/'')"
    "string_in (usable (0x200000, {}) []) (mem mounted_kernel) 0x5010 (lit ''/DEV/'')"
    by (simp_all add: mounted_mem)
  have tab: "span 0x6000 8 \<subseteq> usable (0x200000, {}) []" "span 0x6008 8 \<subseteq> usable (0x200000, {}) []"
    by (simp_all add: low_usable)
  have nums: "mount_points mounted_kernel = 0x6000" "unat (mount_count mounted_kernel) = 2"
    by (simp_all add: mounted_kernel_def)
  have two: "(\<forall>i < Suc (Suc 0). P i) \<longleftrightarrow> P 0 \<and> P 1" for P :: "nat \<Rightarrow> bool"
    by (auto simp: less_Suc_eq)
  have l: "length [lit ''/'', lit ''/DEV/''] = Suc (Suc 0)" by simp
  show ?thesis unfolding mounts_in_def nums l two using path str tab by simp
qed

lemma find_mount_longest_prefix_witness:
  "\<exists>t. find_relative_mount boot_env 0x7000 mounted_kernel = Inr (1, t)"
proof -
  have anc: "lit ''/DEV/'' \<in> set (ancestors (lit ''/DEV/tty''))"
    by (simp add: ancestors_def lit_def prefix_def)
  obtain j t where j: "find_relative_mount boot_env 0x7000 mounted_kernel = Inr (of_nat j, t)"
      "\<forall>zs \<in> set (ancestors (lit ''/DEV/tty'')) \<inter> set [lit ''/'', lit ''/DEV/''].
         length zs \<le> length ([lit ''/'', lit ''/DEV/''] ! j)"
      "first_of [lit ''/'', lit ''/DEV/''] ([lit ''/'', lit ''/DEV/''] ! j) = Some j"
    using find_mount_longest_prefix [OF mounted_heap _ mounted_paths(1) _ _ mounted_table mounted_slash] anc
    by (fastforce simp: mounted_space lit_def)
  have "j < 2" using first_of_Some [OF j(3)] by simp
  moreover have "length (lit ''/DEV/'') \<le> length ([lit ''/'', lit ''/DEV/''] ! j)" using j(2) anc by simp
  then have "j \<noteq> 0" by (cases j) (simp_all add: lit_def)
  ultimately have "j = 1" by simp
  then show ?thesis using j by simp
qed

end
