(* ===== verification/Boot_Devices.thy ===== *)
theory Boot_Devices
  imports Boot_Tables Mount_Spec
begin

text \<open>
  The devices phase of the boot sequence: the mount table, the table of devices, the drive, the console, the two
  file systems and the keyboard, each step with the devices, the mounts and the blocks of the heap it leaves.
  \<open>H\<close> is the start of the heap.
\<close>

unbundle bit_operations_syntax

section \<open>What every step keeps\<close>

definition setting :: "nat \<Rightarrow> 'a kernel_scheme \<Rightarrow> 'a kernel_scheme \<Rightarrow> bool" where
  "setting base s t \<longleftrightarrow> boot_frame s t \<and> frames t = frames s \<and> frames_max t = frames_max s
     \<and> alloced_frames t = alloced_frames s \<and> kernel_page_dir t = kernel_page_dir s
     \<and> current_page_dir t = current_page_dir s \<and> cr3 t = cr3 s \<and> paging_on t = paging_on s
     \<and> idtr_loaded t = idtr_loaded s \<and> idtr_base t = idtr_base s \<and> idtr_limit t = idtr_limit s
     \<and> gdt_loaded t = gdt_loaded s \<and> (\<forall>x \<in> untouched base. mem t x = mem s x)"

interpretation step: effect "setting base" for base
proof
  fix s t u :: "'a kernel_scheme"
  show "setting base s s" by (simp add: setting_def booting.R_refl)
  show "setting base s t \<Longrightarrow> setting base t u \<Longrightarrow> setting base s u"
    unfolding setting_def by (auto intro: booting.R_trans)
qed

lemma setting_calm: "calm s t \<Longrightarrow> \<forall>x \<in> untouched base. mem t x = mem s x \<Longrightarrow> setting base s t"
  by (simp add: setting_def calm_boot calm_kernel)

lemma setting_paged: "setting base s t \<Longrightarrow> paged s \<Longrightarrow> paged t"
  unfolding setting_def paged_def untouched_def by (metis (lifting) mem_Collect_eq)

text \<open>
  A stage of the boot: the gates and the devices there are, with the table of devices and the mount table in
  place. Between two stages nothing but the heap, the screen and the ports is at work.
\<close>

definition anchored :: "nat \<Rightarrow> u32 \<Rightarrow> u32 set" where
  "anchored base H = untouched base \<union> span (H + 0x2050) 5632"

definition stage ::
  "nat \<Rightarrow> u32 \<Rightarrow> 'a kernel_scheme \<Rightarrow> IdtEntry list \<Rightarrow> Vfs_t list \<Rightarrow> u32 \<Rightarrow> 'a kernel_scheme \<Rightarrow> bool" where
  "stage base H s gates ds n t \<longleftrightarrow> setting base s t \<and> term_ok t \<and> the_idt t = gates \<and> devices_are t ds
     \<and> m_devices t = H + 0x2050 \<and> mount_points t = H + 16 \<and> mount_count t = n \<and> (ds \<noteq> [] \<longrightarrow> is_master_exist t = 1)"

definition heap_start :: "nat \<Rightarrow> u32 \<Rightarrow> bool" where
  "heap_start base H \<longleftrightarrow> base = unat H \<and> 0x100000 \<le> base \<and> base + 0x10000 \<le> 2147483648"

lemma heap_start_unat:
  "heap_start base H \<Longrightarrow> unat i \<le> 0x10000 \<Longrightarrow> unat (H + i) = base + unat i"
  by (simp add: heap_start_def u32_add_unat)

lemma in_heap_span:
  assumes "heap_start base H" and "unat i + n \<le> 0x10000"
  shows "x \<in> span (H + i) n \<longleftrightarrow> base + unat i \<le> unat x \<and> unat x < base + unat i + n"
  using heap_start_unat [OF assms(1), of i] assms by (subst in_span_unat) (auto simp: heap_start_def)

lemma anchored_vga: "heap_start base H \<Longrightarrow> anchored base H \<inter> vga_span = {}"
  using untouched_vga [of base] in_heap_span [of base H "0x2050" 5632]
  by (auto simp: anchored_def vga_span_unat heap_start_def)

lemma stage_calm:
  assumes st: "stage base H s gates ds n t" and calm: "calm t u" and ok: "term_ok u"
    and same: "\<And>x. x \<in> anchored base H \<Longrightarrow> mem u x = mem t x"
  shows "stage base H s gates ds n u"
proof -
  have t: "setting base s t" "devices_are t ds" "m_devices t = H + 0x2050" using st by (simp_all add: stage_def)
  have "setting base s u"
    by (rule step.R_trans [OF t(1) setting_calm [OF calm]]) (simp add: same anchored_def)
  moreover have "devices_are u ds"
    by (rule devices_are_frame [OF t(2)]) (use calm_kernel [OF calm] t(3) same in \<open>auto simp: anchored_def\<close>)
  ultimately show ?thesis using st ok calm_kernel [OF calm] by (simp add: stage_def)
qed

section \<open>The two tables\<close>

lemma heap_fits_simps:
  "fits sz (Block a n False) = False" "fits sz (Block a n True) \<longleftrightarrow> sz \<le> n"
  by (simp_all add: fits_def)

text \<open>The mount table is cut off the block the first allocation left, the table of devices gets a block of its own.\<close>

lemma boot_tables_run:
  fixes s :: "'a kernel_scheme"
  assumes H: "heap_start base H" and inv: "heap_inv (base, {}) s [Block H 0x800 True]"
    and brk: "unat (curr_addr s) = base + 0x2040" and ok: "term_ok s"
  shows "\<exists>t u. vfs_init s = Inr ((), t) \<and> devices_init t = Inr ((), u)
    \<and> stage base H s (the_idt s) [] 0 u
    \<and> heap_inv (base, {}) u [Block H 8 False, Block (H + 24) 2024 True, Block (H + 0x2040) 5632 False]
    \<and> unat (curr_addr u) = base + 0x7880"
proof -
  have base: "base = unat H" "0x100000 \<le> base" "base + 0x10000 \<le> 2147483648" using H by (simp_all add: heap_start_def)
  obtain t where t: "malloc 8 s = Inr (H + 16, t)" "heap_inv (base, {}) t [Block H 8 False, Block (H + 24) 2024 True]"
    "heap_only s t" "curr_addr t = curr_addr s" "\<forall>x \<in> usable (base, {}) [Block H 0x800 True]. mem t x = mem s x"
    using heap_reuse [OF inv, of 8] brk base
    by (force simp: heap_fits_simps a_split_def alloc_cost_def heap_space_def add.assoc)
  define t1 where "t1 = t\<lparr>mount_points := H + 16, mount_count := 0\<rparr>"
  have inv1: "heap_inv (base, {}) t1 [Block H 8 False, Block (H + 24) 2024 True]"
    by (rule heap_keep [OF t(2)]) (simp_all add: t1_def)
  have brk1: "curr_addr t1 = H + 0x2040"
    using heap_start_unat [OF H, of "0x2040"] t(4) brk by (simp add: t1_def u32_eq_unat)
  obtain u where u: "malloc 5632 t1 = Inr (H + 0x2040 + 16, u)"
    "heap_inv (base, {}) u ([Block H 8 False, Block (H + 24) 2024 True] @ [Block (H + 0x2040) 5632 False])"
    "heap_only t1 u" "\<forall>x \<in> usable (base, {}) [Block H 8 False, Block (H + 24) 2024 True]. mem u x = mem t1 x"
    "unat (curr_addr u) = base + 0x7880"
    using heap_fresh [OF inv1, of 5632] brk1 heap_start_unat [OF H, of "0x2040"] base
    by (force simp: heap_fits_simps alloc_cost_def heap_space_def)
  define v where "v = u\<lparr>m_devices := H + 0x2050, m_devices_number := 0\<rparr>"
  have run: "vfs_init s = Inr ((), t1)" "devices_init t1 = Inr ((), v)"
    using t(1) u(1) by (simp_all add: vfs_init_def t1_def devices_init_def sizeof_vfs_def v_def add.assoc)
  have c: "calm s t" "calm t1 u" using t(3) u(3) calm_heap by blast+
  have low: "x \<in> untouched base \<Longrightarrow> mem v x = mem s x" for x
    using t(5) u(4) untouched_off_heap [of base] base by (auto simp: usable_def t1_def v_def)
  have fr: "setting base s v"
    using calm_kernel [OF c(1)] calm_kernel [OF c(2)] calm_fields [OF c(1)] calm_fields [OF c(2)] low
    by (simp add: setting_def boot_frame_def t1_def v_def)
  have ok': "term_ok v" using ok t(3) u(3) by (simp add: heap_only_def term_ok_def t1_def v_def)
  have "table_ok v"
    using heap_start_unat [OF H, of "0x2050"] base in_heap_span [OF H, of "0x2050" 5632]
    by (auto simp: table_ok_def v_def vga_span_unat)
  then have "stage base H s (the_idt s) [] 0 v"
    using fr ok' calm_kernel [OF c(1)] calm_kernel [OF c(2)] by (simp add: stage_def devices_are_def t1_def v_def)
  moreover have "heap_inv (base, {}) v [Block H 8 False, Block (H + 24) 2024 True, Block (H + 0x2040) 5632 False]"
    by (rule heap_keep [OF u(2) [simplified]]) (simp_all add: v_def)
  ultimately show ?thesis using run u(5) by (auto simp: v_def)
qed

section \<open>Devices\<close>

text \<open>The nodes the drivers hand to \<open>devices_add\<close>, in the order of the boot.\<close>

definition named_node :: "env \<Rightarrow> u8 list \<Rightarrow> Vfs_t" where
  "named_node k nm = copy_name nm (vfs_node_new (stack_junk k))"

definition drive_node :: "env \<Rightarrow> Vfs_t" where
  "drive_node k = (named_node k (lit ''ata'' @ [0]))\<lparr>vn_read := fn_ata_read k, vn_flag := flag_value VFS_BLOCK_DEV\<rparr>"

definition video_node :: "env \<Rightarrow> Vfs_t" where
  "video_node k = (named_node k (lit ''video''))\<lparr>vn_write := fn_term_write k, vn_flag := flag_value VFS_CHAR_DEV\<rparr>"

definition devman_node :: "env \<Rightarrow> Vfs_t" where
  "devman_node k = (named_node k (lit ''devman'' @ [0]))\<lparr>vn_flag := flag_value VFS_BLOCK_DEV\<rparr>"

definition kb_node :: "env \<Rightarrow> Vfs_t" where
  "kb_node k = (named_node k (lit ''kb'' @ [0]))\<lparr>vn_read := fn_keyboard_read k, vn_flag := flag_value VFS_CHAR_DEV\<rparr>"

text \<open>What the stack must hold for the name of the console: a NUL behind the five bytes \<open>term_init_device\<close> copies.\<close>

definition junk_ok :: "env \<Rightarrow> bool" where
  "junk_ok k \<longleftrightarrow> length (stack_junk k) = 55 \<and> 0 \<in> set (drop 5 (stack_junk k))"

lemma named_node_name:
  assumes "junk_ok k"
  shows "length nm \<le> 55 \<Longrightarrow> length (vn_name (named_node k nm)) = 55"
    and "0 \<in> set nm \<Longrightarrow> 0 \<in> set (vn_name (named_node k nm))"
    and "length nm = 5 \<Longrightarrow> 0 \<in> set (vn_name (named_node k nm))"
  using assms by (simp_all add: junk_ok_def named_node_def copy_name_def vfs_node_new_def)

lemma boot_names:
  assumes "junk_ok k"
  shows "length (vn_name (drive_node k)) = 55" "0 \<in> set (vn_name (drive_node k))"
    "length (vn_name (video_node k)) = 55" "0 \<in> set (vn_name (video_node k))"
    "length (vn_name (devman_node k)) = 55" "0 \<in> set (vn_name (devman_node k))"
    "length (vn_name (kb_node k)) = 55" "0 \<in> set (vn_name (kb_node k))"
  using named_node_name [OF assms]
  by (simp_all add: drive_node_def video_node_def devman_node_def kb_node_def lit_def)

text \<open>Adding a device keeps the blocks of the heap, and everything outside the table and the screen.\<close>

definition table_only :: "u32 \<Rightarrow> 'a kernel_scheme \<Rightarrow> 'a kernel_scheme \<Rightarrow> bool" where
  "table_only H t u \<longleftrightarrow> curr_addr u = curr_addr t \<and> frist_hh u = frist_hh t \<and> last_hh u = last_hh t
     \<and> (\<forall>x. x \<notin> vga_span \<longrightarrow> x \<notin> span (H + 0x2050) 5632 \<longrightarrow> mem u x = mem t x)"

lemma table_only_heap:
  assumes "table_only H t u" and inv: "heap_inv base t bs" and live: "(H + 0x2050, 5632) \<in> live bs"
    and base: "0x100000 \<le> fst base"
  shows "heap_inv base u bs"
proof (rule heap_keep [OF inv])
  fix x assume x: "x \<notin> usable base bs"
  have "vga_span \<subseteq> usable base bs" using base by (auto simp: usable_def off_heap_def vga_span_unat)
  then show "mem u x = mem t x" using x usable_area [OF live, of base] assms(1) by (auto simp: table_only_def)
qed (use assms(1) in \<open>simp_all add: table_only_def\<close>)

lemma stage_add:
  assumes st: "stage base H s gates ds n t" and H: "heap_start base H" and len: "length ds < 64"
    and name: "length (vn_name d) = 55" "0 \<in> set (vn_name d)" and drive: "ds \<noteq> [] \<or> is_master_exist t = 1"
  shows "\<exists>u. devices_add d t = Inr (of_nat (length ds), u) \<and> stage base H s gates (ds @ [d]) n u
    \<and> table_only H t u"
proof -
  have t: "setting base s t" "term_ok t" "devices_are t ds" "m_devices t = H + 0x2050" using st by (simp_all add: stage_def)
  obtain u where u: "devices_add d t = Inr (of_nat (length ds), u)" "devices_are u (ds @ [d])" "term_ok u"
    "calm t (u\<lparr>m_devices_number := m_devices_number t\<rparr>)" "curr_addr u = curr_addr t" "frist_hh u = frist_hh t"
    "last_hh u = last_hh t" "\<forall>x. x \<notin> vga_span \<and> x \<notin> span (H + 0x2050) 5632 \<longrightarrow> mem u x = mem t x"
    using devices_add_run [OF t(3) len t(2) name] t(4) by auto
  note f = calm_kernel [OF u(4)] calm_fields [OF u(4)]
  have "x \<in> untouched base \<Longrightarrow> mem u x = mem t x" for x
    using u(8) untouched_vga [of base] in_heap_span [OF H, of "0x2050" 5632 x] H
    by (auto simp: untouched_def heap_start_def)
  then have "setting base t u" using f by (simp add: setting_def boot_frame_def)
  then have "stage base H s gates (ds @ [d]) n u"
    using st drive f u(2,3) step.R_trans [OF t(1), of u] by (auto simp: stage_def)
  then show ?thesis using u by (auto simp: table_only_def)
qed

text \<open>The drive.\<close>

lemma stage_ports:
  assumes st: "stage base H s gates ds n t" and p: "ports_only t u"
  shows "stage base H s gates ds n u"
  by (rule stage_calm [OF st]) (use ports_keep [OF p] st in \<open>simp_all add: stage_def\<close>)

lemma stage_gates: "stage base H s gates ds n t \<Longrightarrow> stage base H s gates' ds n (t\<lparr>the_idt := gates'\<rparr>)"
  by (auto simp: stage_def setting_def boot_frame_def devices_are_def table_ok_def devices_at_def term_ok_def)

lemma stage_master: "stage base H s gates ds n t \<Longrightarrow> stage base H s gates ds n (t\<lparr>is_master_exist := 1\<rparr>)"
  by (auto simp: stage_def setting_def boot_frame_def devices_are_def table_ok_def devices_at_def term_ok_def)

lemma stage_in8: "stage base H s gates ds n t \<Longrightarrow> in8 t = in8 s"
  by (simp add: stage_def setting_def boot_frame_def)

lemma ata_init_run:
  fixes s t :: "'a kernel_scheme"
  assumes st: "stage base H s gates [] n t" and H: "heap_start base H" and len: "length gates = 256"
    and disk: "ata_disk s" and eax: "eax AND ATA_STATUS_ERR = 0" and junk: "junk_ok k"
  shows "\<exists>u. ata_init primary (fn_ata_read k) eax (stack_junk k) 0x20 t = Inr (0, u)
    \<and> stage base H s (gates[46 := new_gate primary TRAP_GATE_FLAGS, 47 := new_gate primary TRAP_GATE_FLAGS])
        [drive_node k] n u \<and> table_only H t u"
proof -
  define gs where "gs = gates[46 := new_gate primary TRAP_GATE_FLAGS, 47 := new_gate primary TRAP_GATE_FLAGS]"
  define t2 where "t2 = t\<lparr>the_idt := gs\<rparr>"
  define t3 where "t3 = ata_reset (pic_IRQ_remove_mask 15 (pic_IRQ_remove_mask 14 t2))"
  have p3: "ports_only t2 t3" unfolding t3_def by (meson ports.R_trans ports_unmask ports_reset)
  have st2: "stage base H s gs [] n t2" unfolding t2_def by (rule stage_gates [OF st])
  have st3: "stage base H s gs [] n t3" by (rule stage_ports [OF st2 p3])
  obtain t4 where t4: "ide_identify eax t3 = Inr (0, t4)" "ports_only t3 t4"
    using ide_identify_run [OF ata_disk_in8 [OF disk stage_in8 [OF st3]] eax] by blast
  define t5 where "t5 = t4\<lparr>is_master_exist := 1\<rparr>"
  have st5: "stage base H s gs [] n t5" unfolding t5_def by (rule stage_master [OF stage_ports [OF st3 t4(2)]])
  obtain u where u: "devices_add (drive_node k) t5 = Inr (0, u)" "stage base H s gs [drive_node k] n u"
    "table_only H t5 u"
    using stage_add [OF st5 H _ boot_names(1,2) [OF junk]] by (auto simp: t5_def)
  have "ata_init primary (fn_ata_read k) eax (stack_junk k) 0x20 t = Inr (0, u)"
    using st len t4(1) u(1) unfolding ata_init_def
    by (simp add: set_idt_gate_def stage_def gs_def [symmetric] t2_def [symmetric] t3_def [symmetric] t5_def [symmetric]
        drive_node_def named_node_def Let_def)
  moreover have "table_only H t u"
    using u(3) ports_keep [OF p3] ports_keep [OF t4(2)] by (simp add: table_only_def t5_def t2_def)
  ultimately show ?thesis using u(2) by (auto simp: gs_def)
qed

lemma kb_init_run:
  fixes s t :: "'a kernel_scheme"
  assumes st: "stage base H s gates ds n t" and H: "heap_start base H" and len: "length gates = 256" "length ds < 64"
    and junk: "junk_ok k" and drive: "ds \<noteq> []"
  shows "\<exists>u. kb_init handler (fn_keyboard_read k) (stack_junk k) 0x20 t = Inr (of_nat (length ds), u)
    \<and> stage base H s (gates[33 := new_gate handler INT_GATE_FLAGS]) (ds @ [kb_node k]) n u \<and> table_only H t u"
proof -
  define gs where "gs = gates[33 := new_gate handler INT_GATE_FLAGS]"
  define t2 where "t2 = pic_IRQ_remove_mask 1 (t\<lparr>the_idt := gs\<rparr>)"
  have p: "ports_only (t\<lparr>the_idt := gs\<rparr>) t2" unfolding t2_def by (rule ports_unmask)
  have st2: "stage base H s gs ds n t2" by (rule stage_ports [OF stage_gates [OF st] p])
  obtain u where u: "devices_add (kb_node k) t2 = Inr (of_nat (length ds), u)" "stage base H s gs (ds @ [kb_node k]) n u"
    "table_only H t2 u"
    using stage_add [OF st2 H len(2) boot_names(7,8) [OF junk]] drive by auto
  have "kb_init handler (fn_keyboard_read k) (stack_junk k) 0x20 t = Inr (of_nat (length ds), u)"
    using st len(1) u(1) unfolding kb_init_def
    by (simp add: set_idt_gate_def stage_def gs_def [symmetric] t2_def [symmetric] kb_node_def named_node_def Let_def)
  moreover have "table_only H t u" using u(3) ports_keep [OF p] by (simp add: table_only_def)
  ultimately show ?thesis using u(2) by (auto simp: gs_def)
qed

section \<open>The node of a mounted file system\<close>

definition fs_node :: "memory \<Rightarrow> u32 \<Rightarrow> u8 list \<Rightarrow> u32 \<Rightarrow> u32 \<Rightarrow> u32 \<Rightarrow> bool" where
  "fs_node m a nm rd fd dev \<longleftrightarrow> get_bytes m a (length nm) = nm \<and> load32 m (a + 56) = flag_value VFS_FILESYSTEM
     \<and> load32 m (a + 76) = rd \<and> load32 m (a + 80) = fd \<and> load32 m (a + 84) = dev"

definition put_fs_node :: "u32 \<Rightarrow> u8 list \<Rightarrow> u32 \<Rightarrow> u32 \<Rightarrow> u32 \<Rightarrow> memory \<Rightarrow> memory" where
  "put_fs_node a nm rd fd dev m = store32 (a + 84) dev (store32 (a + 80) fd (store32 (a + 76) rd
     (store32 (a + 56) (flag_value VFS_FILESYSTEM) (put_bytes a nm m))))"

lemma fs_node_put: "length nm \<le> 55 \<Longrightarrow> fs_node (put_fs_node a nm rd fd dev m) a nm rd fd dev"
proof -
  assume nm: "length nm \<le> 55"
  have "get_bytes (put_fs_node a nm rd fd dev m) a (length nm) = get_bytes (put_bytes a nm m) a (length nm)"
    using nm by (auto simp: get_bytes_def put_fs_node_def name_byte)
  then show ?thesis
    using nm by (simp add: fs_node_def get_bytes_put put_fs_node_def cells c32_32.ld_st_apart node_fields_apart)
qed

lemma put_fs_node_outside: "length nm \<le> 55 \<Longrightarrow> x \<notin> span a 88 \<Longrightarrow> put_fs_node a nm rd fd dev m x = m x"
proof -
  assume x: "length nm \<le> 55" "x \<notin> span a 88"
  have "x \<notin> span (a + 84) 4" "x \<notin> span (a + 80) 4" "x \<notin> span (a + 76) 4" "x \<notin> span (a + 56) 4"
    "x \<notin> span a (length nm)"
    using x field_in_node [of 84 a] field_in_node [of 80 a] field_in_node [of 76 a] field_in_node [of 56 a]
      span_mono [of "length nm" 88 a] by auto
  then show ?thesis by (simp add: put_fs_node_def put_bytes_outside c32.st_outside)
qed

lemma fs_node_frame:
  assumes "fs_node m a nm rd fd dev" and "length nm \<le> 55" and same: "\<And>x. x \<in> span a 88 \<Longrightarrow> m' x = m x"
  shows "fs_node m' a nm rd fd dev"
proof -
  have "load32 m' (a + i) = load32 m (a + i)" if "unat i + 4 \<le> 88" for i
    by (rule c32.ld_local) (use field_in_node [OF that] same in blast)
  moreover have "get_bytes m' a (length nm) = get_bytes m a (length nm)"
    unfolding get_bytes_def using assms(2) by (auto intro!: same simp: in_span u32_of_nat_unat)
  ultimately show ?thesis using assms(1) by (simp add: fs_node_def)
qed

text \<open>\<open>fat_mount\<close> and \<open>devfs_mount\<close> of a block device do the same with other callbacks.\<close>

definition fs_mount :: "u8 list \<Rightarrow> u32 \<Rightarrow> u32 \<Rightarrow> u32 \<Rightarrow> 'a kheap_scheme \<Rightarrow> (u32, 'a kheap_scheme) run" where
  "fs_mount nm rd fd device s = and_then (malloc 88 s) (\<lambda>node s1.
     Inr (0, s1\<lparr>mem := store32 (device + 84) node (put_fs_node node nm rd fd device (mem s1))\<rparr>))"

lemma fat_mount_node:
  "node_flag s device = flag_value VFS_BLOCK_DEV \<Longrightarrow> node_read s device \<noteq> 0 \<Longrightarrow>
     fat_mount k device s = fs_mount (lit ''FAT16'') (fn_fat_read_dir k) (fn_fat_find_dir k) device s"
  by (simp add: fat_mount_def fs_mount_def put_fs_node_def sizeof_vfs_def)

lemma devfs_mount_node:
  "node_flag s device = flag_value VFS_BLOCK_DEV \<Longrightarrow>
     devfs_mount k device s = fs_mount (lit ''DEVFS'') (fn_devfs_read_dir k) (fn_devfs_find_dir k) device s"
  by (simp add: devfs_mount_def fs_mount_def put_fs_node_def sizeof_vfs_def)

lemma device_fields:
  assumes "stage base H s gates ds n t" and "i < length ds"
  shows "node_flag t (devices_at (of_nat i) t) = vn_flag (ds ! i)"
    and "node_read t (devices_at (of_nat i) t) = vn_read (ds ! i)"
proof -
  have "get_vfs (mem t) (devices_at (of_nat i) t) = ds ! i" using assms by (simp add: stage_def devices_are_def)
  then show "node_flag t (devices_at (of_nat i) t) = vn_flag (ds ! i)"
    "node_read t (devices_at (of_nat i) t) = vn_read (ds ! i)" by (simp_all add: get_vfs_def flip: \<open>_ = ds ! i\<close>)
qed

text \<open>A heap whose blocks hold the table of devices: a step that keeps the areas in use keeps the stage.\<close>

lemma anchored_usable:
  "heap_start base H \<Longrightarrow> (H + 0x2050, 5632) \<in> live bs \<Longrightarrow> anchored base H \<subseteq> usable (base, {}) bs"
  using untouched_off_heap [of base] usable_area [of "H + 0x2050" 5632 bs "(base, {})"]
  by (auto simp: anchored_def usable_def heap_start_def)

lemma stage_heap:
  assumes st: "stage base H s gates ds n t" and H: "heap_start base H" and u: "heap_only t u"
    and live: "(H + 0x2050, 5632) \<in> live bs" and same: "\<forall>x \<in> usable (base, {}) bs. mem u x = mem t x"
  shows "stage base H s gates ds n u"
  by (rule stage_calm [OF st calm_heap [OF u]])
    (use anchored_usable [OF H live] same st u in \<open>auto simp: stage_def heap_only_def term_ok_def\<close>)

lemma stage_mem:
  assumes st: "stage base H s gates ds n t" and same: "\<And>x. x \<in> anchored base H \<Longrightarrow> m x = mem t x"
  shows "stage base H s gates ds n (t\<lparr>mem := m\<rparr>)"
  by (rule stage_calm [OF st calm_mem]) (use st same in \<open>simp_all add: stage_def term_ok_def\<close>)

lemma free_payload:
  assumes inv: "heap_inv base s (xs @ b # ys)" and free: "b_free b"
  shows "payload b \<inter> usable base (xs @ b # ys) = {}"
proof -
  have ld: "laid (fst base) (xs @ b # ys) (unat (curr_addr s))" and hi: "unat (curr_addr s) \<le> 2147483648"
    using inv by (simp_all add: heap_inv_def)
  have ext: "payload c \<subseteq> extent c" if "c \<in> set (xs @ b # ys)" for c
    by (rule payload_extent) (use laid_in [OF ld that] hi in simp)
  have "payload b \<inter> payload c = {}" if "c \<in> set (xs @ b # ys)" "\<not> b_free c" for c
    using laid_extents [OF ld, of c] hi that free ext [of b] ext [OF that(1)] by auto
  moreover have "payload b \<inter> off_heap base = {}"
    using extent_off_heap [OF inv, of b] free ext [of b] by auto
  ultimately show ?thesis by (fastforce simp: usable_def live_def payload_def)
qed

lemma fs_mount_run:
  fixes t :: "'a kernel_scheme"
  assumes st: "stage base H s gates ds n t" and H: "heap_start base H"
    and inv: "heap_inv (base, {}) t bs" and live: "(H + 0x2050, 5632) \<in> live bs"
    and fit: "dropWhile (\<lambda>b. \<not> fits 88 b) bs = Block (H + d) l True # ys"
    and d: "unat d + 104 \<le> 0x2040" "0x70 \<le> unat l" "unat (curr_addr t) \<le> 2147480000"
    and i: "i < length ds" and dev: "device = devices_at (of_nat i) t" and nm: "length nm \<le> 55"
  shows "\<exists>u. fs_mount nm rd fd device t = Inr (0, u)
    \<and> stage base H s gates (ds[i := (ds ! i)\<lparr>vn_master := H + d + 16\<rparr>]) n u
    \<and> heap_inv (base, {}) u (takeWhile (\<lambda>b. \<not> fits 88 b) bs @ a_split 88 (Block (H + d) l True) @ ys)
    \<and> fs_node (mem u) (H + d + 16) nm rd fd device \<and> curr_addr u = curr_addr t
    \<and> (\<forall>x \<in> usable (base, {}) bs - span (H + 0x2050) 5632. mem u x = mem t x)"
proof -
  let ?b = "Block (H + d) l True" and ?a = "H + d + 16"
  define bs' where "bs' = takeWhile (\<lambda>b. \<not> fits 88 b) bs @ a_split 88 ?b @ ys"
  obtain t1 where t1: "malloc 88 t = Inr (?a, t1)" "heap_inv (base, {}) t1 bs'" "heap_only t t1" "curr_addr t1 = curr_addr t"
    "\<forall>x \<in> usable (base, {}) bs. mem t1 x = mem t x"
    using heap_reuse [OF inv fit] d(3) by (force simp: alloc_cost_def heap_space_def bs'_def)
  have bs: "bs = takeWhile (\<lambda>b. \<not> fits 88 b) bs @ ?b # ys" using list_at_fit(1) [OF fit] .
  have "live bs \<subseteq> live bs'" unfolding bs'_def by (subst bs) (auto simp: live_append live_Cons)
  then have live': "(H + 0x2050, 5632) \<in> live bs'" using live by blast
  have node: "(?a, if unat l \<le> 104 then l else 88) \<in> live bs'"
    using d(2) by (auto simp: bs'_def live_append live_Cons a_split_def add.assoc)
  have st1: "stage base H s gates ds n t1" by (rule stage_heap [OF st H t1(3) live t1(5)])
  define m where "m = put_fs_node ?a nm rd fd device (mem t1)"
  have na: "x \<in> span ?a 88 \<longleftrightarrow> base + unat d + 16 \<le> unat x \<and> unat x < base + unat d + 104" for x
  proof -
    have "unat (d + 16) = unat d + 16" using d(1) by (simp add: u32_add_unat)
    then show ?thesis using in_heap_span [OF H, of "d + 16" 88 x] d(1) by (simp add: add.assoc)
  qed
  have off: "span ?a 88 \<inter> anchored base H = {}"
    using na in_heap_span [OF H, of "0x2050" 5632] d(1) H by (auto simp: anchored_def untouched_def heap_start_def)
  have out: "m x = mem t1 x" if "x \<notin> span ?a 88" for x using that nm by (simp add: m_def put_fs_node_outside)
  have st2: "stage base H s gates ds n (t1\<lparr>mem := m\<rparr>)"
    by (rule stage_mem [OF st1]) (use off out in blast)
  define u where "u = t1\<lparr>mem := store32 (device + 84) ?a m\<rparr>"
  have at: "device = devices_at (of_nat i) (t1\<lparr>mem := m\<rparr>)"
    using dev st st1 by (simp add: devices_at_def stage_def)
  have slot: "span (device + 84) 4 \<subseteq> span (H + 0x2050) 5632"
    using st i slot_in_table [of t "of_nat i"] field_in_node [of 84 device] small_unat [of i] dev
    by (fastforce simp: stage_def devices_are_def)
  have outu: "mem u x = m x" if "x \<notin> span (H + 0x2050) 5632" for x
    unfolding u_def using that slot by (auto intro: c32.st_outside)
  have "devices_are u (ds[i := (ds ! i)\<lparr>vn_master := ?a\<rparr>])"
    using devices_are_master [OF _ i at, of ?a] st2 by (simp add: stage_def u_def)
  moreover have "setting base (t1\<lparr>mem := m\<rparr>) u"
    using outu in_heap_span [OF H, of "0x2050" 5632] H
    by (auto simp: setting_def boot_frame_def u_def untouched_def heap_start_def)
  ultimately have "stage base H s gates (ds[i := (ds ! i)\<lparr>vn_master := ?a\<rparr>]) n u"
    using st2 step.R_trans [of base s _ u] by (auto simp: stage_def u_def term_ok_def)
  moreover have "fs_node (mem u) ?a nm rd fd device"
  proof (rule fs_node_frame [OF fs_node_put [OF nm] nm])
    fix x assume "x \<in> span ?a 88"
    then show "mem u x = put_fs_node ?a nm rd fd device (mem t1) x"
      using outu [of x] off unfolding anchored_def m_def by blast
  qed
  moreover have "heap_inv (base, {}) u bs'"
  proof (rule heap_keep [OF t1(2)])
    fix x assume "x \<notin> usable (base, {}) bs'"
    then have "x \<notin> span (H + 0x2050) 5632" "x \<notin> span ?a 88"
      using usable_area [OF live', of "(base, {})"] usable_area [OF node, of "(base, {})"] d(2)
        span_mono [of 88 "unat (if unat l \<le> 104 then l else 88)" ?a] by (auto split: if_splits)
    then show "mem u x = mem t1 x" using outu out by simp
  qed (simp_all add: u_def)
  moreover have "mem u x = mem t x" if x: "x \<in> usable (base, {}) bs" "x \<notin> span (H + 0x2050) 5632" for x
  proof -
    have "span ?a 88 \<subseteq> payload ?b" unfolding payload_def using d(2) by (simp add: span_mono word_le_nat_alt)
    then have "x \<notin> span ?a 88" using free_payload [of "(base, {})" t "takeWhile (\<lambda>b. \<not> fits 88 b) bs" ?b ys] inv bs x(1) by auto
    then show ?thesis using outu [OF x(2)] out t1(5) x(1) by simp
  qed
  moreover have "fs_mount nm rd fd device t = Inr (0, u)" by (simp add: fs_mount_def t1(1) u_def m_def)
  ultimately show ?thesis using t1(4) by (auto simp: u_def bs'_def)
qed

section \<open>Mounting\<close>

text \<open>\<open>fat_check\<close> reads the first sector into a buffer that it gives back.\<close>

definition boot_blocks :: "u32 \<Rightarrow> block list" where
  "boot_blocks H = [Block H 8 False, Block (H + 24) 2024 True, Block (H + 0x2040) 5632 False]"

lemma boot_blocks_live: "(H + 0x2050, 5632) \<in> live (boot_blocks H)" "(H + 16, 8) \<in> live (boot_blocks H)"
  by (simp_all add: boot_blocks_def live_Cons add.assoc)

lemma fat_check_run:
  fixes t :: "'a kernel_scheme"
  assumes st: "stage base H s gates ds n t" and H: "heap_start base H" and inv: "heap_inv (base, {}) t (boot_blocks H)"
    and brk: "unat (curr_addr t) \<le> 2147480000" and disk: "ata_disk s" "ds \<noteq> []"
    and dev: "node_flag t device = flag_value VFS_BLOCK_DEV" "node_read t device = fn_ata_read k" "fn_ata_read k \<noteq> 0"
      "span (device + 60) 4 \<subseteq> span (H + 0x2050) 5632"
  shows "\<exists>u. fat_check k device t = Inr (0, u) \<and> stage base H s gates ds n u \<and> heap_inv (base, {}) u (boot_blocks H)
    \<and> curr_addr u = curr_addr t \<and> (\<forall>x \<in> usable (base, {}) (boot_blocks H). mem u x = mem t x)"
proof -
  define bs where "bs = [Block H 8 False, Block (H + 24) 512 False, Block (H + 0x228) 1496 True, Block (H + 0x2040) 5632 False]"
  obtain t1 where t1: "malloc 512 t = Inr (H + 40, t1)" "heap_inv (base, {}) t1 bs" "heap_only t t1" "curr_addr t1 = curr_addr t"
    "\<forall>x \<in> usable (base, {}) (boot_blocks H). mem t1 x = mem t x"
    using heap_reuse [OF inv, of 512] brk
    by (force simp: boot_blocks_def heap_fits_simps a_split_def alloc_cost_def heap_space_def bs_def add.assoc)
  have live: "(H + 0x2050, 5632) \<in> live bs" "(H + 40, 512) \<in> live bs"
    by (simp_all add: bs_def live_Cons add.assoc)
  have sub: "usable (base, {}) (boot_blocks H) \<subseteq> usable (base, {}) bs"
    by (rule usable_mono) (simp add: boot_blocks_def bs_def live_Cons insert_commute)
  have st1: "stage base H s gates ds n t1" by (rule stage_heap [OF st H t1(3) boot_blocks_live(1) t1(5)])
  have ans: "answers t1"
    using settles_answers ata_disk_in8 [OF disk(1) stage_in8 [OF st1]] by (auto simp: ata_disk_def)
  have one: "[0..<unat (1 :: u32)] = [0]" by simp
  have master: "is_master_exist t1 \<noteq> 0" using st1 disk(2) by (simp add: stage_def)
  obtain ws log where rd: "length ws = 256" "read_sectors 0 (H + 40) [0] t1
      = Inr ((), t1\<lparr>mem := put_bytes (H + 40) (sector_bytes ws) (mem t1), io_log := log\<rparr>)"
    using read_sectors_run [OF ans master, of "[0]" 0 "H + 40"] by auto
  define t2 where "t2 = t1\<lparr>mem := put_bytes (H + 40) (sector_bytes ws) (mem t1), io_log := log\<rparr>"
  have "node_read t1 device = node_read t device"
    by (rule c32.ld_local)
      (use t1(5) dev(4) usable_area [OF boot_blocks_live(1) [of H], of "(base, {})"] in auto)
  then have vr: "vread (device_read k) device 0 1 (H + 40) t1 = Inr (left_eax k, t2)"
    using dev(2,3) rd(2) one by (simp add: vread_def device_read_def ata_read_callback_def t2_def)
  have out2: "mem t2 x = mem t1 x" if "x \<notin> span (H + 40) 512" for x
    using that rd(1) by (simp add: t2_def put_bytes_outside)
  have inv2: "heap_inv (base, {}) t2 bs"
    by (rule heap_keep [OF t1(2)]) (use out2 usable_area [OF live(2), of "(base, {})"] in \<open>auto simp: t2_def\<close>)
  have off: "x \<notin> span (H + 40) 512" if "x \<in> usable (base, {}) (boot_blocks H)" for x
    using free_payload [of "(base, {})" t "[Block H 8 False]" "Block (H + 24) 2024 True" "[Block (H + 0x2040) 5632 False]"]
      inv that span_mono [of 512 2024 "H + 40"]
    by (auto simp: boot_blocks_def payload_def add.assoc)
  have st2: "stage base H s gates ds n t2"
    by (rule stage_calm [OF st1]) (use st1 out2 off anchored_usable [OF H boot_blocks_live(1)]
      in \<open>auto simp: t2_def calm_def stage_def term_ok_def\<close>)
  have free: "a_free (H + 24 + 16) bs = boot_blocks H"
    by (simp add: bs_def boot_blocks_def a_free_def mark_free_def)
  obtain u where u: "free (H + 40) t2 = Inr ((), u)" "heap_inv (base, {}) u (boot_blocks H)" "heap_only t2 u"
    "curr_addr u = curr_addr t2" "\<forall>x \<in> usable (base, {}) (boot_blocks H). mem u x = mem t2 x"
    using heap_release [OF inv2, of "Block (H + 24) 512 False"] free
    by (force simp: bs_def add.assoc)
  have "stage base H s gates ds n u" by (rule stage_heap [OF st2 H u(3) boot_blocks_live(1) u(5)])
  moreover have "fat_check k device t = Inr (0, u)"
    using dev t1(1) vr u(1) by (simp add: fat_check_def)
  ultimately show ?thesis using u t1(4,5) out2 off by (auto simp: t2_def)
qed

section \<open>The mount table\<close>

lemma vprintf_plain:
  "0x25 \<notin> set xs \<Longrightarrow> term_vprintf (xs @ fmt) args s = term_vprintf fmt args (term_puts xs s)"
  by (induction xs arbitrary: s) (auto simp: term_puts_def)

text \<open>A string in memory, off the screen, as an argument of \<open>%s\<close>.\<close>

lemma vprintf_string:
  assumes "term_ok s" and "string_in (- vga_span) (mem s) p cs"
  shows "\<exists>t. term_vprintf (0x25 # 0x73 # fmt) (VWord p # args) s = term_vprintf fmt args t \<and> term_only s t \<and> term_ok t"
proof -
  have "span p (length cs) \<subseteq> span p (Suc (length cs))" by (rule span_mono) simp
  then have "term_writestring p s = Inr ((), term_puts cs s)"
    using writestring_prints [OF assms(1), of p cs] assms(2) by (auto simp: string_in_def)
  then show ?thesis using term_puts_effect [of s cs] assms(1) by (auto simp: term_effect_def)
qed

lemma string_term_only: "string_in (- vga_span) (mem s) p cs \<Longrightarrow> term_only s t \<Longrightarrow> string_in (- vga_span) (mem t) p cs"
  by (erule string_in_frame) (simp add: term_only_def)

lemma puts_run: "term_ok s \<Longrightarrow> term_ok (term_puts xs s) \<and> term_only s (term_puts xs s)"
  using term_puts_effect [of s xs] by (simp add: term_effect_def)

lemma printf_mounted:
  assumes ok: "term_ok s" and p: "string_in (- vga_span) (mem s) p cs" and q: "string_in (- vga_span) (mem s) q ds"
  shows "\<exists>t. term_printf ''Mounted %s in path: %s\<newline>'' [VWord p, VWord q] s = Inr ((), t) \<and> term_only s t \<and> term_ok t"
proof -
  have fmt: "lit ''Mounted %s in path: %s\<newline>'' = lit ''Mounted '' @ 0x25 # 0x73 # lit '' in path: '' @ 0x25 # 0x73 # [10]"
    by (simp add: lit_def)
  have plain: "0x25 \<notin> set (lit ''Mounted '')" "0x25 \<notin> set (lit '' in path: '')" by (simp_all add: lit_def)
  define s1 where "s1 = term_puts (lit ''Mounted '') s"
  have s1: "term_ok s1" "term_only s s1" using puts_run [OF ok] by (simp_all add: s1_def)
  obtain s2 where s2: "term_vprintf (0x25 # 0x73 # lit '' in path: '' @ 0x25 # 0x73 # [10]) [VWord p, VWord q] s1
      = term_vprintf (lit '' in path: '' @ 0x25 # 0x73 # [10]) [VWord q] s2" "term_only s1 s2" "term_ok s2"
    using vprintf_string [OF s1(1) string_term_only [OF p s1(2)]] by blast
  define s3 where "s3 = term_puts (lit '' in path: '') s2"
  have s3: "term_ok s3" "term_only s2 s3" using puts_run [OF s2(3)] by (simp_all add: s3_def)
  have o3: "term_only s s3" using s1(2) s2(2) s3(2) term_only_trans by blast
  obtain s4 where s4: "term_vprintf (0x25 # 0x73 # [10]) [VWord q] s3 = term_vprintf [10] [] s4"
    "term_only s3 s4" "term_ok s4"
    using vprintf_string [OF s3(1) string_term_only [OF q o3]] by blast
  have "term_printf ''Mounted %s in path: %s\<newline>'' [VWord p, VWord q] s = Inr ((), term_puts [10] s4)"
    unfolding term_printf_def fmt vprintf_plain [OF plain(1)] s1_def [symmetric] s2(1) vprintf_plain [OF plain(2)]
      s3_def [symmetric] s4(1) by (simp add: term_puts_def)
  moreover have "term_ok (term_puts [10] s4) \<and> term_only s (term_puts [10] s4)"
    using puts_run [OF s4(3), of "[10]"] s4(2) o3 term_only_trans by blast
  ultimately show ?thesis by blast
qed

lemma bytes_string:
  assumes "get_bytes m a n = bs" and "0 \<in> set bs"
  shows "cstring m a (takeWhile (\<lambda>c. c \<noteq> 0) bs)" and "length (takeWhile (\<lambda>c. c \<noteq> 0) bs) < n"
proof -
  let ?cs = "takeWhile (\<lambda>c. c \<noteq> 0) bs"
  have "?cs \<noteq> bs" using assms(2) by (auto dest: set_takeWhileD simp: takeWhile_eq_all_conv)
  then have len: "length ?cs < length bs"
    using length_takeWhile_le [of "\<lambda>c. c \<noteq> 0" bs] takeWhile_eq_take [of "\<lambda>c. c \<noteq> 0" bs] by (metis le_neq_implies_less take_all_iff order_refl)
  moreover have n: "length bs = n" using assms(1) by (auto simp: get_bytes_def)
  ultimately show "length ?cs < n" by simp
  have at: "m (a + of_nat i) = bs ! i" if "i < n" for i using assms(1) that by (auto simp: get_bytes_def)
  show "cstring m a ?cs"
  proof (rule cstring_intro)
    fix i assume i: "i < length ?cs"
    then show "m (a + of_nat i) = ?cs ! i \<and> ?cs ! i \<noteq> 0"
      using at [of i] len n nth_mem [OF i] set_takeWhileD [of "?cs ! i" "\<lambda>c. c \<noteq> 0" bs] by (auto simp: takeWhile_nth)
  next
    show "m (a + of_nat (length ?cs)) = 0"
      using at [of "length ?cs"] len n nth_length_takeWhile [of "\<lambda>c. c \<noteq> 0" bs] by simp
  qed
qed

lemma device_name_string:
  assumes st: "stage base H s gates ds n t" and H: "heap_start base H" and i: "i < length ds" and nm: "0 \<in> set (vn_name (ds ! i))"
  shows "\<exists>cs. string_in (- vga_span) (mem t) (devices_at (of_nat i) t) cs"
proof -
  let ?a = "devices_at (of_nat i) t"
  have t: "devices_are t ds" "m_devices t = H + 0x2050" "table_ok t" using st by (simp_all add: stage_def devices_are_def)
  have "get_vfs (mem t) ?a = ds ! i" using t(1) i by (simp add: devices_are_def)
  then have nb: "get_bytes (mem t) ?a 55 = vn_name (ds ! i)" by (simp add: get_vfs_def flip: \<open>_ = ds ! i\<close>)
  note cs = bytes_string [OF nb nm]
  have "span ?a 88 \<subseteq> span (m_devices t) 5632"
    by (rule slot_in_table [OF t(3)]) (use i t(1) small_unat [of i] in \<open>simp add: devices_are_def\<close>)
  then have "span ?a (Suc (length (takeWhile (\<lambda>c. c \<noteq> 0) (vn_name (ds ! i))))) \<subseteq> - vga_span"
    using t(3) span_mono [of "Suc (length (takeWhile (\<lambda>c. c \<noteq> 0) (vn_name (ds ! i))))" 88 ?a] cs(2)
    by (fastforce simp: table_ok_def)
  then show ?thesis using cs(1) by (auto simp: string_in_def)
qed

lemma vmount_done_run:
  fixes t :: "'a kernel_scheme"
  assumes st: "stage base H s gates ds n t" and H: "heap_start base H" and n: "unat n \<le> 1"
    and path: "string_in (untouched base) (mem s) path cs"
    and i: "i < length ds" "device = devices_at (of_nat i) t" and nm: "0 \<in> set (vn_name (ds ! i))"
  shows "\<exists>u. vmount_done device path t = Inr (0, u) \<and> stage base H s gates ds (n + 1) u
    \<and> rd32 u (H + 16 + 8 * n) = path \<and> rd32 u (H + 20 + 8 * n) = device
    \<and> curr_addr u = curr_addr t \<and> frist_hh u = frist_hh t \<and> last_hh u = last_hh t
    \<and> (\<forall>x. x \<notin> vga_span \<longrightarrow> x \<notin> span (H + 16 + 8 * n) 8 \<longrightarrow> mem u x = mem t x)"
proof -
  let ?e = "H + 16 + 8 * n"
  have e: "?e = H + (16 + 8 * n)" "unat (16 + 8 * n) = 16 + 8 * unat n" using n by (simp_all add: unat_word_ariths)
  have ent: "x \<in> span ?e 8 \<longleftrightarrow> base + 16 + 8 * unat n \<le> unat x \<and> unat x < base + 24 + 8 * unat n" for x
    unfolding e(1) using in_heap_span [OF H, of "16 + 8 * n" 8 x] e(2) n by (auto simp: algebra_simps)
  have halves: "span ?e 4 \<subseteq> span ?e 8" "span (?e + 4) 4 \<subseteq> span ?e 8"
    using span_sub [of 0 4 8 ?e] span_sub [of 4 4 8 ?e] by simp_all
  have off: "span ?e 8 \<inter> anchored base H = {}" "span ?e 8 \<inter> vga_span = {}"
    using ent in_heap_span [OF H, of "0x2050" 5632] H n
    by (auto simp: anchored_def untouched_def heap_start_def vga_span_unat)
  define m where "m = store32 (?e + 4) device (store32 ?e path (mem t))"
  have out: "m x = mem t x" if "x \<notin> span ?e 8" for x
  proof -
    have "x \<notin> span ?e 4" "x \<notin> span (?e + 4) 4" using that halves by blast+
    then show ?thesis by (simp add: m_def c32.st_outside)
  qed
  have st1: "stage base H s gates ds n (t\<lparr>mem := m\<rparr>)" by (rule stage_mem [OF st]) (use out off in blast)
  define t1 where "t1 = t\<lparr>mem := m, mount_count := n + 1\<rparr>"
  have st2: "stage base H s gates ds (n + 1) t1"
    using st1 unfolding t1_def
    by (auto simp: stage_def setting_def boot_frame_def devices_are_def table_ok_def devices_at_def term_ok_def)
  have add: "add_mount path device t = t1"
    using st by (simp add: add_mount_def t1_def m_def stage_def Let_def)
  obtain ds' where name: "string_in (- vga_span) (mem t1) device ds'"
    using device_name_string [OF st2 H i(1) nm] i(2) by (auto simp: devices_at_def t1_def)
  have "string_in (untouched base) (mem t1) path cs"
    by (rule string_in_frame [OF path]) (use st2 in \<open>simp add: stage_def setting_def\<close>)
  then have pth: "string_in (- vga_span) (mem t1) path cs"
    by (rule string_in_mono) (use untouched_vga [of base] in blast)
  obtain u where u: "term_printf ''Mounted %s in path: %s\<newline>'' [VWord device, VWord path] t1 = Inr ((), u)"
    "term_only t1 u" "term_ok u"
    using printf_mounted [OF _ name pth] st2 by (auto simp: stage_def)
  note c = calm_term [OF u(2)]
  have scr: "x \<notin> vga_span \<Longrightarrow> mem u x = mem t1 x" for x using u(2) by (simp add: term_only_def)
  have "stage base H s gates ds (n + 1) u"
    by (rule stage_calm [OF st2 c(1) u(3)]) (use scr anchored_vga [OF H] in blast)
  moreover have "vmount_done device path t = Inr (0, u)" by (simp add: vmount_done_def add u(1))
  moreover have "rd32 u ?e = path"
  proof -
    have "load32 (mem u) ?e = load32 (mem t1) ?e" by (rule c32.ld_local) (use scr off halves in blast)
    moreover have "load32 m ?e = path" unfolding m_def by (simp only: cells c32_32.ld_st_apart field_apart)
    ultimately show ?thesis by (simp add: t1_def)
  qed
  moreover have "rd32 u (H + 20 + 8 * n) = device"
  proof -
    have "load32 (mem u) (?e + 4) = load32 (mem t1) (?e + 4)" by (rule c32.ld_local) (use scr off halves in blast)
    then have "load32 (mem u) (?e + 4) = device" by (simp add: t1_def m_def cells)
    then show ?thesis by (simp add: algebra_simps)
  qed
  ultimately show ?thesis using c(2-4) scr out by (auto simp: t1_def)
qed

section \<open>The two mounts\<close>

text \<open>The blocks of the heap once the node of the first file system is taken.\<close>

definition mounted_blocks :: "u32 \<Rightarrow> block list" where
  "mounted_blocks H = [Block H 8 False, Block (H + 24) 88 False, Block (H + 128) 1920 True, Block (H + 0x2040) 5632 False]"

lemma mounted_blocks_live:
  "(H + 0x2050, 5632) \<in> live (mounted_blocks H)" "(H + 16, 8) \<in> live (mounted_blocks H)"
  "(H + 40, 88) \<in> live (mounted_blocks H)"
  by (simp_all add: mounted_blocks_def live_Cons add.assoc)

lemma device_slot:
  assumes "stage base H s gates ds n t" and "i < length ds"
  shows "span (devices_at (of_nat i) t) 88 \<subseteq> span (H + 0x2050) 5632"
  using assms slot_in_table [of t "of_nat i"] small_unat [of i] by (auto simp: stage_def devices_are_def)

lemma stage_devices_at:
  "stage base H s gates ds n t \<Longrightarrow> devices_at i t = H + 0x2050 + 88 * i"
  by (simp add: stage_def devices_at_def sizeof_vfs_def)

lemma mount_root_run:
  fixes t :: "'a kernel_scheme"
  assumes st: "stage base H s gates (drive_node k # ds) 0 t" and H: "heap_start base H"
    and inv: "heap_inv (base, {}) t (boot_blocks H)" and brk: "unat (curr_addr t) \<le> 2147480000"
    and disk: "ata_disk s" and junk: "junk_ok k" and read: "fn_ata_read k \<noteq> 0"
    and path: "string_in (untouched base) (mem s) path cs"
  shows "\<exists>u. vmount_device k (devices_at 0 t) path 0 t = Inr (0, u)
    \<and> stage base H s gates ((drive_node k)\<lparr>vn_master := H + 40\<rparr> # ds) 1 u
    \<and> heap_inv (base, {}) u (mounted_blocks H) \<and> curr_addr u = curr_addr t
    \<and> rd32 u (H + 16) = path \<and> rd32 u (H + 20) = H + 0x2050
    \<and> fs_node (mem u) (H + 40) (lit ''FAT16'') (fn_fat_read_dir k) (fn_fat_find_dir k) (H + 0x2050)"
proof -
  have at: "devices_at 0 t = H + 0x2050" using stage_devices_at [OF st, of 0] by simp
  have blk: "vn_flag (drive_node k) = flag_value VFS_BLOCK_DEV" "vn_read (drive_node k) = fn_ata_read k"
    by (simp_all add: drive_node_def)
  have f: "node_flag v (H + 0x2050) = flag_value VFS_BLOCK_DEV" "node_read v (H + 0x2050) = fn_ata_read k"
    if "stage base H s gates (drive_node k # ds) 0 v" for v
    using device_fields [OF that, of 0] stage_devices_at [OF that, of 0] blk by simp_all
  have slot: "span (H + 0x2050 + 60) 4 \<subseteq> span (H + 0x2050) 5632"
    using field_in_node [of 60 "H + 0x2050"] span_mono [of 88 5632 "H + 0x2050"] by simp
  obtain t1 where t1: "fat_check k (H + 0x2050) t = Inr (0, t1)" "stage base H s gates (drive_node k # ds) 0 t1"
    "heap_inv (base, {}) t1 (boot_blocks H)" "curr_addr t1 = curr_addr t" "\<forall>x \<in> usable (base, {}) (boot_blocks H). mem t1 x = mem t x"
    using fat_check_run [OF st H inv brk disk _ f [OF st] read slot] by blast
  have fit: "dropWhile (\<lambda>b. \<not> fits 88 b) (boot_blocks H) = Block (H + 24) 2024 True # [Block (H + 0x2040) 5632 False]"
    "takeWhile (\<lambda>b. \<not> fits 88 b) (boot_blocks H) @ a_split 88 (Block (H + 24) 2024 True) @ [Block (H + 0x2040) 5632 False]
      = mounted_blocks H" "H + 24 + 16 = H + 40"
    by (simp_all add: boot_blocks_def mounted_blocks_def heap_fits_simps a_split_def add.assoc)
  have at1: "H + 0x2050 = devices_at (of_nat 0) t1" using stage_devices_at [OF t1(2), of 0] by simp
  obtain t2 where t2: "fs_mount (lit ''FAT16'') (fn_fat_read_dir k) (fn_fat_find_dir k) (H + 0x2050) t1 = Inr (0, t2)"
    "stage base H s gates ((drive_node k)\<lparr>vn_master := H + 40\<rparr> # ds) 0 t2" "heap_inv (base, {}) t2 (mounted_blocks H)"
    "fs_node (mem t2) (H + 40) (lit ''FAT16'') (fn_fat_read_dir k) (fn_fat_find_dir k) (H + 0x2050)"
    "curr_addr t2 = curr_addr t1"
    using fs_mount_run [OF t1(2) H t1(3) boot_blocks_live(1) fit(1) _ _ _ _ at1, of "lit ''FAT16''"
      "fn_fat_read_dir k" "fn_fat_find_dir k", unfolded fit(2) fit(3)] brk t1(4)
    by (auto simp: lit_def)
  have at2: "H + 0x2050 = devices_at (of_nat 0) t2" using stage_devices_at [OF t2(2), of 0] by simp
  obtain u where u: "vmount_done (H + 0x2050) path t2 = Inr (0, u)"
    "stage base H s gates ((drive_node k)\<lparr>vn_master := H + 40\<rparr> # ds) 1 u"
    "rd32 u (H + 16) = path" "rd32 u (H + 20) = H + 0x2050" "curr_addr u = curr_addr t2" "frist_hh u = frist_hh t2"
    "last_hh u = last_hh t2" "\<forall>x. x \<notin> vga_span \<longrightarrow> x \<notin> span (H + 16) 8 \<longrightarrow> mem u x = mem t2 x"
    using vmount_done_run [OF t2(2) H _ path _ at2] boot_names(2) [OF junk] by auto
  have "heap_inv (base, {}) u (mounted_blocks H)"
  proof (rule heap_keep [OF t2(3) u(5-7)])
    fix x assume "x \<notin> usable (base, {}) (mounted_blocks H)"
    then have "x \<notin> vga_span" "x \<notin> span (H + 16) 8"
      using usable_area [OF mounted_blocks_live(2) [of H], of "(base, {})"] H
      by (auto simp: usable_def off_heap_def vga_span_unat heap_start_def)
    then show "mem u x = mem t2 x" using u(8) by blast
  qed
  moreover have "fs_node (mem u) (H + 40) (lit ''FAT16'') (fn_fat_read_dir k) (fn_fat_find_dir k) (H + 0x2050)"
    by (rule fs_node_frame [OF t2(4)])
      (use u(8) in_heap_span [OF H, of 40 88] in_heap_span [OF H, of 16 8] H in
        \<open>auto simp: lit_def vga_span_unat heap_start_def\<close>)
  moreover have "vmount_device k (devices_at 0 t) path 0 t = Inr (0, u)"
    using t1(1) t2(1) u(1) fat_mount_node [OF f(1) [OF t1(2)], of k] f(2) [OF t1(2)] read by (simp add: vmount_device_def at)
  ultimately show ?thesis using u t1(4) t2(5) by auto
qed

text \<open>The blocks of the heap after the second mount.\<close>

definition full_blocks :: "u32 \<Rightarrow> block list" where
  "full_blocks H = [Block H 8 False, Block (H + 24) 88 False, Block (H + 128) 88 False, Block (H + 232) 1816 True,
     Block (H + 0x2040) 5632 False]"

definition walled_blocks :: "u32 \<Rightarrow> block list" where
  "walled_blocks H = [Block H 8 False, Wall (H + 24) 88, Block (H + 128) 88 False, Block (H + 232) 1816 True,
     Block (H + 0x2040) 5632 False]"

text \<open>What stays of that heap: its start, and the two areas of the wall, the entry of the mount and the node.\<close>

definition boot_base :: "u32 \<Rightarrow> heap_base" where
  "boot_base H = (unat H, {(H + 24, 8), (H + 40, 88)})"

lemma walled_blocks_live:
  "live (walled_blocks H) = {(H + 16, 8), (H + 144, 88), (H + 0x2050, 5632)}"
  by (auto simp: walled_blocks_def live_Cons add.assoc)

text \<open>
  The second mount. The table has room for one entry, so that the entry of this mount lies on the header of the
  block behind it, the one with the node of the first file system: from here on the list of blocks is broken.
\<close>

lemma mount_devfs_run:
  fixes t :: "'a kernel_scheme"
  assumes st: "stage base H s gates ds 1 t" and H: "heap_start base H"
    and inv: "heap_inv (base, {}) t (mounted_blocks H)" and brk: "unat (curr_addr t) \<le> 2147480000"
    and junk: "junk_ok k" and path: "string_in (untouched base) (mem s) path cs" and len: "length ds < 64" "ds \<noteq> []"
  shows "\<exists>u. mount_devfs_device k path t = Inr ((), u)
    \<and> stage base H s gates (ds @ [(devman_node k)\<lparr>vn_master := H + 144\<rparr>]) 2 u
    \<and> rd32 u (H + 24) = path \<and> rd32 u (H + 28) = H + 0x2050 + 88 * of_nat (length ds)
    \<and> fs_node (mem u) (H + 144) (lit ''DEVFS'') (fn_devfs_read_dir k) (fn_devfs_find_dir k)
        (H + 0x2050 + 88 * of_nat (length ds))
    \<and> (\<forall>x \<in> span (H + 16) 8 \<union> span (H + 40) 88. mem u x = mem t x)
    \<and> heap_inv (boot_base H) u (walled_blocks H) \<and> curr_addr u = curr_addr t"
proof -
  let ?n = "length ds" and ?ds = "ds @ [devman_node k]"
  define dev where "dev = H + 0x2050 + 88 * of_nat ?n"
  obtain t1 where t1: "devices_add (devman_node k) t = Inr (of_nat ?n, t1)" "stage base H s gates ?ds 1 t1" "table_only H t t1"
    using stage_add [OF st H len(1) boot_names(5,6) [OF junk]] len(2) by blast
  have inv1: "heap_inv (base, {}) t1 (mounted_blocks H)"
    by (rule table_only_heap [OF t1(3) inv mounted_blocks_live(1)]) (use H in \<open>simp add: heap_start_def\<close>)
  have at1: "dev = devices_at (of_nat ?n) t1" using stage_devices_at [OF t1(2)] by (simp add: dev_def)
  have flag: "node_flag t1 dev = flag_value VFS_BLOCK_DEV"
    using device_fields(1) [OF t1(2), of ?n] by (simp add: at1 devman_node_def)
  have fit: "dropWhile (\<lambda>b. \<not> fits 88 b) (mounted_blocks H) = Block (H + 128) 1920 True # [Block (H + 0x2040) 5632 False]"
    "H + 128 + 16 = H + 144"
    "takeWhile (\<lambda>b. \<not> fits 88 b) (mounted_blocks H) @ a_split 88 (Block (H + 128) 1920 True)
      @ [Block (H + 0x2040) 5632 False] = full_blocks H"
    by (simp_all add: mounted_blocks_def full_blocks_def heap_fits_simps a_split_def add.assoc)
  have brk1: "unat (curr_addr t1) \<le> 2147480000" using t1(3) brk by (simp add: table_only_def)
  obtain t2 where t2: "fs_mount (lit ''DEVFS'') (fn_devfs_read_dir k) (fn_devfs_find_dir k) dev t1 = Inr (0, t2)"
    "stage base H s gates (ds @ [(devman_node k)\<lparr>vn_master := H + 144\<rparr>]) 1 t2"
    "fs_node (mem t2) (H + 144) (lit ''DEVFS'') (fn_devfs_read_dir k) (fn_devfs_find_dir k) dev"
    "\<forall>x \<in> usable (base, {}) (mounted_blocks H) - span (H + 0x2050) 5632. mem t2 x = mem t1 x"
    "heap_inv (base, {}) t2 (full_blocks H)" "curr_addr t2 = curr_addr t1"
    using fs_mount_run [OF t1(2) H inv1 mounted_blocks_live(1) fit(1) _ _ _ _ at1, of "lit ''DEVFS''"
      "fn_devfs_read_dir k" "fn_devfs_find_dir k", unfolded fit(2,3)] brk1
    by (auto simp: lit_def)
  have at2: "dev = devices_at (of_nat ?n) t2" using stage_devices_at [OF t2(2)] by (simp add: dev_def)
  obtain u where u: "vmount_done dev path t2 = Inr (0, u)"
    "stage base H s gates (ds @ [(devman_node k)\<lparr>vn_master := H + 144\<rparr>]) 2 u"
    "rd32 u (H + 24) = path" "rd32 u (H + 28) = dev"
    "\<forall>x. x \<notin> vga_span \<longrightarrow> x \<notin> span (H + 24) 8 \<longrightarrow> mem u x = mem t2 x"
    "curr_addr u = curr_addr t2" "frist_hh u = frist_hh t2" "last_hh u = last_hh t2"
    using vmount_done_run [OF t2(2) H _ path _ at2] boot_names(6) [OF junk] by (auto simp: add.assoc)
  have inv2: "heap_inv (base, {}) t2 ([Block H 8 False] @ Block (H + 24) 88 False
      # [Block (H + 128) 88 False, Block (H + 232) 1816 True, Block (H + 0x2040) 5632 False])"
    using t2(5) by (simp add: full_blocks_def)
  have "heap_inv (base, {(H + 24, 8), (H + 24 + 16, 88)} \<union> {}) u ([Block H 8 False] @ Wall (H + 24) 88
      # [Block (H + 128) 88 False, Block (H + 232) 1816 True, Block (H + 0x2040) 5632 False])"
  proof (rule heap_wall [OF inv2 u(6-8)])
    fix x assume x: "x \<notin> span (H + 24) 8" and "x \<notin> usable (base, {}) ([Block H 8 False] @ Block (H + 24) 88 False
      # [Block (H + 128) 88 False, Block (H + 232) 1816 True, Block (H + 0x2040) 5632 False])"
    then have "x \<notin> vga_span" using H by (auto simp: usable_def off_heap_def vga_span_unat heap_start_def)
    then show "mem u x = mem t2 x" using u(5) x by blast
  qed
  then have wall: "heap_inv (boot_base H) u (walled_blocks H)"
    using H by (simp add: walled_blocks_def boot_base_def heap_start_def add.assoc)
  note sp = in_heap_span [OF H, of 24 8] in_heap_span [OF H, of 144 88] in_heap_span [OF H, of 40 88]
    in_heap_span [OF H, of 16 8] in_heap_span [OF H, of "0x2050" 5632]
  have "fs_node (mem u) (H + 144) (lit ''DEVFS'') (fn_devfs_read_dir k) (fn_devfs_find_dir k) dev"
    by (rule fs_node_frame [OF t2(3)]) (use u(5) sp H in \<open>auto simp: lit_def vga_span_unat heap_start_def\<close>)
  moreover have "mem u x = mem t x" if x: "x \<in> span (H + 16) 8 \<union> span (H + 40) 88" for x
  proof -
    have "x \<in> usable (base, {}) (mounted_blocks H)"
      using x usable_area [OF mounted_blocks_live(2) [of H], of "(base, {})"] usable_area [OF mounted_blocks_live(3) [of H], of "(base, {})"]
      by auto
    moreover have off: "x \<notin> span (H + 0x2050) 5632" "x \<notin> vga_span" "x \<notin> span (H + 24) 8"
      using x sp H by (auto simp: vga_span_unat heap_start_def)
    ultimately have "mem u x = mem t1 x" using u(5) t2(4) by simp
    then show ?thesis using t1(3) off by (simp add: table_only_def)
  qed
  moreover have "mount_devfs_device k path t = Inr ((), u)"
    using t1(1) t2(1) u(1) flag at1 devfs_mount_node [OF flag, of k]
    by (simp add: mount_devfs_device_def devman_node_def named_node_def vmount_device_def devfs_check_def)
  ultimately show ?thesis using u wall t2(6) t1(3) by (auto simp: dev_def table_only_def)
qed

section \<open>The whole phase\<close>

definition device_gates :: "env \<Rightarrow> IdtEntry list \<Rightarrow> IdtEntry list" where
  "device_gates k t = t[46 := new_gate (fn_ata_primary k) TRAP_GATE_FLAGS, 47 := new_gate (fn_ata_primary k) TRAP_GATE_FLAGS,
     33 := new_gate (fn_keyboard_handler k) INT_GATE_FLAGS]"

definition boot_list :: "env \<Rightarrow> u32 \<Rightarrow> Vfs_t list" where
  "boot_list k H = [(drive_node k)\<lparr>vn_master := H + 40\<rparr>, video_node k, (devman_node k)\<lparr>vn_master := H + 144\<rparr>, kb_node k]"

text \<open>The mount table and the nodes of the file systems, as the boot leaves them.\<close>

definition boot_mounts :: "env \<Rightarrow> u32 \<Rightarrow> memory \<Rightarrow> bool" where
  "boot_mounts k H m \<longleftrightarrow> load32 m (H + 16) = str_slash k \<and> load32 m (H + 20) = H + 0x2050
     \<and> load32 m (H + 24) = str_dev k \<and> load32 m (H + 28) = H + 0x2050 + 88 * 2
     \<and> fs_node m (H + 40) (lit ''FAT16'') (fn_fat_read_dir k) (fn_fat_find_dir k) (H + 0x2050)
     \<and> fs_node m (H + 144) (lit ''DEVFS'') (fn_devfs_read_dir k) (fn_devfs_find_dir k) (H + 0x2050 + 88 * 2)"

lemma boot_mounts_frame:
  assumes bm: "boot_mounts k H m" and H: "heap_start base H"
    and same: "\<And>x. base \<le> unat x \<Longrightarrow> unat x < base + 0x2050 \<Longrightarrow> m' x = m x"
  shows "boot_mounts k H m'"
proof -
  have sp: "m' x = m x" if "x \<in> span (H + i) n" "unat i + n \<le> 0x2050" for i n x
    using that in_heap_span [OF H, of i n x] same by auto
  have ld: "load32 m' (H + i) = load32 m (H + i)" if "unat i \<le> 0x204C" for i
    by (rule c32.ld_local) (use sp that in auto)
  have node: "fs_node m (H + i) nm rd fd dev \<Longrightarrow> length nm \<le> 55 \<Longrightarrow> unat i \<le> 0x1FF8 \<Longrightarrow> fs_node m' (H + i) nm rd fd dev"
    for i nm rd fd dev
    by (erule fs_node_frame) (use sp [of _ i 88] in auto)
  show ?thesis using bm unfolding boot_mounts_def by (simp add: ld node lit_def)
qed

text \<open>After the heap is lost, nothing below the table of devices changes any more.\<close>

lemma above_heap:
  assumes "table_only H t u" and H: "heap_start base H" and "base \<le> unat x" and "unat x < base + 0x2050"
  shows "mem u x = mem t x"
  using assms(1,3,4) in_heap_span [OF H, of "0x2050" 5632 x] H
  by (auto simp: table_only_def vga_span_unat heap_start_def)

lemma term_init_device_run:
  assumes "stage base H s gates ds n t" and "heap_start base H" and "length ds < 64" and "junk_ok k" and "ds \<noteq> []"
  shows "\<exists>u. term_init_device k t = Inr ((), u) \<and> stage base H s gates (ds @ [video_node k]) n u \<and> table_only H t u"
  using stage_add [OF assms(1-3) boot_names(3,4) [OF assms(4)]] assms(5)
  by (force simp: term_init_device_def video_node_def named_node_def)

lemma stage_screen:
  assumes st: "stage base H s gates ds n t" and H: "heap_start base H" and u: "term_only t u" "term_ok u"
  shows "stage base H s gates ds n u" and "unat x \<ge> base \<Longrightarrow> mem u x = mem t x"
proof -
  have scr: "x \<notin> vga_span \<Longrightarrow> mem u x = mem t x" for x using u(1) by (simp add: term_only_def)
  show "stage base H s gates ds n u"
    by (rule stage_calm [OF st calm_term(1) [OF u(1)] u(2)]) (use scr anchored_vga [OF H] in blast)
  show "unat x \<ge> base \<Longrightarrow> mem u x = mem t x" using scr H by (simp add: vga_span_unat heap_start_def)
qed

lemma welcome_run:
  fixes t :: "'a kernel_scheme"
  assumes st: "stage base H s gates ds n t" and H: "heap_start base H"
    and u: "u = term_setcolor c (write_lit cs (term_setcolor d (x86_int_on t)))"
  shows "stage base H s gates ds n u" and "unat x \<ge> base \<Longrightarrow> mem u x = mem t x" and "interrupts_on u"
    and "curr_addr u = curr_addr t" and "heap_inv (base, W) t bs \<Longrightarrow> heap_inv (base, W) u bs"
proof -
  have st1: "stage base H s gates ds n (x86_int_on t)"
    using st by (auto simp: x86_int_on_def stage_def setting_def boot_frame_def devices_are_def table_ok_def
        devices_at_def term_ok_def)
  then have ok: "term_ok (x86_int_on t)" by (simp add: stage_def)
  have "term_effect (x86_int_on t) u"
    unfolding u write_lit_def by (intro console_steps console.R_refl)
  then have e: "term_only (x86_int_on t) u" "term_ok u" using ok by (simp_all add: term_effect_def)
  show "stage base H s gates ds n u" by (rule stage_screen(1) [OF st1 H e])
  show "unat x \<ge> base \<Longrightarrow> mem u x = mem t x"
    using stage_screen(2) [OF st1 H e, of x] by (simp add: x86_int_on_def)
  show "interrupts_on u" using calm_kernel(17) [OF calm_term(1) [OF e(1)]] by (simp add: x86_int_on_def)
  note p = calm_term(2-4) [OF e(1)]
  show "curr_addr u = curr_addr t" using p(1) by (simp add: x86_int_on_def)
  assume inv: "heap_inv (base, W) t bs"
  show "heap_inv (base, W) u bs"
  proof (rule heap_keep [OF inv])
    fix x assume "x \<notin> usable (base, W) bs"
    then have "x \<notin> vga_span" using H by (auto simp: usable_def off_heap_def vga_span_unat heap_start_def)
    then show "mem u x = mem t x" using e(1) by (simp add: term_only_def x86_int_on_def)
  qed (use p in \<open>simp_all add: x86_int_on_def\<close>)
qed

lemma boot_devices_run:
  fixes s :: "'a kernel_scheme"
  assumes H: "heap_start base H" and inv: "heap_inv (base, {}) s [Block H 0x800 True]"
    and brk: "unat (curr_addr s) = base + 0x2040" and ok: "term_ok s" and len: "length (the_idt s) = 256"
    and disk: "ata_disk s" and junk: "junk_ok k" and poll: "left_poll k AND ATA_STATUS_ERR = 0" and read: "fn_ata_read k \<noteq> 0"
    and slash: "string_in (untouched base) (mem s) (str_slash k) cs"
    and dev: "string_in (untouched base) (mem s) (str_dev k) ds"
  shows "\<exists>t. boot_devices k s = Inr ((), t) \<and> stage base H s (device_gates k (the_idt s)) (boot_list k H) 2 t
    \<and> interrupts_on t \<and> boot_mounts k H (mem t)
    \<and> heap_inv (boot_base H) t (walled_blocks H) \<and> unat (curr_addr t) = base + 0x7880"
proof -
  define s0 where "s0 = write_lit ''[Init] Setting devices subsystem\<newline>'' s"
  note w = calm_lit [OF ok, where cs = "''[Init] Setting devices subsystem\<newline>''", folded s0_def]
  have base: "base = unat H" "0x100000 \<le> base" "base + 0x10000 \<le> 2147483648" using H by (simp_all add: heap_start_def)
  have off: "vga_span \<subseteq> usable (base, {}) bs" for bs using base by (auto simp: usable_def off_heap_def vga_span_unat)
  have inv0: "heap_inv (base, {}) s0 [Block H 0x800 True]"
    by (rule heap_keep [OF inv w(3-5)]) (use w(6) off in blast)
  have set0: "setting base s s0"
    by (rule setting_calm [OF w(2)]) (use w(6) untouched_vga [of base] in blast)
  have str: "string_in (untouched base) (mem s0) p xs" if "string_in (untouched base) (mem s) p xs" for p xs
    by (rule string_in_frame [OF that]) (use set0 in \<open>simp add: setting_def\<close>)
  define g where "g = the_idt s"
  have g: "the_idt s0 = g" "length g = 256" using calm_kernel(8) [OF w(2)] len by (simp_all add: g_def)
  obtain s1 s2 where s2: "vfs_init s0 = Inr ((), s1)" "devices_init s1 = Inr ((), s2)" "stage base H s0 g [] 0 s2"
    "heap_inv (base, {}) s2 (boot_blocks H)" "unat (curr_addr s2) = base + 0x7880"
    using boot_tables_run [OF H inv0 _ w(1)] w(3) brk g(1) by (auto simp: boot_blocks_def)
  define ga where "ga = g[46 := new_gate (fn_ata_primary k) TRAP_GATE_FLAGS, 47 := new_gate (fn_ata_primary k) TRAP_GATE_FLAGS]"
  obtain s3 where s3: "ata_init (fn_ata_primary k) (fn_ata_read k) (left_poll k) (stack_junk k) 0x20 s2 = Inr (0, s3)"
    "stage base H s0 ga [drive_node k] 0 s3" "table_only H s2 s3"
    using ata_init_run [OF s2(3) H g(2) ata_disk_in8 [OF disk] poll junk] calm_fields(1) [OF w(2)] by (auto simp: ga_def)
  obtain s4 where s4: "term_init_device k s3 = Inr ((), s4)" "stage base H s0 ga [drive_node k, video_node k] 0 s4"
    "table_only H s3 s4"
    using term_init_device_run [OF s3(2) H _ junk] by auto
  have inv4: "heap_inv (base, {}) s4 (boot_blocks H)"
    by (rule table_only_heap [OF s4(3) table_only_heap [OF s3(3) s2(4) boot_blocks_live(1)] boot_blocks_live(1)])
      (use base in auto)
  have brk4: "unat (curr_addr s4) = base + 0x7880" "unat (curr_addr s4) \<le> 2147480000"
    using s2(5) s3(3) s4(3) base by (simp_all add: table_only_def)
  obtain s5 where s5: "vmount_device k (devices_at 0 s4) (str_slash k) 0 s4 = Inr (0, s5)"
    "stage base H s0 ga [(drive_node k)\<lparr>vn_master := H + 40\<rparr>, video_node k] 1 s5"
    "heap_inv (base, {}) s5 (mounted_blocks H)" "curr_addr s5 = curr_addr s4"
    "rd32 s5 (H + 16) = str_slash k" "rd32 s5 (H + 20) = H + 0x2050"
    "fs_node (mem s5) (H + 40) (lit ''FAT16'') (fn_fat_read_dir k) (fn_fat_find_dir k) (H + 0x2050)"
    using mount_root_run [OF s4(2) H inv4 brk4(2) ata_disk_in8 [OF disk calm_fields(1) [OF w(2)]] junk read str [OF slash]]
    by auto
  obtain s6 where s6: "mount_devfs_device k (str_dev k) s5 = Inr ((), s6)"
    "stage base H s0 ga [(drive_node k)\<lparr>vn_master := H + 40\<rparr>, video_node k, (devman_node k)\<lparr>vn_master := H + 144\<rparr>] 2 s6"
    "rd32 s6 (H + 24) = str_dev k" "rd32 s6 (H + 28) = H + 0x2050 + 88 * 2"
    "fs_node (mem s6) (H + 144) (lit ''DEVFS'') (fn_devfs_read_dir k) (fn_devfs_find_dir k) (H + 0x2050 + 88 * 2)"
    "\<forall>x \<in> span (H + 16) 8 \<union> span (H + 40) 88. mem s6 x = mem s5 x"
    "heap_inv (boot_base H) s6 (walled_blocks H)" "unat (curr_addr s6) = base + 0x7880"
    using mount_devfs_run [OF s5(2) H s5(3) _ junk str [OF dev]] brk4 s5(4) by auto
  have half: "span (H + 16) 4 \<subseteq> span (H + 16) 8" "span (H + 20) 4 \<subseteq> span (H + 16) 8"
    using span_sub [of 0 4 8 "H + 16"] span_sub [of 4 4 8 "H + 16"] by (simp_all add: add.assoc)
  have "rd32 s6 (H + 16) = rd32 s5 (H + 16)" "rd32 s6 (H + 20) = rd32 s5 (H + 20)"
    by (rule c32.ld_local; use s6(6) half in blast)+
  moreover have "fs_node (mem s6) (H + 40) (lit ''FAT16'') (fn_fat_read_dir k) (fn_fat_find_dir k) (H + 0x2050)"
    by (rule fs_node_frame [OF s5(7)]) (use s6(6) in \<open>auto simp: lit_def\<close>)
  ultimately have bm6: "boot_mounts k H (mem s6)" using s5(5,6) s6(3-5) unfolding boot_mounts_def by simp
  obtain s7 where s7: "kb_init (fn_keyboard_handler k) (fn_keyboard_read k) (stack_junk k) 0x20 s6 = Inr (3, s7)"
    "stage base H s0 (device_gates k g) (boot_list k H) 2 s7" "table_only H s6 s7"
    using kb_init_run [OF s6(2) H _ _ junk _] g(2) by (auto simp: ga_def device_gates_def boot_list_def)
  have inv7: "heap_inv (boot_base H) s7 (walled_blocks H)"
    by (rule table_only_heap [OF s7(3) s6(7)]) (use base in \<open>simp_all add: walled_blocks_live boot_base_def\<close>)
  have bm7: "boot_mounts k H (mem s7)" by (rule boot_mounts_frame [OF bm6 H]) (rule above_heap [OF s7(3) H])
  define t where "t = term_setcolor (vga_color_value VGA_COLOR_LIGHT_GREY)
    (write_lit ''\<newline>Welcome to CookiesOS (ver. 2.6.5)!\<newline>\<newline>''
      (term_setcolor (vga_color_value VGA_COLOR_LIGHT_GREEN) (x86_int_on s7)))"
  have t: "stage base H s0 (device_gates k g) (boot_list k H) 2 t" "interrupts_on t" "boot_mounts k H (mem t)"
    "heap_inv (boot_base H) t (walled_blocks H)" "curr_addr t = curr_addr s7"
    using welcome_run [OF s7(2) H t_def] boot_mounts_frame [OF bm7 H] inv7 by (blast, blast, blast, simp add: boot_base_def base(1), blast)
  have "stage base H s (device_gates k g) (boot_list k H) 2 t"
    using t(1) step.R_trans [OF set0] by (auto simp: stage_def)
  moreover have "boot_devices k s = Inr ((), t)"
    unfolding boot_devices_def s0_def [symmetric] using s2(1,2) s3(1) s4(1) s5(1) s6(1) s7(1)
    by (simp add: t_def Let_def)
  ultimately show ?thesis using t(2-5) s6(8) s7(3) by (auto simp: g_def table_only_def)
qed

end
