(* ===== verification/Boot_Spec.thy ===== *)
theory Boot_Spec
  imports Boot_Devices
begin

text \<open>
  The boot sequence on a machine with a disk: \<open>kernel_main\<close> gets through to the shell, in a state in which the
  processor, the devices and the mount table are set up.
\<close>

unbundle bit_operations_syntax

section \<open>What the kernel starts from\<close>

text \<open>
  The image of the kernel: from 1 MiB up to the heap, whose first address is \<open>curr_addr\<close>. The two paths that
  \<open>kernel_main\<close> mounts are literals in it.
\<close>

definition image :: "nat \<Rightarrow> u32 set" where
  "image base = {x. 0x100000 \<le> unat x \<and> unat x < base}"

definition linked :: "env \<Rightarrow> nat \<Rightarrow> memory \<Rightarrow> bool" where
  "linked k base m \<longleftrightarrow> string_in (image base) m (str_slash k) (lit ''/'') \<and> string_in (image base) m (str_dev k) (lit ''/DEV/'')
     \<and> fn_ata_read k \<noteq> 0"

text \<open>
  The globals as the linker and the boot loader leave them; the heap has no block yet, and starts in the first
  4 MiB, the part of memory that the page tables of the boot will map.
\<close>

definition loaded :: "'a kernel_scheme \<Rightarrow> bool" where
  "loaded s \<longleftrightarrow> term_ok s \<and> length (the_idt s) = 256 \<and> frist_hh s = 0
     \<and> 0x100000 \<le> unat (curr_addr s) \<and> unat (curr_addr s) + 0x10000 \<le> 0x400000"

text \<open>What uninitialised locals hold: a NUL behind the name of the console, no error bit in the status.\<close>

definition stack_ok :: "env \<Rightarrow> bool" where
  "stack_ok k \<longleftrightarrow> junk_ok k \<and> left_poll k AND ATA_STATUS_ERR = 0"

text \<open>The first region of the memory map is low memory, and its end is above the area the tables take.\<close>

definition low_region :: "memory \<Rightarrow> u32 \<Rightarrow> bool" where
  "low_region m mbi \<longleftrightarrow> mm_addr (first_region m mbi) < 0x400 \<and> 0x20000 \<le> unat (frame_end (first_region m mbi))"

section \<open>Where it gets to\<close>

definition booted :: "env \<Rightarrow> 'a kernel_scheme \<Rightarrow> 'a kernel_scheme \<Rightarrow> bool" where
  "booted k s t \<longleftrightarrow>
     paged t \<and> frames t = 0x400 \<and> 32 \<le> unat (frames_max t)
     \<and> (\<forall>v. translate (mem t) (cr3 t) v = (if v < 0x400000 then Some v else None))
     \<and> gdt_loaded t \<and> idtr_loaded t \<and> idtr_base t = idt_address k
     \<and> the_idt t = device_gates k (boot_gates k (the_idt s)) \<and> interrupts_on t
     \<and> m_devices t = curr_addr s + 0x2050 \<and> devices_are t (boot_list k (curr_addr s)) \<and> is_master_exist t = 1
     \<and> mount_points t = curr_addr s + 16 \<and> mount_count t = 2 \<and> boot_mounts k (curr_addr s) (mem t)
     \<and> heap_inv (boot_base (curr_addr s)) t (walled_blocks (curr_addr s))
     \<and> unat (curr_addr t) = unat (curr_addr s) + 0x7880
     \<and> boot_frame s t \<and> term_ok t \<and> (\<forall>x \<in> image (unat (curr_addr s)). mem t x = mem s x)"

lemma boot_run:
  fixes s :: "'a kernel_scheme"
  assumes "loaded s" and "stack_ok k" and "linked k (unat (curr_addr s)) (mem s)" and "ata_disk s"
    and "good_map (mem s) mbi" and "low_region (mem s) mbi"
  shows "\<exists>t. booted k s t \<and> kernel_main k out mbi chs s = mini_shell k out chs t"
proof -
  define H base where "H = curr_addr s" and "base = unat H"
  have ld: "term_ok s" "length (the_idt s) = 256" "frist_hh s = 0" "heap_start base H"
    using assms(1) by (simp_all add: loaded_def heap_start_def H_def base_def)
  have base: "0x100000 \<le> base" "base + 0x10000 \<le> 2147483648" using ld(4) by (simp_all add: heap_start_def)
  define fe where "fe = frame_end (first_region (mem s) mbi)"
  have reg: "frame_start (first_region (mem s) mbi) = 0x400" "0x20000 \<le> unat fe"
    using assms(6) by (simp_all add: low_region_def frame_start_def fe_def)
  obtain t1 where t1: "boot_memory mbi s = Inr ((0x400, fe), t1)" "term_only s t1" "term_ok t1"
    using boot_memory_run [OF ld(1) assms(5)] reg(1) by (auto simp: fe_def)
  note c1 = calm_term [OF t1(2)]
  note f1 = calm_kernel [OF c1(1)]
  have m1: "mem t1 x = mem s x" if "x \<notin> vga_span" for x using t1(2) that by (simp add: term_only_def)
  have len1: "length (the_idt t1) = 256" using f1 ld(2) by simp
  obtain t2 where t2: "boot_idt k t1 = Inr ((), t2)" "boot_frame t1 t2" "term_ok t2"
    "the_idt t2 = boot_gates k (the_idt s)" "idtr_loaded t2" "idtr_base t2 = idt_address k" "gdt_loaded t2"
    "curr_addr t2 = H" "frist_hh t2 = 0" "\<forall>x. x \<notin> vga_span \<longrightarrow> mem t2 x = mem t1 x"
    using boot_idt_run [OF t1(3) len1, of k] f1 c1 ld(3) by (auto simp: H_def)
  obtain t3 where t3: "boot_paging 0x400 fe t2 = Inr ((), t3)" "boot_frame t2 t3" "term_ok t3" "paged t3"
    "the_idt t3 = the_idt t2" "idtr_loaded t3 = idtr_loaded t2" "idtr_base t3 = idtr_base t2" "gdt_loaded t3 = gdt_loaded t2"
    "heap_inv (base, {}) t3 [Block H 0x800 True]" "unat (curr_addr t3) = base + 0x2040"
    "\<forall>x. 0x100000 \<le> unat x \<and> unat x < base \<longrightarrow> mem t3 x = mem t2 x" "frames t3 = 0x400" "frames_max t3 = fe div 4096"
    using boot_paging_run [OF t2(3) t2(9) _ base reg(2)] t2(8) by (auto simp: base_def)
  have fr3: "boot_frame s t3"
    by (rule booting.R_trans [OF calm_boot [OF c1(1)] booting.R_trans [OF t2(2) t3(2)]])
  have img3: "mem t3 x = mem s x" if "x \<in> image base" for x
  proof -
    have "x \<notin> vga_span" using that by (simp add: image_def vga_span_unat)
    then show ?thesis using that t3(11) t2(10) m1 by (simp add: image_def)
  qed
  have sub: "image base \<subseteq> untouched base" by (auto simp: image_def untouched_def)
  have str: "string_in (untouched base) (mem t3) p cs" if "string_in (image base) (mem s) p cs" for p cs
    using string_in_mono [OF string_in_frame [OF that img3] sub] .
  have disk3: "ata_disk t3" using ata_disk_in8 [OF assms(4), of t3] fr3 by (simp add: boot_frame_def)
  have lk: "string_in (untouched base) (mem t3) (str_slash k) (lit ''/'')"
    "string_in (untouched base) (mem t3) (str_dev k) (lit ''/DEV/'')" "fn_ata_read k \<noteq> 0"
    using assms(3) str by (simp_all add: linked_def base_def H_def)
  have stk: "junk_ok k" "left_poll k AND ATA_STATUS_ERR = 0" using assms(2) by (simp_all add: stack_ok_def)
  have len3: "length (the_idt t3) = 256" using t3(5) t2(4) ld(2) by simp
  obtain t where t: "boot_devices k t3 = Inr ((), t)"
    "stage base H t3 (device_gates k (the_idt t3)) (boot_list k H) 2 t" "interrupts_on t" "boot_mounts k H (mem t)"
    "heap_inv (boot_base H) t (walled_blocks H)" "unat (curr_addr t) = base + 0x7880"
    using boot_devices_run [OF ld(4) t3(9,10,3) len3 disk3 stk lk(3,1,2)] by blast
  have set: "setting base t3 t" using t(2) by (simp add: stage_def)
  have "booted k s t"
    unfolding booted_def
  proof (intro conjI)
    have pg: "paged t" by (rule setting_paged [OF set t3(4)])
    show "\<forall>v. translate (mem t) (cr3 t) v = (if v < 0x400000 then Some v else None)"
      by (rule allI) (rule paged_identity [OF pg])
    show "paged t" by (rule pg)
    have "unat (frames_max t) = unat fe div 4096" using set t3(13) by (simp add: setting_def unat_div)
    then show "32 \<le> unat (frames_max t)" using reg(2) by simp
    show "\<forall>x \<in> image (unat (curr_addr s)). mem t x = mem s x"
      using set sub img3 by (auto simp: setting_def base_def H_def)
    show "boot_frame s t" using booting.R_trans [OF fr3] set by (simp add: setting_def)
  qed (use set t t2 t3 in \<open>simp_all add: setting_def stage_def base_def H_def boot_list_def\<close>)
  moreover have "kernel_main k out mbi chs s = mini_shell k out chs t"
    by (simp add: kernel_main_def t1(1) t2(1) t3(1) t(1))
  ultimately show ?thesis by blast
qed

text \<open>
  C1. The kernel boots. On a machine with an ATA disk whose boot loader hands over a memory map that begins with
  low memory, \<open>kernel_main\<close> gets to the shell, without an error, a halt or a loop that does not end. Then paging
  is on and maps the first 4 MiB to themselves; the interrupt table holds the handlers of the exceptions, the
  timer, the keyboard, the drive and the system calls, and interrupts are on; the four devices are in the table;
  the drive is mounted on / and the table of devices on /DEV/, each with the node of its file system; the image of
  the kernel is as it was loaded; and the heap is in order but for one block, that of the node of the first file
  system, which the second mount makes a wall.
\<close>

theorem kernel_main_boots:
  fixes s :: "'a kernel_scheme"
  assumes "loaded s" and "stack_ok k" and "linked k (unat (curr_addr s)) (mem s)" and "ata_disk s"
    and "good_map (mem s) mbi" and "low_region (mem s) mbi"
  shows "\<exists>t. booted k s t \<and> kernel_main k out mbi chs s = mini_shell k out chs t"
  using assms by (rule boot_run)

section \<open>A machine\<close>

text \<open>
  A disk that is always ready, low memory with the block of the boot loader and a map of one region, and in the
  image the two mount paths, paths to open and a program.
\<close>

definition boot_machine :: kernel where
  "boot_machine = kernel_start\<lparr>in8 := (\<lambda>log p. if p = 0x1F7 then 0x40 else 0),
     mem := place [(0x100000, lit ''/''), (0x100010, lit ''/DEV/''), (0x100020, lit ''/HI''), (0x100030, lit ''/DEV/kb''), (0x100040, lit ''/Z''),
       (0x100050, lit ''/RE/HI''), (0x100060, lit ''/BIN/INIT''),
       (0x9000, [0x40]), (0x9030, [0, 0x91]),
       (0x910C, [0, 0xFC, 9]), (0x101000, sample_elf)] (\<lambda>_. 0)\<rparr>"

definition machine_env :: env where
  "machine_env = boot_env\<lparr>str_slash := 0x100000, str_dev := 0x100010, str_bin_init := 0x100060\<rparr>"

lemmas machine_mem = boot_machine_def place_def put_bytes_def in_span lit_def

lemma machine_disk: "ata_disk boot_machine"
  by (simp add: ata_disk_def settles_def boot_machine_def ATA_STATUS_BSY_def ATA_STATUS_RDY_def)

lemma machine_map: "good_map (mem boot_machine) 0x9000 \<and> low_region (mem boot_machine) 0x9000"
proof -
  have "mbi_flags (get_multiboot_info (mem boot_machine) 0x9000) = 0x40"
    "mbi_mmap_addr (get_multiboot_info (mem boot_machine) 0x9000) = 0x9100"
    by (simp_all add: get_multiboot_info_def load32_def machine_mem)
  moreover have "mm_addr (get_mmap_entry (mem boot_machine) 0x9100) = 0"
    "mm_len (get_mmap_entry (mem boot_machine) 0x9100) = 0x9FC00"
    by (simp_all add: get_mmap_entry_def load64_def load32_def machine_mem unsigned_minus_1_eq_mask mask_eq_exp_minus_1)
  ultimately show ?thesis
    by (auto simp: good_map_def low_region_def first_region_def frame_start_def frame_end_def in_span_unat vga_span_unat)
qed

lemma machine_linked: "linked machine_env 0x200000 (mem boot_machine)"
proof -
  have "span 0x100000 (Suc (length (lit ''/''))) \<subseteq> image 0x200000"
    "span 0x100010 (Suc (length (lit ''/DEV/''))) \<subseteq> image 0x200000"
    by (auto simp: image_def in_span_unat lit_def)
  moreover have "cstring (mem boot_machine) 0x100000 (lit ''/'')" "cstring (mem boot_machine) 0x100010 (lit ''/DEV/'')"
    by (simp_all add: machine_mem)
  ultimately show ?thesis by (simp add: linked_def string_in_def machine_env_def boot_env_def lit_def)
qed

lemma machine_ok:
  "loaded boot_machine" "stack_ok machine_env" "linked machine_env (unat (curr_addr boot_machine)) (mem boot_machine)"
  using machine_linked
  by (simp_all add: loaded_def boot_machine_def kernel_start_def term_ok_def vga_consts stack_ok_def junk_ok_def
      machine_env_def boot_env_def)

lemma machine_boots: "\<exists>t. booted machine_env boot_machine t"
  using boot_run [OF machine_ok machine_disk machine_map [THEN conjunct1] machine_map [THEN conjunct2]] by blast

lemma kernel_main_boots_witness:
  "\<exists>t. booted machine_env boot_machine t
    \<and> kernel_main machine_env no_program 0x9000 [] boot_machine = mini_shell machine_env no_program [] t"
  by (rule kernel_main_boots) (simp_all add: machine_ok machine_disk machine_map)

end
