(* ===== verification/Node_Types.thy ===== *)
theory Node_Types
  imports Boot_Spec
begin

text \<open>
  The function pointers of the devices are typed: every callback is 0 or the address of a function of the kind
  its field is called as. The boot sequence builds such a table, and calls through the nodes of such a table,
  in any order and with any arguments whose buffer is not the table itself, come back and leave it as it is.
\<close>

section \<open>Typed nodes\<close>

definition linked_apart :: "env \<Rightarrow> bool" where
  "linked_apart k \<longleftrightarrow> distinct (callbacks k) \<and> 0 \<notin> set (callbacks k)"

definition device_typed :: "env \<Rightarrow> Vfs_t \<Rightarrow> bool" where
  "device_typed k v \<longleftrightarrow> vn_read v \<in> {0, fn_ata_read k, fn_keyboard_read k} \<and> vn_write v \<in> {0, fn_term_write k}
     \<and> vn_open v = 0 \<and> vn_close v = 0 \<and> vn_flag v \<in> flag_value ` {VFS_CHAR_DEV, VFS_BLOCK_DEV}"

text \<open>What the calls rely on besides the table: a cursor on the screen, a keyboard buffer, a drive that answers.\<close>

definition devices_ready :: "env \<Rightarrow> 'a ata_scheme \<Rightarrow> Vfs_t list \<Rightarrow> bool" where
  "devices_ready k s ds \<longleftrightarrow> devices_are s ds \<and> list_all (device_typed k) ds
     \<and> term_ok s \<and> kb_inv s \<and> answers s \<and> is_master_exist s \<noteq> 0"

section \<open>Calls\<close>

datatype node_op = Read_node u32 u32 u32 | Write_node u32 u32 u32 | Open_node | Close_node
  | List_node u32 u32 | Find_node u32 u32

fun node_call :: "env \<Rightarrow> u32 \<Rightarrow> node_op \<Rightarrow> 'a vfs_scheme \<Rightarrow> (u32, 'a vfs_scheme) run" where
  "node_call k node (Read_node off sz p) s = vread (call_read k) node off sz p s"
| "node_call k node (Write_node off sz p) s = vwrite (device_write k) node off sz p s"
| "node_call k node Open_node s = vopen no_call node s"
| "node_call k node Close_node s = vclose no_call node s"
| "node_call k node (List_node i p) s = vread_dir (call_read_dir k) node i p s"
| "node_call k node (Find_node nm p) s = vfind_dir (call_find_dir k) node nm p s"

text \<open>The bytes a call may store, by the rules of the drive and of the keyboard.\<close>

fun op_target :: "node_op \<Rightarrow> u32 set" where
  "op_target (Read_node off sz p) = span p (512 * unat sz) \<union> span (p + off) (unat sz)"
| "op_target _ = {}"

fun op_fits :: "node_op \<Rightarrow> bool" where
  "op_fits (Read_node off sz p) \<longleftrightarrow> unat sz \<le> 8388608 \<and> unat off + unat sz < 4294967296"
| "op_fits _ \<longleftrightarrow> True"

definition op_ok :: "u32 set \<Rightarrow> node_op \<Rightarrow> bool" where
  "op_ok A op \<longleftrightarrow> op_fits op \<and> op_target op \<inter> A = {}"

fun node_calls :: "env \<Rightarrow> (nat \<times> node_op) list \<Rightarrow> 'a vfs_scheme \<Rightarrow> (u32 list, 'a vfs_scheme) run" where
  "node_calls k [] s = Inr ([], s)"
| "node_calls k ((i, op) # ops) s = and_then (node_call k (devices_at (of_nat i) s) op s) (\<lambda>r t.
     and_then (node_calls k ops t) (\<lambda>rs u. Inr (r # rs, u)))"

section \<open>Each call keeps the table\<close>

text \<open>What reading the keyboard changes.\<close>

definition kb_only :: "'a keyboard_scheme \<Rightarrow> 'a keyboard_scheme \<Rightarrow> bool" where
  "kb_only s t \<longleftrightarrow> t = s\<lparr>mem := mem t, handled_index := handled_index t, kb_signal := kb_signal t\<rparr>"

interpretation kb_reading: effect kb_only
proof
  fix s t u :: "'a keyboard_scheme"
  show "kb_only s s" by (simp add: kb_only_def)
  show "kb_only s t \<Longrightarrow> kb_only t u \<Longrightarrow> kb_only s u"
    by (cases s; cases t; cases u; simp add: kb_only_def)
qed

lemma keyboard_read_only: "kb_only s (snd (keyboard_read_callback node offset n buffer s))"
proof -
  define t where "t = fold (read_round offset buffer) [0..<unat (offset + n)] s"
  have "kb_only s (read_round offset buffer i s)" for i and s :: "'a keyboard_scheme"
    by (simp add: read_round_def kb_get_def Let_def kb_only_def)
  then have "kb_only s t" unfolding t_def by (rule kb_reading.fold_effect)
  moreover have "kb_only t (t\<lparr>kb_signal := 0\<rparr>)" by (simp add: kb_only_def)
  ultimately have "kb_only s (t\<lparr>kb_signal := 0\<rparr>)" by (rule kb_reading.R_trans)
  then show ?thesis by (simp add: keyboard_read_callback_def Let_def read_round_def [abs_def] t_def)
qed

lemma kb_only_fields:
  fixes s t :: "'a ata_scheme"
  assumes "kb_only s t"
  shows "term_row t = term_row s" "term_column t = term_column s" "in8 t = in8 s" "m_devices t = m_devices s"
    "m_devices_number t = m_devices_number s" "is_master_exist t = is_master_exist s"
  using assms by (cases s; cases t; simp add: kb_only_def)+

lemma device_fields_typed:
  assumes "devices_ready k s ds" and "i < length ds"
  defines "a \<equiv> devices_at (of_nat i) s"
  shows "node_read s a \<in> {0, fn_ata_read k, fn_keyboard_read k}" "node_write s a \<in> {0, fn_term_write k}"
    "node_open s a = 0" "node_close s a = 0" "\<not> is_dir (node_flag s a)"
proof -
  have v: "get_vfs (mem s) a = ds ! i" "device_typed k (ds ! i)"
    using assms by (simp_all add: devices_ready_def devices_are_def list_all_length)
  then have "device_typed k (get_vfs (mem s) a)" by simp
  then show "node_read s a \<in> {0, fn_ata_read k, fn_keyboard_read k}" "node_write s a \<in> {0, fn_term_write k}"
    "node_open s a = 0" "node_close s a = 0" "\<not> is_dir (node_flag s a)"
    by (auto simp: device_typed_def get_vfs_def is_dir_def)
qed

lemma ready_frame:
  assumes rd: "devices_ready k s ds" and "m_devices t = m_devices s" "m_devices_number t = m_devices_number s"
    and same: "\<And>x. x \<in> span (m_devices s) 5632 \<Longrightarrow> mem t x = mem s x"
    and "term_ok t" "kb_inv t" "in8 t = in8 s" "is_master_exist t = is_master_exist s"
  shows "devices_ready k t ds"
  using devices_are_frame [OF _ assms(2,3) same] rd assms(5-8) answers_in8 [OF assms(7)]
  by (simp add: devices_ready_def)

lemma ata_call:
  fixes s :: "'a ata_scheme"
  assumes rd: "devices_ready k s ds" and sz: "unat sz \<le> 8388608" and off: "span p (512 * unat sz) \<inter> span (m_devices s) 5632 = {}"
  shows "\<exists>r t. ata_read_callback eax node off sz p s = Inr (r, t) \<and> devices_ready k t ds \<and> m_devices t = m_devices s"
proof -
  obtain ws log where run: "length ws = 256 * length [0..<unat sz]" "read_sectors off p [0..<unat sz] s
      = Inr ((), s\<lparr>mem := put_bytes p (sector_bytes ws) (mem s), io_log := log\<rparr>)"
    using read_sectors_run [of s "[0..<unat sz]" off p] rd sz by (auto simp: devices_ready_def)
  let ?t = "s\<lparr>mem := put_bytes p (sector_bytes ws) (mem s), io_log := log\<rparr>"
  have "put_bytes p (sector_bytes ws) (mem s) x = mem s x" if "x \<in> span (m_devices s) 5632" for x
    using that off run(1) by (intro put_bytes_outside) auto
  then have "devices_ready k ?t ds"
    by (intro ready_frame [OF rd]) (use rd in \<open>auto simp: devices_ready_def term_ok_def kb_inv_def\<close>)
  then show ?thesis using run(2) by (simp add: ata_read_callback_def)
qed

lemma keyboard_call:
  fixes s :: "'a ata_scheme"
  assumes rd: "devices_ready k s ds" and sz: "unat off + unat sz < 4294967296"
    and out: "span (p + off) (unat sz) \<inter> span (m_devices s) 5632 = {}"
  shows "\<exists>r t. keyboard_read_callback node off sz p s = (r, t) \<and> devices_ready k t ds \<and> m_devices t = m_devices s"
proof -
  obtain r t where t: "keyboard_read_callback node off sz p s = (r, t)"
    "mem t = put_bytes (p + off) (fst (a_gets (unat sz) (abs_kb s))) (mem s)" "kb_inv t"
    using keyboard_read_stores [of s off sz node p] rd sz by (auto simp: devices_ready_def)
  have only: "kb_only s t" using keyboard_read_only [of s node off sz p] t(1) by simp
  have "mem t x = mem s x" if "x \<in> span (m_devices s) 5632" for x
    unfolding t(2) using that out by (intro put_bytes_outside) (auto simp: a_gets_length)
  then have "devices_ready k t ds"
    by (intro ready_frame [OF rd]) (use rd kb_only_fields [OF only] t(3) in \<open>simp_all add: devices_ready_def term_ok_def\<close>)
  then show ?thesis using t(1) kb_only_fields(4) [OF only] by blast
qed

lemma term_call:
  fixes s :: "'a ata_scheme"
  assumes rd: "devices_ready k s ds"
  shows "devices_ready k (term_write p n s) ds" and "m_devices (term_write p n s) = m_devices s"
proof -
  have e: "term_only s (term_write p n s)" "term_ok (term_write p n s)"
    using term_write_effect [of s p n] rd by (simp_all add: term_effect_def devices_ready_def)
  then have more: "in8 (term_write p n s) = in8 s" "terminal.more (term_write p n s) = terminal.more s"
    "\<And>x. x \<notin> vga_span \<Longrightarrow> mem (term_write p n s) x = mem s x" by (simp_all add: term_only_def)
  then show "m_devices (term_write p n s) = m_devices s" by (cases s; cases "term_write p n s"; simp)
  show "devices_ready k (term_write p n s) ds"
  proof (rule ready_frame [OF rd])
    show "mem (term_write p n s) x = mem s x" if "x \<in> span (m_devices s) 5632" for x
      using that rd more(3) by (auto simp: devices_ready_def devices_are_def table_ok_def)
    show "kb_inv (term_write p n s)"
      using rd more(2) by (cases s; cases "term_write p n s"; simp add: devices_ready_def kb_inv_def)
  qed (use e(2) more(1,2) in \<open>cases s; cases "term_write p n s"; simp\<close>)+
qed

lemma node_call_typed:
  fixes s :: "'a vfs_scheme"
  assumes rd: "devices_ready k s ds" and i: "i < length ds" and link: "linked_apart k" and op: "op_ok (span (m_devices s) 5632) op"
  shows "\<exists>r t. node_call k (devices_at (of_nat i) s) op s = Inr (r, t) \<and> devices_ready k t ds \<and> m_devices t = m_devices s"
proof -
  note f = device_fields_typed [OF rd i]
  have kinds: "fn_ata_read k \<noteq> 0" "fn_ata_read k \<noteq> fn_fat_file_read k" "fn_keyboard_read k \<noteq> fn_fat_file_read k"
    "fn_keyboard_read k \<noteq> fn_ata_read k" "fn_keyboard_read k \<noteq> 0" "fn_term_write k \<noteq> 0"
    using link by (auto simp: linked_apart_def callbacks_def)
  show ?thesis
  proof (cases op)
    case (Read_node off sz p)
    have fit: "unat sz \<le> 8388608" "unat off + unat sz < 4294967296"
      "span p (512 * unat sz) \<inter> span (m_devices s) 5632 = {}" "span (p + off) (unat sz) \<inter> span (m_devices s) 5632 = {}"
      using op Read_node by (auto simp: op_ok_def)
    show ?thesis
      using f(1) ata_call [OF rd fit(1,3)] keyboard_call [OF rd fit(2,4)] rd Read_node kinds
      by (force simp: vread_def call_read_def device_read_def)
  next
    case (Write_node off sz p)
    then show ?thesis
      using f(2) term_call [OF rd] rd kinds by (auto simp: vwrite_def device_write_def term_write_callback_def)
  qed (use f(3-5) rd in \<open>auto simp: vopen_def vclose_def vread_dir_def vfind_dir_def\<close>)
qed

lemma node_calls_typed:
  fixes s :: "'a vfs_scheme"
  assumes "devices_ready k s ds" and "linked_apart k"
    and "\<forall>(i, op) \<in> set ops. i < length ds \<and> op_ok (span (m_devices s) 5632) op"
  shows "\<exists>rs t. node_calls k ops s = Inr (rs, t) \<and> length rs = length ops \<and> devices_ready k t ds"
  using assms(1,3)
proof (induction ops arbitrary: s)
  case (Cons c ops)
  obtain i op where c: "c = (i, op)" by (cases c)
  obtain r t where t: "node_call k (devices_at (of_nat i) s) op s = Inr (r, t)" "devices_ready k t ds" "m_devices t = m_devices s"
    using node_call_typed [OF Cons.prems(1) _ assms(2), of i op] Cons.prems(2) c by auto
  obtain rs u where "node_calls k ops t = Inr (rs, u)" "length rs = length ops" "devices_ready k u ds"
    using Cons.IH [OF t(2)] Cons.prems(2) t(3) by auto
  then show ?case using t(1) by (simp add: c)
qed simp

section \<open>After the boot\<close>

lemma boot_list_typed: "list_all (device_typed k) (boot_list k H)"
  by (auto simp: boot_list_def device_typed_def drive_node_def video_node_def devman_node_def kb_node_def
      named_node_def copy_name_def vfs_node_new_def)

lemma booted_ready:
  assumes "booted k s t" and "ata_disk s" and "kb_inv s"
  shows "devices_ready k t (boot_list k (curr_addr s))"
proof -
  have b: "devices_are t (boot_list k (curr_addr s))" "is_master_exist t = 1" "boot_frame s t" "term_ok t"
    using assms(1) by (simp_all add: booted_def)
  have "answers t" using settles_answers [of t] ata_disk_in8 [OF assms(2), of t] b(3) by (simp add: ata_disk_def boot_frame_def)
  moreover have "kb_inv t" using b(3) assms(3) by (simp add: boot_frame_def kb_inv_def)
  ultimately show ?thesis using b boot_list_typed by (simp add: devices_ready_def)
qed

text \<open>
  C7. The devices are typed. In the state the boot sequence leaves, every callback of every device is absent or a
  function of the kind its field is called as; so any sequence of reads, writes, opens, closes and look-ups on the
  devices, with any arguments whose buffer is not the table itself, returns from every call, and the table of
  devices is the same behind it.
\<close>

theorem booted_devices_typed:
  fixes s t :: "'a kernel_scheme"
  assumes "booted k s t" and "ata_disk s" and "kb_inv s" and "linked_apart k"
    and "\<forall>(i, op) \<in> set ops. i < 4 \<and> op_ok (span (m_devices t) 5632) op"
  shows "list_all (device_typed k) (boot_list k (curr_addr s))
    \<and> (\<exists>rs u. node_calls k ops t = Inr (rs, u) \<and> length rs = length ops \<and> devices_are u (boot_list k (curr_addr s)))"
proof -
  have "length (boot_list k (curr_addr s)) = 4" by (simp add: boot_list_def)
  then show ?thesis
    using node_calls_typed [OF booted_ready [OF assms(1-3)] assms(4), of ops] assms(5) boot_list_typed
    by (auto simp: devices_ready_def)
qed

text \<open>A key is read, two bytes are shown, the drive is read and the table of devices is opened as a file.\<close>

lemma booted_devices_typed_witness:
  "\<exists>t rs u. booted machine_env boot_machine t
    \<and> node_calls machine_env [(3, Read_node 0 1 0x5000), (1, Write_node 0 2 0x5000), (0, Read_node 7 1 0x6000), (2, Open_node)] t
        = Inr (rs, u) \<and> length rs = 4"
proof -
  obtain t where t: "booted machine_env boot_machine t" using machine_boots by blast
  let ?ops = "[(3 :: nat, Read_node 0 1 0x5000), (1, Write_node 0 2 0x5000), (0, Read_node 7 1 0x6000), (2, Open_node)]"
  have dev: "m_devices t = 0x202050" using t by (simp add: booted_def boot_machine_def kernel_start_def)
  have "kb_inv boot_machine" by (simp add: kb_inv_def boot_machine_def kernel_start_def)
  moreover have "linked_apart machine_env" by (simp add: linked_apart_def callbacks_def machine_env_def boot_env_def)
  moreover have "\<forall>(i, op) \<in> set ?ops. i < 4 \<and> op_ok (span (m_devices t) 5632) op"
    by (auto simp: op_ok_def dev in_span_unat)
  ultimately show ?thesis
    using booted_devices_typed [OF t machine_disk, of ?ops] t by fastforce
qed

end
