(* ===== verification/Fat_Spec.thy ===== *)
theory Fat_Spec
  imports Disk_Spec
begin

text \<open>
  Reading a file of the FAT16 file system from a drive: the chain of its clusters on the disk, the copy
  of one cluster, the walk along the chain and the read of a whole file over the heap.
\<close>

unbundle bit_operations_syntax

section \<open>The chain of clusters on the disk\<close>

text \<open>
  Where the parameter block puts things: the tables follow the reserved sectors, the root directory follows
  the tables and takes 32 sectors, the clusters follow the root directory and are counted from 2.
\<close>

definition root_sector :: "FatBpB \<Rightarrow> u32" where
  "root_sector bpb = ucast (ReservedSectors bpb) + ucast (NumberOfFats bpb) * ucast (SectorsPerFat bpb)"

definition cluster_data :: "FatBpB \<Rightarrow> disk \<Rightarrow> u16 \<Rightarrow> u8 list" where
  "cluster_data bpb d cl =
     sectors d (root_sector bpb + 32 + (ucast cl - 2) * ucast (SectorsPerCluster bpb)) (unat (SectorsPerCluster bpb))"

lemma cluster_data_lba: "cluster_data bpb d cl = sectors d (cluster_lba bpb cl) (unat (SectorsPerCluster bpb))"
  by (simp add: cluster_data_def root_sector_def cluster_lba_def root_lba_def add_ac)

text \<open>The entry of a cluster in the first copy of the table, for sectors of 512 bytes.\<close>

definition fat_next :: "FatBpB \<Rightarrow> disk \<Rightarrow> u16 \<Rightarrow> u16" where
  "fat_next bpb d cl =
     (let sec = sector d (ucast (ReservedSectors bpb) + ucast cl * 2 div 512);
          i = unat (ucast cl * 2 mod 512 :: u32)
      in ucast (sec ! i) OR push_bit 8 (ucast (sec ! Suc i)))"

fun chain :: "FatBpB \<Rightarrow> disk \<Rightarrow> u16 \<Rightarrow> u16 list \<Rightarrow> bool" where
  "chain bpb d cl [] \<longleftrightarrow> \<not> cl \<le> FAT16_EOF"
| "chain bpb d cl (c # cs) \<longleftrightarrow> c = cl \<and> cl \<le> FAT16_EOF \<and> chain bpb d (fat_next bpb d cl) cs"

text \<open>
  What the code stores of the clusters from position \<open>i\<close> on when \<open>sz\<close> bytes are asked for: bytes up to
  position \<open>sz\<close>, the one behind the last included, and from each cluster at least one.
\<close>

fun written :: "nat \<Rightarrow> nat \<Rightarrow> u8 list list \<Rightarrow> u8 list" where
  "written sz i [] = []"
| "written sz i (bs # bss) = (let t = take (max 1 (Suc sz - i)) bs in t @ written sz (i + length t) bss)"

section \<open>Copying a cluster\<close>

lemma put_bytes_Cons:
  "length bs < 4294967296 \<Longrightarrow> put_bytes a (b # bs) m = put_bytes (a + 1) bs (m(a := b))"
  using put_bytes_append [of "[b]" bs a m] by (simp add: put_bytes_def in_span fun_eq_iff unat_eq_zero)

lemma put_bytes_cong: "m x = m' x \<Longrightarrow> put_bytes a bs m x = put_bytes a bs m' x"
  by (simp add: put_bytes_def)

lemma get_put_bytes: "length bs \<le> 4294967296 \<Longrightarrow> get_bytes (put_bytes a bs m) a (length bs) = bs"
  by (intro nth_equalityI) (simp_all add: get_bytes_def put_bytes_in)

lemma get_bytes_step: "get_bytes m a (Suc n) = m a # get_bytes m (a + 1) n"
  unfolding get_bytes_def by (simp add: upt_conv_Cons map_Suc_upt [symmetric] comp_def add.assoc del: upt_Suc)

lemma get_bytes_local: "(\<And>x. x \<in> span a n \<Longrightarrow> m x = m' x) \<Longrightarrow> n \<le> 4294967296 \<Longrightarrow> get_bytes m a n = get_bytes m' a n"
  unfolding get_bytes_def by (intro map_cong refl) (simp add: span_add_of_nat)

lemma copy_cluster_run:
  assumes "t = take (max 1 (Suc (unat sz) - unat index)) (get_bytes m (buffer + i) left)"
    and "span (ptr + index) (length t) \<inter> span (buffer + i) left = {}"
    and "unat index + length t < 4294967296" and "left < 4294967296"
  shows "copy_cluster ptr buffer sz i left index m = (index + of_nat (length t), put_bytes (ptr + index) t m)"
  using assms
proof (induction left arbitrary: i index m t)
  case 0
  then show ?case by (simp add: get_bytes_def put_bytes_def in_span)
next
  case (Suc left)
  define b where "b = m (buffer + i)"
  define m1 where "m1 = m(ptr + index := b)"
  define t' where "t' = take (max 1 (Suc (unat sz) - unat (index + 1))) (get_bytes m1 (buffer + (i + 1)) left)"
  have t_Cons: "t = b # take (max 1 (Suc (unat sz) - unat index) - 1) (get_bytes m (buffer + (i + 1)) left)"
    unfolding Suc.prems(1) get_bytes_step by (cases "max 1 (Suc (unat sz) - unat index)") (simp_all add: b_def add.assoc)
  then have lt: "0 < length t" by simp
  then have "unat index + 1 < 4294967296" using Suc.prems(3) by linarith
  then have ui: "unat (index + 1) = Suc (unat index)" by (simp add: unat_plus_if')
  show ?case
  proof (cases "sz < index + 1")
    case True
    then have "t = [b]" using t_Cons by (simp add: word_less_nat_alt ui)
    then show ?thesis using True by (simp add: b_def Let_def put_bytes_Cons put_bytes_def [of _ "[]"] in_span fun_upd_def)
  next
    case False
    have sub: "span (buffer + (i + 1)) left \<subseteq> span (buffer + i) (Suc left)"
      using span_sub [of 1 left "Suc left" "buffer + i"] Suc.prems(4) by (simp add: add.assoc)
    moreover have "ptr + index \<in> span (ptr + index) (length t)" using lt by (simp add: in_span)
    ultimately have "get_bytes m1 (buffer + (i + 1)) left = get_bytes m (buffer + (i + 1)) left"
      using Suc.prems(2,4) by (intro get_bytes_local) (auto simp: m1_def)
    then have t: "t = b # t'"
      using False unfolding t_Cons t'_def by (simp add: word_less_nat_alt ui not_less Suc_diff_le)
    have "copy_cluster ptr buffer sz (i + 1) left (index + 1) m1
        = (index + 1 + of_nat (length t'), put_bytes (ptr + (index + 1)) t' m1)"
    proof (rule Suc.IH [OF t'_def])
      have "span (ptr + (index + 1)) (length t') \<subseteq> span (ptr + index) (length t)"
        using span_sub [of 1 "length t'" "length t" "ptr + index"] t Suc.prems(3) by (simp add: add.assoc)
      then show "span (ptr + (index + 1)) (length t') \<inter> span (buffer + (i + 1)) left = {}"
        using sub Suc.prems(2) by blast
    qed (use t ui Suc.prems(3,4) in simp_all)
    then show ?thesis
      using False t Suc.prems(3) by (simp add: Let_def b_def m1_def put_bytes_Cons add.assoc)
  qed
qed

section \<open>Walking along the chain\<close>

lemma load16_put_bytes:
  assumes "Suc i < length bs" and "length bs \<le> 4294967296"
  shows "load16 (put_bytes a bs m) (a + of_nat i) = ucast (bs ! i) OR push_bit 8 (ucast (bs ! Suc i))"
  using put_bytes_in [of i bs a m] put_bytes_in [of "Suc i" bs a m] assms
  by (simp add: load16_def add_ac)

lemma unat_widen: "unat (ucast (n :: u8) :: u32) = unat n" "unat (ucast (c :: u16) :: u32) = unat c"
  using unsigned_less [of n, where 'a = nat] unsigned_less [of c, where 'a = nat]
  by (simp_all add: unsigned_ucast_eq take_bit_nat_eq_self_iff)

lemma even_offset: "unat (ucast (c :: u16) * 2 mod 512 :: u32) + 1 < 512"
proof -
  have "unat c < 65536" using unsigned_less [of c] by simp
  then have "unat (ucast c * 2 :: u32) = 2 * unat c"
    using unat_mult_lem [of "ucast c :: u32" 2] by (simp add: unat_widen)
  then have "unat (ucast c * 2 mod 512 :: u32) = 2 * unat c mod 512" by (simp add: unat_mod)
  moreover have "2 * n mod 512 + 1 < (512 :: nat)" for n
    using mod_mult_mult1 [of 2 n 256] mod_less_divisor [of 256 n] by simp
  ultimately show ?thesis by simp
qed

text \<open>The globals and nodes the walk reads lie in \<open>A\<close>, away from its buffer and its destination.\<close>

definition fat_walk_ok ::
  "disk \<Rightarrow> u32 set \<Rightarrow> env \<Rightarrow> FatBpB \<Rightarrow> u32 \<Rightarrow> 'a vfs_scheme \<Rightarrow> bool" where
  "fat_walk_ok d A k bpb file s \<longleftrightarrow> serves d s \<and> BytesPerSector bpb = 512 \<and> SectorsPerCluster bpb \<noteq> 0
     \<and> fn_ata_read k \<noteq> 0 \<and> span (file + 84) 4 \<subseteq> A \<and> span (node_master s file + 60) 4 \<subseteq> A
     \<and> node_read s (node_master s file) = fn_ata_read k"

lemma fat_walk_frame:
  assumes "fat_walk_ok d A k bpb file s" and "serves d t" and "\<And>x. x \<in> A \<Longrightarrow> mem t x = mem s x"
  shows "fat_walk_ok d A k bpb file t" and "node_master t file = node_master s file"
proof -
  have "load32 (mem t) (file + 84) = load32 (mem s) (file + 84)"
    by (rule c32.ld_local) (use assms(1,3) in \<open>auto simp: fat_walk_ok_def\<close>)
  then show m: "node_master t file = node_master s file" .
  have "load32 (mem t) (node_master s file + 60) = load32 (mem s) (node_master s file + 60)"
    by (rule c32.ld_local) (use assms(1,3) in \<open>auto simp: fat_walk_ok_def\<close>)
  with assms(1,2) m show "fat_walk_ok d A k bpb file t" by (simp add: fat_walk_ok_def)
qed

lemma fat_walk_vread:
  assumes "fat_walk_ok d A k bpb file s" and "unat n \<le> 256"
  shows "\<exists>t. vread (device_read k) (node_master s file) off n a s = Inr (left_eax k, t) \<and> serves d t
    \<and> (\<exists>log. t = s\<lparr>mem := put_bytes a (sectors d off (unat n)) (mem s), io_log := log\<rparr>)"
  using assms by (intro vread_disk) (auto simp: fat_walk_ok_def)

text \<open>One cluster: read it, copy it, read the table.\<close>

lemma chain_step:
  fixes s :: "'a vfs_scheme"
  assumes ok: "fat_walk_ok d A k bpb file s" and cl: "cl \<le> FAT16_EOF"
    and t: "t = take (max 1 (Suc (unat sz) - unat index)) (cluster_data bpb d cl)"
    and bsz: "bsz = 512 * ucast (SectorsPerCluster bpb)"
    and apart: "A \<inter> span buffer (unat bsz) = {}" "A \<inter> span (ptr + index) (length t) = {}"
      "span (ptr + index) (length t) \<inter> span buffer (unat bsz) = {}" "unat index + length t < 4294967296"
  shows "\<exists>u. chain_loop k bpb file buffer bsz sz ptr cl index s
      = chain_loop k bpb file buffer bsz sz ptr (fat_next bpb d cl) (index + of_nat (length t)) u
    \<and> fat_walk_ok d A k bpb file u \<and> mem_log_only s u
    \<and> (\<forall>x. x \<notin> span buffer (unat bsz) \<longrightarrow> mem u x = put_bytes (ptr + index) t (mem s) x)"
proof -
  let ?n = "ucast (SectorsPerCluster bpb) :: u32" and ?bs = "cluster_data bpb d cl"
  let ?fs = "ucast (ReservedSectors bpb) + ucast cl * 2 div 512 :: u32" and ?o = "ucast cl * 2 mod 512 :: u32"
  have n: "unat ?n = unat (SectorsPerCluster bpb)" "unat (SectorsPerCluster bpb) < 256"
    using unsigned_less [of "SectorsPerCluster bpb", where 'a = nat] by (simp_all add: unat_widen)
  have b: "unat bsz = 512 * unat (SectorsPerCluster bpb)"
    unfolding bsz using unat_mult_lem [of 512 ?n] n by simp
  have n0: "unat (SectorsPerCluster bpb) \<noteq> 0" using ok by (simp add: fat_walk_ok_def unat_eq_zero)
  have len: "length ?bs = unat bsz" using ok by (auto simp: fat_walk_ok_def cluster_data_lba b)
  obtain s1 l1 where s1: "vread (device_read k) (node_master s file) (cluster_lba bpb cl) ?n buffer s = Inr (left_eax k, s1)"
      "serves d s1" "s1 = s\<lparr>mem := put_bytes buffer ?bs (mem s), io_log := l1\<rparr>"
    using fat_walk_vread [OF ok, of ?n "cluster_lba bpb cl" buffer] n by (auto simp: cluster_data_lba)
  have "get_bytes (mem s1) (buffer + 0) (unat bsz) = ?bs"
    using get_put_bytes [of ?bs buffer "mem s"] len u32_bound [of bsz] s1(3) by simp
  then have copy: "copy_cluster ptr buffer sz 0 (unat bsz) index (mem s1)
      = (index + of_nat (length t), put_bytes (ptr + index) t (mem s1))"
    by (intro copy_cluster_run) (use t apart u32_bound [of bsz] in \<open>simp_all\<close>)
  define s2 where "s2 = s1\<lparr>mem := put_bytes (ptr + index) t (mem s1)\<rparr>"
  have m2s: "put_bytes (ptr + index) t (mem s1) = mem s2" "s1\<lparr>mem := mem s2\<rparr> = s2" by (simp_all add: s2_def)
  have m2: "mem s2 x = put_bytes (ptr + index) t (mem s) x" if "x \<notin> span buffer (unat bsz)" for x
    using that len by (simp add: s2_def s1(3) put_bytes_outside cong: put_bytes_cong) (simp add: put_bytes_def)
  have "serves d s2" by (rule serves_frame [OF s1(2)]) (simp_all add: s2_def)
  moreover have A2: "mem s2 x = mem s x" if x: "x \<in> A" for x
  proof -
    have "x \<notin> span buffer (unat bsz)" "x \<notin> span (ptr + index) (length t)" using x apart(1,2) by blast+
    then show ?thesis using m2 [of x] by (simp add: put_bytes_outside)
  qed
  ultimately have ok2: "fat_walk_ok d A k bpb file s2" by (rule fat_walk_frame [OF ok])
  obtain s3 l3 where s3: "vread (device_read k) (node_master s2 file) ?fs 1 buffer s2 = Inr (left_eax k, s3)"
      "serves d s3" "s3 = s2\<lparr>mem := put_bytes buffer (sector d ?fs) (mem s2), io_log := l3\<rparr>"
    using fat_walk_vread [OF ok2, of 1 ?fs buffer] by (auto simp: sectors_def)
  have sl: "length (sector d ?fs) = 512" using s3(2) by simp
  have m3: "mem s3 x = mem s2 x" if "x \<notin> span buffer (unat bsz)" for x
    using that b n0 sl span_mono [of 512 "unat bsz" buffer] by (auto simp: s3(3) intro!: put_bytes_outside)
  have ok3: "fat_walk_ok d A k bpb file s3"
    by (rule fat_walk_frame [OF ok2 s3(2)]) (use m3 apart(1) in blast)
  have "load16 (mem s3) (buffer + ?o) = fat_next bpb d cl"
    using load16_put_bytes [of "unat ?o" "sector d ?fs" buffer "mem s2"] even_offset [of cl] sl
    by (simp add: s3(3) fat_next_def Let_def)
  moreover have "BytesPerSector bpb = 512" using ok by (simp add: fat_walk_ok_def)
  ultimately have run: "chain_loop k bpb file buffer bsz sz ptr cl index s
      = chain_loop k bpb file buffer bsz sz ptr (fat_next bpb d cl) (index + of_nat (length t)) s3"
    using s1(1) s3(1) copy cl
    by (subst chain_loop.simps) (simp add: m2s Let_def)
  have "mem_log_only s s3" by (simp add: s3(3) s2_def s1(3) mem_log_only_def)
  then show ?thesis using run ok3 m2 m3 by (intro exI [of _ s3]) auto
qed

text \<open>The walk along a chain that ends.\<close>

lemma chain_run:
  fixes s :: "'a vfs_scheme"
  assumes "fat_walk_ok d A k bpb file s" and "chain bpb d cl cls"
    and "w = written (unat sz) (unat index) (map (cluster_data bpb d) cls)"
    and "bsz = 512 * ucast (SectorsPerCluster bpb)"
    and "A \<inter> span buffer (unat bsz) = {}" and "A \<inter> span (ptr + index) (length w) = {}"
    and "span (ptr + index) (length w) \<inter> span buffer (unat bsz) = {}" and "unat index + length w < 4294967296"
  shows "\<exists>u. chain_loop k bpb file buffer bsz sz ptr cl index s = Some (Inr ((), u))
    \<and> serves d u \<and> mem_log_only s u
    \<and> (\<forall>x. x \<notin> span buffer (unat bsz) \<longrightarrow> mem u x = put_bytes (ptr + index) w (mem s) x)"
  using assms
proof (induction cls arbitrary: cl index s w)
  case Nil
  have "chain_loop k bpb file buffer bsz sz ptr cl index s = Some (Inr ((), s))"
    using Nil.prems(2) by (subst chain_loop.simps) simp
  moreover have "mem_log_only s s" by (rule disk_io.R_refl)
  ultimately show ?case
    using Nil.prems(1,3) by (intro exI [of _ s] conjI) (simp_all add: fat_walk_ok_def put_bytes_def in_span)
next
  case (Cons c cls)
  define t where "t = take (max 1 (Suc (unat sz) - unat index)) (cluster_data bpb d cl)"
  define w' where "w' = written (unat sz) (unat index + length t) (map (cluster_data bpb d) cls)"
  have w: "w = t @ w'" using Cons.prems(2,3) by (simp add: t_def w'_def Let_def)
  have idx: "unat (index + of_nat (length t)) = unat index + length t"
    using Cons.prems(8) u32_of_nat_unat [of "length t"] by (simp add: w unat_plus_if')
  have sub: "span (ptr + index) (length t) \<subseteq> span (ptr + index) (length w)"
    "span (ptr + (index + of_nat (length t))) (length w') \<subseteq> span (ptr + index) (length w)"
    using span_mono [of "length t" "length w"] span_sub [of "of_nat (length t)" "length w'" "length w" "ptr + index"]
      Cons.prems(8) u32_of_nat_unat [of "length t"] by (simp_all add: w add.assoc)
  have "cl \<le> FAT16_EOF" "chain bpb d (fat_next bpb d cl) cls" using Cons.prems(2) by simp_all
  note next_chain = this(2)
  have apt: "A \<inter> span (ptr + index) (length t) = {}" "span (ptr + index) (length t) \<inter> span buffer (unat bsz) = {}"
    "unat index + length t < 4294967296"
    using Cons.prems(6-8) sub(1) by (blast, blast, simp add: w)
  obtain u where u: "chain_loop k bpb file buffer bsz sz ptr cl index s
      = chain_loop k bpb file buffer bsz sz ptr (fat_next bpb d cl) (index + of_nat (length t)) u"
      "fat_walk_ok d A k bpb file u" "mem_log_only s u"
      "\<forall>x. x \<notin> span buffer (unat bsz) \<longrightarrow> mem u x = put_bytes (ptr + index) t (mem s) x"
    using chain_step [OF Cons.prems(1) \<open>cl \<le> FAT16_EOF\<close> t_def Cons.prems(4,5) apt] by blast
  have "\<exists>v. chain_loop k bpb file buffer bsz sz ptr (fat_next bpb d cl) (index + of_nat (length t)) u = Some (Inr ((), v))
    \<and> serves d v \<and> mem_log_only u v
    \<and> (\<forall>x. x \<notin> span buffer (unat bsz) \<longrightarrow> mem v x = put_bytes (ptr + (index + of_nat (length t))) w' (mem u) x)"
  proof (rule Cons.IH [OF u(2) next_chain _ Cons.prems(4,5)])
    show "A \<inter> span (ptr + (index + of_nat (length t))) (length w') = {}"
      "span (ptr + (index + of_nat (length t))) (length w') \<inter> span buffer (unat bsz) = {}"
      using Cons.prems(6,7) sub(2) by blast+
  qed (use Cons.prems(8) in \<open>simp_all add: idx w'_def w\<close>)
  then obtain v where v: "chain_loop k bpb file buffer bsz sz ptr (fat_next bpb d cl) (index + of_nat (length t)) u = Some (Inr ((), v))"
    "serves d v" "mem_log_only u v"
    "\<forall>x. x \<notin> span buffer (unat bsz) \<longrightarrow> mem v x = put_bytes (ptr + (index + of_nat (length t))) w' (mem u) x"
    by blast
  have "mem v x = put_bytes (ptr + index) w (mem s) x" if "x \<notin> span buffer (unat bsz)" for x
  proof -
    have "mem v x = put_bytes (ptr + (index + of_nat (length t))) w' (mem u) x" using v(4) that by blast
    also have "\<dots> = put_bytes (ptr + (index + of_nat (length t))) w' (put_bytes (ptr + index) t (mem s)) x"
      by (rule put_bytes_cong) (use u(4) that in blast)
    finally have "mem v x = put_bytes (ptr + index + of_nat (length t)) w' (put_bytes (ptr + index) t (mem s)) x"
      by (simp only: add.assoc)
    then show ?thesis using put_bytes_append [of t w' "ptr + index" "mem s"] Cons.prems(8) w by simp
  qed
  moreover have "mem_log_only s v" using u(3) v(3) by (rule disk_io.R_trans)
  ultimately show ?case using u(1) v(1,2) by (intro exI [of _ v]) simp
qed

text \<open>What is stored begins with the bytes of the file.\<close>

lemma written_prefix: "take (Suc sz - i) (written sz i bss) = take (Suc sz - i) (concat bss)"
proof (induction bss arbitrary: i)
  case (Cons bs bss)
  define t where "t = take (max 1 (Suc sz - i)) bs"
  have IH: "take (Suc sz - i - length t) (written sz (i + length t) bss) = take (Suc sz - i - length t) (concat bss)"
    using Cons.IH [of "i + length t"] by (simp add: diff_diff_left)
  show ?case
  proof (cases "Suc sz - i \<le> length bs")
    case True
    then show ?thesis by (auto simp: Let_def t_def)
  next
    case False
    then have "t = bs" by (simp add: t_def)
    moreover have "written sz i (bs # bss) = t @ written sz (i + length t) bss" by (simp add: Let_def t_def)
    ultimately show ?thesis using IH by simp
  qed
qed simp

lemma written_length: "length (written sz i bss) \<le> Suc sz - i + length bss"
proof (induction bss arbitrary: i)
  case (Cons bs bss)
  define l where "l = length (take (max 1 (Suc sz - i)) bs)"
  have "l \<le> max 1 (Suc sz - i)" by (simp add: l_def)
  then have "l + (Suc sz - (i + l)) \<le> Suc (Suc sz - i)" by linarith
  then show ?case using Cons.IH [of "i + l"] by (simp add: Let_def l_def)
qed simp

section \<open>Reading a file\<close>

definition disk_bpb :: "disk \<Rightarrow> FatBpB" where
  "disk_bpb d = get_bpb (put_bytes 0 (sector d 0) (\<lambda>_. 0)) 3"

lemma get_bpb_bytes:
  assumes "\<And>i. i < 36 \<Longrightarrow> m (p + of_nat i) = m' (q + of_nat i)"
  shows "get_bpb m p = get_bpb m' q"
proof -
  have d: "load32 m (p + of_nat i) = load32 m' (q + of_nat i)" if "i + 4 \<le> 36" for i
    using assms [of i] assms [of "i + 1"] assms [of "i + 2"] assms [of "i + 3"] that
    by (simp add: load32_def add_ac)
  have h: "load16 m (p + of_nat i) = load16 m' (q + of_nat i)" if "i + 2 \<le> 36" for i
    using assms [of i] assms [of "i + 1"] that by (simp add: load16_def add_ac)
  have b: "load8 m (p + of_nat i) = load8 m' (q + of_nat i)" if "i + 1 \<le> 36" for i
    using assms [of i] that by (simp add: load8_def)
  show ?thesis
    using assms d [of 25] d [of 29] h [of 8] h [of 11] h [of 14] h [of 16] h [of 19] h [of 21] h [of 23]
      b [of 10] b [of 13] b [of 18]
    by (simp add: get_bpb_def get_bytes_def)
qed

lemma heap_inv_log: "heap_inv base (s\<lparr>io_log := l\<rparr>) bs = heap_inv base s bs"
  by (simp add: heap_inv_def)

lemma parse_bpb_disk:
  fixes s :: "'a vfs_scheme"
  assumes inv: "heap_inv base s bs" and room: "2112 \<le> heap_space s" and d: "serves d s"
    and dev: "span (dev + 60) 4 \<subseteq> usable base bs" "node_read s dev = fn_ata_read k" "fn_ata_read k \<noteq> 0"
  shows "\<exists>t bs'. parse_bpb k dev s = Inr (disk_bpb d, t) \<and> heap_inv base t bs' \<and> live bs' = live bs
    \<and> serves d t \<and> heap_space s \<le> heap_space t + 2112 \<and> (\<forall>x \<in> usable base bs. mem t x = mem s x)"
proof -
  have cost: "alloc_cost 512 = 2112" by (simp add: alloc_cost_def)
  obtain p s1 bs1 and n :: u32 where M: "malloc 512 s = Inr (p, s1)" "heap_inv base s1 bs1" "512 \<le> n"
    "live bs1 = insert (p, n) (live bs)" "(p, n) \<notin> live bs" "span p (unat n) \<inter> usable base bs = {}" "heap_only s s1"
    "heap_space s \<le> heap_space s1 + 2112" "\<forall>x \<in> usable base bs. mem s1 x = mem s x"
    using heap_take [OF inv, of 512] room unfolding cost by blast
  have d1: "serves d s1" by (rule serves_heap [OF d M(7)])
  have "node_read s1 dev = fn_ata_read k"
    using dev(1,2) M(9) c32.ld_local [of "dev + 60" "mem s1" "mem s"] by auto
  then obtain s2 l where R: "vread (device_read k) dev 0 1 p s1 = Inr (left_eax k, s2)" "serves d s2"
    "s2 = s1\<lparr>mem := put_bytes p (sector d 0) (mem s1), io_log := l\<rparr>"
    using vread_disk [OF d1 _ dev(3), of dev 1 0 p] by (auto simp: sectors_def)
  have len: "length (sector d 0) = 512" using d by simp
  have pn: "(p, n) \<in> live bs1" and p512: "span p 512 \<subseteq> span p (unat n)"
    using M(3,4) by (auto simp: u32_le_unat intro!: span_mono)
  have out: "mem s2 x = mem s1 x" if "x \<notin> span p (unat n)" for x
    using that p512 len by (auto simp: R(3) intro!: put_bytes_outside)
  have "heap_inv base (s1\<lparr>mem := mem s2\<rparr>) bs1"
    by (rule heap_write [OF M(2)]) (use out usable_area [OF pn] in blast)
  then have inv2: "heap_inv base s2 bs1" by (simp add: R(3) heap_inv_log)
  obtain t bs' where F: "free p s2 = Inr ((), t)" "heap_inv base t bs'" "live bs' = live bs1 - {(p, n)}"
    "heap_only s2 t" "heap_space t = heap_space s2" "\<forall>x \<in> usable base bs'. mem t x = mem s2 x"
    using heap_give [OF inv2 pn] by blast
  have lv: "live bs' = live bs" using F(3) M(4,5) by auto
  then have A': "usable base bs' = usable base bs" by (simp add: usable_def)
  have "put_bytes p (sector d 0) m (p + 3 + of_nat i) = put_bytes 0 (sector d 0) (\<lambda>_. 0) (3 + of_nat i)"
    if "i < 36" for i m
    using put_bytes_in [of "3 + i" "sector d 0" p m] put_bytes_in [of "3 + i" "sector d 0" 0 "\<lambda>_. 0"] that len
    by (simp add: add.assoc)
  then have "get_bpb (mem s2) (p + 3) = disk_bpb d"
    unfolding disk_bpb_def R(3) by (intro get_bpb_bytes) simp
  then have "parse_bpb k dev s = Inr (disk_bpb d, t)" using M(1) R(1) F(1) by (simp add: parse_bpb_def Let_def)
  moreover have "mem t x = mem s x" if "x \<in> usable base bs" for x
    using that F(6) out [of x] M(6,9) unfolding A' by auto
  ultimately show ?thesis
    using F(2) lv serves_heap [OF R(2) F(4)] F(5) M(8) by (auto simp: R(3) heap_space_def)
qed

text \<open>
  The nodes a read follows, in memory the heap does not move: \<open>file\<close>, and the drive as its device.
\<close>

definition drive_nodes :: "env \<Rightarrow> u32 set \<Rightarrow> u32 \<Rightarrow> 'a vfs_scheme \<Rightarrow> bool" where
  "drive_nodes k A file s \<longleftrightarrow> span file 88 \<subseteq> A \<and> span (node_master s file) 88 \<subseteq> A
     \<and> (node_flag s file = flag_value VFS_FILE \<or> node_flag s file = flag_value VFS_DIRECTORY)
     \<and> node_read s (node_master s file) = fn_ata_read k \<and> fn_ata_read k \<noteq> 0"

lemma cluster_buffer: "unat (512 * ucast (spc :: u8) :: u32) = 512 * unat spc"
  using unat_mult_lem [of "512 :: u32" "ucast spc"] unsigned_less [of spc, where 'a = nat] by (simp add: unat_widen)

text \<open>The walk with a buffer of its own: the allocation, the chain, the release.\<close>

lemma chain_buffered:
  fixes s :: "'a vfs_scheme" and bpb d
  defines "bsz \<equiv> 512 * ucast (SectorsPerCluster bpb) :: u32"
  assumes inv: "heap_inv base s bs" and room: "alloc_cost bsz \<le> heap_space s"
    and ok: "fat_walk_ok d N k bpb file s" and N: "N \<subseteq> usable base bs" and cls: "chain bpb d cl cls"
    and w: "w = written (unat sz) 0 (map (cluster_data bpb d) cls)" "length w < 4294967296"
    and dst: "span ptr (length w) \<subseteq> usable base bs" "N \<inter> span ptr (length w) = {}"
  shows "\<exists>p s1 s2 t bs'. malloc bsz s = Inr (p, s1) \<and> chain_loop k bpb file p bsz sz ptr cl 0 s1 = Some (Inr ((), s2))
    \<and> free p s2 = Inr ((), t) \<and> heap_inv base t bs' \<and> live bs' = live bs \<and> serves d t
    \<and> heap_space s \<le> heap_space t + alloc_cost bsz \<and> (\<forall>x \<in> usable base bs. mem t x = put_bytes ptr w (mem s) x)"
proof -
  let ?A = "usable base bs"
  obtain p s1 bs1 and n :: u32 where M: "malloc bsz s = Inr (p, s1)" "heap_inv base s1 bs1" "bsz \<le> n"
    "live bs1 = insert (p, n) (live bs)" "(p, n) \<notin> live bs" "span p (unat n) \<inter> ?A = {}" "heap_only s s1"
    "\<forall>x \<in> ?A. mem s1 x = mem s x" "heap_space s \<le> heap_space s1 + alloc_cost bsz"
    using heap_take [OF inv room] by blast
  have buf: "span p (unat bsz) \<subseteq> span p (unat n)" using M(3) by (intro span_mono) (simp add: word_le_nat_alt)
  have "serves d s1" using ok M(7) by (auto simp: fat_walk_ok_def intro: serves_heap)
  then have ok1: "fat_walk_ok d N k bpb file s1"
    by (rule fat_walk_frame [OF ok]) (use N M(8) in blast)
  obtain s2 where L: "chain_loop k bpb file p bsz sz ptr cl 0 s1 = Some (Inr ((), s2))"
    "serves d s2" "mem_log_only s1 s2" "\<forall>x. x \<notin> span p (unat bsz) \<longrightarrow> mem s2 x = put_bytes (ptr + 0) w (mem s1) x"
  proof -
    have "N \<inter> span p (unat bsz) = {}" "N \<inter> span (ptr + 0) (length w) = {}"
      "span (ptr + 0) (length w) \<inter> span p (unat bsz) = {}"
      using N M(6) buf dst by auto
    from chain_run [OF ok1 cls _ _ this] w show ?thesis using that by (auto simp: bsz_def)
  qed
  have pn: "(p, n) \<in> live bs1" using M(4) by simp
  have sub: "?A \<subseteq> usable base bs1" using M(4) by (intro usable_mono) auto
  have "mem s2 x = mem s1 x" if "x \<notin> usable base bs1" for x
  proof -
    have "x \<notin> span p (unat bsz)" "x \<notin> span ptr (length w)" using that usable_area [OF pn] buf sub dst(1) by blast+
    then show ?thesis using L(4) by (simp add: put_bytes_outside)
  qed
  then have "heap_inv base (s1\<lparr>mem := mem s2\<rparr>) bs1" by (rule heap_write [OF M(2)])
  then have inv2: "heap_inv base s2 bs1"
    using L(3) by (subst L(3) [unfolded mem_log_only_def]) (simp add: heap_inv_log)
  obtain t bs' where F: "free p s2 = Inr ((), t)" "heap_inv base t bs'" "live bs' = live bs1 - {(p, n)}"
    "heap_only s2 t" "\<forall>x \<in> usable base bs'. mem t x = mem s2 x" "heap_space t = heap_space s2"
    using heap_give [OF inv2 pn] by blast
  have "heap_space s2 = heap_space s1" using L(3) by (cases s1; cases s2) (simp add: mem_log_only_def heap_space_def)
  then have space: "heap_space s \<le> heap_space t + alloc_cost bsz" using M(9) F(6) by simp
  have lv: "live bs' = live bs" using F(3) M(4,5) by auto
  have "mem t x = put_bytes ptr w (mem s) x" if x: "x \<in> ?A" for x
  proof -
    have "x \<notin> span p (unat bsz)" using x M(6) buf by blast
    then have "mem s2 x = put_bytes ptr w (mem s1) x" using L(4) by simp
    also have "\<dots> = put_bytes ptr w (mem s) x" by (rule put_bytes_cong) (use M(8) x in blast)
    finally show ?thesis using F(5) x lv by (simp add: usable_def)
  qed
  then show ?thesis using M(1) L(1) F(1,2) lv space serves_heap [OF L(2) F(4)] by blast
qed

lemma fat_read_run:
  fixes s :: "'a vfs_scheme" and d
  defines "bpb \<equiv> disk_bpb d"
  assumes inv: "heap_inv base s bs" and d: "serves d s"
    and room: "2112 + 4 * (512 * unat (SectorsPerCluster bpb) + 16) \<le> heap_space s"
    and nodes: "drive_nodes k (usable base bs) file s"
    and geometry: "BytesPerSector bpb = 512" "SectorsPerCluster bpb \<noteq> 0"
    and cls: "chain bpb d (fe_starting_cluster handle) cls"
    and w: "w = written (unat sz) 0 (map (cluster_data bpb d) cls)" "length w < 4294967296"
    and dst: "span ptr (length w) \<subseteq> usable base bs"
      "span ptr (length w) \<inter> (span file 88 \<union> span (node_master s file) 88) = {}"
  shows "\<exists>t bs'. fat_file_read_with_handle k file handle sz ptr s = Inr (0, t)
    \<and> heap_inv base t bs' \<and> live bs' = live bs \<and> serves d t
    \<and> heap_space s \<le> heap_space t + (2112 + 4 * (512 * unat (SectorsPerCluster bpb) + 16))
    \<and> (\<forall>x \<in> usable base bs. mem t x = put_bytes ptr w (mem s) x)"
proof -
  let ?N = "span file 88 \<union> span (node_master s file) 88"
  have fields: "span (file + 84) 4 \<subseteq> ?N" "span (node_master s file + 60) 4 \<subseteq> ?N" and N: "?N \<subseteq> usable base bs"
    using nodes field_in_node [of 84 "file"] field_in_node [of 60 "node_master s file"] by (auto simp: drive_nodes_def)
  have here: "span (node_master s file + 60) 4 \<subseteq> usable base bs" using fields(2) N by blast
  have reader: "node_read s (node_master s file) = fn_ata_read k" "fn_ata_read k \<noteq> 0" and r: "2112 \<le> heap_space s"
    using nodes room by (simp_all add: drive_nodes_def)
  obtain s1 bs1 where P: "parse_bpb k (node_master s file) s = Inr (bpb, s1)" "heap_inv base s1 bs1" "live bs1 = live bs"
    "serves d s1" "heap_space s \<le> heap_space s1 + 2112" "\<forall>x \<in> usable base bs. mem s1 x = mem s x"
    using parse_bpb_disk [OF inv r d here reader, folded bpb_def] by blast
  have A1: "usable base bs1 = usable base bs" by (simp add: usable_def P(3))
  have space: "alloc_cost (512 * ucast (SectorsPerCluster bpb)) \<le> heap_space s1"
    using room P(5) by (simp add: alloc_cost_def cluster_buffer)
  have "fat_walk_ok d ?N k bpb file s"
    using d geometry fields nodes by (simp add: fat_walk_ok_def drive_nodes_def)
  then have ok: "fat_walk_ok d ?N k bpb file s1"
    by (rule fat_walk_frame(1) [OF _ P(4)]) (use P(6) N in blast)
  have away: "?N \<inter> span ptr (length w) = {}" using dst(2) by blast
  from chain_buffered [OF P(2) space ok _ cls w _ away] N dst(1)
  obtain p s2 s3 t bs' where C: "malloc (512 * ucast (SectorsPerCluster bpb)) s1 = Inr (p, s2)"
    "chain_loop k bpb file p (512 * ucast (SectorsPerCluster bpb)) sz ptr (fe_starting_cluster handle) 0 s2 = Some (Inr ((), s3))"
    "free p s3 = Inr ((), t)" "heap_inv base t bs'" "live bs' = live bs1" "serves d t"
    "heap_space s1 \<le> heap_space t + alloc_cost (512 * ucast (SectorsPerCluster bpb))"
    "\<forall>x \<in> usable base bs. mem t x = put_bytes ptr w (mem s1) x"
    unfolding A1 by blast
  have "mem t x = put_bytes ptr w (mem s) x" if x: "x \<in> usable base bs" for x
    using C(8) x put_bytes_cong [of "mem s1" x "mem s"] P(6) by simp
  moreover have "heap_space s \<le> heap_space t + (2112 + 4 * (512 * unat (SectorsPerCluster bpb) + 16))"
    using C(7) P(5) by (simp add: alloc_cost_def cluster_buffer)
  moreover have "fat_file_read_with_handle k file handle sz ptr s = Inr (0, t)"
    using nodes P(1) C(1-3) by (simp add: fat_file_read_with_handle_def drive_nodes_def of_run_loop_def Let_def)
  ultimately show ?thesis using C(4-6) P(3) by auto
qed

text \<open>
  C15. Reading a file along its cluster chain, from a drive with a disk in it: for every chain that ends, the
  read succeeds, the heap has the areas it had, and of the memory the caller can hold only the destination
  changes. What is stored there begins with the bytes of the file, as many as were asked for; the code
  stores one byte more, and one for each further cluster.
\<close>

theorem fat_read_chain:
  fixes s :: "'a vfs_scheme" and d
  assumes "heap_inv base s bs" and "serves d s"
    and "2112 + 4 * (512 * unat (SectorsPerCluster (disk_bpb d)) + 16) \<le> heap_space s"
    and "drive_nodes k (usable base bs) file s"
    and "BytesPerSector (disk_bpb d) = 512" and "SectorsPerCluster (disk_bpb d) \<noteq> 0"
    and "chain (disk_bpb d) d (fe_starting_cluster handle) cls"
    and "w = written (unat sz) 0 (map (cluster_data (disk_bpb d) d) cls)" and "length w < 4294967296"
    and "span ptr (length w) \<subseteq> usable base bs"
    and "span ptr (length w) \<inter> (span file 88 \<union> span (node_master s file) 88) = {}"
  shows "\<exists>t bs'. fat_file_read_with_handle k file handle sz ptr s = Inr (0, t)
    \<and> heap_inv base t bs' \<and> live bs' = live bs \<and> serves d t
    \<and> (\<forall>x \<in> usable base bs. mem t x = put_bytes ptr w (mem s) x)
    \<and> take (Suc (unat sz)) w = take (Suc (unat sz)) (concat (map (cluster_data (disk_bpb d) d) cls))
    \<and> length w \<le> Suc (unat sz) + length cls"
proof -
  have "take (Suc (unat sz)) w = take (Suc (unat sz)) (concat (map (cluster_data (disk_bpb d) d) cls))"
    "length w \<le> Suc (unat sz) + length cls"
    using written_prefix [of "unat sz" 0] written_length [of "unat sz" 0 "map (cluster_data (disk_bpb d) d) cls"] assms(8)
    by simp_all
  then show ?thesis using fat_read_run [OF assms] by (elim exE conjE) (intro exI conjI)
qed

fun words_of :: "u8 list \<Rightarrow> u16 list" where
  "words_of (a # b # bs) = (ucast a OR push_bit 8 (ucast b)) # words_of bs"
| "words_of _ = []"

lemma words_of_bytes:
  assumes "even (length bs)"
  shows "sector_bytes (words_of bs) = bs" and "2 * length (words_of bs) = length bs"
proof -
  have word: "word_bytes (ucast a OR push_bit 8 (ucast b)) = [a, b]" for a b :: u8
  proof -
    have "\<not> bit a (8 + n)" for n using bit_imp_le_length [of a "8 + n"] by auto
    then show ?thesis by (auto simp: word_bytes_def bit_simps intro!: bit_word_eqI)
  qed
  show "sector_bytes (words_of bs) = bs" "2 * length (words_of bs) = length bs"
    using assms by (induction bs rule: words_of.induct) (simp_all add: word)
qed

text \<open>
  A disk with a file HI, in clusters 2 and 3, a directory RE, in cluster 4, with an entry HI of the same file, and
  a directory BIN, in cluster 5, with the program INIT in cluster 6; a drive that holds it, and the node of the file at 0x8000.
\<close>

definition sample_disk :: disk where
  "sample_disk lba =
     (if lba = 0 then (replicate 256 0)[6 := 0x0102, 7 := 1, 8 := 1, 11 := 1]
      else if lba = 1 then (replicate 256 0)[2 := 3, 3 := 0xFFFF, 4 := 0xFFFF, 5 := 0xFFFF, 6 := 0xFFFF]
      else if lba = 2 then (replicate 256 0)[0 := 0x4948, 5 := 0x2000, 13 := 2, 16 := 0x4552, 21 := 0x1000, 29 := 4,
        32 := 0x4942, 33 := 0x4E, 37 := 0x1000, 45 := 5]
      else if lba = 36 then (replicate 256 0)[0 := 0x4948, 5 := 0x2000, 13 := 2]
      else if lba = 37 then (replicate 256 0)[0 := 0x4E49, 1 := 0x5449, 5 := 0x2000, 13 := 6]
      else if lba = 38 then words_of (sample_elf @ replicate 377 0)
      else if lba = 34 then replicate 256 0x4141 else if lba = 35 then replicate 256 0x4242
      else replicate 256 0)"

definition disk_kernel :: kernel where
  "disk_kernel = kernel_start\<lparr>is_master_exist := 1, in8 := in8 ata_start,
     in16 := (\<lambda>log _. drive_word sample_disk log),
     mem := store32 0x8038 1 (store32 0x8054 0x9000 (store32 0x903C 0x1001
       (put_bytes 0x8000 [0x48, 0x49] (\<lambda>_. 0))))\<rparr>"

definition sample_file :: FatEntry where
  "sample_file = (stack_fe boot_env)\<lparr>fe_starting_cluster := 2\<rparr>"

lemma sector_bytes_nth:
  "i < 2 * length ws \<Longrightarrow> sector_bytes ws ! i
    = (if even i then ucast (ws ! (i div 2)) else ucast (drop_bit 8 (ws ! (i div 2))))"
proof (induction ws arbitrary: i)
  case (Cons w ws)
  consider "i = 0" | "i = 1" | j where "i = Suc (Suc j)" by (metis One_nat_def not0_implies_Suc)
  then show ?case using Cons by cases (simp_all add: word_bytes_def)
qed simp

lemma sample_sector:
  "sector sample_disk 0 = sector_bytes ((replicate 256 0)[6 := 0x0102, 7 := 1, 8 := 1, 11 := 1])"
  "sector sample_disk 1 = sector_bytes ((replicate 256 0)[2 := 3, 3 := 0xFFFF, 4 := 0xFFFF, 5 := 0xFFFF, 6 := 0xFFFF])"
  "sector sample_disk 2 = sector_bytes ((replicate 256 0)[0 := 0x4948, 5 := 0x2000, 13 := 2, 16 := 0x4552, 21 := 0x1000, 29 := 4,
        32 := 0x4942, 33 := 0x4E, 37 := 0x1000, 45 := 5])"
  "sector sample_disk 36 = sector_bytes ((replicate 256 0)[0 := 0x4948, 5 := 0x2000, 13 := 2])"
  "sector sample_disk 37 = sector_bytes ((replicate 256 0)[0 := 0x4E49, 1 := 0x5449, 5 := 0x2000, 13 := 6])"
  "sector sample_disk 34 = replicate 512 0x41" "sector sample_disk 35 = replicate 512 0x42"
  "sector sample_disk 38 = sample_elf @ replicate 377 0"
proof -
  show "sector sample_disk 38 = sample_elf @ replicate 377 0"
    using words_of_bytes(1) [of "sample_elf @ replicate 377 0"] by (simp add: sector_def sample_disk_def del: replicate.simps)
  have "sector_bytes (replicate n 0x4141) = replicate (2 * n) 0x41"
    "sector_bytes (replicate n 0x4242) = replicate (2 * n) 0x42" for n
    by (induction n) (simp_all add: word_bytes_def)
  from this(1) [of 256] this(2) [of 256]
  show "sector sample_disk 34 = replicate 512 0x41" "sector sample_disk 35 = replicate 512 0x42"
    by (simp_all add: sector_def sample_disk_def)
qed (simp_all add: sector_def sample_disk_def)

lemma sample_length: "length (sample_disk lba) = 256"
  using words_of_bytes(2) [of "sample_elf @ replicate 377 0"] by (simp add: sample_disk_def)

lemma sample_bpb:
  "BytesPerSector (disk_bpb sample_disk) = 512" "SectorsPerCluster (disk_bpb sample_disk) = 1"
  "ReservedSectors (disk_bpb sample_disk) = 1" "NumberOfFats (disk_bpb sample_disk) = 1"
  "SectorsPerFat (disk_bpb sample_disk) = 1"
  by (simp_all add: disk_bpb_def get_bpb_def sample_sector load16_def load8_def put_bytes_def in_span sector_bytes_nth)

lemma sample_chain: "chain (disk_bpb sample_disk) sample_disk 2 [2, 3]" "chain (disk_bpb sample_disk) sample_disk 4 [4]"
  "chain (disk_bpb sample_disk) sample_disk 5 [5]" "chain (disk_bpb sample_disk) sample_disk 6 [6]"
  by (simp_all add: FAT16_EOF_def fat_next_def Let_def sample_bpb sample_sector sector_bytes_nth)

lemma sample_data:
  "cluster_data (disk_bpb sample_disk) sample_disk 2 = replicate 512 0x41"
  "cluster_data (disk_bpb sample_disk) sample_disk 3 = replicate 512 0x42"
  "cluster_data (disk_bpb sample_disk) sample_disk 4 = sector sample_disk 36"
  "cluster_data (disk_bpb sample_disk) sample_disk 5 = sector sample_disk 37"
  "cluster_data (disk_bpb sample_disk) sample_disk 6 = sample_elf @ replicate 377 0"
  by (simp_all add: cluster_data_def sectors_def root_sector_def sample_bpb sample_sector)

lemma disk_kernel_serves: "serves sample_disk disk_kernel"
proof -
  have "answers disk_kernel"
    using ata_start_answers answers_in8 [of disk_kernel ata_start] by (simp add: disk_kernel_def)
  then show ?thesis by (simp add: serves_def disk_kernel_def sample_length)
qed

lemma disk_kernel_heap: "heap_inv (0x200000, {}) disk_kernel []" "heap_space disk_kernel = 2145386496"
  by (simp_all add: heap_inv_def heap_space_def kernel_start_def disk_kernel_def)

lemma disk_kernel_nodes:
  "node_flag disk_kernel 0x8000 = 1" "node_master disk_kernel 0x8000 = 0x9000" "node_read disk_kernel 0x9000 = 0x1001"
  "drive_nodes boot_env (usable (0x200000, {}) []) 0x8000 disk_kernel"
proof -
  show words: "node_flag disk_kernel 0x8000 = 1" "node_master disk_kernel 0x8000 = 0x9000"
    "node_read disk_kernel 0x9000 = 0x1001"
    by (simp_all add: disk_kernel_def cell_simps apart_def)
  have "span 0x8000 88 \<subseteq> usable (0x200000, {}) []" "span 0x9000 88 \<subseteq> usable (0x200000, {}) []"
    by (auto simp: usable_Nil in_span_unat)
  then show "drive_nodes boot_env (usable (0x200000, {}) []) 0x8000 disk_kernel"
    unfolding drive_nodes_def words by (simp add: boot_env_def)
qed

text \<open>Asked for two bytes, the code stores three of the first cluster and one of the second.\<close>

lemma sample_written:
  "[0x41, 0x41, 0x41, 0x42] = written (unat (2 :: u32)) 0 (map (cluster_data (disk_bpb sample_disk) sample_disk) [2, 3])"
proof -
  have "replicate 3 x = [x, x, x]" for x :: u8 by (simp add: numeral_3_eq_3)
  then show ?thesis by (simp add: sample_data Let_def)
qed

lemma sample_target:
  "span 0x7000 (length [0x41, 0x41, 0x41, 0x42 :: u8]) \<subseteq> usable (0x200000, {}) []"
  "span 0x7000 (length [0x41, 0x41, 0x41, 0x42 :: u8])
     \<inter> (span 0x8000 88 \<union> span (node_master disk_kernel 0x8000) 88) = {}"
  unfolding disk_kernel_nodes by (auto simp: usable_Nil in_span_unat)

lemma sample_result:
  assumes "\<forall>x \<in> usable (0x200000, {}) []. m x = put_bytes 0x7000 [0x41, 0x41, 0x41, 0x42] m' x"
  shows "get_bytes m 0x7000 4 = [0x41, 0x41, 0x41, 0x42]"
proof -
  let ?w = "[0x41, 0x41, 0x41, 0x42 :: u8]"
  have "get_bytes m 0x7000 (length ?w) = get_bytes (put_bytes 0x7000 ?w m') 0x7000 (length ?w)"
    by (rule get_bytes_local) (use assms sample_target(1) in auto)
  also have "\<dots> = ?w" by (rule get_put_bytes) simp
  finally show ?thesis by (simp add: numeral_eq_Suc)
qed

lemma fat_read_chain_witness:
  "\<exists>t. fat_file_read_with_handle boot_env 0x8000 sample_file 2 0x7000 disk_kernel = Inr (0, t)
     \<and> get_bytes (mem t) 0x7000 4 = [0x41, 0x41, 0x41, 0x42]"
proof -
  have room: "2112 + 4 * (512 * unat (SectorsPerCluster (disk_bpb sample_disk)) + 16) \<le> heap_space disk_kernel"
    by (simp add: sample_bpb disk_kernel_heap)
  have cls: "chain (disk_bpb sample_disk) sample_disk (fe_starting_cluster sample_file) [2, 3]"
    using sample_chain(1) by (simp add: sample_file_def del: chain.simps)
  show ?thesis
    using fat_read_chain [OF disk_kernel_heap(1) disk_kernel_serves room disk_kernel_nodes(4) _ _ cls
        sample_written _ sample_target] sample_result
    by (auto simp: sample_bpb)
qed

end
