(* ===== verification/File_Frame.thy ===== *)
theory File_Frame
  imports Disk_Spec
begin

text \<open>
  What the file systems leave alone: opening, reading, finding and closing assign to no global of paging, of
  the frames, of the interrupt table, of the table of devices and of the mounts, on any branch. The globals are fields of
  the state beside its memory, so this is about the assignments the code makes; what a store through a pointer may hit
  is a matter of memory and of the theories behind this one. The \<open>effect\<close> interface is interpreted twice: for the
  heap, and for code that works on files.
\<close>

section \<open>The heap\<close>

definition heap_io :: "'a kheap_scheme \<Rightarrow> 'a kheap_scheme \<Rightarrow> bool" where
  "heap_io s t \<longleftrightarrow> in8 t = in8 s \<and> in16 t = in16 s \<and> max_page_addr t = max_page_addr s \<and> kheap.more t = kheap.more s"

interpretation heap_io: effect heap_io
  by unfold_locales (simp_all add: heap_io_def)

lemma heap_io_yell: "run_effect heap_io s (yell msg args s)"
proof -
  have "globals_only s t \<Longrightarrow> heap_io s t" for t
    unfolding heap_io_def globals_only_def by (cases s; cases t) simp
  then show ?thesis
    using yell_globals [of s msg args] by (auto simp: run_effect_def split: sum.splits stop.splits)
qed

lemma heap_io_steps:
  "heap_io s (s\<lparr>mem := m\<rparr>)" "heap_io s (s\<lparr>last_hh := p\<rparr>)" "heap_io s (s\<lparr>mem := m, last_hh := p\<rparr>)"
  "heap_io s (s\<lparr>curr_addr := a, mem := m, frist_hh := q, last_hh := p\<rparr>)"
  by (simp_all add: heap_io_def)

lemma heap_io_split: "heap_io s (snd (split_block h n s))"
  by (simp add: heap_io_def split_block_def Let_def)

lemma heap_io_find: "find_good_loop n flag h s = Some r \<Longrightarrow> heap_io s (snd r)"
proof (induction rule: find_good_loop.raw_induct [rotated, consumes 1, case_names step])
  case (step f n flag h s r)
  have "heap_io s (snd (split_block h n (wr32 (h + 8) v s)))" for v
    by (rule heap_io.R_trans [OF heap_io_steps(1) heap_io_split])
  then show ?case using step heap_io.R_refl by (auto split: if_splits)
qed

lemma heap_io_merge: "merge_loop h c s = Some r \<Longrightarrow> heap_io s (snd r)"
proof (induction rule: merge_loop.raw_induct [rotated, consumes 1, case_names step])
  case (step f h c s r)
  have "heap_io s (snd (merge_step h c s))" by (simp add: merge_step_def heap_io_def Let_def)
  moreover obtain c' s' where m: "merge_step h c s = (c', s')" by fastforce
  ultimately have "heap_io s s'" by simp
  moreover have "r = (c', s') \<or> heap_io s' (snd r)"
    using step m by (cases "next_at s' h = 0") auto
  ultimately show ?case using heap_io.R_trans by auto
qed

lemma heap_io_of_loop: "(\<And>r. p = Some r \<Longrightarrow> heap_io s (snd r)) \<Longrightarrow> run_effect heap_io s (of_loop p)"
  by (cases p) auto

lemma heap_io_malloc: "run_effect heap_io s (malloc n s)"
proof -
  have new: "run_effect heap_io t (malloc_new a n t)" for a t
    by (simp add: malloc_new_def heap_io_def Let_def)
  then show ?thesis
    unfolding malloc_def find_good_block_def Let_def
    by (auto intro!: heap_io.and_then_effect heap_io_of_loop heap_io_find heap_io.R_refl)
qed

lemma heap_io_free: "run_effect heap_io s (free a s)"
proof -
  have merge: "run_effect heap_io t (merge_free_blocks t)" for t :: "'a kheap_scheme"
    unfolding merge_free_blocks_def
    by (intro heap_io.and_then_effect heap_io_of_loop heap_io_merge) (auto simp: heap_io_steps heap_io.R_refl)
  then show ?thesis
    unfolding free_def Let_def
    by (auto intro!: heap_io.and_then_effect heap_io.run_trans [OF heap_io_steps(1) merge] heap_io_yell simp: heap_io.R_refl)
qed

section \<open>Files\<close>

text \<open>\<open>exact\<close>: \<open>strtok\<close> has not been called.\<close>

definition file_io :: "bool \<Rightarrow> 'a vfs_scheme \<Rightarrow> 'a vfs_scheme \<Rightarrow> bool" where
  "file_io exact s t \<longleftrightarrow> in8 t = in8 s \<and> in16 t = in16 s \<and> max_page_addr t = max_page_addr s
     \<and> frames t = frames s \<and> frames_max t = frames_max s \<and> alloced_frames t = alloced_frames s
     \<and> kernel_page_dir t = kernel_page_dir s \<and> current_page_dir t = current_page_dir s \<and> cr3 t = cr3 s
     \<and> paging_on t = paging_on s \<and> the_idt t = the_idt s \<and> idtr_limit t = idtr_limit s \<and> idtr_base t = idtr_base s
     \<and> idtr_loaded t = idtr_loaded s \<and> m_devices t = m_devices s \<and> m_devices_number t = m_devices_number s
     \<and> is_master_exist t = is_master_exist s \<and> mount_points t = mount_points s \<and> mount_count t = mount_count s
     \<and> vfs.more t = vfs.more s \<and> (exact \<longrightarrow> strtok_input t = strtok_input s)"

interpretation file_io: effect "file_io exact" for exact
  by unfold_locales (simp_all add: file_io_def)

lemma file_io_heap:
  fixes s t :: "'a vfs_scheme"
  assumes "heap_io s t"
  shows "file_io exact s t"
  using assms unfolding heap_io_def file_io_def by (cases s; cases t; auto)

lemma file_io_heap_run: "run_effect heap_io s r \<Longrightarrow> run_effect (file_io exact) s r"
  for s :: "'a vfs_scheme"
  by (auto simp: run_effect_def file_io_heap split: sum.splits stop.splits)

lemmas file_io_malloc = heap_io_malloc [THEN file_io_heap_run]
lemmas file_io_free = heap_io_free [THEN file_io_heap_run]

lemma file_io_mem: "file_io exact s (s\<lparr>mem := m\<rparr>)"
  by (simp add: file_io_def)

section \<open>Devices\<close>

lemma wait_log:
  "ata_wait_bsy s = Some r \<Longrightarrow> mem_log_only s (snd r)" "ata_wait_drq s = Some r \<Longrightarrow> mem_log_only s (snd r)"
proof -
  have poll: "mem_log_only s (poll_once s)" for s :: "'a machine_scheme"
    by (simp add: mem_log_only_def poll_once_log)
  show "ata_wait_bsy s = Some r \<Longrightarrow> mem_log_only s (snd r)"
  proof (induction rule: ata_wait_bsy.raw_induct [rotated, consumes 1, case_names step])
    case (step f s r)
    have "r = ((), poll_once s) \<or> mem_log_only (poll_once s) (snd r)"
      using step by (auto simp: poll_port poll_once_def split: prod.splits if_splits)
    then show ?case using poll [of s] disk_io.R_trans by auto
  qed
  show "ata_wait_drq s = Some r \<Longrightarrow> mem_log_only s (snd r)"
  proof (induction rule: ata_wait_drq.raw_induct [rotated, consumes 1, case_names step])
    case (step f s r)
    have "r = ((), poll_once s) \<or> mem_log_only (poll_once s) (snd r)"
      using step by (auto simp: poll_port poll_once_def split: prod.splits if_splits)
    then show ?case using poll [of s] disk_io.R_trans by auto
  qed
qed

lemma ata_read_log: "run_effect mem_log_only s (ata_read_callback eax node off n p s)"
proof -
  have wait: "run_effect mem_log_only t (of_loop (ata_wait_bsy t))" "run_effect mem_log_only t (of_loop (ata_wait_drq t))"
    for t :: "'a ata_scheme"
    by (cases "ata_wait_bsy t", simp, fastforce dest: wait_log(1),
        cases "ata_wait_drq t", simp, fastforce dest: wait_log(2))
  have cmd: "mem_log_only t (read_command lba t)" for t :: "'a ata_scheme" and lba
    by (simp add: read_command_log mem_log_only_def)
  have word: "mem_log_only t (read_word a i t)" for t :: "'a ata_scheme" and a i
    by (simp add: read_word_step mem_log_only_def Let_def)
  have sector: "run_effect mem_log_only t (ata_read_sector lba a t)" for t :: "'a ata_scheme" and lba a
  proof (cases "is_master_exist t = 0")
    case False
    have "run_effect mem_log_only u (Inr (0, fold (read_word a) [0..<256] u) :: (u8, 'a ata_scheme) run)" for u
      unfolding run_effect_simps by (intro disk_io.fold_effect word)
    then show ?thesis
      unfolding ata_read_sector_def if_not_P [OF False]
      by (intro disk_io.and_then_effect wait disk_io.run_trans [OF cmd wait(1)])
  qed (simp add: ata_read_sector_def disk_io.R_refl)
  have "run_effect mem_log_only s (read_sectors off p is s)" for "is" p
    by (induction "is" arbitrary: p s) (auto intro!: disk_io.and_then_effect sector disk_io.R_refl)
  then show ?thesis unfolding ata_read_callback_def by (auto intro!: disk_io.and_then_effect disk_io.R_refl)
qed

lemma file_io_log: "mem_log_only s t \<Longrightarrow> file_io exact s t"
  for s :: "'a vfs_scheme"
  unfolding mem_log_only_def file_io_def by (cases s; cases t; auto)

lemma file_io_keyboard: "file_io exact s (snd (keyboard_read_callback node off n p s))"
proof -
  have step: "file_io exact t (if c then t else case kb_get t of (ch, u) \<Rightarrow> wr8 a ch u)" for t :: "'a vfs_scheme" and c a
    by (simp add: kb_get_def file_io_def Let_def)
  have "file_io exact s (fold (\<lambda>i s. if of_nat i < off then s else case kb_get s of (c, s') \<Rightarrow> wr8 (p + of_nat i) c s')
      [0..<unat (off + n)] s)"
    by (rule file_io.fold_effect) (rule step)
  then show ?thesis unfolding keyboard_read_callback_def Let_def
    by (auto intro: file_io.R_trans simp: file_io_def)
qed

lemma file_io_device: "run_effect (file_io exact) s (vread (device_read k) node off n p s)"
proof -
  have "run_effect (file_io exact) s (ata_read_callback eax node off n p s)" for eax
    using ata_read_log [of s eax node off n p] file_io_log
    by (auto simp: run_effect_def split: sum.splits stop.splits)
  then show ?thesis using file_io_keyboard [of exact s node off n p]
    by (cases "keyboard_read_callback node off n p s") (auto simp: vread_def device_read_def file_io.R_refl)
qed

section \<open>The FAT16 file system\<close>

context effect
begin

lemma loop_effect:
  "(\<And>x. p = Some x \<Longrightarrow> run_effect R s x) \<Longrightarrow> run_effect R s (of_run_loop p)"
  by (cases p) (auto simp: of_run_loop_def)

lemma case_effect:
  assumes "run_effect R s r" and "(case r of Inl e \<Rightarrow> Some (Inl e) | Inr (x, t) \<Rightarrow> g x t) = Some y"
    and "\<And>x t. g x t = Some y \<Longrightarrow> run_effect R t y"
  shows "run_effect R s y"
proof (cases r)
  case (Inl e)
  then have "y = Inl e" using assms(2) by simp
  then show ?thesis using assms(1) Inl by (cases e) simp_all
next
  case (Inr xt)
  then obtain x t where "r = Inr (x, t)" by (cases xt) simp
  then show ?thesis using assms run_trans [of s t y] by simp
qed

end

lemma file_io_free_mem: "run_effect (file_io exact) s (free a (s\<lparr>mem := m\<rparr>))"
  by (rule file_io.run_trans [OF file_io_mem file_io_free])

lemma file_io_Inr: "run_effect (file_io exact) s (Inr (x, s))"
  by (simp add: file_io.R_refl)

lemmas file_io_rules = file_io_Inr file_io.and_then_effect file_io_malloc file_io_free file_io_free_mem file_io_device
  file_io.loop_effect

lemma file_io_bpb: "run_effect (file_io exact) s (parse_bpb k dev s)"
  unfolding parse_bpb_def Let_def by (intro file_io_rules)

lemma file_io_buffer: "run_effect (file_io exact) s (fat_get_filehandle_buffer path b s)"
  by (simp add: fat_get_filehandle_buffer_def file_io.R_refl split: option.splits)

lemma file_io_rootdir: "run_effect (file_io exact) s (fat_get_filehandle_rootdir k dev path s)"
  unfolding fat_get_filehandle_rootdir_def by (intro file_io_rules file_io_bpb file_io_buffer)

lemma file_io_chain: "chain_loop k bpb f b bsz n p cl i s = Some r \<Longrightarrow> run_effect (file_io exact) s r"
proof (induction rule: chain_loop.raw_induct [rotated, consumes 1, case_names step])
  case (step loop k bpb f b bsz n p cl i s r)
  show ?case
  proof (cases "\<not> cl \<le> FAT16_EOF")
    case False
    show ?thesis
    proof (rule file_io.case_effect [OF file_io_device step(2) [unfolded if_not_P [OF False]]], goal_cases)
      case run: (1 _ s1)
      obtain i' m where c: "copy_cluster p b n 0 (unat bsz) i (mem s1) = (i', m)" by fastforce
      show ?case
      proof (cases "ucast (BytesPerSector bpb) = (0 :: u32)")
        case False
        show ?thesis
          by (rule file_io.run_trans [OF file_io_mem
                file_io.case_effect [OF file_io_device run [unfolded c prod.case Let_def if_not_P [OF False]]]])
            (rule step(1))
      qed (use run c in \<open>auto simp: Let_def\<close>)
    qed
  qed (use step(2) in \<open>auto simp: file_io.R_refl\<close>)
qed

lemma file_io_read: "run_effect (file_io exact) s (fat_file_read_with_handle k f e n p s)"
  unfolding fat_file_read_with_handle_def Let_def
  by (auto intro!: file_io.and_then_effect file_io_bpb file_io_malloc file_io_free file_io.loop_effect
      intro: file_io_chain file_io.R_refl)

section \<open>Paths\<close>

lemma file_io_copy: "strtok_copy ch p i s = Some r \<Longrightarrow> file_io exact s (snd r)"
proof (induction rule: strtok_copy.raw_induct [rotated, consumes 1, case_names step])
  case (step f ch p i s r)
  have "r = ((False, i), s) \<or> r = ((True, i), s) \<or> (\<exists>v. file_io exact (wr8 (p + i) v s) (snd r))"
    using step(2) step(1) [of ch p "i + 1" "wr8 (p + i) (mem s (strtok_input s + i)) s" r]
    by (auto simp: Let_def split: if_splits)
  then show ?case by (elim disjE exE) (simp_all add: file_io.R_refl file_io.R_trans [OF file_io_mem])
qed

lemma file_io_tok: "strtok_loop ch s = Some r \<Longrightarrow> run_effect (file_io False) s r"
proof (induction rule: strtok_loop.raw_induct [rotated, consumes 1, case_names step])
  case (step f ch s r)
  show ?case
  proof (cases "strtok_input s = 0")
    case False
    with step(2) obtain n where n: "strlen (mem s) (strtok_input s) = Some n" by (auto split: option.splits)
    show ?thesis
    proof (rule file_io.case_effect [OF file_io_malloc step(2) [unfolded if_not_P [OF False] n option.case]], goal_cases)
      case run: (1 p s1)
      then obtain sep i s2 where c: "strtok_copy ch p 0 s1 = Some ((sep, i), s2)" by (auto split: option.splits)
      have to: "file_io False s2 ((wr8 (p + i) 0 s2)\<lparr>strtok_input := x\<rparr>)" for x
        by (simp add: file_io_def)
      have "run_effect (file_io False) s2 r"
        using run to file_io.run_trans [OF to step(1)] unfolding c by (cases sep; cases "i = 0") (auto simp: Let_def)
      then show ?case using file_io_copy [OF c] file_io.run_trans by fastforce
    qed
  qed (use step(2) in \<open>auto simp: file_io.R_refl\<close>)
qed

lemma file_io_strtok: "run_effect (file_io False) s (strtok path ch s)"
proof -
  have "file_io False s (s\<lparr>strtok_input := path\<rparr>)" by (simp add: file_io_def)
  then show ?thesis
    unfolding strtok_def by (auto intro!: file_io.loop_effect dest!: file_io_tok intro: file_io.run_trans)
qed

lemma file_io_walk: "walk_loop k f b name e s = Some r \<Longrightarrow> run_effect (file_io False) s r"
proof (induction rule: walk_loop.raw_induct [rotated, consumes 1, case_names step])
  case (step loop k f b name e s r)
  show ?case
  proof (cases "name = 0")
    case False
    show ?thesis
    proof (rule file_io.case_effect [OF _ step(2) [unfolded if_not_P [OF False]]], goal_cases)
      case 1
      show ?case by (auto intro!: file_io.and_then_effect file_io_free file_io_strtok file_io_buffer file_io_read file_io.R_refl)
    next
      case (2 x s4)
      then show ?case using step(1) by (auto simp: file_io.R_refl split: prod.splits if_splits)
    qed
  qed (use step(2) in \<open>auto simp: file_io.R_refl\<close>)
qed

lemma file_io_handle: "run_effect (file_io False) s (fat_get_filehandle k f s)"
  unfolding fat_get_filehandle_def Let_def
  by (auto intro!: file_io.and_then_effect file_io_malloc file_io_strtok file_io_rootdir file_io_free file_io_read
      file_io.loop_effect simp: file_io.R_refl file_io_walk)

section \<open>The virtual file system\<close>

lemma file_io_node: "file_io exact s (fat_node_create k target path dev e s)" "file_io exact s (fat_file_create k target path dev s)"
  by (simp_all add: fat_node_create_def fat_dir_create_def fat_file_create_def Let_def file_io_def)

lemmas file_io_paths = file_io_handle file_io_buffer file_io_read file_io_bpb file_io_malloc file_io_free file_io_free_mem
  file_io_device file_io.run_trans [OF file_io_node(1) file_io_free]

lemma file_io_call_read: "run_effect (file_io False) s (vread (call_read k) node off n p s)"
proof -
  have "run_effect (file_io False) t (fat_file_read k node off n p t)" for t
    unfolding fat_file_read_def
    by (rule file_io.and_then_effect [OF file_io_handle])
      (auto intro!: file_io.and_then_effect file_io_read simp: file_io.R_refl split: option.splits)
  then show ?thesis
    using file_io_device [of False s k node off n p] by (auto simp: vread_def call_read_def file_io.R_refl)
qed

lemma file_io_devfs_find: "run_effect (file_io exact) s (devfs_find_loop path target is s)"
  by (induction "is") (auto simp: file_io.R_refl file_io_mem devfs_make_instance_def split: option.splits)

lemma file_io_find_dir: "run_effect (file_io False) s (vfind_dir (call_find_dir k) node name target s)"
proof -
  have find: "run_effect (file_io False) t (fat_find_dir k node name target t)" for t
    unfolding fat_find_dir_def Let_def
    by (auto intro!: file_io.and_then_effect file_io.run_trans [OF file_io_node(2) file_io.and_then_effect] file_io_handle
        simp: file_io.R_refl file_io_node split: option.splits)
  have dir: "run_effect (file_io False) t (fat_dir_finddir k node name target t)" for t
    unfolding fat_dir_finddir_def
    by (auto intro!: file_io.and_then_effect file_io_paths simp: file_io.R_refl split: option.splits)
  show ?thesis
    using find dir file_io_devfs_find
    by (auto simp: vfind_dir_def call_find_dir_def devfs_find_dir_def file_io.R_refl)
qed

lemma file_io_mount: "mount_loop k p s = Some r \<Longrightarrow> file_io exact s (snd r)"
proof (induction rule: mount_loop.raw_induct [rotated, consumes 1, case_names step])
  case (step f k p s r)
  have "(\<exists>i. r = (i, s)) \<or> (\<exists>m. file_io exact (s\<lparr>mem := m\<rparr>) (snd r))"
    using step(2) step(1) [of k p _ r] by (fastforce split: option.splits if_splits prod.splits)
  then show ?case by (elim disjE exE) (simp_all add: file_io.R_refl file_io.R_trans [OF file_io_mem])
qed

lemma file_io_open: "run_effect (file_io False) s (fopen k path s)"
  for s :: "'a vfs_scheme"
proof -
  have len: "run_effect (file_io False) t (of_strlen q t)" for t :: "'a vfs_scheme" and q
    by (simp add: of_strlen_def file_io.R_refl split: option.splits)
  have loop: "run_effect (file_io False) t (of_loop (mount_loop k q (t\<lparr>mem := m\<rparr>)))" for t :: "'a vfs_scheme" and q m
    by (rule file_io.run_trans [OF file_io_mem]) (cases "mount_loop k q (t\<lparr>mem := m\<rparr>)"; auto dest: file_io_mount)
  have mnt: "run_effect (file_io False) t (find_relative_mount k path t)" for t :: "'a vfs_scheme"
    unfolding find_relative_mount_def
    by (intro file_io.and_then_effect len loop file_io_malloc file_io_free file_io_Inr)
  show ?thesis
    unfolding fopen_def Let_def
    by (auto intro!: file_io.and_then_effect len mnt file_io_malloc file_io_free file_io_find_dir
        simp: file_io.R_refl file_io_mem vopen_def no_call_def)
qed

lemma file_io_close: "run_effect (file_io exact) s (fclose p s)"
  unfolding fclose_def
  by (auto intro!: file_io.and_then_effect file_io_free simp: file_io.R_refl vclose_def no_call_def)

end
