(* ===== verification/Lookup_Spec.thy ===== *)
theory Lookup_Spec
  imports Fat_Spec Mount_Spec File_Frame
begin

text \<open>
  From the name in a file's node to its bytes: \<open>strtok\<close> splits the name, the root directory is searched for
  it, and the chain of the entry found is read.
\<close>

section \<open>Steps over the heap of a kernel with a drive\<close>

definition fs_at :: "disk \<Rightarrow> heap_base \<Rightarrow> 'a vfs_scheme \<Rightarrow> block list \<Rightarrow> bool" where
  "fs_at d base s bs \<longleftrightarrow> heap_inv base s bs \<and> serves d s"

text \<open>From \<open>s\<close> to \<open>t\<close>, at a cost of \<open>c\<close>, with every byte kept that both may rely on.\<close>

definition fs_keeps :: "heap_base \<Rightarrow> nat \<Rightarrow> 'a vfs_scheme \<Rightarrow> block list \<Rightarrow> 'a vfs_scheme \<Rightarrow> block list \<Rightarrow> bool" where
  "fs_keeps base c s bs t bs' \<longleftrightarrow> heap_space s \<le> heap_space t + c
     \<and> (\<forall>x \<in> usable base bs \<inter> usable base bs'. mem t x = mem s x)"

lemma fs_alloc:
  fixes s :: "'a vfs_scheme"
  assumes "fs_at d base s bs" and "alloc_cost n \<le> heap_space s"
  shows "\<exists>p l t bs'. malloc n s = Inr (p, t) \<and> fs_at d base t bs' \<and> p \<noteq> 0 \<and> n \<le> l
    \<and> live bs' = insert (p, l) (live bs) \<and> (p, l) \<notin> live bs \<and> span p (unat l) \<inter> usable base bs = {}
    \<and> fs_keeps base (alloc_cost n) s bs t bs' \<and> heap_only s t"
proof -
  have inv: "heap_inv base s bs" and d: "serves d s" using assms(1) by (simp_all add: fs_at_def)
  obtain p t bs' and l :: u32 where A: "malloc n s = Inr (p, t)" "heap_inv base t bs'" "p \<noteq> 0" "n \<le> l"
    "live bs' = insert (p, l) (live bs)" "(p, l) \<notin> live bs" "span p (unat l) \<inter> usable base bs = {}" "heap_only s t"
    "heap_space s \<le> heap_space t + alloc_cost n" "\<forall>x \<in> usable base bs. mem t x = mem s x"
    using heap_take [OF inv assms(2)] by blast
  moreover have "fs_at d base t bs'" using A(2) serves_heap [OF d A(8)] by (simp add: fs_at_def)
  moreover have "fs_keeps base (alloc_cost n) s bs t bs'" using A(9,10) by (simp add: fs_keeps_def)
  ultimately show ?thesis by blast
qed

lemma fs_free:
  fixes s :: "'a vfs_scheme"
  assumes "fs_at d base s bs" and "(p, l) \<in> live bs"
  shows "\<exists>t bs'. free p s = Inr ((), t) \<and> fs_at d base t bs' \<and> live bs' = live bs - {(p, l)}
    \<and> fs_keeps base 0 s bs t bs'"
proof -
  have inv: "heap_inv base s bs" and d: "serves d s" using assms(1) by (simp_all add: fs_at_def)
  obtain t bs' where A: "free p s = Inr ((), t)" "heap_inv base t bs'" "live bs' = live bs - {(p, l)}"
    "heap_only s t" "heap_space t = heap_space s" "\<forall>x \<in> usable base bs'. mem t x = mem s x"
    using heap_give [OF inv assms(2)] by blast
  then show ?thesis using serves_heap [OF d A(4)] by (auto simp: fs_at_def fs_keeps_def)
qed

text \<open>A write inside an area in use: the state and the bytes outside the area stay.\<close>

lemma fs_write:
  assumes "fs_at d base s bs" and "(p, l) \<in> live bs" and "\<And>x. x \<notin> span p (unat l) \<Longrightarrow> m x = mem s x"
  shows "fs_at d base (s\<lparr>mem := m\<rparr>) bs"
proof -
  have "heap_inv base (s\<lparr>mem := m\<rparr>) bs"
    by (rule heap_write) (use assms usable_area [OF assms(2), of base] in \<open>auto simp: fs_at_def\<close>)
  moreover have "serves d (s\<lparr>mem := m\<rparr>)"
    by (rule serves_frame [of d s]) (use assms(1) in \<open>simp_all add: fs_at_def\<close>)
  ultimately show ?thesis by (simp add: fs_at_def)
qed

section \<open>Splitting a name\<close>

lemma strtok_copy_run:
  assumes "cstring (mem s) (strtok_input s) cs" and "span (strtok_input s) (Suc (length cs)) \<inter> span result n = {}"
    and "takeWhile (\<lambda>c. c \<noteq> ch) cs = xs" and "length xs \<le> n" and "n < 4294967296" and "j \<le> length xs" and "ch \<noteq> 0"
  shows "strtok_copy ch result (of_nat j) (s\<lparr>mem := put_bytes result (take j xs) (mem s)\<rparr>)
    = Some ((length xs < length cs, of_nat (length xs)), s\<lparr>mem := put_bytes result xs (mem s)\<rparr>)"
proof -
  have le: "length xs \<le> length cs" unfolding assms(3) [symmetric] by (rule length_takeWhile_le)
  have at: "put_bytes result ys (mem s) (strtok_input s + of_nat i) = mem s (strtok_input s + of_nat i)"
    if "i \<le> length cs" "length ys \<le> n" for i ys
  proof (rule put_bytes_outside)
    have "strtok_input s + of_nat i \<in> span (strtok_input s) (Suc (length cs))"
      using that(1) cstring_length [OF assms(1)] by (intro span_add_of_nat) auto
    then show "strtok_input s + of_nat i \<notin> span result (length ys)"
      using assms(2) span_mono [OF that(2), of result] by blast
  qed
  show ?thesis
    using assms(6)
  proof (induction "length xs - j" arbitrary: j)
    case 0
    have j: "j = length xs" using 0 by simp
    have "cs ! length xs = ch" if "length xs < length cs"
      using that nth_length_takeWhile [of "\<lambda>c. c \<noteq> ch" cs] assms(3) by auto
    then show ?case
      using at [of "length xs" xs] le cstring_nth [OF assms(1), of "length xs"] cstring_end [OF assms(1)] assms(4,7)
      by (cases "length xs < length cs"; subst strtok_copy.simps) (auto simp: j)
  next
    case (Suc k)
    have j: "j < length xs" using Suc by simp
    have "xs ! j = cs ! j" using takeWhile_nth [of j "\<lambda>c. c \<noteq> ch" cs] j assms(3) by simp
    moreover have "xs ! j \<noteq> ch" using nth_mem [OF j] set_takeWhileD [of "xs ! j" "\<lambda>c. c \<noteq> ch" cs] assms(3) by auto
    ultimately have c: "mem s (strtok_input s + of_nat j) = xs ! j" "xs ! j \<noteq> 0" "xs ! j \<noteq> ch"
      using cstring_nth [OF assms(1), of j] j le by auto
    then have out: "put_bytes result (take j xs) (mem s) (strtok_input s + of_nat j) = xs ! j"
      using at [of j "take j xs"] j le assms(4) by simp
    have snoc: "(put_bytes result (take j xs) (mem s))(result + of_nat j := xs ! j) = put_bytes result (take (Suc j) xs) (mem s)"
      using put_bytes_snoc [of "take j xs" result "xs ! j" "mem s"] j assms(4,5) by (simp add: take_Suc_conv_app_nth)
    have "strtok_copy ch result (of_nat j) (s\<lparr>mem := put_bytes result (take j xs) (mem s)\<rparr>)
        = strtok_copy ch result (of_nat (Suc j)) (s\<lparr>mem := put_bytes result (take (Suc j) xs) (mem s)\<rparr>)"
      using out c(2,3) snoc by (subst strtok_copy.simps) (simp add: add.commute)
    also have "\<dots> = Some ((length xs < length cs, of_nat (length xs)), s\<lparr>mem := put_bytes result xs (mem s)\<rparr>)"
      using Suc.hyps(1) [of "Suc j"] Suc.hyps(2) j by (simp del: of_nat_Suc)
    finally show ?case .
  qed
qed

lemma cstring_put_bytes:
  assumes "0 \<notin> set xs" and "Suc (length xs) \<le> 4294967296"
  shows "cstring (put_bytes p (xs @ [0]) m) p xs"
proof (rule cstring_intro)
  have byte: "put_bytes p (xs @ [0]) m (p + of_nat i) = (xs @ [0]) ! i" if "i \<le> length xs" for i
    using that assms(2) by (intro put_bytes_in) simp_all
  show "put_bytes p (xs @ [0]) m (p + of_nat (length xs)) = 0" using byte [of "length xs"] by simp
  fix i assume i: "i < length xs"
  then have "xs ! i \<noteq> 0" using assms(1) nth_mem by metis
  then show "put_bytes p (xs @ [0]) m (p + of_nat i) = xs ! i \<and> xs ! i \<noteq> 0"
    using byte [of i] i by (simp add: nth_append)
qed

text \<open>The first component of a name that starts with one, in an area of its own.\<close>

lemma strtok_run:
  fixes s :: "'a vfs_scheme"
  assumes at: "fs_at d base s bs" and room: "4 * (length cs + 17) \<le> heap_space s"
    and name: "string_in (usable base bs) (mem s) path cs" "path \<noteq> 0"
    and xs: "takeWhile (\<lambda>c. c \<noteq> ch) cs = xs" "xs \<noteq> []" and ch: "ch \<noteq> 0"
  shows "\<exists>p l t bs'. strtok path ch s = Inr (p, t) \<and> fs_at d base t bs' \<and> p \<noteq> 0
    \<and> live bs' = insert (p, l) (live bs) \<and> (p, l) \<notin> live bs \<and> length xs < unat l
    \<and> span p (unat l) \<inter> usable base bs = {} \<and> fs_keeps base (4 * (length cs + 17)) s bs t bs'
    \<and> cstring (mem t) p xs
    \<and> strtok_input t = (if length xs < length cs then path + of_nat (length xs) + 1 else 0)"
proof -
  let ?n = "of_nat (length cs) + 1 :: u32"
  define s0 where "s0 = s\<lparr>strtok_input := path\<rparr>"
  have str: "cstring (mem s) path cs" and A: "span path (Suc (length cs)) \<subseteq> usable base bs"
    using name(1) by (simp_all add: string_in_def)
  have un: "unat ?n = Suc (length cs)"
    using u32_of_nat_unat [of "Suc (length cs)"] room by (simp add: add.commute heap_space_def)
  then have cost: "alloc_cost ?n = 4 * (length cs + 17)" by (simp add: alloc_cost_def)
  have at0: "fs_at d base s0 bs" and room0: "alloc_cost ?n \<le> heap_space s0"
    using at room cost serves_frame [of d s s0] by (simp_all add: s0_def fs_at_def heap_inv_def heap_space_def)
  obtain p l s1 bs1 where M: "malloc ?n s0 = Inr (p, s1)" "fs_at d base s1 bs1" "p \<noteq> 0" "?n \<le> l"
    "live bs1 = insert (p, l) (live bs)" "(p, l) \<notin> live bs" "span p (unat l) \<inter> usable base bs = {}"
    "fs_keeps base (alloc_cost ?n) s0 bs s1 bs1" "heap_only s0 s1"
    using fs_alloc [OF at0 room0] by blast
  have "strtok_input s1 = strtok_input s0" using M(9) by (cases s0; cases s1; simp add: heap_only_def)
  then have in1: "strtok_input s1 = path" by (simp add: s0_def)
  have le: "length xs \<le> length cs" unfolding xs(1) [symmetric] by (rule length_takeWhile_le)
  have l: "Suc (length cs) \<le> unat l" using M(4) un by (simp add: u32_le_unat)
  have same: "mem s1 x = mem s x" if "x \<in> usable base bs" for x
  proof -
    have "usable base bs \<subseteq> usable base bs1" by (rule usable_mono) (use M(5) in auto)
    then show ?thesis using M(8) that by (auto simp: fs_keeps_def s0_def)
  qed
  have "string_in (usable base bs) (mem s1) path cs" by (rule string_in_frame [OF name(1) same])
  then have str1: "cstring (mem s1) path cs" by (simp add: string_in_def)
  have "strtok_copy ch p (of_nat 0) (s1\<lparr>mem := put_bytes p (take 0 xs) (mem s1)\<rparr>)
      = Some ((length xs < length cs, of_nat (length xs)), s1\<lparr>mem := put_bytes p xs (mem s1)\<rparr>)"
    by (rule strtok_copy_run [where n = "unat l"])
      (use str1 in1 A M(7) xs l le ch u32_bound [of l] in \<open>auto\<close>)
  then have copy: "strtok_copy ch p 0 s1
      = Some ((length xs < length cs, of_nat (length xs)), s1\<lparr>mem := put_bytes p xs (mem s1)\<rparr>)"
    by (simp add: put_bytes_def in_span)
  define m where "m = (put_bytes p xs (mem s1))(p + of_nat (length xs) := 0)"
  define t where "t = s1\<lparr>mem := m, strtok_input := if length xs < length cs then path + of_nat (length xs) + 1 else 0\<rparr>"
  have m: "m = put_bytes p (xs @ [0]) (mem s1)"
    using put_bytes_snoc [of xs p 0 "mem s1"] l le u32_bound [of l] by (simp add: m_def)
  have "length xs < 4294967296" using cstring_length [OF str] le by simp
  then have nz: "(of_nat (length xs) :: u32) \<noteq> 0"
    using xs(2) u32_of_nat_unat [of "length xs"] by (metis length_0_conv unat_0)
  have "strtok_loop ch s0 = Some (Inr (p, t))"
    using name(2) M(1) copy nz le strlen_cstring [OF str] 
    by (subst strtok_loop.simps, cases "length xs < length cs") (simp_all add: s0_def in1 Let_def t_def m_def)
  then have "strtok path ch s = Inr (p, t)"
    using name(2) by (simp add: strtok_def s0_def [symmetric] of_run_loop_def)
  moreover have "fs_at d base (s1\<lparr>mem := m\<rparr>) bs1"
    by (rule fs_write [OF M(2), of p l]) (use M(5) l le span_mono [of "length (xs @ [0])" "unat l" p] in
      \<open>auto simp: m intro!: put_bytes_outside\<close>)
  then have "fs_at d base t bs1"
    using serves_frame [of d "s1\<lparr>mem := m\<rparr>" t] by (simp add: fs_at_def heap_inv_def t_def)
  moreover have "cstring (mem t) p xs"
    using cstring_put_bytes [of xs p "mem s1"] cstring_nonzero [OF str] set_takeWhileD xs(1) l le u32_bound [of l]
    by (fastforce simp: t_def m)
  moreover have "fs_keeps base (4 * (length cs + 17)) s bs t bs1"
  proof -
    have "mem t x = mem s x" if x: "x \<in> usable base bs" for x
    proof -
      have "x \<notin> span p (unat l)" using x M(7) by blast
      moreover have "span p (length (xs @ [0])) \<subseteq> span p (unat l)" using l le by (intro span_mono) simp
      ultimately have "m x = mem s1 x" unfolding m by (intro put_bytes_outside) blast
      then show ?thesis using same [OF x] by (simp add: t_def)
    qed
    then show ?thesis using M(8) cost by (simp add: fs_keeps_def t_def s0_def heap_space_def)
  qed
  moreover have "length xs < unat l" using l le by simp
  ultimately show ?thesis
    using M(3,5-7)
    by (intro exI [of _ p, OF exI [of _ l, OF exI [of _ t, OF exI [of _ bs1]]]]) (simp add: t_def)
qed

section \<open>The root directory\<close>

lemma root_sector_lba: "root_lba bpb = root_sector bpb"
  by (simp add: root_lba_def root_sector_def add.commute)

text \<open>The entries of a directory, from the 512 bytes of a sector, and the first that starts with a name.\<close>

definition slot :: "u8 list \<Rightarrow> nat \<Rightarrow> u8 list" where
  "slot sec i = take 32 (drop (32 * i) sec)"

definition sec_find :: "u8 list \<Rightarrow> u8 list \<Rightarrow> nat option" where
  "sec_find sec xs = find (\<lambda>i. take (length xs) (slot sec i) = xs) [0..<16]"

definition entry_of :: "u8 list \<Rightarrow> FatEntry" where
  "entry_of bs = get_entry (put_bytes 0 bs (\<lambda>_. 0)) 0"

abbreviation root_dir :: "disk \<Rightarrow> u8 list" where
  "root_dir d \<equiv> sector d (root_sector (disk_bpb d))"

abbreviation dir_entry :: "disk \<Rightarrow> nat \<Rightarrow> u8 list" where
  "dir_entry d \<equiv> slot (root_dir d)"

abbreviation root_find :: "disk \<Rightarrow> u8 list \<Rightarrow> nat option" where
  "root_find d \<equiv> sec_find (root_dir d)"

lemma sec_find_Some: "sec_find sec xs = Some i \<Longrightarrow> i < 16"
  by (auto simp: sec_find_def find_Some_iff)

lemma get_entry_bytes:
  assumes "\<And>i. i < 32 \<Longrightarrow> m (p + of_nat i) = m' (q + of_nat i)"
  shows "get_entry m p = get_entry m' q"
proof -
  have d: "load32 m (p + of_nat i) = load32 m' (q + of_nat i)" if "i + 4 \<le> 32" for i
    using assms [of i] assms [of "i + 1"] assms [of "i + 2"] assms [of "i + 3"] that
    by (simp add: load32_def add_ac)
  have h: "load16 m (p + of_nat i) = load16 m' (q + of_nat i)" if "i + 2 \<le> 32" for i
    using assms [of i] assms [of "i + 1"] that by (simp add: load16_def add_ac)
  have c: "get_bytes m (p + of_nat i) n = get_bytes m' (q + of_nat i) n" if "i + n \<le> 32" for i n
    using assms [of "i + j" for j] that by (simp add: get_bytes_def add.assoc [symmetric])
  have b: "load8 m (p + of_nat i) = load8 m' (q + of_nat i)" if "i + 1 \<le> 32" for i
    using assms [of i] that by (simp add: load8_def)
  show ?thesis
    using c [of 0 8] c [of 8 3] c [of 12 10] b [of 11] h [of 22] h [of 24] h [of 26] d [of 28]
    by (simp add: get_entry_def)
qed

lemma find_entry_run:
  assumes sec: "get_bytes m buffer 512 = sec" and name: "cstring m path xs"
    and len: "length xs \<le> 32" and js: "set js \<subseteq> {..<16}"
  shows "find_entry m path (of_nat (length xs)) (map (\<lambda>i. buffer + of_nat (32 * i)) js)
    = (case find (\<lambda>i. take (length xs) (slot sec i) = xs) js of None \<Rightarrow> 0 | Some i \<Rightarrow> buffer + of_nat (32 * i))"
  using js
proof (induction js)
  case (Cons i js)
  have byte: "m (buffer + of_nat (32 * i) + of_nat j) = slot sec i ! j" if "j < 32" for j
  proof -
    have "get_bytes m buffer 512 ! (32 * i + j) = m (buffer + of_nat (32 * i + j))"
      using Cons.prems that by (simp add: get_bytes_def)
    then show ?thesis using Cons.prems that sec [symmetric] by (simp add: slot_def add.assoc get_bytes_def)
  qed
  have l: "length (slot sec i) = 32"
    using Cons.prems unfolding slot_def sec [symmetric] by (auto simp: get_bytes_def min_def)
  have n: "unat (of_nat (length xs) :: u32) = length xs" using len by (intro u32_of_nat_unat) simp
  have "memcmp (buffer + of_nat (32 * i)) path (of_nat (length xs)) m = 0
      \<longleftrightarrow> (\<forall>j < length xs. slot sec i ! j = xs ! j)"
    using byte len cstring_nth [OF name] by (auto simp: memcmp_def memcmp_from_eq_0 n)
  also have "\<dots> \<longleftrightarrow> take (length xs) (slot sec i) = xs"
    using len l by (auto simp: list_eq_iff_nth_eq)
  finally show ?case using Cons by simp
qed simp

lemma filehandle_buffer_run:
  assumes sec: "get_bytes (mem s) b 512 = sec" and name: "cstring (mem s) path xs" and len: "length xs \<le> 32"
  shows "fat_get_filehandle_buffer path b s
    = Inr (case sec_find sec xs of None \<Rightarrow> 0 | Some i \<Rightarrow> b + of_nat (32 * i), s)"
proof -
  have js: "set [0..<16] \<subseteq> {..<16}" by auto
  show ?thesis
    using find_entry_run [OF sec name len js] strlen_cstring [OF name]
    by (simp add: fat_get_filehandle_buffer_def sector_entries_def sec_find_def)
qed

lemma fs_bpb:
  fixes s :: "'a vfs_scheme"
  assumes "fs_at d base s bs" and "2112 \<le> heap_space s"
    and "span (dev + 60) 4 \<subseteq> usable base bs" and "node_read s dev = fn_ata_read k" and "fn_ata_read k \<noteq> 0"
  shows "\<exists>t bs'. parse_bpb k dev s = Inr (disk_bpb d, t) \<and> fs_at d base t bs' \<and> live bs' = live bs
    \<and> fs_keeps base 2112 s bs t bs'"
  using parse_bpb_disk [of base s bs d dev k] assms by (auto simp: fs_at_def fs_keeps_def)

lemma fs_read:
  fixes s :: "'a vfs_scheme"
  assumes "fs_at d base s bs" and "(p, l) \<in> live bs" and "512 \<le> unat l"
    and "node_read s dev = fn_ata_read k" and "fn_ata_read k \<noteq> 0"
  shows "\<exists>t. vread (device_read k) dev off 1 p s = Inr (left_eax k, t) \<and> fs_at d base t bs
    \<and> heap_space t = heap_space s \<and> mem t = put_bytes p (sector d off) (mem s)"
proof -
  have d: "serves d s" using assms(1) by (simp add: fs_at_def)
  obtain t log where t: "vread (device_read k) dev off 1 p s = Inr (left_eax k, t)" "serves d t"
    "t = s\<lparr>mem := put_bytes p (sector d off) (mem s), io_log := log\<rparr>"
    using vread_disk [OF d assms(4,5), of 1 off p] by (auto simp: sectors_def)
  have "length (sector d off) = 512" using d by simp
  then have "fs_at d base (s\<lparr>mem := put_bytes p (sector d off) (mem s)\<rparr>) bs"
    using span_mono [OF assms(3), of p] by (intro fs_write [OF assms(1,2)] put_bytes_outside) auto
  then have "fs_at d base t bs" using t(2) by (simp add: fs_at_def t(3) heap_inv_log)
  then show ?thesis using t(1) by (auto simp: t(3) heap_space_def)
qed

text \<open>What \<open>s\<close> held in its usable memory is there in \<open>t\<close>, at a cost of at most \<open>c\<close>.\<close>

definition kept :: "heap_base \<Rightarrow> nat \<Rightarrow> 'a vfs_scheme \<Rightarrow> block list \<Rightarrow> 'a vfs_scheme \<Rightarrow> block list \<Rightarrow> bool" where
  "kept base c s bs t bs' \<longleftrightarrow> live bs \<subseteq> live bs' \<and> heap_space s \<le> heap_space t + c
     \<and> (\<forall>x \<in> usable base bs. mem t x = mem s x)"

lemma kept_refl: "kept base 0 s bs s bs"
  by (simp add: kept_def)

lemma kept_step:
  assumes "kept base c s bs t bs'" and "fs_keeps base c' t bs' u bs''" and "live bs \<subseteq> live bs''"
  shows "kept base (c + c') s bs u bs''"
proof -
  have "usable base bs \<subseteq> usable base bs'" "usable base bs \<subseteq> usable base bs''"
    using assms(1,3) usable_mono [of bs _ base] by (auto simp: kept_def)
  then show ?thesis using assms unfolding kept_def fs_keeps_def by (auto simp: subset_iff)
qed

lemma kept_write:
  assumes "kept base c s bs t bs'" and "span p (unat l) \<inter> usable base bs = {}"
    and "\<And>x. x \<notin> span p (unat l) \<Longrightarrow> mem u x = mem t x" and "heap_space u = heap_space t"
  shows "kept base c s bs u bs'"
proof -
  have "mem u x = mem t x" if "x \<in> usable base bs" for x using assms(2,3) that by blast
  then show ?thesis using assms(1,4) by (simp add: kept_def)
qed

lemma kept_word: "kept base c s bs t bs' \<Longrightarrow> span a 4 \<subseteq> usable base bs \<Longrightarrow> load32 (mem t) a = load32 (mem s) a"
  by (rule c32.ld_local) (auto simp: kept_def)

lemma kept_string:
  "kept base c s bs t bs' \<Longrightarrow> string_in (usable base bs) (mem s) p cs \<Longrightarrow> string_in (usable base bs) (mem t) p cs"
  by (erule string_in_frame) (simp add: kept_def)

lemma kept_keeps: "kept base c s bs t bs' \<Longrightarrow> fs_keeps base c s bs t bs'"
  by (simp add: kept_def fs_keeps_def)

text \<open>The sector of the root directory in a fresh area.\<close>

lemma fs_root_sector:
  fixes s :: "'a vfs_scheme"
  assumes at: "fs_at d base s bs" and room: "4224 \<le> heap_space s"
    and dev: "span (dev + 60) 4 \<subseteq> usable base bs" "node_read s dev = fn_ata_read k" "fn_ata_read k \<noteq> 0"
  shows "\<exists>s1 b l s2 s3 bs'. parse_bpb k dev s = Inr (disk_bpb d, s1) \<and> malloc 512 s1 = Inr (b, s2)
    \<and> vread (device_read k) dev (root_sector (disk_bpb d)) 1 b s2 = Inr (left_eax k, s3) \<and> fs_at d base s3 bs'
    \<and> live bs' = insert (b, l) (live bs) \<and> (b, l) \<notin> live bs \<and> 512 \<le> unat l \<and> span b (unat l) \<inter> usable base bs = {}
    \<and> kept base 4224 s bs s3 bs' \<and> get_bytes (mem s3) b 512 = sector d (root_sector (disk_bpb d))"
proof -
  have r: "2112 \<le> heap_space s" using room by simp
  obtain s1 bs1 where P: "parse_bpb k dev s = Inr (disk_bpb d, s1)" "fs_at d base s1 bs1" "live bs1 = live bs"
    "fs_keeps base 2112 s bs s1 bs1"
    using fs_bpb [OF at r dev] by blast
  have k1: "kept base (0 + 2112) s bs s1 bs1" by (rule kept_step [OF kept_refl P(4)]) (simp add: P(3))
  have cost: "alloc_cost 512 = 2112" by (simp add: alloc_cost_def)
  have "alloc_cost 512 \<le> heap_space s1" using room k1 cost by (simp add: kept_def)
  from fs_alloc [OF P(2) this]
  obtain b l s2 bs2 where M: "malloc 512 s1 = Inr (b, s2)" "fs_at d base s2 bs2" "512 \<le> l"
    "live bs2 = insert (b, l) (live bs1)" "(b, l) \<notin> live bs1" "span b (unat l) \<inter> usable base bs1 = {}"
    "fs_keeps base 2112 s1 bs1 s2 bs2"
    unfolding cost by blast
  have l: "512 \<le> unat l" using M(3) by (simp add: u32_le_unat)
  have u1: "usable base bs1 = usable base bs" by (simp add: usable_def P(3))
  have k2: "kept base (0 + 2112 + 2112) s bs s2 bs2" by (rule kept_step [OF k1 M(7)]) (use M(4) P(3) in auto)
  have "node_read s2 dev = fn_ata_read k" using kept_word [OF k2 dev(1)] dev(2) by simp
  moreover have bl: "(b, l) \<in> live bs2" using M(4) by simp
  ultimately obtain s3 where R: "vread (device_read k) dev (root_sector (disk_bpb d)) 1 b s2 = Inr (left_eax k, s3)"
    "fs_at d base s3 bs2" "heap_space s3 = heap_space s2" "mem s3 = put_bytes b (sector d (root_sector (disk_bpb d))) (mem s2)"
    using fs_read [OF M(2) _ l _ dev(3)] by blast
  have len: "length (sector d (root_sector (disk_bpb d))) = 512" using at by (auto simp: fs_at_def)
  have k3: "kept base (0 + 2112 + 2112) s bs s3 bs2"
  proof (rule kept_write [OF k2])
    show "span b (unat l) \<inter> usable base bs = {}" using M(6) u1 by simp
    show "mem s3 x = mem s2 x" if "x \<notin> span b (unat l)" for x
      using that span_mono [OF l, of b] len by (auto simp: R(4) intro!: put_bytes_outside)
  qed (rule R(3))
  have "get_bytes (mem s3) b 512 = sector d (root_sector (disk_bpb d))"
    using get_put_bytes [of "sector d (root_sector (disk_bpb d))" b "mem s2"] len by (simp add: R(4))
  then show ?thesis using P(1,3) M(1,4,5,6) R(1,2) k3 l u1
    by (intro exI [of _ s1, OF exI [of _ b, OF exI [of _ l, OF exI [of _ s2, OF exI [of _ s3, OF exI [of _ bs2]]]]]]) simp
qed

text \<open>
  What the lookup of a name gives: the entry found; for a name that is not found, the 32 bytes at address 0.
\<close>

definition looked_up :: "disk \<Rightarrow> memory \<Rightarrow> u8 list \<Rightarrow> FatEntry" where
  "looked_up d m xs = (case root_find d xs of Some i \<Rightarrow> entry_of (dir_entry d i) | None \<Rightarrow> get_entry m 0)"

lemma looked_up_frame:
  assumes "\<And>x. x \<in> A \<Longrightarrow> m' x = m x" and "root_find d xs = None \<Longrightarrow> span 0 32 \<subseteq> A"
  shows "looked_up d m' xs = looked_up d m xs"
proof (cases "root_find d xs")
  case None
  then have "get_entry m' 0 = get_entry m 0"
    using assms(1) assms(2) [OF None] span_add_of_nat [of _ 32 0] by (intro get_entry_bytes) fastforce
  then show ?thesis by (simp add: looked_up_def None)
qed (simp add: looked_up_def)

text \<open>A copy of the entry at \<open>a\<close>, in an area of its own; the sector is given back.\<close>

lemma entry_in_sector:
  assumes sec: "get_bytes m b 512 = sec" and i: "i < 16"
  shows "get_entry m (b + of_nat (32 * i)) = entry_of (slot sec i)"
  unfolding entry_of_def
proof (rule get_entry_bytes)
  fix j :: nat assume j: "j < 32"
  have "m (b + of_nat (32 * i) + of_nat j) = slot sec i ! j"
    using i j sec [symmetric] by (simp add: slot_def get_bytes_def add.assoc)
  moreover have "length (slot sec i) = 32"
    using i unfolding slot_def sec [symmetric] by (auto simp: get_bytes_def min_def)
  ultimately show "m (b + of_nat (32 * i) + of_nat j) = put_bytes 0 (slot sec i) (\<lambda>_. 0) (0 + of_nat j)"
    using put_bytes_in [of j "slot sec i" 0 "\<lambda>_. 0"] j by simp
qed

lemma entry_slot: "i < 16 \<Longrightarrow> span (b + of_nat (32 * i)) 32 \<subseteq> span b 512" for b :: u32
proof (rule span_sub)
  assume "i < 16"
  then have "unat (of_nat (32 * i) :: u32) = 32 * i" by (simp only: unat_of_nat) simp
  then show "unat (of_nat (32 * i) :: u32) + 32 \<le> 512" using \<open>i < 16\<close> by simp
qed simp

lemma fs_entry_copy:
  fixes s :: "'a vfs_scheme"
  assumes at: "fs_at d base s bs" and room: "192 \<le> heap_space s" and b: "(b, l) \<in> live bs"
    and a: "span a 32 \<subseteq> usable base bs"
  shows "\<exists>q n u t bs'. malloc sizeof_entry s = Inr (q, u)
    \<and> free b (u\<lparr>mem := memcpy q a sizeof_entry (mem u)\<rparr>) = Inr ((), t)
    \<and> fs_at d base t bs' \<and> q \<noteq> 0 \<and> 32 \<le> unat n \<and> (q, n) \<notin> live bs
    \<and> live bs' = insert (q, n) (live bs) - {(b, l)} \<and> fs_keeps base 192 s bs t bs'
    \<and> get_entry (mem t) q = get_entry (mem s) a"
proof -
  have cost: "alloc_cost sizeof_entry = 192" by (simp add: alloc_cost_def sizeof_entry_def)
  obtain q n u bs1 where M: "malloc sizeof_entry s = Inr (q, u)" "fs_at d base u bs1" "q \<noteq> 0" "sizeof_entry \<le> n"
    "live bs1 = insert (q, n) (live bs)" "(q, n) \<notin> live bs" "span q (unat n) \<inter> usable base bs = {}"
    "fs_keeps base 192 s bs u bs1"
    using fs_alloc [OF at, of sizeof_entry] room unfolding cost by blast
  have n: "32 \<le> unat n" using M(4) by (simp add: u32_le_unat sizeof_entry_def)
  have sub: "usable base bs \<subseteq> usable base bs1" by (rule usable_mono) (use M(5) in auto)
  define v where "v = u\<lparr>mem := memcpy q a sizeof_entry (mem u)\<rparr>"
  have out: "mem v x = mem u x" if "x \<notin> span q (unat n)" for x
    using that span_mono [OF n, of q] by (auto simp: v_def sizeof_entry_def intro!: memcpy_outside)
  have at_v: "fs_at d base v bs1" unfolding v_def
    by (rule fs_write [OF M(2), of q n]) (use M(5) out in \<open>simp_all add: v_def\<close>)
  have copy: "get_entry (mem v) q = get_entry (mem s) a"
  proof (rule get_entry_bytes)
    fix j :: nat assume j: "j < 32"
    have in_a: "a + of_nat j' \<in> usable base bs" if "j' < 32" for j'
      using that span_add_of_nat [of j' 32 a] a by auto
    have "mem v (q + of_nat j) = memcpy q a sizeof_entry (mem u) (q + of_nat j)" by (simp add: v_def)
    also have "\<dots> = mem u (a + of_nat j)"
    proof (rule memcpy_prefix [where k = 32])
      show "a + of_nat j' \<notin> span q (unat sizeof_entry)" if "j' < 32" for j'
        using in_a [OF that] M(7) span_mono [OF n, of q] by (auto simp: sizeof_entry_def)
    qed (use j in \<open>simp_all add: sizeof_entry_def\<close>)
    finally have "mem v (q + of_nat j) = mem u (a + of_nat j)" .
    then show "mem v (q + of_nat j) = mem s (a + of_nat j)"
      using M(8) in_a [OF j] sub unfolding fs_keeps_def by auto
  qed
  have "(b, l) \<in> live bs1" using M(5) b by simp
  then obtain t bs' where F: "free b v = Inr ((), t)" "fs_at d base t bs'" "live bs' = live bs1 - {(b, l)}"
    "fs_keeps base 0 v bs1 t bs'"
    using fs_free [OF at_v] by blast
  have "(q, n) \<noteq> (b, l)" using M(6) b by blast
  then have q: "(q, n) \<in> live bs'" "(q, n) \<in> live bs1" using F(3) M(5) by auto
  have "get_entry (mem t) q = get_entry (mem v) q"
  proof (rule get_entry_bytes)
    fix j :: nat assume "j < 32"
    then have "q + of_nat j \<in> span q (unat n)" using n by (intro span_add_of_nat) auto
    then show "mem t (q + of_nat j) = mem v (q + of_nat j)"
      using F(4) usable_area [OF q(1), of base] usable_area [OF q(2), of base] unfolding fs_keeps_def by blast
  qed
  then have ent: "get_entry (mem t) q = get_entry (mem s) a" using copy by simp
  have "mem t x = mem s x" if "x \<in> usable base bs" "x \<in> usable base bs'" for x
  proof -
    have "x \<in> usable base bs1" "x \<notin> span q (unat n)" using that(1) sub M(7) by blast+
    then show ?thesis using F(4) M(8) out that by (simp add: fs_keeps_def)
  qed
  moreover have "heap_space s \<le> heap_space t + 192"
    using M(8) F(4) by (simp add: fs_keeps_def v_def heap_space_def)
  ultimately have "fs_keeps base 192 s bs t bs'" by (simp add: fs_keeps_def)
  then show ?thesis
    using M(1,3,5,6) F(1-3) n ent
    by (intro exI [of _ q, OF exI [of _ n, OF exI [of _ u, OF exI [of _ t, OF exI [of _ bs']]]]]) (simp add: v_def)
qed

lemma fat_rootdir_run:
  fixes s :: "'a vfs_scheme"
  assumes at: "fs_at d base s bs" and room: "4416 \<le> heap_space s"
    and dev: "span (dev + 60) 4 \<subseteq> usable base bs" "node_read s dev = fn_ata_read k" "fn_ata_read k \<noteq> 0"
    and name: "string_in (usable base bs) (mem s) path xs" "length xs \<le> 32"
    and low: "root_find d xs = None \<Longrightarrow> span 0 32 \<subseteq> usable base bs"
  shows "\<exists>q l t bs'. fat_get_filehandle_rootdir k dev path s = Inr (q, t) \<and> fs_at d base t bs' \<and> q \<noteq> 0
    \<and> live bs' = insert (q, l) (live bs) \<and> (q, l) \<notin> live bs \<and> 32 \<le> unat l \<and> kept base 4416 s bs t bs'
    \<and> get_entry (mem t) q = looked_up d (mem s) xs"
proof -
  have r: "4224 \<le> heap_space s" using room by simp
  obtain s1 b l s2 s3 bs3 where R: "parse_bpb k dev s = Inr (disk_bpb d, s1)" "malloc 512 s1 = Inr (b, s2)"
    "vread (device_read k) dev (root_sector (disk_bpb d)) 1 b s2 = Inr (left_eax k, s3)" "fs_at d base s3 bs3"
    "live bs3 = insert (b, l) (live bs)" "(b, l) \<notin> live bs" "512 \<le> unat l"
    "kept base 4224 s bs s3 bs3" "get_bytes (mem s3) b 512 = sector d (root_sector (disk_bpb d))"
    using fs_root_sector [OF at r dev] by (elim exE conjE) (rule that)
  have str: "cstring (mem s3) path xs" using kept_string [OF R(8) name(1)] by (simp add: string_in_def)
  have bl: "(b, l) \<in> live bs3" using R(5) by simp
  define a where "a = (case root_find d xs of None \<Rightarrow> 0 | Some i \<Rightarrow> b + of_nat (32 * i))"
  have buf: "fat_get_filehandle_buffer path b s3 = Inr (a, s3)"
    using filehandle_buffer_run [OF R(9) str name(2)] by (simp add: a_def)
  have grow: "usable base bs \<subseteq> usable base bs3" by (rule usable_mono) (use R(5) in auto)
  have ent: "get_entry (mem s3) a = looked_up d (mem s) xs \<and> span a 32 \<subseteq> usable base bs3"
  proof (cases "root_find d xs")
    case None
    then have "looked_up d (mem s3) xs = looked_up d (mem s) xs"
      using looked_up_frame [of "usable base bs" "mem s3" "mem s" d xs] low R(8) by (simp add: kept_def)
    then show ?thesis using low None grow by (auto simp: a_def looked_up_def)
  next
    case (Some i)
    then have i: "i < 16" by (rule sec_find_Some)
    have "span (b + of_nat (32 * i)) 32 \<subseteq> usable base bs3"
      using entry_slot [OF i, of b] span_mono [OF R(7), of b] usable_area [OF bl, of base] by blast
    then show ?thesis using entry_in_sector [OF R(9) i] Some by (simp add: a_def looked_up_def)
  qed
  have r3: "192 \<le> heap_space s3" using room R(8) by (simp add: kept_def)
  obtain q n s4 t bs' where C: "malloc sizeof_entry s3 = Inr (q, s4)"
    "free b (s4\<lparr>mem := memcpy q a sizeof_entry (mem s4)\<rparr>) = Inr ((), t)"
    "fs_at d base t bs'" "q \<noteq> 0" "32 \<le> unat n" "(q, n) \<notin> live bs3" "live bs' = insert (q, n) (live bs3) - {(b, l)}"
    "fs_keeps base 192 s3 bs3 t bs'" "get_entry (mem t) q = looked_up d (mem s) xs"
    using fs_entry_copy [OF R(4) r3 bl conjunct2 [OF ent]] unfolding conjunct1 [OF ent] by (elim exE conjE) (rule that)
  have lv: "live bs' = insert (q, n) (live bs)" "(q, n) \<notin> live bs" using C(6,7) R(5,6) by auto
  have k: "kept base (4224 + 192) s bs t bs'" by (rule kept_step [OF R(8) C(8)]) (use lv in auto)
  have "fat_get_filehandle_rootdir k dev path s = Inr (q, t)"
    using R(1-3) buf C(1,2) by (simp add: fat_get_filehandle_rootdir_def root_sector_lba)
  then show ?thesis
    using C(3-5,9) lv k
    by (intro exI [of _ q, OF exI [of _ n, OF exI [of _ t, OF exI [of _ bs']]]]) simp
qed

section \<open>A file of the root directory\<close>

lemma fs_release:
  fixes s :: "'a vfs_scheme"
  assumes at: "fs_at d base s bs" and bs: "live bs = insert (q, h) (insert (b, n) (insert (p, l) L))"
    and new: "(p, l) \<notin> L" "(b, n) \<notin> insert (p, l) L" "(q, h) \<notin> insert (b, n) (insert (p, l) L)"
  shows "\<exists>t1 t2 t bs'. free p s = Inr ((), t1) \<and> free b t1 = Inr ((), t2) \<and> free q t2 = Inr ((), t)
    \<and> (\<forall>x \<in> span q (unat h). mem t1 x = mem s x)
    \<and> fs_at d base t bs' \<and> live bs' = L \<and> fs_keeps base 0 s bs t bs'"
proof -
  have "(p, l) \<in> live bs" using bs by simp
  then obtain t1 bs1 where F1: "free p s = Inr ((), t1)" "fs_at d base t1 bs1" "live bs1 = live bs - {(p, l)}"
    "fs_keeps base 0 s bs t1 bs1"
    using fs_free [OF at] by blast
  have "(b, n) \<in> live bs1" using bs new F1(3) by auto
  then obtain t2 bs2 where F2: "free b t1 = Inr ((), t2)" "fs_at d base t2 bs2" "live bs2 = live bs1 - {(b, n)}"
    "fs_keeps base 0 t1 bs1 t2 bs2"
    using fs_free [OF F1(2)] by blast
  have "(q, h) \<in> live bs2" using bs new F1(3) F2(3) by auto
  then obtain t bs' where F3: "free q t2 = Inr ((), t)" "fs_at d base t bs'" "live bs' = live bs2 - {(q, h)}"
    "fs_keeps base 0 t2 bs2 t bs'"
    using fs_free [OF F2(2)] by blast
  have L: "live bs' = L" using bs new F1(3) F2(3) F3(3) by auto
  have sub: "usable base bs' \<subseteq> usable base bs2" "usable base bs2 \<subseteq> usable base bs1" "usable base bs1 \<subseteq> usable base bs"
    using F1(3) F2(3) F3(3) by (auto intro!: usable_mono)
  have "mem t x = mem s x" if x: "x \<in> usable base bs'" for x
  proof -
    have "x \<in> usable base bs2" "x \<in> usable base bs1" "x \<in> usable base bs" using x sub by blast+
    then show ?thesis using x F1(4) F2(4) F3(4) by (simp add: fs_keeps_def)
  qed
  then have "fs_keeps base 0 s bs t bs'" using F1(4) F2(4) F3(4) by (simp add: fs_keeps_def)
  moreover have q: "(q, h) \<in> live bs1" using bs new F1(3) by auto
  have "mem t1 x = mem s x" if "x \<in> span q (unat h)" for x
    using that usable_area [OF q, of base] sub(3) F1(4) unfolding fs_keeps_def by blast
  ultimately show ?thesis using F1(1) F2(1) F3(1,2) L by blast
qed

text \<open>The first steps of every lookup: the first component of the name, a buffer, and the entry of the root directory.\<close>

lemma fat_handle_start:
  fixes s :: "'a vfs_scheme"
  assumes at: "fs_at d base s bs" and room: "4 * (length cs + 17) + 6528 \<le> heap_space s"
    and nodes: "drive_nodes k (usable base bs) node s" "node \<noteq> 0"
    and name: "string_in (usable base bs) (mem s) node cs" "takeWhile (\<lambda>c. c \<noteq> 0x2F) cs = xs" "length xs \<le> 32" "xs \<noteq> []"
    and low: "root_find d xs = None \<longrightarrow> span 0 32 \<subseteq> usable base bs"
  shows "\<exists>p l s1 b n s2 q h s3 bs3. strtok node 0x2F s = Inr (p, s1) \<and> malloc 512 s1 = Inr (b, s2)
    \<and> fat_get_filehandle_rootdir k (node_master s2 node) p s2 = Inr (q, s3) \<and> fs_at d base s3 bs3 \<and> q \<noteq> 0
    \<and> live bs3 = insert (q, h) (insert (b, n) (insert (p, l) (live bs)))
    \<and> (p, l) \<notin> live bs \<and> (b, n) \<notin> insert (p, l) (live bs) \<and> (q, h) \<notin> insert (b, n) (insert (p, l) (live bs))
    \<and> 32 \<le> unat h \<and> 512 \<le> unat n \<and> span b (unat n) \<inter> usable base bs = {}
    \<and> kept base (4 * (length cs + 17) + 6528) s bs s3 bs3 \<and> get_entry (mem s3) q = looked_up d (mem s) xs
    \<and> strtok_input s3 = (if length xs < length cs then node + of_nat (length xs) + 1 else 0)"
proof -
  have r0: "4 * (length cs + 17) \<le> heap_space s" using room by simp
  obtain p l s1 bs1 where S: "strtok node 0x2F s = Inr (p, s1)" "fs_at d base s1 bs1" "live bs1 = insert (p, l) (live bs)"
    "(p, l) \<notin> live bs" "length xs < unat l" "fs_keeps base (4 * (length cs + 17)) s bs s1 bs1" "cstring (mem s1) p xs"
    "strtok_input s1 = (if length xs < length cs then node + of_nat (length xs) + 1 else 0)"
    using strtok_run [OF at r0 name(1) nodes(2) name(2,4)] by auto
  have k1: "kept base (0 + 4 * (length cs + 17)) s bs s1 bs1" by (rule kept_step [OF kept_refl S(6)]) (use S(3) in auto)
  have pl: "(p, l) \<in> live bs1" using S(3) by simp
  have str: "string_in (usable base bs1) (mem s1) p xs"
    using S(5,7) usable_area [OF pl, of base] span_mono [of "Suc (length xs)" "unat l" p] by (auto simp: string_in_def)
  have cost: "alloc_cost 512 = 2112" by (simp add: alloc_cost_def)
  have "alloc_cost 512 \<le> heap_space s1" using room k1 cost by (simp add: kept_def)
  from fs_alloc [OF S(2) this]
  obtain b n s2 bs2 where M: "malloc 512 s1 = Inr (b, s2)" "fs_at d base s2 bs2" "512 \<le> n" "live bs2 = insert (b, n) (live bs1)"
    "(b, n) \<notin> live bs1" "span b (unat n) \<inter> usable base bs1 = {}" "fs_keeps base 2112 s1 bs1 s2 bs2" "heap_only s1 s2"
    unfolding cost by blast
  have k12: "kept base (0 + 2112) s1 bs1 s2 bs2" by (rule kept_step [OF kept_refl M(7)]) (use M(4) in auto)
  have k2: "kept base (0 + 4 * (length cs + 17) + 2112) s bs s2 bs2" by (rule kept_step [OF k1 M(7)]) (use M(4) S(3) in auto)
  have sub: "usable base bs \<subseteq> usable base bs2" "usable base bs1 \<subseteq> usable base bs2" "usable base bs \<subseteq> usable base bs1"
    using k2 k12 k1 usable_mono by (auto simp: kept_def)
  have fields: "span (node + 84) 4 \<subseteq> usable base bs" "span (node_master s node + 60) 4 \<subseteq> usable base bs"
    using nodes(1) field_in_node [of 84 node] field_in_node [of 60 "node_master s node"] by (auto simp: drive_nodes_def)
  have master: "node_master s2 node = node_master s node" by (rule kept_word [OF k2 fields(1)])
  have reader: "node_read s2 (node_master s node) = fn_ata_read k" "fn_ata_read k \<noteq> 0"
    using kept_word [OF k2 fields(2)] nodes(1) by (simp_all add: drive_nodes_def)
  have r2: "4416 \<le> heap_space s2" using room k2 by (simp add: kept_def)
  have look: "looked_up d (mem s2) xs = looked_up d (mem s) xs"
    using looked_up_frame [of "usable base bs" "mem s2" "mem s" d xs] low k2 by (simp add: kept_def)
  have str2: "string_in (usable base bs2) (mem s2) p xs" by (rule string_in_mono [OF kept_string [OF k12 str] sub(2)])
  obtain q h s3 bs3 where D: "fat_get_filehandle_rootdir k (node_master s node) p s2 = Inr (q, s3)" "fs_at d base s3 bs3"
    "q \<noteq> 0" "live bs3 = insert (q, h) (live bs2)" "(q, h) \<notin> live bs2" "32 \<le> unat h" "kept base 4416 s2 bs2 s3 bs3"
    "get_entry (mem s3) q = looked_up d (mem s) xs"
    using fat_rootdir_run [OF M(2) r2 subset_trans [OF fields(2) sub(1)] reader str2 name(3) subset_trans [OF low [rule_format] sub(1)]]
    unfolding look by blast
  have lv3: "live bs3 = insert (q, h) (insert (b, n) (insert (p, l) (live bs)))" using S(3) M(4) D(4) by simp
  have "kept base (0 + 4 * (length cs + 17) + 2112 + 4416) s bs s3 bs3"
    by (rule kept_step [OF k2 kept_keeps [OF D(7)]]) (use lv3 in auto)
  moreover have "strtok_input s2 = strtok_input s1" using M(8) by (cases s1; cases s2; simp add: heap_only_def)
  moreover have "strtok_input s3 = strtok_input s2"
    using file_io_rootdir [of True s2 k "node_master s node" p] D(1) by (simp add: file_io_def)
  moreover have "512 \<le> unat n" using M(3) by (simp add: u32_le_unat)
  ultimately show ?thesis
    using S(1,3,4,8) M(1,4-6) D(1,2,3,5,6,8) lv3 master sub(3)
    by (intro exI [of _ p, OF exI [of _ l, OF exI [of _ s1, OF exI [of _ b, OF exI [of _ n, OF exI [of _ s2,
          OF exI [of _ q, OF exI [of _ h, OF exI [of _ s3, OF exI [of _ bs3]]]]]]]]]]) (auto simp: add.assoc)
qed

text \<open>The lookup of a name of one component, in the root directory or not there.\<close>

lemma fat_handle_run:
  fixes s :: "'a vfs_scheme"
  assumes at: "fs_at d base s bs" and room: "4 * (length xs + 17) + 6528 \<le> heap_space s"
    and nodes: "drive_nodes k (usable base bs) node s" "node \<noteq> 0"
    and name: "string_in (usable base bs) (mem s) node xs" "length xs \<le> 32" "xs \<noteq> []" "0x2F \<notin> set xs"
    and low: "root_find d xs = None \<Longrightarrow> span 0 32 \<subseteq> usable base bs"
    and plain: "fe_attributes (looked_up d (mem s) xs) \<noteq> 0x10"
  shows "\<exists>t bs'. fat_get_filehandle k node s = Inr ((0, Some (looked_up d (mem s) xs)), t)
    \<and> fs_at d base t bs' \<and> live bs' = live bs \<and> kept base (4 * (length xs + 17) + 6528) s bs t bs'"
proof -
  have tw: "takeWhile (\<lambda>c. c \<noteq> 0x2F) xs = xs" using name(4) by (auto simp: takeWhile_eq_all_conv)
  have low': "root_find d xs = None \<longrightarrow> span 0 32 \<subseteq> usable base bs" using low by blast
  obtain p l s1 b n s2 q h s3 bs3 where D: "strtok node 0x2F s = Inr (p, s1)" "malloc 512 s1 = Inr (b, s2)"
    "fat_get_filehandle_rootdir k (node_master s2 node) p s2 = Inr (q, s3)" "fs_at d base s3 bs3" "q \<noteq> 0"
    "live bs3 = insert (q, h) (insert (b, n) (insert (p, l) (live bs)))"
    "(p, l) \<notin> live bs" "(b, n) \<notin> insert (p, l) (live bs)" "(q, h) \<notin> insert (b, n) (insert (p, l) (live bs))"
    "32 \<le> unat h" "kept base (4 * (length xs + 17) + 6528) s bs s3 bs3" "get_entry (mem s3) q = looked_up d (mem s) xs"
    using fat_handle_start [OF at room nodes name(1) tw name(2,3) low'] by (elim exE conjE) (rule that)
  obtain t1 t2 t bs' where F: "free p s3 = Inr ((), t1)" "free b t1 = Inr ((), t2)" "free q t2 = Inr ((), t)"
    "\<forall>x \<in> span q (unat h). mem t1 x = mem s3 x" "fs_at d base t bs'" "live bs' = live bs" "fs_keeps base 0 s3 bs3 t bs'"
    using fs_release [OF D(4,6-9)] by blast
  have k4: "kept base (4 * (length xs + 17) + 6528 + 0) s bs t bs'"
    by (rule kept_step [OF D(11) F(7)]) (simp add: F(6))
  have "get_entry (mem t1) q = get_entry (mem s3) q"
    by (rule get_entry_bytes) (use F(4) D(10) in \<open>auto intro!: span_add_of_nat\<close>)
  then have "fat_get_filehandle k node s = Inr ((0, Some (looked_up d (mem s) xs)), t)"
    using D(1-3,5,12) F(1-3) plain by (simp add: fat_get_filehandle_def)
  then show ?thesis using F(5,6) k4 by (intro exI [of _ t] exI [of _ bs']) simp
qed

text \<open>
  \<open>finds \<dots> cs e s\<close>: in every state whose memory agrees with that of \<open>s\<close> on \<open>A\<close>, the name \<open>cs\<close> in a node leads to the
  entry \<open>e\<close>, at a cost of \<open>c\<close> and with the heap as before. Opening and reading need to know no more of a lookup.
\<close>

definition finds ::
  "disk \<Rightarrow> heap_base \<Rightarrow> env \<Rightarrow> u32 set \<Rightarrow> nat \<Rightarrow> u8 list \<Rightarrow> FatEntry \<Rightarrow> 'a vfs_scheme \<Rightarrow> bool" where
  "finds d base k A c cs e s0 \<longleftrightarrow> (\<forall>(s :: 'a vfs_scheme) bs node. fs_at d base s bs \<and> A \<subseteq> usable base bs
     \<and> (\<forall>x \<in> A. mem s x = mem s0 x) \<and> c \<le> heap_space s \<and> drive_nodes k (usable base bs) node s \<and> node \<noteq> 0
     \<and> unat node + length cs < 4294967296 \<and> string_in (usable base bs) (mem s) node cs
     \<longrightarrow> (\<exists>t bs'. fat_get_filehandle k node s = Inr ((0, Some e), t) \<and> fs_at d base t bs' \<and> live bs' = live bs
           \<and> kept base c s bs t bs'))"

lemma findsD:
  fixes s0 s :: "'a vfs_scheme"
  assumes "finds d base k A c cs e s0" and "fs_at d base s bs" and "A \<subseteq> usable base bs" and "\<forall>x \<in> A. mem s x = mem s0 x"
    and "c \<le> heap_space s" and "drive_nodes k (usable base bs) node s" "node \<noteq> 0" and "unat node + length cs < 4294967296"
    and "string_in (usable base bs) (mem s) node cs"
  shows "\<exists>t bs'. fat_get_filehandle k node s = Inr ((0, Some e), t) \<and> fs_at d base t bs' \<and> live bs' = live bs
    \<and> kept base c s bs t bs'"
  using assms unfolding finds_def by blast

lemma finds_frame: "finds d base k A c cs e s \<Longrightarrow> (\<And>x. x \<in> A \<Longrightarrow> mem t x = mem s x) \<Longrightarrow> finds d base k A c cs e t"
  for s t :: "'a vfs_scheme"
  unfolding finds_def by auto

lemma finds_name:
  fixes s :: "'a vfs_scheme"
  assumes name: "length xs \<le> 32" "xs \<noteq> []" "0x2F \<notin> set xs" and low: "root_find d xs = None \<longrightarrow> span 0 32 \<subseteq> A"
    and plain: "fe_attributes (looked_up d (mem s) xs) \<noteq> 0x10"
  shows "finds d base k A (4 * (length xs + 17) + 6528) xs (looked_up d (mem s) xs) s"
  unfolding finds_def
proof (intro allI impI, elim conjE)
  fix t :: "'a vfs_scheme" and bs node
  assume t: "fs_at d base t bs" "A \<subseteq> usable base bs" "\<forall>x \<in> A. mem t x = mem s x"
    "4 * (length xs + 17) + 6528 \<le> heap_space t" "drive_nodes k (usable base bs) node t" "node \<noteq> 0"
    "string_in (usable base bs) (mem t) node xs"
  have look: "looked_up d (mem t) xs = looked_up d (mem s) xs"
    by (rule looked_up_frame [of A]) (use t(3) low in auto)
  have low': "root_find d xs = None \<Longrightarrow> span 0 32 \<subseteq> usable base bs" using low t(2) by blast
  show "\<exists>u bs'. fat_get_filehandle k node t = Inr ((0, Some (looked_up d (mem s) xs)), u) \<and> fs_at d base u bs'
      \<and> live bs' = live bs \<and> kept base (4 * (length xs + 17) + 6528) t bs u bs'"
    using fat_handle_run [OF t(1,4-7) name low'] plain unfolding look by blast
qed

lemma fat_file_read_run:
  fixes s s0 :: "'a vfs_scheme" and d
  assumes at: "fs_at d base s bs"
    and found: "finds d base k A c xs e s0" "A \<subseteq> usable base bs" "\<forall>x \<in> A. mem s x = mem s0 x"
    and room: "c + (2112 + 4 * (512 * unat (SectorsPerCluster (disk_bpb d)) + 16)) \<le> heap_space s"
    and nodes: "drive_nodes k (usable base bs) node s" "node \<noteq> 0"
    and name: "string_in (usable base bs) (mem s) node xs" "unat node + length xs < 4294967296"
    and geometry: "BytesPerSector (disk_bpb d) = 512" "SectorsPerCluster (disk_bpb d) \<noteq> 0"
    and cls: "chain (disk_bpb d) d (fe_starting_cluster e) cls"
    and w: "w = written (unat sz) 0 (map (cluster_data (disk_bpb d) d) cls)" "length w < 4294967296"
    and dst: "span ptr (length w) \<subseteq> usable base bs"
      "span ptr (length w) \<inter> (span node 88 \<union> span (node_master s node) 88) = {}"
  shows "\<exists>t bs'. fat_file_read k node off sz ptr s = Inr (0, t) \<and> fs_at d base t bs' \<and> live bs' = live bs
    \<and> (\<forall>x \<in> usable base bs. mem t x = put_bytes ptr w (mem s) x)"
proof -
  have r: "c \<le> heap_space s" using room by simp
  obtain s1 bs1 where H: "fat_get_filehandle k node s = Inr ((0, Some e), s1)"
    "fs_at d base s1 bs1" "live bs1 = live bs" "kept base c s bs s1 bs1"
    using findsD [OF found(1) at found(2,3) r nodes name(2,1)] by blast
  have A: "usable base bs1 = usable base bs" by (simp add: usable_def H(3))
  have r1: "2112 + 4 * (512 * unat (SectorsPerCluster (disk_bpb d)) + 16) \<le> heap_space s1"
    using H(4) room by (simp add: kept_def)
  have sub: "span (node + 84) 4 \<subseteq> usable base bs" "span (node + 56) 4 \<subseteq> usable base bs"
    "span (node_master s node + 60) 4 \<subseteq> usable base bs"
    using nodes(1) field_in_node [of 84 node] field_in_node [of 56 node] field_in_node [of 60 "node_master s node"]
    by (auto simp: drive_nodes_def)
  note words = kept_word [OF H(4) sub(1)] kept_word [OF H(4) sub(2)] kept_word [OF H(4) sub(3)]
  have nodes1: "drive_nodes k (usable base bs1) node s1" using nodes(1) unfolding drive_nodes_def words A by simp
  have dst1: "span ptr (length w) \<subseteq> usable base bs1"
    "span ptr (length w) \<inter> (span node 88 \<union> span (node_master s1 node) 88) = {}"
    using dst unfolding words A by simp_all
  have inv1: "heap_inv base s1 bs1" and d1: "serves d s1" using H(2) by (simp_all add: fs_at_def)
  obtain t bs' where R: "fat_file_read_with_handle k node e sz ptr s1 = Inr (0, t)"
    "heap_inv base t bs'" "live bs' = live bs1" "serves d t" "\<forall>x \<in> usable base bs1. mem t x = put_bytes ptr w (mem s1) x"
    using fat_read_run [OF inv1 d1 r1 nodes1 geometry cls w dst1] by blast
  have "mem t x = put_bytes ptr w (mem s) x" if "x \<in> usable base bs" for x
    using R(5) H(4) that put_bytes_cong [of "mem s1" x "mem s"] by (simp add: A kept_def)
  moreover have "fat_file_read k node off sz ptr s = Inr (0, t)" using H(1) R(1) by (simp add: fat_file_read_def)
  ultimately show ?thesis using R(2-4) H(3) by (auto simp: fs_at_def)
qed

text \<open>
  Reading a file of the root directory, from the name in its node to its bytes: the root directory of
  the disk is searched for the first entry that starts with the name, and the data along the chain of that
  entry is stored at the destination, as for a chain. The read succeeds for every disk whose chain ends,
  whatever the offset asked for (the code ignores it), every buffer is given back, and no other byte the
  caller can hold changes.
\<close>

theorem fat_file_read_root:
  fixes s :: "'a vfs_scheme" and d
  assumes inv: "heap_inv base s bs" and d: "serves d s"
    and room: "4 * (length xs + 17) + 6528 + (2112 + 4 * (512 * unat (SectorsPerCluster (disk_bpb d)) + 16)) \<le> heap_space s"
    and nodes: "drive_nodes k (usable base bs) node s" "node \<noteq> 0"
    and name: "string_in (usable base bs) (mem s) node xs" "length xs \<le> 32" "xs \<noteq> []" "0x2F \<notin> set xs" "unat node + length xs < 4294967296"
    and found: "root_find d xs = Some i" "fe_attributes (entry_of (dir_entry d i)) \<noteq> 0x10"
    and geometry: "BytesPerSector (disk_bpb d) = 512" "SectorsPerCluster (disk_bpb d) \<noteq> 0"
    and cls: "chain (disk_bpb d) d (fe_starting_cluster (entry_of (dir_entry d i))) cls"
    and w: "w = written (unat sz) 0 (map (cluster_data (disk_bpb d) d) cls)" "length w < 4294967296"
    and dst: "span ptr (length w) \<subseteq> usable base bs"
      "span ptr (length w) \<inter> (span node 88 \<union> span (node_master s node) 88) = {}"
  shows "\<exists>t bs'. fat_file_read k node off sz ptr s = Inr (0, t) \<and> heap_inv base t bs' \<and> live bs' = live bs
    \<and> (\<forall>x \<in> usable base bs. mem t x = put_bytes ptr w (mem s) x)"
proof -
  have at: "fs_at d base s bs" and look: "looked_up d (mem s) xs = entry_of (dir_entry d i)"
    using inv d found(1) by (simp_all add: fs_at_def looked_up_def)
  have "root_find d xs = None \<longrightarrow> span 0 32 \<subseteq> {}" "fe_attributes (looked_up d (mem s) xs) \<noteq> 0x10"
    using found look by simp_all
  from finds_name [OF name(2-4) this, where base = base and k = k]
  have "finds d base k {} (4 * (length xs + 17) + 6528) xs (entry_of (dir_entry d i)) s" unfolding look .
  from fat_file_read_run [where off = off, OF at this _ _ room nodes name(1,5) geometry cls w dst] show ?thesis by (auto simp: fs_at_def)
qed

lemma slot_fields:
  assumes "length sec = 512" and "i < 16"
  shows "take 2 (slot sec i) = [sec ! (32 * i), sec ! (32 * i + 1)]"
    and "fe_attributes (entry_of (slot sec i)) = sec ! (32 * i + 11)"
    and "fe_starting_cluster (entry_of (slot sec i)) = load16 (put_bytes 0 [sec ! (32 * i + 26), sec ! (32 * i + 27)] (\<lambda>_. 0)) 0"
proof -
  have len: "length (slot sec i) = 32" using assms by (simp add: slot_def)
  have byte: "slot sec i ! j = sec ! (32 * i + j)" if "j < 32" for j using that assms by (simp add: slot_def)
  have "take 2 (slot sec i) = [slot sec i ! 0, slot sec i ! 1]" using len by (simp add: numeral_2_eq_2 take_Suc_conv_app_nth)
  then show "take 2 (slot sec i) = [sec ! (32 * i), sec ! (32 * i + 1)]" using byte [of 0] byte [of 1] by simp
  show "fe_attributes (entry_of (slot sec i)) = sec ! (32 * i + 11)"
    by (simp add: entry_of_def get_entry_def load8_def put_bytes_def in_span len byte)
  show "fe_starting_cluster (entry_of (slot sec i)) = load16 (put_bytes 0 [sec ! (32 * i + 26), sec ! (32 * i + 27)] (\<lambda>_. 0)) 0"
    by (simp add: entry_of_def get_entry_def load16_def put_bytes_def in_span len byte)
qed

lemma sample_root: "root_sector (disk_bpb sample_disk) = 2"
  by (simp add: root_sector_def sample_bpb)

lemma sample_found:
  "root_find sample_disk [0x48, 0x49] = Some 0" "fe_attributes (entry_of (dir_entry sample_disk 0)) = 0x20"
  "fe_starting_cluster (entry_of (dir_entry sample_disk 0)) = 2"
proof -
  note field = slot_fields [where sec = "sector_bytes ws" for ws]
  show "root_find sample_disk [0x48, 0x49] = Some 0"
    by (simp add: sample_root sec_find_def upt_conv_Cons field [simplified numeral_2_eq_2] sample_sector sector_bytes_nth)
  show "fe_attributes (entry_of (dir_entry sample_disk 0)) = 0x20" "fe_starting_cluster (entry_of (dir_entry sample_disk 0)) = 2"
    by (simp_all add: sample_root field sample_sector sector_bytes_nth load16_def put_bytes_def in_span)
qed

text \<open>The directory RE and the entry HI in it; the directory BIN.\<close>

lemma sample_inner:
  "root_find sample_disk [0x52, 0x45] = Some 1" "fe_attributes (entry_of (dir_entry sample_disk 1)) = 0x10"
  "fe_starting_cluster (entry_of (dir_entry sample_disk 1)) = 4"
  "sec_find (sector sample_disk 36) [0x48, 0x49] = Some 0" "fe_attributes (entry_of (slot (sector sample_disk 36) 0)) = 0x20"
  "fe_starting_cluster (entry_of (slot (sector sample_disk 36) 0)) = 2"
  "fe_attributes (entry_of (dir_entry sample_disk 2)) = 0x10" "fe_starting_cluster (entry_of (dir_entry sample_disk 2)) = 5"
  "fe_attributes (entry_of (slot (sector sample_disk 37) 0)) = 0x20"
  "fe_starting_cluster (entry_of (slot (sector sample_disk 37) 0)) = 6"
proof -
  note field = slot_fields [where sec = "sector_bytes ws" for ws]
  show "root_find sample_disk [0x52, 0x45] = Some 1" "sec_find (sector sample_disk 36) [0x48, 0x49] = Some 0"
    by (simp_all add: sample_root sec_find_def upt_conv_Cons field [simplified numeral_2_eq_2] sample_sector sector_bytes_nth)
qed (simp_all add: sample_root slot_fields [where sec = "sector_bytes ws" for ws] sample_sector sector_bytes_nth load16_def
  put_bytes_def in_span)

lemma slot_prefix:
  assumes "length sec = 512" and "i < 16" and "n \<le> 32"
  shows "take n (slot sec i) = map (\<lambda>j. sec ! (32 * i + j)) [0..<n]"
  using assms by (intro nth_equalityI) (simp_all add: slot_def)

lemma sample_program_found:
  "root_find sample_disk (lit ''BIN'') = Some 2" "sec_find (sector sample_disk 37) (lit ''INIT'') = Some 0"
proof -
  note pre = slot_prefix [where sec = "sector_bytes ws" for ws]
  have upt: "[0..<3] = [0, 1, 2 :: nat]" "[0..<4] = [0, 1, 2, 3 :: nat]" by (simp_all add: upt_rec)
  have len: "length (lit ''BIN'') = 3" "length (lit ''INIT'') = 4" by (simp_all add: lit_def)
  show "root_find sample_disk (lit ''BIN'') = Some 2" "sec_find (sector sample_disk 37) (lit ''INIT'') = Some 0"
    unfolding sec_find_def len
    by (simp_all add: sample_root pre sample_sector upt upt_conv_Cons sector_bytes_nth)
       (simp_all add: lit_def)
qed

lemma fat_file_read_root_witness:
  "\<exists>t. fat_file_read boot_env 0x8000 7 2 0x7000 disk_kernel = Inr (0, t)
     \<and> get_bytes (mem t) 0x7000 4 = [0x41, 0x41, 0x41, 0x42]"
proof -
  let ?d = sample_disk and ?xs = "[0x48, 0x49] :: u8 list"
  have room: "4 * (length ?xs + 17) + 6528 + (2112 + 4 * (512 * unat (SectorsPerCluster (disk_bpb ?d)) + 16))
      \<le> heap_space disk_kernel"
    by (simp add: sample_bpb disk_kernel_heap)
  have name: "string_in (usable (0x200000, {}) []) (mem disk_kernel) 0x8000 ?xs"
    by (simp add: string_in_def disk_kernel_def low_usable c32.st_outside put_bytes_def in_span)
  have cls: "chain (disk_bpb ?d) ?d (fe_starting_cluster (entry_of (dir_entry ?d 0))) [2, 3]"
    unfolding sample_found by (rule sample_chain(1))
  obtain t where "fat_file_read boot_env 0x8000 7 2 0x7000 disk_kernel = Inr (0, t)"
    "\<forall>x \<in> usable (0x200000, {}) []. mem t x = put_bytes 0x7000 [0x41, 0x41, 0x41, 0x42] (mem disk_kernel) x"
    using fat_file_read_root [where off = 7, OF disk_kernel_heap(1) disk_kernel_serves room disk_kernel_nodes(4) _ name
        _ _ _ _ sample_found(1) _ _ _ cls sample_written _ sample_target]
    by (auto simp: sample_bpb sample_found)
  then show ?thesis using sample_result by blast
qed

end
