(* ===== verification/Open_Spec.thy ===== *)
theory Open_Spec
  imports Mount_Spec
begin

text \<open>
  \<open>fopen\<close> over the heap, the mount table and the device file system: what the path of a device gives, what
  the path of a mount point gives, and that a path without a separator is looked up for ever.
\<close>

section \<open>Strings and tables seen from a larger area\<close>

lemma mounts_in_mono: "mounts_in A s ps \<Longrightarrow> A \<subseteq> B \<Longrightarrow> mounts_in B s ps"
  unfolding mounts_in_def using string_in_mono by blast

lemma string_in_drop:
  assumes "string_in A m p cs" and "l \<le> length cs"
  shows "string_in A m (p + of_nat l) (drop l cs)"
  using assms
proof (induction l)
  case (Suc l)
  have "drop l cs = cs ! l # drop (Suc l) cs" using Suc.prems(2) by (intro Cons_nth_drop_Suc [symmetric]) simp
  with Suc have q: "string_in A m (p + of_nat l) (cs ! l # drop (Suc l) cs)" by simp
  have "length cs < 4294967296" using Suc.prems(1) cstring_length by (auto simp: string_in_def)
  then have "span (p + of_nat l + 1) (Suc (length (drop (Suc l) cs)))
      \<subseteq> span (p + of_nat l) (Suc (Suc (length (drop (Suc l) cs))))"
    using Suc.prems(2) by (intro span_sub) simp_all
  with q have "string_in A m (p + of_nat l + 1) (drop (Suc l) cs)" unfolding string_in_def by auto
  then show ?case by (simp add: add_ac)
qed simp

section \<open>The table of devices\<close>

text \<open>The table lies in \<open>A\<close>; \<open>ns\<close> are the names of its nodes.\<close>

definition devices_in :: "u32 set \<Rightarrow> 'a devices_scheme \<Rightarrow> u8 list list \<Rightarrow> bool" where
  "devices_in A s ns \<longleftrightarrow> unat (devices_number s) = length ns
     \<and> (\<forall>i < length ns. span (devices_at (of_nat i) s) 88 \<subseteq> A \<and> cstring (mem s) (devices_at (of_nat i) s) (ns ! i)
          \<and> length (ns ! i) < 88)"

lemma devices_in_frame:
  assumes "devices_in A s ns" and "\<And>x. x \<in> A \<Longrightarrow> mem t x = mem s x"
    and "m_devices t = m_devices s" and "m_devices_number t = m_devices_number s"
  shows "devices_in A t ns"
proof -
  have at: "devices_at i t = devices_at i s" for i by (simp add: devices_at_def assms(3))
  have "cstring (mem t) (devices_at (of_nat i) s) (ns ! i)" if i: "i < length ns" for i
  proof -
    have c: "cstring (mem s) (devices_at (of_nat i) s) (ns ! i)" and A: "span (devices_at (of_nat i) s) 88 \<subseteq> A"
      and l: "length (ns ! i) < 88"
      using assms(1) i by (simp_all add: devices_in_def)
    show ?thesis
    proof (rule cstring_frame [OF c])
      fix j assume "j \<le> length (ns ! i)"
      then have "devices_at (of_nat i) s + of_nat j \<in> A" using l by (intro subsetD [OF A] span_add_of_nat) auto
      then show "mem t (devices_at (of_nat i) s + of_nat j) = mem s (devices_at (of_nat i) s + of_nat j)"
        by (rule assms(2))
    qed
  qed
  then show ?thesis using assms(1,4) by (simp add: devices_in_def at devices_number_def)
qed

lemma devfs_find_loop_first:
  assumes "devices_in A s ns" and "cstring (mem s) path zs" and "set js \<subseteq> {..<length ns}"
  shows "devfs_find_loop path target (map of_nat js) s
    = (case find (\<lambda>j. ns ! j = zs) js of None \<Rightarrow> Inr (1, s)
       | Some j \<Rightarrow> Inr (0, devfs_make_instance target (devices_at (of_nat j) s) s))"
  using assms(3)
proof (induction js)
  case (Cons j js)
  then have "cstring (mem s) (devices_at (of_nat j) s) (ns ! j)"
    using assms(1) by (auto simp: devices_in_def)
  note strcmp_cstring [OF this assms(2)] cstring_nonzero [OF this]
  with Cons show ?case
    using str_diff_eq_0 [of "ns ! j" zs] cstring_nonzero [OF assms(2)] by auto
qed simp

lemma devfs_find_first:
  assumes "devices_in A s ns" and "cstring (mem s) path zs"
  shows "devfs_find_dir dev path target s
    = (case first_of ns zs of None \<Rightarrow> Inr (1, s)
       | Some j \<Rightarrow> Inr (0, s\<lparr>mem := memcpy target (devices_at (of_nat j) s) 88 (mem s)\<rparr>))"
proof -
  have "set [0..<length ns] \<subseteq> {..<length ns}" by auto
  from devfs_find_loop_first [OF assms this, of target] show ?thesis
    using assms(1)
    by (simp add: devfs_find_dir_def devices_in_def first_of_def devfs_make_instance_def sizeof_vfs_def split: option.split)
qed

section \<open>The steps of \<open>fopen\<close>\<close>

lemma malloc_node:
  fixes s :: "'a kheap_scheme"
  assumes "heap_inv base s bs" and "416 \<le> heap_space s"
  shows "\<exists>p n t bs'. malloc sizeof_vfs s = Inr (p, t) \<and> heap_inv base t bs' \<and> 88 \<le> unat n
    \<and> live bs' = insert (p, n) (live bs) \<and> (p, n) \<notin> live bs \<and> span p (unat n) \<inter> usable base bs = {}
    \<and> heap_only s t \<and> heap_space s \<le> heap_space t + 416 \<and> (\<forall>x \<in> usable base bs. mem t x = mem s x)"
proof -
  have "alloc_cost sizeof_vfs = 416" by (simp add: alloc_cost_def sizeof_vfs_def)
  moreover have "88 \<le> unat n" if "sizeof_vfs \<le> n" for n :: u32
    using that by (simp add: u32_le_unat sizeof_vfs_def)
  ultimately show ?thesis using heap_take [OF assms(1), of sizeof_vfs] assms(2) by fastforce
qed

text \<open>Up to the choice of the mount entry: the node is allocated, everything else is as it was.\<close>

lemma fopen_start:
  fixes s :: "'a vfs_scheme"
  assumes inv: "heap_inv base s bs" and room: "4 * (length xs + 17) + 416 \<le> heap_space s"
    and path: "string_in (usable base bs) (mem s) path xs" and abs: "xs \<noteq> []" "hd xs = 0x2F"
    and tab: "mounts_in (usable base bs) s ps" and slash: "string_in (usable base bs) (mem s) (str_slash k) [0x2F]"
  shows "\<exists>p n s1 t bs'. malloc sizeof_vfs s = Inr (p, s1)
    \<and> find_relative_mount k path s1 = Inr (of_nat (lookup_mount ps (ancestors xs)), t)
    \<and> heap_inv base t bs' \<and> 88 \<le> unat n \<and> live bs' = insert (p, n) (live bs) \<and> (p, n) \<notin> live bs
    \<and> span p (unat n) \<inter> usable base bs = {} \<and> heap_only s t \<and> heap_space s \<le> heap_space t + (4 * (length xs + 17) + 416)
    \<and> (\<forall>x \<in> usable base bs. mem t x = mem s x)"
proof -
  have "416 \<le> heap_space s" using room by simp
  from malloc_node [OF inv this]
  obtain p s1 bs1 and n :: u32 where M: "malloc sizeof_vfs s = Inr (p, s1)" "heap_inv base s1 bs1" "88 \<le> unat n"
    "live bs1 = insert (p, n) (live bs)" "(p, n) \<notin> live bs" "span p (unat n) \<inter> usable base bs = {}"
    "heap_only s s1" "heap_space s \<le> heap_space s1 + 416" "\<forall>x \<in> usable base bs. mem s1 x = mem s x"
    by blast
  have sub: "usable base bs \<subseteq> usable base bs1" by (rule usable_mono) (use M(4) in auto)
  have globals: "mount_points s1 = mount_points s" "mount_count s1 = mount_count s"
    using M(7) by (cases s; cases s1; simp add: heap_only_def)+
  have "\<exists>t bs'. find_relative_mount k path s1 = Inr (of_nat (lookup_mount ps (ancestors xs)), t)
      \<and> heap_inv base t bs' \<and> live bs' = live bs1 \<and> heap_only s1 t
      \<and> heap_space s1 \<le> heap_space t + 4 * (length xs + 17) \<and> (\<forall>x \<in> usable base bs1. mem t x = mem s1 x)"
  proof (rule find_relative_mount_run [OF M(2) _ _ abs])
    show "string_in (usable base bs1) (mem s1) path xs" "mounts_in (usable base bs1) s1 ps"
      "string_in (usable base bs1) (mem s1) (str_slash k) [0x2F]"
      using M(9) string_in_frame [OF path] string_in_frame [OF slash] mounts_in_frame [OF tab _ globals]
      by (auto intro!: string_in_mono [OF _ sub] mounts_in_mono [OF _ sub])
  qed (use room M(8) in simp)
  then obtain t bs' where F: "find_relative_mount k path s1 = Inr (of_nat (lookup_mount ps (ancestors xs)), t)"
    "heap_inv base t bs'" "live bs' = live bs1" "heap_only s1 t" "\<forall>x \<in> usable base bs1. mem t x = mem s1 x"
    "heap_space s1 \<le> heap_space t + 4 * (length xs + 17)"
    by blast
  have "\<forall>x \<in> usable base bs. mem t x = mem s x" using F(5) M(9) sub by auto
  moreover have "heap_space s \<le> heap_space t + (4 * (length xs + 17) + 416)" using F(6) M(8) by simp
  moreover have "live bs' = insert (p, n) (live bs)" using F(3) M(4) by simp
  ultimately show ?thesis using M(1,3,5,6) F(1,2) heap_only_trans [OF M(7) F(4)] by blast
qed

text \<open>The rest of \<open>fopen\<close>, with the node at \<open>p\<close>, on the entry of the path.\<close>

definition fopen_rest :: "env \<Rightarrow> u32 \<Rightarrow> nat \<Rightarrow> nat \<Rightarrow> u32 \<Rightarrow> u32 \<Rightarrow> 'a vfs_scheme \<Rightarrow> (u32, 'a vfs_scheme) run" where
  "fopen_rest k path n l master p t =
     (if n \<le> l then Inr (p, t\<lparr>mem := memcpy p master sizeof_vfs (mem t)\<rparr>)
      else and_then (vfind_dir (call_find_dir k) master (path + of_nat l) p t) (\<lambda>r s5.
        if r \<noteq> 0 then and_then (free p s5) (\<lambda>_ s6. Inr (0, s6))
        else and_then (vopen no_call p s5) (\<lambda>_ s6. Inr (p, s6))))"

lemma fopen_run:
  fixes s :: "'a vfs_scheme"
  assumes inv: "heap_inv base s bs" and room: "4 * (length xs + 17) + 416 \<le> heap_space s"
    and path: "string_in (usable base bs) (mem s) path xs" and abs: "xs \<noteq> []" "hd xs = 0x2F"
    and tab: "mounts_in (usable base bs) s ps" "ps \<noteq> []"
    and slash: "string_in (usable base bs) (mem s) (str_slash k) [0x2F]"
    and j: "j = lookup_mount ps (ancestors xs)"
    and dev: "dev = mount_device_at (of_nat j) s" "span (dev + 84) 4 \<subseteq> usable base bs"
  shows "\<exists>p n t bs'. fopen k path s = fopen_rest k path (length xs) (length (ps ! j)) (node_master s dev) p t
    \<and> heap_inv base t bs' \<and> 88 \<le> unat n \<and> live bs' = insert (p, n) (live bs) \<and> (p, n) \<notin> live bs
    \<and> span p (unat n) \<inter> usable base bs = {} \<and> heap_only s t \<and> (\<forall>x \<in> usable base bs. mem t x = mem s x)
    \<and> heap_space s \<le> heap_space t + (4 * (length xs + 17) + 416)"
proof -
  obtain p s1 t bs' and n :: u32 where F: "malloc sizeof_vfs s = Inr (p, s1)"
      "find_relative_mount k path s1 = Inr (of_nat j, t)" "heap_inv base t bs'" "88 \<le> unat n"
      "live bs' = insert (p, n) (live bs)" "(p, n) \<notin> live bs" "span p (unat n) \<inter> usable base bs = {}"
      "heap_only s t" "heap_space s \<le> heap_space t + (4 * (length xs + 17) + 416)"
      "\<forall>x \<in> usable base bs. mem t x = mem s x"
    using fopen_start [OF inv room path abs tab(1) slash, folded j] by (elim exE conjE) (rule that)
  have same: "mem t x = mem s x" if "x \<in> usable base bs" for x using F(10) that by simp
  have jl: "j < length ps" unfolding j by (rule lookup_mount_less [OF tab(2)])
  have "mount_points t = mount_points s" using F(8) by (cases s; cases t; simp add: heap_only_def)
  note entry = mount_entry_frame [OF tab(1) same this jl]
  have str: "string_in (usable base bs) (mem s) (mount_path_at (of_nat j) s) (ps ! j)"
    using tab(1) jl by (simp add: mounts_in_def)
  note xt = string_in_string [OF string_in_frame [OF path same]] and pt = string_in_string [OF string_in_frame [OF str same]]
  have "load32 (mem t) (dev + 84) = load32 (mem s) (dev + 84)"
    by (rule c32.ld_local) (use dev(2) same in blast)
  moreover have "(of_nat (length xs) \<le> (of_nat (length (ps ! j)) :: u32)) = (length xs \<le> length (ps ! j))"
    using cstring_length [OF xt] cstring_length [OF pt] by (simp add: u32_le_unat u32_of_nat_unat)
  ultimately have "fopen k path s = fopen_rest k path (length xs) (length (ps ! j)) (node_master s dev) p t"
    using F(1,2) strlen_cstring [OF xt] strlen_cstring [OF pt]
    by (simp add: fopen_def fopen_rest_def of_strlen_def entry dev(1) Let_def)
  with F(3-10) show ?thesis by blast
qed

text \<open>A node copied into a fresh area.\<close>

lemma get_vfs_bytes:
  assumes "\<And>i. i < 88 \<Longrightarrow> m (p + of_nat i) = m' (q + of_nat i)"
  shows "get_vfs m p = get_vfs m' q"
proof -
  have "load32 m (p + of_nat i) = load32 m' (q + of_nat i)" if "i + 4 \<le> 88" for i
    using assms [of i] assms [of "i + 1"] assms [of "i + 2"] assms [of "i + 3"] that
    by (simp add: load32_def add_ac)
  from this [of 56] this [of 60] this [of 64] this [of 68] this [of 72] this [of 76] this [of 80] this [of 84]
  show ?thesis using assms by (simp add: get_vfs_def get_bytes_def)
qed

lemma copied_node:
  fixes t :: "'a kheap_scheme"
  assumes inv: "heap_inv base t bs'" and lv: "live bs' = insert (p, n) (live bs)" and n: "88 \<le> unat n"
    and new: "span p (unat n) \<inter> usable base bs = {}" and same: "\<forall>x \<in> usable base bs. mem t x = mem s x"
    and src: "span q 88 \<subseteq> usable base bs"
  defines "m \<equiv> memcpy p q sizeof_vfs (mem t)"
  shows "heap_inv base (t\<lparr>mem := m\<rparr>) bs'" and "get_vfs m p = get_vfs (mem s) q"
    and "\<forall>x \<in> usable base bs. m x = mem s x"
proof -
  have p88: "span p 88 \<subseteq> span p (unat n)" using n by (rule span_mono)
  have out: "m x = mem t x" if "x \<notin> span p (unat n)" for x
    unfolding m_def using that p88 by (intro memcpy_outside) (auto simp: sizeof_vfs_def)
  have "span p (unat n) \<subseteq> usable base bs'" by (rule usable_area) (simp add: lv)
  then show "heap_inv base (t\<lparr>mem := m\<rparr>) bs'" by (intro heap_write [OF inv]) (use out in blast)
  show "\<forall>x \<in> usable base bs. m x = mem s x" using out new same by (metis disjoint_iff)
  have byte: "m (p + of_nat i) = mem s (q + of_nat i)" if "i < 88" for i
  proof -
    have q: "q + of_nat j \<in> usable base bs" if "j < 88" for j
      using that by (intro subsetD [OF src] span_add_of_nat) auto
    have "m (p + of_nat i) = mem t (q + of_nat i)"
      unfolding m_def
    proof (rule memcpy_prefix [where k = 88])
      fix j :: nat assume "j < 88"
      then show "q + of_nat j \<notin> span p (unat sizeof_vfs)"
        using q [of j] new p88 by (auto simp: sizeof_vfs_def)
    qed (use that in \<open>simp_all add: sizeof_vfs_def\<close>)
    with q [OF that] same show ?thesis by simp
  qed
  show "get_vfs m p = get_vfs (mem s) q"
    by (rule get_vfs_bytes) (rule byte)
qed

lemma copied_result:
  fixes t :: "'a kheap_scheme"
  assumes "heap_inv base t bs'" and "live bs' = insert (p, n) (live bs)" and "88 \<le> unat n"
    and "span p (unat n) \<inter> usable base bs = {}" and "\<forall>x \<in> usable base bs. mem t x = mem s x"
    and "span q 88 \<subseteq> usable base bs"
    and "r = Inr (p, t\<lparr>mem := memcpy p q sizeof_vfs (mem t)\<rparr>)"
  shows "\<exists>p n u bs'. r = Inr (p, u) \<and> heap_inv base u bs' \<and> live bs' = insert (p, n) (live bs)
    \<and> span p (unat n) \<inter> usable base bs = {} \<and> get_vfs (mem u) p = get_vfs (mem s) q
    \<and> (\<forall>x \<in> usable base bs. mem u x = mem s x)"
  using copied_node [OF assms(1-6)] assms(2,4,7)
  by (intro exI [of _ p, OF exI [of _ n, OF exI [of _ "t\<lparr>mem := memcpy p q sizeof_vfs (mem t)\<rparr>",
        OF exI [of _ bs']]]]) simp

section \<open>What opening a path gives\<close>

lemma fopen_relative_stuck:
  fixes s :: "'a vfs_scheme"
  assumes inv: "heap_inv base s bs" and room: "4 * (length xs + 17) + 416 \<le> heap_space s"
    and path: "string_in (usable base bs) (mem s) path xs"
    and xs: "xs \<noteq> []" "xs \<noteq> [0x2F]" "0x2F \<notin> set (butlast xs)" "xs \<notin> set ps"
    and tab: "mounts_in (usable base bs) s ps"
    and slash: "string_in (usable base bs) (mem s) (str_slash k) [0x2F]"
  shows "fopen k path s = Inl Hangs"
proof -
  have "416 \<le> heap_space s" using room by simp
  from malloc_node [OF inv this]
  obtain p s1 bs1 and n :: u32 where M: "malloc sizeof_vfs s = Inr (p, s1)" "heap_inv base s1 bs1"
    "live bs1 = insert (p, n) (live bs)" "heap_only s s1" "heap_space s \<le> heap_space s1 + 416"
    "\<forall>x \<in> usable base bs. mem s1 x = mem s x"
    by blast
  have sub: "usable base bs \<subseteq> usable base bs1" by (rule usable_mono) (use M(3) in auto)
  have globals: "mount_points s1 = mount_points s" "mount_count s1 = mount_count s"
    using M(4) by (cases s; cases s1; simp add: heap_only_def)+
  have "find_relative_mount k path s1 = Inl Hangs"
  proof (rule find_relative_mount_stuck [OF M(2) _ _ xs])
    show "string_in (usable base bs1) (mem s1) path xs" "mounts_in (usable base bs1) s1 ps"
      "string_in (usable base bs1) (mem s1) (str_slash k) [0x2F]"
      using M(6) string_in_frame [OF path] string_in_frame [OF slash] mounts_in_frame [OF tab _ globals]
      by (auto intro!: string_in_mono [OF _ sub] mounts_in_mono [OF _ sub])
  qed (use room M(5) in simp)
  then show ?thesis using M(1) by (simp add: fopen_def)
qed

text \<open>
  C32. \<open>fopen\<close> of a path that has no separator before its last byte and is not itself a mount path never
  returns: the shortening of the path leaves it as it is, and the lookup starts again.
\<close>

theorem fopen_relative_hangs:
  fixes s :: "'a vfs_scheme"
  assumes "heap_inv base s bs" and "4 * (length xs + 17) + 416 \<le> heap_space s"
    and "string_in (usable base bs) (mem s) path xs"
    and "xs \<noteq> []" and "xs \<noteq> [0x2F]" and "0x2F \<notin> set (butlast xs)" and "xs \<notin> set ps"
    and "mounts_in (usable base bs) s ps"
    and "string_in (usable base bs) (mem s) (str_slash k) [0x2F]"
  shows "fopen k path s = Inl Hangs"
  using assms by (rule fopen_relative_stuck)

lemma fopen_relative_hangs_witness: "fopen boot_env 0x7010 mounted_kernel = Inl Hangs"
  using fopen_relative_hangs [OF mounted_heap _ mounted_paths(2) _ _ _ _ mounted_table mounted_slash]
  by (simp add: mounted_space lit_def)

text \<open>
  C33. \<open>fopen\<close> of a path no longer than the mount path it is looked up under gives a fresh copy of the root
  node of the mounted file system; nothing else the caller can hold changes.
\<close>

theorem fopen_mount_root:
  fixes s :: "'a vfs_scheme"
  assumes inv: "heap_inv base s bs" and room: "4 * (length xs + 17) + 416 \<le> heap_space s"
    and path: "string_in (usable base bs) (mem s) path xs" and abs: "xs \<noteq> []" "hd xs = 0x2F"
    and tab: "mounts_in (usable base bs) s ps" "ps \<noteq> []"
    and slash: "string_in (usable base bs) (mem s) (str_slash k) [0x2F]"
    and j: "j = lookup_mount ps (ancestors xs)" "length xs \<le> length (ps ! j)"
    and dev: "dev = mount_device_at (of_nat j) s" "span (dev + 84) 4 \<subseteq> usable base bs"
    and root: "span (node_master s dev) 88 \<subseteq> usable base bs"
  shows "\<exists>p n t bs'. fopen k path s = Inr (p, t) \<and> heap_inv base t bs' \<and> live bs' = insert (p, n) (live bs)
    \<and> span p (unat n) \<inter> usable base bs = {} \<and> get_vfs (mem t) p = get_vfs (mem s) (node_master s dev)
    \<and> (\<forall>x \<in> usable base bs. mem t x = mem s x)"
proof -
  obtain p n t bs' where F: "fopen k path s = fopen_rest k path (length xs) (length (ps ! j)) (node_master s dev) p t"
      "heap_inv base t bs'" "88 \<le> unat n" "live bs' = insert (p, n) (live bs)"
      "span p (unat n) \<inter> usable base bs = {}" "\<forall>x \<in> usable base bs. mem t x = mem s x"
    using fopen_run [OF inv room path abs tab slash j(1) dev] by (elim exE conjE) (rule that)
  show ?thesis
    by (rule copied_result [OF F(2,4,3,5,6) root]) (use F(1) j(2) in \<open>simp add: fopen_rest_def\<close>)
qed

lemma fopen_device_run:
  fixes s :: "'a vfs_scheme"
  assumes inv: "heap_inv base s bs" and room: "4 * (length xs + 17) + 416 \<le> heap_space s"
    and path: "string_in (usable base bs) (mem s) path xs" and abs: "xs \<noteq> []" "hd xs = 0x2F"
    and tab: "mounts_in (usable base bs) s ps" "ps \<noteq> []"
    and slash: "string_in (usable base bs) (mem s) (str_slash k) [0x2F]"
    and j: "j = lookup_mount ps (ancestors xs)" "length (ps ! j) < length xs"
    and dev: "dev = mount_device_at (of_nat j) s" "span (dev + 84) 4 \<subseteq> usable base bs"
    and root: "span (node_master s dev) 88 \<subseteq> usable base bs" "is_dir (node_flag s (node_master s dev))"
      "node_read_dir s (node_master s dev) \<noteq> 0" "node_find_dir s (node_master s dev) = fn_devfs_find_dir k"
    and link: "fn_devfs_find_dir k \<noteq> fn_fat_find_dir k" "fn_devfs_find_dir k \<noteq> fn_fat_dir_finddir k"
    and devs: "devices_in (usable base bs) s ns" "\<And>i. i < length ns \<Longrightarrow> node_open s (devices_at (of_nat i) s) = 0"
  shows "case first_of ns (drop (length (ps ! j)) xs) of
      None \<Rightarrow> \<exists>t bs'. fopen k path s = Inr (0, t) \<and> heap_inv base t bs' \<and> live bs' = live bs
        \<and> (\<forall>x \<in> usable base bs. mem t x = mem s x)
    | Some i \<Rightarrow> \<exists>p n t bs'. fopen k path s = Inr (p, t) \<and> heap_inv base t bs' \<and> live bs' = insert (p, n) (live bs)
        \<and> span p (unat n) \<inter> usable base bs = {} \<and> get_vfs (mem t) p = get_vfs (mem s) (devices_at (of_nat i) s)
        \<and> (\<forall>x \<in> usable base bs. mem t x = mem s x)"
proof -
  let ?d = "node_master s dev"
  obtain p n t bs' where F: "fopen k path s = fopen_rest k path (length xs) (length (ps ! j)) ?d p t"
      "heap_inv base t bs'" "88 \<le> unat n" "live bs' = insert (p, n) (live bs)" "(p, n) \<notin> live bs"
      "span p (unat n) \<inter> usable base bs = {}" "heap_only s t" "\<forall>x \<in> usable base bs. mem t x = mem s x"
    using fopen_run [OF inv room path abs tab slash j(1) dev] by (elim exE conjE) (rule that)
  have same: "mem t x = mem s x" if "x \<in> usable base bs" for x using F(8) that by simp
  have dt: "devices_in (usable base bs) t ns" "devices_at i t = devices_at i s" for i
    using devices_in_frame [OF devs(1) same] F(7) by (cases s; cases t; simp add: heap_only_def devices_at_def)+
  have "string_in (usable base bs) (mem t) (path + of_nat (length (ps ! j))) (drop (length (ps ! j)) xs)"
    using string_in_drop [OF string_in_frame [OF path same]] j(2) by simp
  note name = string_in_string [OF this]
  have field: "load32 (mem t) (?d + f) = load32 (mem s) (?d + f)" if "unat f + 4 \<le> 88" for f
    using field_in_node [OF that, of ?d] root(1) same by (intro c32.ld_local) blast
  have "vfind_dir (call_find_dir k) ?d (path + of_nat (length (ps ! j))) p t
      = devfs_find_dir ?d (path + of_nat (length (ps ! j))) p t"
    using field [of 56] field [of 76] field [of 80] root(2-4) link
    by (simp add: vfind_dir_def call_find_dir_def)
  note find = this [unfolded devfs_find_first [OF dt(1) name] dt(2)]
  show ?thesis
  proof (cases "first_of ns (drop (length (ps ! j)) xs)")
    case None
    have "(p, n) \<in> live bs'" using F(4) by simp
    from heap_give [OF F(2) this] obtain u cs where G: "free p t = Inr ((), u)" "heap_inv base u cs"
        "live cs = live bs' - {(p, n)}" "\<forall>x \<in> usable base cs. mem u x = mem t x"
      by blast
    have "live cs = live bs" using G(3) F(4,5) by auto
    moreover from this have "usable base cs = usable base bs" by (simp add: usable_def)
    moreover have "fopen k path s = Inr (0, u)" using F(1) find None G(1) j(2) by (simp add: fopen_rest_def)
    ultimately show ?thesis using None G(2,4) same by auto
  next
    case (Some i)
    have i: "i < length ns" using first_of_Some [OF Some] by simp
    then have here: "span (devices_at (of_nat i) s) 88 \<subseteq> usable base bs" using devs(1) by (simp add: devices_in_def)
    note C = copied_node [OF F(2,4,3,6,8) here]
    have "node_open (t\<lparr>mem := memcpy p (devices_at (of_nat i) s) sizeof_vfs (mem t)\<rparr>) p = 0"
      using arg_cong [OF C(2), of vn_open] devs(2) [OF i] by (simp add: get_vfs_def)
    then have "fopen k path s = Inr (p, t\<lparr>mem := memcpy p (devices_at (of_nat i) s) sizeof_vfs (mem t)\<rparr>)"
      using F(1) find Some j(2) by (simp add: fopen_rest_def vopen_def sizeof_vfs_def)
    from copied_result [OF F(2,4,3,6,8) here this] Some show ?thesis by simp
  qed
qed

text \<open>
  \<open>fopen\<close> of a path in the device file system gives a fresh copy of the first device of that name, or
  NULL with the node given back when there is none; nothing else the caller can hold changes.
\<close>

theorem fopen_device:
  fixes s :: "'a vfs_scheme"
  assumes inv: "heap_inv base s bs" and room: "4 * (length xs + 17) + 416 \<le> heap_space s"
    and path: "string_in (usable base bs) (mem s) path xs" and abs: "xs \<noteq> []" "hd xs = 0x2F"
    and tab: "mounts_in (usable base bs) s ps" "ps \<noteq> []"
    and slash: "string_in (usable base bs) (mem s) (str_slash k) [0x2F]"
    and j: "j = lookup_mount ps (ancestors xs)" "length (ps ! j) < length xs"
    and dev: "dev = mount_device_at (of_nat j) s" "span (dev + 84) 4 \<subseteq> usable base bs"
    and root: "span (node_master s dev) 88 \<subseteq> usable base bs" "is_dir (node_flag s (node_master s dev))"
      "node_read_dir s (node_master s dev) \<noteq> 0" "node_find_dir s (node_master s dev) = fn_devfs_find_dir k"
    and link: "fn_devfs_find_dir k \<noteq> fn_fat_find_dir k" "fn_devfs_find_dir k \<noteq> fn_fat_dir_finddir k"
    and devs: "devices_in (usable base bs) s ns" "\<And>i. i < length ns \<Longrightarrow> node_open s (devices_at (of_nat i) s) = 0"
  shows "case first_of ns (drop (length (ps ! j)) xs) of
      None \<Rightarrow> \<exists>t bs'. fopen k path s = Inr (0, t) \<and> heap_inv base t bs' \<and> live bs' = live bs
        \<and> (\<forall>x \<in> usable base bs. mem t x = mem s x)
    | Some i \<Rightarrow> \<exists>p n t bs'. fopen k path s = Inr (p, t) \<and> heap_inv base t bs' \<and> live bs' = insert (p, n) (live bs)
        \<and> span p (unat n) \<inter> usable base bs = {} \<and> get_vfs (mem t) p = get_vfs (mem s) (devices_at (of_nat i) s)
        \<and> (\<forall>x \<in> usable base bs. mem t x = mem s x)"
  using assms by (rule fopen_device_run)

text \<open>The device file system of the sample kernel is mounted by its second device.\<close>

lemma mounted_devfs:
  "mount_device_at 1 mounted_kernel = 0x10058" "load32 (mem mounted_kernel) 0x100AC = 0x20000"
  "load32 (mem mounted_kernel) 0x20038 = 16" "load32 (mem mounted_kernel) 0x2004C = 0x1009"
  "load32 (mem mounted_kernel) 0x20050 = 0x100A"
  by (simp_all add: mount_device_at_def load32_def mounted_mem)

lemma mounted_lookup:
  "lookup_mount [lit ''/'', lit ''/DEV/''] (ancestors (lit ''/DEV/'')) = 1"
  "lookup_mount [lit ''/'', lit ''/DEV/''] (ancestors (lit ''/DEV/tty'')) = 1"
  by (simp_all add: lit_def ancestors_def first_of_def)

lemma mounted_devices: "devices_in (usable (0x200000, {}) []) mounted_kernel [lit ''ATA'', lit ''devman'', lit ''tty'']"
proof -
  have names: "cstring (mem mounted_kernel) 0x10000 (lit ''ATA'')" "cstring (mem mounted_kernel) 0x10058 (lit ''devman'')"
    "cstring (mem mounted_kernel) 0x100B0 (lit ''tty'')"
    by (simp_all add: mounted_mem)
  have at: "devices_at 0 mounted_kernel = 0x10000" "devices_at 1 mounted_kernel = 0x10058"
    "devices_at 2 mounted_kernel = 0x100B0" "unat (devices_number mounted_kernel) = 3"
    by (simp_all add: devices_at_def devices_number_def sizeof_vfs_def mounted_kernel_def)
  have span: "span 0x10000 88 \<subseteq> usable (0x200000, {}) []" "span 0x10058 88 \<subseteq> usable (0x200000, {}) []"
    "span 0x100B0 88 \<subseteq> usable (0x200000, {}) []"
    by (simp_all add: low_usable)
  have three: "(\<forall>i < Suc (Suc (Suc 0)). P i) \<longleftrightarrow> P 0 \<and> P 1 \<and> P 2" for P :: "nat \<Rightarrow> bool"
    by (auto simp: less_Suc_eq numeral_2_eq_2)
  have l: "length [lit ''ATA'', lit ''devman'', lit ''tty''] = Suc (Suc (Suc 0))" by simp
  show ?thesis unfolding devices_in_def at l three using names at span by (simp add: lit_def)
qed

lemma mounted_sizes:
  "length xs \<le> 100 \<Longrightarrow> 4 * (length xs + 17) + 416 \<le> heap_space mounted_kernel"
  "span (mount_device_at (of_nat 1) mounted_kernel + 84) 4 \<subseteq> usable (0x200000, {}) []"
  "span (node_master mounted_kernel (mount_device_at (of_nat 1) mounted_kernel)) 88 \<subseteq> usable (0x200000, {}) []"
  by (simp_all add: mounted_space mounted_devfs low_usable)

lemma fopen_mount_root_witness:
  "\<exists>p t. fopen boot_env 0x5010 mounted_kernel = Inr (p, t) \<and> vn_find_dir (get_vfs (mem t) p) = fn_devfs_find_dir boot_env"
proof -
  have path: "string_in (usable (0x200000, {}) []) (mem mounted_kernel) 0x5010 (lit ''/DEV/'')" by (simp add: mounted_mem)
  have xs: "length (lit ''/DEV/'') \<le> 100" "lit ''/DEV/'' \<noteq> []" "hd (lit ''/DEV/'') = 0x2F"
    "length (lit ''/DEV/'') \<le> length ([lit ''/'', lit ''/DEV/''] ! 1)"
    by (simp_all add: lit_def)
  obtain p t where "fopen boot_env 0x5010 mounted_kernel = Inr (p, t)"
      "get_vfs (mem t) p = get_vfs (mem mounted_kernel) (node_master mounted_kernel (mount_device_at (of_nat 1) mounted_kernel))"
    using fopen_mount_root [OF mounted_heap mounted_sizes(1) [OF xs(1)] path xs(2,3) mounted_table list.distinct(2)
        mounted_slash mounted_lookup(1) [symmetric] xs(4) refl mounted_sizes(2,3)]
    by (elim exE conjE) (rule that)
  then show ?thesis by (intro exI [of _ p] exI [of _ t]) (simp add: get_vfs_def mounted_devfs boot_env_def)
qed

lemma fopen_device_witness:
  "\<exists>p t. fopen boot_env 0x7000 mounted_kernel = Inr (p, t)
     \<and> get_vfs (mem t) p = get_vfs (mem mounted_kernel) (devices_at 2 mounted_kernel)"
proof -
  have xs: "length (lit ''/DEV/tty'') \<le> 100" "lit ''/DEV/tty'' \<noteq> []" "hd (lit ''/DEV/tty'') = 0x2F"
    "length ([lit ''/'', lit ''/DEV/''] ! 1) < length (lit ''/DEV/tty'')"
    by (simp_all add: lit_def)
  have root: "is_dir (node_flag mounted_kernel (node_master mounted_kernel (mount_device_at (of_nat 1) mounted_kernel)))"
    "node_read_dir mounted_kernel (node_master mounted_kernel (mount_device_at (of_nat 1) mounted_kernel)) \<noteq> 0"
    "node_find_dir mounted_kernel (node_master mounted_kernel (mount_device_at (of_nat 1) mounted_kernel))
       = fn_devfs_find_dir boot_env"
    by (simp_all add: mounted_devfs is_dir_def boot_env_def)
  have link: "fn_devfs_find_dir boot_env \<noteq> fn_fat_find_dir boot_env"
    "fn_devfs_find_dir boot_env \<noteq> fn_fat_dir_finddir boot_env"
    by (simp_all add: boot_env_def)
  have "load32 (mem mounted_kernel) 0x10044 = 0" "load32 (mem mounted_kernel) 0x1009C = 0"
    "load32 (mem mounted_kernel) 0x100F4 = 0"
    by (simp_all add: load32_def mounted_mem)
  then have opens: "node_open mounted_kernel (devices_at (of_nat i) mounted_kernel) = 0"
    if "i < length [lit ''ATA'', lit ''devman'', lit ''tty'']" for i
    using that
    by (auto simp: less_Suc_eq numeral_2_eq_2 devices_at_def sizeof_vfs_def mounted_kernel_def)
  have "first_of [lit ''ATA'', lit ''devman'', lit ''tty'']
      (drop (length ([lit ''/'', lit ''/DEV/''] ! 1)) (lit ''/DEV/tty'')) = Some 2"
    by (simp add: first_of_def lit_def)
  note run = fopen_device [OF mounted_heap mounted_sizes(1) [OF xs(1)] mounted_paths(1) xs(2,3) mounted_table list.distinct(2)
        mounted_slash mounted_lookup(2) [symmetric] xs(4) refl mounted_sizes(2,3) root link mounted_devices opens, unfolded this option.case]
  from run show ?thesis by (simp, blast)
qed

end
