(* ===== verification/File_Spec.thy ===== *)
theory File_Spec
  imports Lookup_Spec Open_Spec
begin

text \<open>
  From a path to the bytes of a file on the disk: \<open>fopen\<close> through the mount of the FAT file system, and the read
  of the node it gives.
\<close>

section \<open>The node of a file\<close>

definition file_at :: "env \<Rightarrow> u32 \<Rightarrow> u8 list \<Rightarrow> memory \<Rightarrow> u32 \<Rightarrow> bool" where
  "file_at k dev cs m p \<longleftrightarrow> cstring m p cs \<and> length cs < 55 \<and> load32 m (p + 56) = flag_value VFS_FILE
     \<and> load32 m (p + 60) = fn_fat_file_read k \<and> load32 m (p + 64) = 0 \<and> load32 m (p + 68) = 0 \<and> load32 m (p + 72) = 0
     \<and> load32 m (p + 76) = 0 \<and> load32 m (p + 80) = 0 \<and> load32 m (p + 84) = dev"

lemma file_at_frame:
  assumes "file_at k dev cs m p" and same: "\<And>x. x \<in> span p 88 \<Longrightarrow> m' x = m x"
  shows "file_at k dev cs m' p"
proof -
  have "load32 m' (p + i) = load32 m (p + i)" if "unat i + 4 \<le> 88" for i
    by (rule c32.ld_local) (use field_in_node [OF that] same in blast)
  moreover have "cstring m' p cs"
    by (rule cstring_frame [of m]) (use assms in \<open>auto simp: file_at_def in_span u32_of_nat_unat\<close>)
  ultimately show ?thesis using assms(1) by (simp add: file_at_def)
qed

lemma file_created:
  fixes dev :: u32
  assumes name: "cstring (mem s) path cs" "length cs < 55" "span path (Suc (length cs)) \<inter> span p 88 = {}"
    and junk: "length (stack_junk k) = 55"
  defines "t \<equiv> fat_file_create k p path dev s"
  shows "file_at k dev cs (mem t) p" and "x \<notin> span p 88 \<Longrightarrow> mem t x = mem s x" and "t = s\<lparr>mem := mem t\<rparr>"
proof -
  define m1 where "m1 = put_vfs p (vfs_node_new (stack_junk k)) (mem s)"
  define m2 where "m2 = memcpy p path 55 m1"
  have t: "mem t = store32 (p + 56) (flag_value VFS_FILE) (store32 (p + 84) dev (store32 (p + 60) (fn_fat_file_read k) m2))"
    by (simp add: t_def fat_file_create_def m1_def m2_def VFS_NAME_MAX_def)
  show "t = s\<lparr>mem := mem t\<rparr>" by (simp add: t_def fat_file_create_def)
  have v: "length (vn_name (vfs_node_new (stack_junk k))) = 55" using junk by (simp add: vfs_node_new_def)
  have m1: "m1 x = mem s x" if "x \<notin> span p 88" for x unfolding m1_def by (rule put_vfs_outside [OF v that])
  have m2: "m2 x = m1 x" if "x \<notin> span p 55" for x using that by (simp add: m2_def memcpy_outside)
  show out: "mem t x = mem s x" if x: "x \<notin> span p 88" for x
  proof -
    have "x \<notin> span (p + i) 4" if "unat i + 4 \<le> 88" for i using field_in_node [OF that] x by blast
    moreover have "x \<notin> span p 55" using x span_mono [of 55 88 p] by auto
    ultimately show ?thesis using m1 [OF x] m2 by (simp add: t c32.st_outside)
  qed
  have byte: "mem t (p + of_nat i) = m2 (p + of_nat i)" if "i < 55" for i using that by (simp add: t name_byte)
  have src: "path + of_nat j \<notin> span p 88" if "j < Suc (length cs)" for j
    using that name(2,3) span_add_of_nat [of j "Suc (length cs)" path] by auto
  have copy: "m2 (p + of_nat i) = mem s (path + of_nat i)" if i: "i \<le> length cs" for i
  proof -
    have "m2 (p + of_nat i) = m1 (path + of_nat i)" unfolding m2_def
    proof (rule memcpy_prefix [where k = "Suc (length cs)"])
      show "path + of_nat j \<notin> span p (unat (55 :: u32))" if "j < Suc (length cs)" for j
        using src [OF that] span_mono [of 55 88 p] by auto
    qed (use i name(2) in simp_all)
    then show ?thesis using m1 [OF src] i by simp
  qed
  have str: "cstring (mem t) p cs"
    using name(2) by (intro cstring_intro) (simp_all add: byte copy cstring_nth [OF name(1)] cstring_end [OF name(1)])
  have word: "load32 m2 (p + i) = load32 m1 (p + i)" if "56 \<le> unat i" "unat i + 4 \<le> 88" for i
  proof (rule c32.ld_local)
    fix x assume "x \<in> span (p + i) 4"
    moreover have "apart p 55 (p + i) 4"
      using that u32_diff_unat [of 0 i] by (auto simp: apart_def)
    ultimately show "m2 x = m1 x" using m2 apart_disjoint by blast
  qed
  have "get_vfs m1 p = vfs_node_new (stack_junk k)"
    unfolding m1_def by (rule vfs_node_roundtrip [THEN conjunct1]) (use v in \<open>simp add: VFS_NAME_MAX_def\<close>)
  then have "load32 m1 (p + 64) = 0" "load32 m1 (p + 68) = 0" "load32 m1 (p + 72) = 0" "load32 m1 (p + 76) = 0"
    "load32 m1 (p + 80) = 0"
    by (simp_all add: get_vfs_def vfs_node_new_def)
  then show "file_at k dev cs (mem t) p"
    using str name(2) by (simp add: file_at_def t cells c32_32.ld_st_apart node_fields_apart word)
qed

section \<open>Looking a file up by its name\<close>

lemma fs_drive:
  assumes "span fatfs 88 \<subseteq> A" and "span drv 88 \<subseteq> A" and same: "\<And>x. x \<in> A \<Longrightarrow> mem t x = mem s x"
  shows "node_flag t fatfs = node_flag s fatfs" and "node_master t fatfs = node_master s fatfs"
    and "node_read t drv = node_read s drv"
proof -
  have "load32 (mem t) (a + i) = load32 (mem s) (a + i)" if "span a 88 \<subseteq> A" "unat i + 4 \<le> 88" for a i
    by (rule c32.ld_local) (use field_in_node [OF that(2), of a] that(1) same in blast)
  then show "node_flag t fatfs = node_flag s fatfs" "node_master t fatfs = node_master s fatfs"
    "node_read t drv = node_read s drv"
    using assms(1,2) by simp_all
qed

lemma fs_file_create:
  fixes s :: "'a vfs_scheme" and drv :: u32
  assumes at: "fs_at d base s bs" and p: "(p, n) \<in> live bs" "88 \<le> unat n" and A: "A \<inter> span p (unat n) = {}"
    and name: "string_in A (mem s) path cs" "length cs < 55" and junk: "length (stack_junk k) = 55"
  defines "t \<equiv> fat_file_create k p path drv s"
  shows "fs_at d base t bs" and "file_at k drv cs (mem t) p" and "x \<in> A \<Longrightarrow> mem t x = mem s x"
    and "heap_space t = heap_space s"
proof -
  have sub: "span p 88 \<subseteq> span p (unat n)" by (rule span_mono [OF p(2)])
  have path: "cstring (mem s) path cs" "length cs < 55" "span path (Suc (length cs)) \<inter> span p 88 = {}"
    using name A sub by (auto simp: string_in_def)
  note c = file_created [OF path junk, where dev = drv, folded t_def]
  show "file_at k drv cs (mem t) p" by (rule c(1))
  show "x \<in> A \<Longrightarrow> mem t x = mem s x" using c(2) A sub by blast
  have "fs_at d base (s\<lparr>mem := mem t\<rparr>) bs" by (rule fs_write [OF at p(1)]) (use c(2) sub in blast)
  then show "fs_at d base t bs" using c(3) by simp
  show "heap_space t = heap_space s" by (subst c(3)) (simp add: heap_space_def)
qed

lemma fat_find_dir_run:
  fixes s :: "'a vfs_scheme"
  assumes at: "fs_at d base s bs" and p: "(p, n) \<in> live bs" "88 \<le> unat n"
    and A: "A \<subseteq> usable base bs" "A \<inter> span p (unat n) = {}" and room: "c \<le> heap_space s"
    and fs: "span fatfs 88 \<subseteq> A" "node_flag s fatfs = flag_value VFS_FILESYSTEM" "node_master s fatfs = drv"
    and drv: "span drv 88 \<subseteq> A" "node_read s drv = fn_ata_read k" "fn_ata_read k \<noteq> 0"
    and name: "string_in A (mem s) path cs" "length cs < 55"
    and found: "finds d base k A c cs e s" "fe_attributes e \<noteq> 0x10"
    and junk: "length (stack_junk k) = 55"
  shows "\<exists>t bs'. fat_find_dir k fatfs path p s = Inr (0, t) \<and> fs_at d base t bs' \<and> live bs' = live bs
    \<and> heap_space s \<le> heap_space t + c \<and> file_at k drv cs (mem t) p
    \<and> (\<forall>x \<in> A. mem t x = mem s x)"
proof -
  define s1 where "s1 = fat_file_create k p path drv s"
  note f0 = fs_file_create [OF at p A(2) name(1,2) junk, where drv = drv, folded s1_def]
  note f = fs_drive [OF fs(1) drv(1) f0(3)]
  have inv: "heap_inv base s bs" using at by (simp add: fs_at_def)
  have p0: "p \<noteq> 0" using live_off_heap [OF inv p(1)] by simp
  have here: "span p 88 \<subseteq> usable base bs" using usable_area [OF p(1), of base] span_mono [OF p(2), of p] by blast
  have fa: "cstring (mem s1) p cs" "node_flag s1 p = flag_value VFS_FILE" "node_master s1 p = drv"
    using f0(2) by (simp_all add: file_at_def)
  have nodes: "drive_nodes k (usable base bs) p s1"
    using fa(2,3) f(3) drv here A(1) by (auto simp: drive_nodes_def)
  have str: "string_in (usable base bs) (mem s1) p cs"
    using fa(1) here span_mono [of "Suc (length cs)" 88 p] name(2) by (auto simp: string_in_def)
  have room1: "c \<le> heap_space s1" using room f0(4) by simp
  have near: "unat p + length cs < 4294967296" using live_off_heap [OF inv p(1)] p(2) name(2) by simp
  have same1: "\<forall>x \<in> A. mem s1 x = mem s x" using f0(3) by blast
  obtain s2 bs2 where H: "fat_get_filehandle k p s1 = Inr ((0, Some e), s2)" "fs_at d base s2 bs2"
    "live bs2 = live bs" "kept base c s1 bs s2 bs2"
    using findsD [OF found(1) f0(1) A(1) same1 room1 nodes p0 near str] by blast
  have same2: "mem s2 x = mem s x" if "x \<in> A" for x using H(4) f0(3) A(1) that by (auto simp: kept_def)
  note f2 = fs_drive [OF fs(1) drv(1) same2]
  define t where "t = fat_file_create k p path drv s2"
  have p2: "(p, n) \<in> live bs2" using p(1) H(3) by simp
  have name2: "string_in A (mem s2) path cs" by (rule string_in_frame [OF name(1) same2])
  note f1 = fs_file_create [OF H(2) p2 p(2) A(2) name2 name(2) junk, where drv = drv, folded t_def]
  have "fat_find_dir k fatfs path p s = Inr (0, t)"
    using fs(2,3) f2(2) H(1) found(2) by (simp add: fat_find_dir_def s1_def [symmetric] fat_node_create_def t_def)
  moreover have "heap_space s \<le> heap_space t + c"
    using H(4) f0(4) f1(4) by (simp add: kept_def)
  ultimately show ?thesis using f1(1-3) H(3) same2
    by (intro exI [of _ t] exI [of _ bs2]) auto
qed

section \<open>Opening, reading and closing a file\<close>

text \<open>A mount entry whose device carries the FAT file system of the drive \<open>drv\<close>.\<close>

definition fat_mounted :: "env \<Rightarrow> u32 set \<Rightarrow> 'a vfs_scheme \<Rightarrow> u32 \<Rightarrow> u32 \<Rightarrow> bool" where
  "fat_mounted k A s dev drv \<longleftrightarrow> span (dev + 84) 4 \<subseteq> A \<and> span (node_master s dev) 88 \<subseteq> A
     \<and> node_flag s (node_master s dev) = flag_value VFS_FILESYSTEM \<and> node_read_dir s (node_master s dev) \<noteq> 0
     \<and> node_find_dir s (node_master s dev) = fn_fat_find_dir k \<and> node_master s (node_master s dev) = drv
     \<and> span drv 88 \<subseteq> A \<and> node_read s drv = fn_ata_read k \<and> fn_ata_read k \<noteq> 0"

text \<open>The name is one component of at most 32 bytes, and the entry it leads to is not a directory.\<close>

definition plain_name :: "disk \<Rightarrow> memory \<Rightarrow> u32 set \<Rightarrow> u8 list \<Rightarrow> bool" where
  "plain_name d m A cs \<longleftrightarrow> length cs \<le> 32 \<and> cs \<noteq> [] \<and> 0x2F \<notin> set cs
     \<and> (root_find d cs = None \<longrightarrow> span 0 32 \<subseteq> A) \<and> fe_attributes (looked_up d m cs) \<noteq> 0x10"

text \<open>What opening a file needs to know of its name.\<close>

definition opens :: "disk \<Rightarrow> heap_base \<Rightarrow> env \<Rightarrow> u32 set \<Rightarrow> nat \<Rightarrow> u8 list \<Rightarrow> FatEntry \<Rightarrow> 'a vfs_scheme \<Rightarrow> bool" where
  "opens d base k A c cs e s \<longleftrightarrow> finds d base k A c cs e s \<and> cs \<noteq> [] \<and> length cs < 55 \<and> fe_attributes e \<noteq> 0x10"

lemma opens_name:
  assumes "plain_name d (mem s) A cs"
  shows "opens d base k A (4 * (length cs + 17) + 6528) cs (looked_up d (mem s) cs) s"
  using assms finds_name [of cs d A s base k] by (simp add: plain_name_def opens_def)

lemma fopen_file_run:
  fixes s :: "'a vfs_scheme"
  assumes at: "fs_at d base s bs" and room: "4 * (length xs + 17) + 416 + c \<le> heap_space s"
    and path: "string_in (usable base bs) (mem s) path xs" and abs: "xs \<noteq> []" "hd xs = 0x2F"
    and tab: "mounts_in (usable base bs) s ps" "ps \<noteq> []"
    and slash: "string_in (usable base bs) (mem s) (str_slash k) [0x2F]"
    and j: "j = lookup_mount ps (ancestors xs)" "cs = drop (length (ps ! j)) xs"
    and fs: "fat_mounted k (usable base bs) s (mount_device_at (of_nat j) s) drv"
    and name: "opens d base k (usable base bs) c cs e s" and junk: "length (stack_junk k) = 55"
  shows "\<exists>p n t bs'. fopen k path s = Inr (p, t) \<and> fs_at d base t bs' \<and> live bs' = insert (p, n) (live bs)
    \<and> (p, n) \<notin> live bs \<and> 88 \<le> unat n \<and> span p (unat n) \<inter> usable base bs = {} \<and> file_at k drv cs (mem t) p
    \<and> heap_space s \<le> heap_space t + (4 * (length xs + 17) + 416 + c)
    \<and> (\<forall>x \<in> usable base bs. mem t x = mem s x)"
proof -
  let ?A = "usable base bs" and ?dev = "mount_device_at (of_nat j) s"
  define fatfs where "fatfs = node_master s ?dev"
  have inv: "heap_inv base s bs" and d: "serves d s" using at by (simp_all add: fs_at_def)
  have long: "length (ps ! j) < length xs" using name j(2) by (auto simp: opens_def)
  have r0: "4 * (length xs + 17) + 416 \<le> heap_space s" using room by simp
  have dv: "span (?dev + 84) 4 \<subseteq> ?A" using fs by (simp add: fat_mounted_def)
  obtain p n t bs' where F: "fopen k path s = fopen_rest k path (length xs) (length (ps ! j)) fatfs p t"
      "heap_inv base t bs'" "88 \<le> unat n" "live bs' = insert (p, n) (live bs)" "(p, n) \<notin> live bs"
      "span p (unat n) \<inter> ?A = {}" "heap_only s t" "\<forall>x \<in> ?A. mem t x = mem s x"
      "heap_space s \<le> heap_space t + (4 * (length xs + 17) + 416)"
    using fopen_run [OF inv r0 path abs tab slash j(1) refl dv, folded fatfs_def] by (elim exE conjE) (rule that)
  have same: "mem t x = mem s x" if "x \<in> ?A" for x using F(8) that by simp
  have at1: "fs_at d base t bs'" using F(2) serves_heap [OF d F(7)] by (simp add: fs_at_def)
  have sub: "?A \<subseteq> usable base bs'" by (rule usable_mono) (use F(4) in auto)
  have fsA: "span fatfs 88 \<subseteq> ?A" "span drv 88 \<subseteq> ?A" using fs by (simp_all add: fat_mounted_def fatfs_def)
  have word: "load32 (mem t) (fatfs + i) = load32 (mem s) (fatfs + i)" if "unat i + 4 \<le> 88" for i
    by (rule c32.ld_local) (use field_in_node [OF that, of fatfs] fsA same in blast)
  have fields: "node_flag t fatfs = flag_value VFS_FILESYSTEM" "node_master t fatfs = drv" "node_read_dir t fatfs \<noteq> 0"
    "node_find_dir t fatfs = fn_fat_find_dir k" "node_read t drv = fn_ata_read k" "fn_ata_read k \<noteq> 0"
    using fs fs_drive [OF fsA same] word [of 76] word [of 80] by (simp_all add: fat_mounted_def fatfs_def)
  have nm: "string_in ?A (mem t) (path + of_nat (length (ps ! j))) cs"
    unfolding j(2) by (rule string_in_drop [OF string_in_frame [OF path same] less_imp_le [OF long]])
  have found: "finds d base k ?A c cs e t" "length cs < 55" "fe_attributes e \<noteq> 0x10"
    using name finds_frame [OF _ same] by (simp_all add: opens_def)
  have pl: "(p, n) \<in> live bs'" and disj: "?A \<inter> span p (unat n) = {}" using F(4,6) by auto
  have r1: "c \<le> heap_space t" using room F(9) by simp
  obtain u bs2 where G: "fat_find_dir k fatfs (path + of_nat (length (ps ! j))) p t = Inr (0, u)" "fs_at d base u bs2"
    "live bs2 = live bs'" "heap_space t \<le> heap_space u + c" "file_at k drv cs (mem u) p"
    "\<forall>x \<in> ?A. mem u x = mem t x"
    using fat_find_dir_run [OF at1 pl F(3) sub disj r1 fsA(1) fields(1,2) fsA(2) fields(5,6) nm found(2,1,3) junk] by blast
  have "node_open u p = 0" using G(5) by (simp add: file_at_def)
  then have "fopen k path s = Inr (p, u)"
    using F(1) G(1) fields(1,3,4) long
    by (simp add: fopen_rest_def vfind_dir_def is_dir_def call_find_dir_def vopen_def)
  moreover have "heap_space s \<le> heap_space u + (4 * (length xs + 17) + 416 + c)"
    using F(9) G(4) by simp
  moreover have "\<forall>x \<in> ?A. mem u x = mem s x" using G(6) same by simp
  ultimately show ?thesis using F(3-6) G(2,3,5)
    by (intro exI [of _ p, OF exI [of _ n, OF exI [of _ u, OF exI [of _ bs2]]]]) simp
qed

lemma fopen_read_run:
  fixes s :: "'a vfs_scheme" and sz :: u32
  defines "spc d \<equiv> unat (SectorsPerCluster (disk_bpb d))"
  assumes at: "fs_at d base s bs"
    and room: "4 * (length xs + 17) + 2592 + 2 * c + 2048 * spc d \<le> heap_space s"
    and path: "string_in (usable base bs) (mem s) path xs" and abs: "xs \<noteq> []" "hd xs = 0x2F"
    and tab: "mounts_in (usable base bs) s ps" "ps \<noteq> []"
    and slash: "string_in (usable base bs) (mem s) (str_slash k) [0x2F]"
    and j: "j = lookup_mount ps (ancestors xs)" "cs = drop (length (ps ! j)) xs"
    and fs: "fat_mounted k (usable base bs) s (mount_device_at (of_nat j) s) drv"
    and name: "opens d base k (usable base bs) c cs e s"
    and env: "length (stack_junk k) = 55" "fn_fat_file_read k \<noteq> 0"
    and geometry: "BytesPerSector (disk_bpb d) = 512" "SectorsPerCluster (disk_bpb d) \<noteq> 0"
    and cls: "chain (disk_bpb d) d (fe_starting_cluster e) cls"
    and w: "w = written (unat sz) 0 (map (cluster_data (disk_bpb d) d) cls)" "length w < 4294967296"
    and dst: "span ptr (length w) \<subseteq> usable base bs" "span ptr (length w) \<inter> span drv 88 = {}"
  shows "\<exists>p t u v bs'. fopen k path s = Inr (p, t) \<and> p \<noteq> 0 \<and> file_at k drv cs (mem t) p
    \<and> vread (call_read k) p off sz ptr t = Inr (0, u) \<and> fclose p u = Inr (- 1, v)
    \<and> heap_inv base v bs' \<and> live bs' = live bs \<and> (\<forall>x \<in> usable base bs. mem v x = put_bytes ptr w (mem s) x)"
proof -
  let ?A = "usable base bs"
  have r: "4 * (length xs + 17) + 416 + c \<le> heap_space s" using room by simp
  obtain p n t bs1 where F: "fopen k path s = Inr (p, t)" "fs_at d base t bs1" "live bs1 = insert (p, n) (live bs)"
    "(p, n) \<notin> live bs" "88 \<le> unat n" "span p (unat n) \<inter> ?A = {}" "file_at k drv cs (mem t) p"
    "heap_space s \<le> heap_space t + (4 * (length xs + 17) + 416 + c)"
    "\<forall>x \<in> ?A. mem t x = mem s x"
    using fopen_file_run [OF at r path abs tab slash j fs name env(1)] by (elim exE conjE) (rule that)
  have sub: "?A \<subseteq> usable base bs1" by (rule usable_mono) (use F(3) in auto)
  have inv: "heap_inv base t bs1" using F(2) by (simp add: fs_at_def)
  have pl: "(p, n) \<in> live bs1" using F(3) by simp
  have p0: "p \<noteq> 0" using live_off_heap [OF inv pl] by simp
  have here: "span p 88 \<subseteq> usable base bs1" "span p 88 \<inter> ?A = {}"
    using usable_area [OF pl, of base] span_mono [OF F(5), of p] F(6) by blast+
  have drv: "span drv 88 \<subseteq> ?A" "node_read s drv = fn_ata_read k" "fn_ata_read k \<noteq> 0" using fs by (simp_all add: fat_mounted_def)
  have "node_read t drv = node_read s drv"
    by (rule c32.ld_local) (use field_in_node [of 60 drv] drv(1) F(9) in auto)
  then have nodes: "drive_nodes k (usable base bs1) p t"
    using F(7) here(1) drv sub by (auto simp: drive_nodes_def file_at_def)
  have nm: "cstring (mem t) p cs" "length cs < 55" "node_master t p = drv"
    using F(7) name by (simp_all add: file_at_def opens_def)
  have str: "string_in (usable base bs1) (mem t) p cs"
    using nm(1,2) here(1) span_mono [of "Suc (length cs)" 88 p] by (auto simp: string_in_def)
  have found: "finds d base k ?A c cs e t" using name finds_frame [of d base k ?A c cs e s t] F(9) by (simp add: opens_def)
  have same: "\<forall>x \<in> ?A. mem t x = mem t x" by simp
  have near: "unat p + length cs < 4294967296" using live_off_heap [OF inv pl] F(5) nm(2) by simp
  have r1: "c + (2112 + 4 * (512 * unat (SectorsPerCluster (disk_bpb d)) + 16)) \<le> heap_space t"
    using room F(8) by (simp add: spc_def)
  have dst1: "span ptr (length w) \<subseteq> usable base bs1"
    "span ptr (length w) \<inter> (span p 88 \<union> span (node_master t p) 88) = {}"
    using dst sub here(2) nm(3) by auto
  obtain u bs2 where R: "fat_file_read k p off sz ptr t = Inr (0, u)" "fs_at d base u bs2" "live bs2 = live bs1"
    "\<forall>x \<in> usable base bs1. mem u x = put_bytes ptr w (mem t) x"
    using fat_file_read_run [OF F(2) found sub same r1 nodes p0 str near geometry cls w dst1] by blast
  have call: "vread (call_read k) p off sz ptr t = Inr (0, u)"
    using F(7) R(1) env(2) by (simp add: vread_def call_read_def file_at_def)
  have "file_at k drv cs (mem u) p"
  proof (rule file_at_frame [OF F(7)])
    fix x assume x: "x \<in> span p 88"
    then have "x \<notin> span ptr (length w)" using dst(1) here(2) by blast
    then show "mem u x = mem t x" using R(4) here(1) x by (auto simp: put_bytes_outside)
  qed
  then have "node_close u p = 0" by (simp add: file_at_def)
  moreover have "(p, n) \<in> live bs2" "heap_inv base u bs2" using pl R(2,3) by (simp_all add: fs_at_def)
  then obtain v bs3 where G: "free p u = Inr ((), v)" "heap_inv base v bs3" "live bs3 = live bs2 - {(p, n)}"
    "\<forall>x \<in> usable base bs3. mem v x = mem u x"
    using heap_give [of base u bs2 p n] by blast
  ultimately have close: "fclose p u = Inr (- 1, v)" by (simp add: fclose_def vclose_def)
  have lv: "live bs3 = live bs" using G(3) R(3) F(3,4) by auto
  then have "usable base bs3 = ?A" by (simp add: usable_def)
  then have "mem v x = put_bytes ptr w (mem s) x" if "x \<in> ?A" for x
    using that G(4) R(4) sub F(9) put_bytes_cong [of "mem t" x "mem s"] by auto
  then show ?thesis using F(1,7) p0 call close G(2) lv by blast
qed

end
