(* ===== verification/Path_Spec.thy ===== *)
theory Path_Spec
  imports Lookup_Spec Open_Spec
begin

text \<open>
  Paths of several components: \<open>walk\<close> follows a path through the directories of the disk, and
  \<open>fat_get_filehandle\<close> gives the entry it ends at.
\<close>

section \<open>Paths on the disk\<close>

fun joined :: "u8 list list \<Rightarrow> u8 list" where
  "joined [] = []"
| "joined [x] = x"
| "joined (x # y # xs) = x @ 0x2F # joined (y # xs)"

definition component :: "u8 list \<Rightarrow> bool" where
  "component x \<longleftrightarrow> x \<noteq> [] \<and> length x \<le> 32 \<and> 0x2F \<notin> set x"

text \<open>
  The entry that a path leads to from the directory in the sector \<open>sec\<close>. A directory behind the root is one
  cluster of one sector: the lookup reads 512 bytes of it and has a buffer of that size. What follows the
  first file in the path is not looked at.
\<close>

fun walk :: "disk \<Rightarrow> u8 list \<Rightarrow> u8 list list \<Rightarrow> FatEntry option" where
  "walk d sec [] = None"
| "walk d sec (x # xs) = (case sec_find sec x of None \<Rightarrow> None
     | Some i \<Rightarrow> let e = entry_of (slot sec i); cl = fe_starting_cluster e
                 in if fe_attributes e \<noteq> 0x10 then Some e
                    else if SectorsPerCluster (disk_bpb d) = 1 \<and> chain (disk_bpb d) d cl [cl]
                    then walk d (cluster_data (disk_bpb d) d cl) xs else None)"

lemma walk_Cons:
  assumes "walk d sec (x # xs) = Some e"
  obtains i where "sec_find sec x = Some i" and "fe_attributes (entry_of (slot sec i)) \<noteq> 0x10" and "e = entry_of (slot sec i)"
    | i cl where "sec_find sec x = Some i" and "fe_attributes (entry_of (slot sec i)) = 0x10"
      and "cl = fe_starting_cluster (entry_of (slot sec i))" and "SectorsPerCluster (disk_bpb d) = 1"
      and "chain (disk_bpb d) d cl [cl]" and "xs \<noteq> []" and "walk d (cluster_data (disk_bpb d) d cl) xs = Some e"
proof -
  obtain i where i: "sec_find sec x = Some i" using assms by (cases "sec_find sec x") simp_all
  let ?f = "entry_of (slot sec i)"
  show ?thesis
  proof (cases "fe_attributes ?f = 0x10")
    case False
    then show ?thesis using that(1) i assms by (simp add: Let_def)
  next
    case True
    define cl where "cl = fe_starting_cluster ?f"
    have "SectorsPerCluster (disk_bpb d) = 1 \<and> chain (disk_bpb d) d cl [cl] \<and> walk d (cluster_data (disk_bpb d) d cl) xs = Some e"
      using i assms True unfolding walk.simps cl_def by (simp only: option.case Let_def split: if_splits) simp
    moreover from this have "xs \<noteq> []" by auto
    ultimately show ?thesis using that(2) [OF i True cl_def] by blast
  qed
qed

lemma walk_file: "walk d sec xs = Some e \<Longrightarrow> fe_attributes e \<noteq> 0x10"
proof (induction xs arbitrary: sec)
  case (Cons x xs)
  show ?case by (rule walk_Cons [OF Cons.prems]) (use Cons.IH in auto)
qed simp

lemma joined_Cons: "xs \<noteq> [] \<Longrightarrow> joined (x # xs) = x @ 0x2F # joined xs"
  by (cases xs) simp_all

lemma joined_first:
  assumes "component x"
  shows "takeWhile (\<lambda>c. c \<noteq> 0x2F) (joined (x # xs)) = x" and "length x \<le> length (joined (x # xs))"
proof -
  have "\<forall>c \<in> set x. c \<noteq> 0x2F" using assms by (auto simp: component_def)
  then show "takeWhile (\<lambda>c. c \<noteq> 0x2F) (joined (x # xs)) = x"
    by (cases "xs = []") (simp_all add: joined_Cons takeWhile_append2 takeWhile_eq_all_conv)
  show "length x \<le> length (joined (x # xs))" by (cases "xs = []") (simp_all add: joined_Cons)
qed

section \<open>Steps of the walk\<close>

text \<open>One sector of a directory into the buffer.\<close>

lemma fs_read_directory:
  fixes s :: "'a vfs_scheme"
  assumes at: "fs_at d base s bs" and room: "4224 \<le> heap_space s" and b: "(b, n) \<in> live bs" "512 \<le> unat n"
    and nodes: "drive_nodes k A node s" "A \<subseteq> usable base bs" "A \<inter> span b (unat n) = {}"
    and geometry: "BytesPerSector (disk_bpb d) = 512" "SectorsPerCluster (disk_bpb d) = 1"
    and cl: "cl = fe_starting_cluster e" "chain (disk_bpb d) d cl [cl]"
  shows "\<exists>t bs'. fat_file_read_with_handle k node e 512 b s = Inr (0, t) \<and> fs_at d base t bs' \<and> live bs' = live bs
    \<and> heap_space s \<le> heap_space t + 4224 \<and> (\<forall>x \<in> usable base bs. x \<notin> span b (unat n) \<longrightarrow> mem t x = mem s x)
    \<and> get_bytes (mem t) b 512 = cluster_data (disk_bpb d) d cl \<and> strtok_input t = strtok_input s"
proof -
  define w where "w = cluster_data (disk_bpb d) d cl"
  have inv: "heap_inv base s bs" and sv: "serves d s" using at by (simp_all add: fs_at_def)
  have len: "length w = 512" using sv geometry(2) by (simp add: w_def cluster_data_def)
  have wr: "w = written (unat (512 :: u32)) 0 (map (cluster_data (disk_bpb d) d) [cl])"
    using len by (simp add: w_def Let_def)
  have room': "2112 + 4 * (512 * unat (SectorsPerCluster (disk_bpb d)) + 16) \<le> heap_space s"
    using room geometry(2) by simp
  have area: "span b 512 \<subseteq> span b (unat n)" "span b (unat n) \<subseteq> usable base bs"
    using span_mono [OF b(2), of b] usable_area [OF b(1), of base] by simp_all
  have nodes': "drive_nodes k (usable base bs) node s" "span node 88 \<union> span (node_master s node) 88 \<subseteq> A"
    using nodes(1,2) by (auto simp: drive_nodes_def)
  have dst: "span b (length w) \<subseteq> usable base bs" "span b (length w) \<inter> (span node 88 \<union> span (node_master s node) 88) = {}"
    using area nodes(3) nodes'(2) by (auto simp: len)
  have geo: "BytesPerSector (disk_bpb d) = 512" "SectorsPerCluster (disk_bpb d) \<noteq> 0" and short: "length w < 4294967296"
    using geometry len by simp_all
  obtain t bs' where R: "fat_file_read_with_handle k node e 512 b s = Inr (0, t)" "heap_inv base t bs'" "live bs' = live bs"
    "serves d t" "heap_space s \<le> heap_space t + (2112 + 4 * (512 * unat (SectorsPerCluster (disk_bpb d)) + 16))"
    "\<forall>x \<in> usable base bs. mem t x = put_bytes b w (mem s) x"
    using fat_read_run [OF inv sv room' nodes'(1) geo cl(2) [unfolded cl(1)] _ short dst] wr cl(1) by blast
  have "mem t x = mem s x" if "x \<in> usable base bs" "x \<notin> span b (unat n)" for x
    using R(6) that area(1) len by (auto intro!: put_bytes_outside)
  moreover have "get_bytes (mem t) b 512 = get_bytes (put_bytes b w (mem s)) b 512"
    by (rule get_bytes_local) (use R(6) area in auto)
  then have "get_bytes (mem t) b 512 = w" using get_put_bytes [of w b "mem s"] len by simp
  moreover have "strtok_input t = strtok_input s"
    using file_io_read [of True s k node e 512 b] R(1) by (simp add: file_io_def)
  ultimately show ?thesis using R(1-5) geometry(2) by (auto simp: fs_at_def w_def)
qed

lemma drive_nodes_frame:
  assumes "drive_nodes k A node s" and "\<And>x. x \<in> A \<Longrightarrow> mem t x = mem s x"
  shows "drive_nodes k A node t"
proof -
  have A: "span node 88 \<subseteq> A" "span (node_master s node) 88 \<subseteq> A" using assms(1) by (simp_all add: drive_nodes_def)
  have "load32 (mem t) (a + i) = load32 (mem s) (a + i)" if "span a 88 \<subseteq> A" "unat i + 4 \<le> 88" for a i
    by (rule c32.ld_local) (use field_in_node [OF that(2), of a] that(1) assms(2) in blast)
  then show ?thesis using assms(1) A by (simp add: drive_nodes_def)
qed

lemma strtok_again: "strtok_input s = q \<Longrightarrow> strtok 0 ch s = strtok q ch s"
  by (cases s) (auto simp: strtok_def)

fun walk_cost :: "u8 list list \<Rightarrow> nat" where
  "walk_cost [] = 0"
| "walk_cost (x # xs) = 4 * (length (joined (x # xs)) + 17) + 4224 + walk_cost xs"

lemma entry_address:
  assumes "heap_inv base s bs" and "(b, n) \<in> live bs" and "512 \<le> unat n" and "i < 16"
  shows "b + of_nat (32 * i) \<noteq> 0"
proof -
  have "b \<noteq> 0" "unat b + 512 \<le> 2147483648" using live_off_heap [OF assms(1,2)] assms(3) by simp_all
  moreover have "unat (of_nat (32 * i) :: u32) = 32 * i" using assms(4) by (intro u32_of_nat_unat) simp
  ultimately have "unat (b + of_nat (32 * i)) = unat b + 32 * i" using assms(4) by (intro trans [OF u32_add_unat]) simp_all
  with \<open>b \<noteq> 0\<close> show ?thesis by (metis add_is_0 unat_0 unat_eq_zero)
qed

lemma walk_run:
  fixes s :: "'a vfs_scheme"
  assumes "walk d sec xs = Some e" and "\<forall>x \<in> set xs. component x" and "fs_at d base s bs"
    and "(b, n) \<in> live bs" "512 \<le> unat n" and "(p, l) \<in> live bs" "(p, l) \<noteq> (b, n)"
    and "live bs0 \<subseteq> live bs" "(b, n) \<notin> live bs0" "(p, l) \<notin> live bs0" "usable base bs0 \<inter> span b (unat n) = {}"
    and "drive_nodes k (usable base bs0) node s" and "get_bytes (mem s) b 512 = sec"
    and "string_in (usable base bs0) (mem s) q (joined xs)" "strtok_input s = q" "q \<noteq> 0" "unat q + length (joined xs) < 4294967296"
    and geometry: "BytesPerSector (disk_bpb d) = 512" and "walk_cost xs \<le> heap_space s"
  shows "\<exists>a t bs'. walk_loop k node b p en s = Some (Inr (a, t)) \<and> a \<noteq> 0 \<and> get_entry (mem t) a = e
    \<and> fs_at d base t bs' \<and> live bs' = live bs - {(p, l)} \<and> heap_space s \<le> heap_space t + walk_cost xs
    \<and> (\<forall>x \<in> usable base bs0. mem t x = mem s x)"
  using assms(1-17,19)
proof (induction xs arbitrary: sec s bs p l q en)
  case (Cons x xs)
  note at = Cons.prems(3) and bn = Cons.prems(4,5) and sub0 = Cons.prems(8)
  define L where "L = length (joined (x # xs))"
  have room: "4 * (L + 17) + 4224 + walk_cost xs \<le> heap_space s" using Cons.prems(18) by (simp add: L_def)
  have p0: "p \<noteq> 0" using live_off_heap [of base s bs p l] at Cons.prems(6) by (simp add: fs_at_def)
  obtain s1 bs1 where F: "free p s = Inr ((), s1)" "fs_at d base s1 bs1" "live bs1 = live bs - {(p, l)}"
    "fs_keeps base 0 s bs s1 bs1"
    using fs_free [OF at Cons.prems(6)] by blast
  have in1: "strtok_input s1 = q"
    using file_io_free [of True s p] F(1) Cons.prems(15) by (simp add: file_io_def)
  have bn1: "(b, n) \<in> live bs1" using bn(1) Cons.prems(7) F(3) by auto
  have sub1: "live bs0 \<subseteq> live bs1" using sub0 Cons.prems(10) F(3) by auto
  have U1: "usable base bs0 \<subseteq> usable base bs" "usable base bs0 \<subseteq> usable base bs1" "span b (unat n) \<subseteq> usable base bs" "span b (unat n) \<subseteq> usable base bs1"
    using usable_mono sub0 sub1 usable_area [OF bn(1)] usable_area [OF bn1] by blast+
  have same1: "mem s1 y = mem s y" if "y \<in> usable base bs0 \<or> y \<in> span b (unat n)" for y
    using F(4) U1 that by (auto simp: fs_keeps_def)
  have "string_in (usable base bs0) (mem s1) q (joined (x # xs))" by (rule string_in_frame [OF Cons.prems(14)]) (simp add: same1)
  then have str1: "string_in (usable base bs1) (mem s1) q (joined (x # xs))"
    using string_in_mono U1(2) by blast
  have cx: "component x" "x \<noteq> []" "length x \<le> 32" using Cons.prems(2) by (simp_all add: component_def)
  note first = joined_first [OF cx(1), of xs]
  have r1: "4 * (L + 17) \<le> heap_space s1" using room F(4) by (simp add: fs_keeps_def)
  obtain p' l' s2 bs2 where S: "strtok q 0x2F s1 = Inr (p', s2)" "fs_at d base s2 bs2" "p' \<noteq> 0"
    "live bs2 = insert (p', l') (live bs1)" "(p', l') \<notin> live bs1" "fs_keeps base (4 * (L + 17)) s1 bs1 s2 bs2"
    "cstring (mem s2) p' x" "strtok_input s2 = (if length x < L then q + of_nat (length x) + 1 else 0)"
    using strtok_run [OF F(2) _ str1 Cons.prems(16) first(1) cx(2)] r1 unfolding L_def by auto
  have tok: "strtok 0 0x2F s1 = Inr (p', s2)" using S(1) strtok_again [OF in1] by simp
  have bn2: "(b, n) \<in> live bs2" using bn1 S(4) by simp
  have sub2: "live bs0 \<subseteq> live bs2" using sub1 S(4) by auto
  have U2: "usable base bs0 \<subseteq> usable base bs2" "span b (unat n) \<subseteq> usable base bs2"
    using usable_mono sub2 usable_area [OF bn2] by blast+
  have same2: "mem s2 y = mem s y" if "y \<in> usable base bs0 \<or> y \<in> span b (unat n)" for y
  proof -
    have "y \<in> usable base bs1 \<inter> usable base bs2" using that U1(2,4) U2 by blast
    then show ?thesis using S(6) same1 [OF that] by (simp only: fs_keeps_def)
  qed
  have b512: "span b 512 \<subseteq> span b (unat n)" by (rule span_mono [OF bn(2)])
  have "get_bytes (mem s2) b 512 = get_bytes (mem s) b 512" by (rule get_bytes_local) (use same2 b512 in auto)
  then have sec2: "get_bytes (mem s2) b 512 = sec" using Cons.prems(13) by simp
  have inv2: "heap_inv base s2 bs2" using S(2) by (simp add: fs_at_def)
  have sp2: "heap_space s \<le> heap_space s2 + 4 * (L + 17)" using F(4) S(6) by (simp add: fs_keeps_def)
  obtain i where i: "sec_find sec x = Some i" using Cons.prems(1) by (cases "sec_find sec x") simp_all
  note i16 = sec_find_Some [OF i]
  define a where "a = b + of_nat (32 * i)"
  have a0: "a \<noteq> 0" unfolding a_def by (rule entry_address [OF inv2 bn2 bn(2) i16])
  have buf: "fat_get_filehandle_buffer p' b s2 = Inr (a, s2)"
    using filehandle_buffer_run [OF sec2 S(7) cx(3)] i by (simp add: a_def)
  have ent: "get_entry (mem s2) a = entry_of (slot sec i)"
    unfolding a_def by (rule entry_in_sector [OF sec2 i16])
  have lv: "live bs2 - {(p', l')} = live bs - {(p, l)}" using S(4,5) F(3) by auto
  have pb': "(p', l') \<in> live bs2" "(p', l') \<noteq> (b, n)" "(p', l') \<notin> live bs0"
    using S(4,5) bn1 sub1 by auto
  show ?case
  proof (rule walk_Cons [OF Cons.prems(1)], goal_cases)
    case (1 j)
    then have e: "e = entry_of (slot sec i)" "fe_attributes e \<noteq> 0x10" using i by simp_all
    obtain s3 bs3 where G: "free p' s2 = Inr ((), s3)" "fs_at d base s3 bs3" "live bs3 = live bs2 - {(p', l')}"
      "fs_keeps base 0 s2 bs2 s3 bs3"
      using fs_free [OF S(2) pb'(1)] by blast
    have bn3: "(b, n) \<in> live bs3" using bn2 pb'(2) G(3) by auto
    have "usable base bs0 \<subseteq> usable base bs3" "span b (unat n) \<subseteq> usable base bs3"
      using usable_mono [of bs0 bs3] sub2 pb'(3) G(3) usable_area [OF bn3] by blast+
    then have same3: "mem s3 y = mem s2 y" if "y \<in> usable base bs0 \<or> y \<in> span b (unat n)" for y
      using G(4) U2 that by (auto simp: fs_keeps_def)
    have "a + of_nat j \<in> span b (unat n)" if "j < 32" for j
      using span_add_of_nat [of j 32 a] entry_slot [OF i16, of b, folded a_def] b512 that by auto
    then have "get_entry (mem s3) a = get_entry (mem s2) a" by (intro get_entry_bytes same3) blast
    then have "get_entry (mem s3) a = e" using ent e by simp
    moreover have "walk_loop k node b p en s = Some (Inr (a, s3))"
      using p0 F(1) tok buf ent e a0 G(1) by (subst walk_loop.simps) simp
    moreover have "heap_space s \<le> heap_space s3 + walk_cost (x # xs)"
      using sp2 G(4) by (simp add: fs_keeps_def L_def)
    ultimately show ?case using a0 G(2,3) lv same2 same3
      by (intro exI [of _ a, OF exI [of _ s3, OF exI [of _ bs3]]]) simp
  next
    case (2 j cl)
    have dir: "fe_attributes (get_entry (mem s2) a) = 0x10" "cl = fe_starting_cluster (get_entry (mem s2) a)"
      using 2 i ent by simp_all
    have nodes2: "drive_nodes k (usable base bs0) node s2" by (rule drive_nodes_frame [OF Cons.prems(12)]) (simp add: same2)
    have r2: "4224 \<le> heap_space s2" using sp2 room by simp
    obtain s3 bs3 where R: "fat_file_read_with_handle k node (get_entry (mem s2) a) 512 b s2 = Inr (0, s3)" "fs_at d base s3 bs3"
      "live bs3 = live bs2" "heap_space s2 \<le> heap_space s3 + 4224"
      "\<forall>x \<in> usable base bs2. x \<notin> span b (unat n) \<longrightarrow> mem s3 x = mem s2 x"
      "get_bytes (mem s3) b 512 = cluster_data (disk_bpb d) d cl" "strtok_input s3 = strtok_input s2"
      using fs_read_directory [OF S(2) r2 bn2 bn(2) nodes2 U2(1)
          Cons.prems(11) geometry 2(4) dir(2) 2(5)] by blast
    have same3: "mem s3 y = mem s y" if "y \<in> usable base bs0" for y
    proof -
      have "y \<in> usable base bs2" "y \<notin> span b (unat n)" using that U2(1) Cons.prems(11) by blast+
      then show ?thesis using R(5) same2 that by simp
    qed
    have cs: "joined (x # xs) = x @ 0x2F # joined xs" by (rule joined_Cons [OF 2(6)])
    define q' where "q' = q + of_nat (length x) + 1"
    have near: "unat q' = unat q + length x + 1"
    proof -
      have "unat (q + of_nat (length x)) = unat q + length x"
        using Cons.prems(17) cs u32_of_nat_unat [of "length x"] by (subst u32_add_unat) simp_all
      then show ?thesis using Cons.prems(17) cs unfolding q'_def by (subst u32_add_unat) simp_all
    qed
    have "string_in (usable base bs0) (mem s3) (q + of_nat (Suc (length x))) (drop (Suc (length x)) (joined (x # xs)))"
      by (rule string_in_drop [OF string_in_frame [OF Cons.prems(14) same3]]) (simp_all add: cs)
    then have rest: "string_in (usable base bs0) (mem s3) q' (joined xs)" by (simp add: cs q'_def add_ac)
    have tok3: "strtok_input s3 = q'" using R(7) S(8) cs by (simp add: L_def q'_def)
    have q': "q' \<noteq> 0" "unat q' + length (joined xs) < 4294967296" using near Cons.prems(17) cs by auto
    have r3: "walk_cost xs \<le> heap_space s3" using room sp2 R(4) by simp
    have nodes3: "drive_nodes k (usable base bs0) node s3" by (rule drive_nodes_frame [OF Cons.prems(12) same3])
    have in3: "\<forall>x \<in> set xs. component x" "(b, n) \<in> live bs3" "(p', l') \<in> live bs3" "live bs0 \<subseteq> live bs3"
      using Cons.prems(2) bn2 pb'(1) sub2 R(3) by auto
    obtain c t bs' where IH: "walk_loop k node b p' a s3 = Some (Inr (c, t))" "c \<noteq> 0" "get_entry (mem t) c = e"
      "fs_at d base t bs'" "live bs' = live bs3 - {(p', l')}" "heap_space s3 \<le> heap_space t + walk_cost xs"
      "\<forall>y \<in> usable base bs0. mem t y = mem s3 y"
      using Cons.IH [OF 2(7) in3(1) R(2) in3(2) bn(2) in3(3) pb'(2) in3(4) Cons.prems(9) pb'(3) Cons.prems(11) nodes3 R(6)
          rest tok3 q' r3, of a] by blast
    have "walk_loop k node b p en s = walk_loop k node b p' a s3"
      using p0 F(1) tok buf dir(1) a0 R(1) by (subst walk_loop.simps) simp
    then show ?case
      using IH R(3,4) lv sp2 same3
      by (intro exI [of _ c, OF exI [of _ t, OF exI [of _ bs']]]) (simp add: L_def)
  qed
qed simp

section \<open>The lookup of a path\<close>

definition path_cost :: "u8 list list \<Rightarrow> nat" where
  "path_cost xs = 4 * (length (joined xs) + 17) + 10752 + walk_cost xs"

lemma fs_free_two:
  fixes s :: "'a vfs_scheme"
  assumes at: "fs_at d base s bs" and bs: "live bs = insert (q, h) (insert (b, n) L)"
    and new: "(b, n) \<notin> L" "(q, h) \<notin> insert (b, n) L"
  shows "\<exists>t1 t bs'. free b s = Inr ((), t1) \<and> free q t1 = Inr ((), t) \<and> fs_at d base t bs' \<and> live bs' = L
    \<and> heap_space s \<le> heap_space t \<and> (\<forall>x \<in> usable base bs'. mem t x = mem s x)"
proof -
  have "(b, n) \<in> live bs" using bs by simp
  then obtain t1 bs1 where F1: "free b s = Inr ((), t1)" "fs_at d base t1 bs1" "live bs1 = live bs - {(b, n)}"
    "fs_keeps base 0 s bs t1 bs1"
    using fs_free [OF at] by blast
  have "(q, h) \<in> live bs1" using bs new F1(3) by auto
  then obtain t bs' where F2: "free q t1 = Inr ((), t)" "fs_at d base t bs'" "live bs' = live bs1 - {(q, h)}"
    "fs_keeps base 0 t1 bs1 t bs'"
    using fs_free [OF F1(2)] by blast
  have L: "live bs' = L" using bs new F1(3) F2(3) by auto
  have sub: "usable base bs' \<subseteq> usable base bs1" "usable base bs' \<subseteq> usable base bs"
    using bs F1(3) F2(3) by (auto intro!: usable_mono)
  have "mem t x = mem s x" if "x \<in> usable base bs'" for x
  proof -
    have "x \<in> usable base bs \<inter> usable base bs1" "x \<in> usable base bs1 \<inter> usable base bs'" using that sub by blast+
    then have "mem t1 x = mem s x" "mem t x = mem t1 x" using F1(4) F2(4) by (simp_all only: fs_keeps_def)
    then show ?thesis by simp
  qed
  moreover have "heap_space s \<le> heap_space t" using F1(4) F2(4) by (simp add: fs_keeps_def)
  ultimately show ?thesis using F1(1) F2(1,2) L by blast
qed

lemma fat_handle_path:
  fixes s :: "'a vfs_scheme"
  assumes at: "fs_at d base s bs" and room: "path_cost xs \<le> heap_space s"
    and nodes: "drive_nodes k (usable base bs) node s" "node \<noteq> 0"
    and name: "string_in (usable base bs) (mem s) node (joined xs)" "unat node + length (joined xs) < 4294967296"
    and path: "walk d (root_dir d) xs = Some e" "\<forall>x \<in> set xs. component x"
    and geometry: "BytesPerSector (disk_bpb d) = 512"
  shows "\<exists>t bs'. fat_get_filehandle k node s = Inr ((0, Some e), t) \<and> fs_at d base t bs' \<and> live bs' = live bs
    \<and> kept base (path_cost xs) s bs t bs'"
proof -
  obtain x ys where xs: "xs = x # ys" using path(1) by (cases xs) simp_all
  have cx: "component x" "length x \<le> 32" "x \<noteq> []" using path(2) by (simp_all add: xs component_def)
  obtain i where i: "root_find d x = Some i" using path(1) by (cases "root_find d x") (simp_all add: xs)
  define e1 where "e1 = entry_of (dir_entry d i)"
  have r: "4 * (length (joined xs) + 17) + 6528 \<le> heap_space s" and low: "root_find d x = None \<longrightarrow> span 0 32 \<subseteq> usable base bs"
    using room i by (simp_all add: path_cost_def)
  obtain p l s1 b n s2 q h s3 bs3 where D: "strtok node 0x2F s = Inr (p, s1)" "malloc 512 s1 = Inr (b, s2)"
    "fat_get_filehandle_rootdir k (node_master s2 node) p s2 = Inr (q, s3)" "fs_at d base s3 bs3" "q \<noteq> 0"
    "live bs3 = insert (q, h) (insert (b, n) (insert (p, l) (live bs)))"
    "(p, l) \<notin> live bs" "(b, n) \<notin> insert (p, l) (live bs)" "(q, h) \<notin> insert (b, n) (insert (p, l) (live bs))"
    "32 \<le> unat h" "512 \<le> unat n" "span b (unat n) \<inter> usable base bs = {}"
    "kept base (4 * (length (joined xs) + 17) + 6528) s bs s3 bs3" "get_entry (mem s3) q = looked_up d (mem s) x"
    "strtok_input s3 = (if length x < length (joined xs) then node + of_nat (length x) + 1 else 0)"
    using fat_handle_start [OF at r nodes name(1) joined_first(1) [OF cx(1), of ys, folded xs] cx(2,3) low]
    by (elim exE conjE) (rule that)
  have q: "get_entry (mem s3) q = e1" using D(14) i by (simp add: looked_up_def e1_def)
  show ?thesis
  proof (rule walk_Cons [OF path(1) [unfolded xs]], goal_cases)
    case (1 j)
    then have e: "e = e1" "fe_attributes e1 \<noteq> 0x10" using i by (simp_all add: e1_def)
    obtain t1 t2 t bs' where F: "free p s3 = Inr ((), t1)" "free b t1 = Inr ((), t2)" "free q t2 = Inr ((), t)"
      "\<forall>x \<in> span q (unat h). mem t1 x = mem s3 x" "fs_at d base t bs'" "live bs' = live bs" "fs_keeps base 0 s3 bs3 t bs'"
      using fs_release [OF D(4,6-9)] by blast
    have k: "kept base (4 * (length (joined xs) + 17) + 6528 + 0) s bs t bs'"
      by (rule kept_step [OF D(13) F(7)]) (simp add: F(6))
    have "get_entry (mem t1) q = get_entry (mem s3) q"
      by (rule get_entry_bytes) (use F(4) D(10) in \<open>auto intro!: span_add_of_nat\<close>)
    then have "fat_get_filehandle k node s = Inr ((0, Some e), t)"
      using D(1-3,5) q F(1-3) e by (simp add: fat_get_filehandle_def)
    moreover have "kept base (path_cost xs) s bs t bs'" using k by (simp add: kept_def path_cost_def)
    ultimately show ?case using F(5,6) by blast
  next
    case (2 j cl)
    have dir: "fe_attributes e1 = 0x10" "cl = fe_starting_cluster e1" using 2 i by (simp_all add: e1_def)
    have cs: "joined xs = x @ 0x2F # joined ys" unfolding xs by (rule joined_Cons [OF 2(6)])
    have sub3: "live bs \<subseteq> live bs3" using D(6) by auto
    have U3: "usable base bs \<subseteq> usable base bs3" "usable base bs \<inter> span b (unat n) = {}"
      using usable_mono [OF sub3] D(12) by auto
    have same3: "mem s3 y = mem s y" if "y \<in> usable base bs" for y using D(13) that by (simp add: kept_def)
    have nodes3: "drive_nodes k (usable base bs) node s3" by (rule drive_nodes_frame [OF nodes(1) same3])
    have areas3: "(b, n) \<in> live bs3" "(p, l) \<in> live bs3" "(p, l) \<noteq> (b, n)" "(b, n) \<notin> live bs"
      using D(6,8) by auto
    have r3: "4224 \<le> heap_space s3" using room D(13) by (simp add: kept_def path_cost_def)
    obtain s4 bs4 where R: "fat_file_read_with_handle k node e1 512 b s3 = Inr (0, s4)" "fs_at d base s4 bs4" "live bs4 = live bs3"
      "heap_space s3 \<le> heap_space s4 + 4224" "\<forall>x \<in> usable base bs3. x \<notin> span b (unat n) \<longrightarrow> mem s4 x = mem s3 x"
      "get_bytes (mem s4) b 512 = cluster_data (disk_bpb d) d cl" "strtok_input s4 = strtok_input s3"
      using fs_read_directory [OF D(4) r3 areas3(1) D(11) nodes3 U3 geometry 2(4) dir(2) 2(5)] by blast
    have same4: "mem s4 y = mem s y" if "y \<in> usable base bs" for y
    proof -
      have "y \<in> usable base bs3" "y \<notin> span b (unat n)" using that U3 by blast+
      then show ?thesis using R(5) same3 [OF that] by simp
    qed
    define q' where "q' = node + of_nat (length x) + 1"
    have near: "unat q' = unat node + length x + 1"
    proof -
      have "unat (node + of_nat (length x)) = unat node + length x"
        using name(2) cs u32_of_nat_unat [of "length x"] by (subst u32_add_unat) simp_all
      then show ?thesis using name(2) cs unfolding q'_def by (subst u32_add_unat) simp_all
    qed
    have "string_in (usable base bs) (mem s4) (node + of_nat (Suc (length x))) (drop (Suc (length x)) (joined xs))"
      by (rule string_in_drop [OF string_in_frame [OF name(1) same4]]) (simp_all add: cs)
    then have rest: "string_in (usable base bs) (mem s4) q' (joined ys)" by (simp add: cs q'_def add_ac)
    have tok: "strtok_input s4 = q'" using R(7) D(15) cs by (simp add: q'_def)
    have q': "q' \<noteq> 0" "unat q' + length (joined ys) < 4294967296" using near name(2) cs by auto
    have r4: "walk_cost ys \<le> heap_space s4" using room D(13) R(4) by (simp add: kept_def path_cost_def xs)
    have comps: "\<forall>x \<in> set ys. component x" using path(2) xs by simp
    have nodes4: "drive_nodes k (usable base bs) node s4" by (rule drive_nodes_frame [OF nodes(1) same4])
    have lv4: "(b, n) \<in> live bs4" "(p, l) \<in> live bs4" "live bs \<subseteq> live bs4" using areas3 sub3 R(3) by simp_all
    obtain a s5 bs5 where W: "walk_loop k node b p q s4 = Some (Inr (a, s5))" "a \<noteq> 0" "get_entry (mem s5) a = e"
      "fs_at d base s5 bs5" "live bs5 = live bs4 - {(p, l)}" "heap_space s4 \<le> heap_space s5 + walk_cost ys"
      "\<forall>y \<in> usable base bs. mem s5 y = mem s4 y"
      using walk_run [OF 2(7) comps R(2) lv4(1) D(11) lv4(2) areas3(3) lv4(3) areas3(4) D(7) U3(2) nodes4 R(6) rest tok q'
          geometry r4] by blast
    have lv5: "live bs5 = insert (q, h) (insert (b, n) (live bs))" "(q, h) \<notin> insert (b, n) (live bs)"
      using W(5) R(3) D(6-9) by auto
    obtain t1 t bs' where F: "free b s5 = Inr ((), t1)" "free q t1 = Inr ((), t)" "fs_at d base t bs'" "live bs' = live bs"
      "heap_space s5 \<le> heap_space t" "\<forall>y \<in> usable base bs'. mem t y = mem s5 y"
      using fs_free_two [OF W(4) lv5(1) areas3(4) lv5(2)] by blast
    have "fat_get_filehandle k node s = Inr ((0, Some e), t)"
      using D(1-3,5) q dir(1) R(1) W(1-3) F(1,2) by (simp add: fat_get_filehandle_def of_run_loop_def)
    moreover have "heap_space s \<le> heap_space t + path_cost xs"
      using D(13) R(4) W(6) F(5) by (simp add: kept_def path_cost_def xs)
    moreover have "usable base bs' = usable base bs" by (simp add: usable_def F(4))
    ultimately show ?case using F(3,4,6) W(7) same4 by (auto simp: kept_def)
  qed
qed

lemma finds_path:
  fixes s :: "'a vfs_scheme"
  assumes "walk d (root_dir d) xs = Some e" and "\<forall>x \<in> set xs. component x" and "BytesPerSector (disk_bpb d) = 512"
  shows "finds d base k {} (path_cost xs) (joined xs) e s"
  unfolding finds_def using fat_handle_path [OF _ _ _ _ _ _ assms] by blast

lemma finds_mono: "finds d base k A c cs e s \<Longrightarrow> A \<subseteq> B \<Longrightarrow> finds d base k B c cs e s" for s :: "'a vfs_scheme"
  unfolding finds_def by blast

end
