(* ===== verification/Boot_Open.thy ===== *)
theory Boot_Open
  imports Node_Types File_Spec Path_Spec
begin

text \<open>
  Files after the boot: in the state the boot sequence leaves, a path in /DEV/ opens the device of that name, and
  a path in the root opens a file of the disk, whose bytes can be read and which can be closed again.
\<close>

section \<open>What of the booted kernel a file operation uses\<close>

definition boot_areas :: "u32 \<Rightarrow> u32 set" where
  "boot_areas H = usable (boot_base H) (walled_blocks H)"

lemma boot_areas:
  "span (H + 16) 8 \<subseteq> boot_areas H" "span (H + 24) 8 \<subseteq> boot_areas H" "span (H + 40) 88 \<subseteq> boot_areas H"
  "span (H + 144) 88 \<subseteq> boot_areas H" "span (H + 0x2050) 5632 \<subseteq> boot_areas H" "{x. unat x < unat H} \<subseteq> boot_areas H"
  by (auto simp: boot_areas_def usable_def off_heap_def boot_base_def walled_blocks_live)

text \<open>Without the screen: what also stays when something is printed.\<close>

definition boot_kept :: "u32 \<Rightarrow> u32 set" where
  "boot_kept H = boot_areas H - vga_span"

lemma boot_kept_areas: "boot_kept H \<subseteq> boot_areas H"
  by (auto simp: boot_kept_def)

lemma boot_kept:
  assumes "heap_start (unat H) H"
  shows "span (H + 16) 8 \<subseteq> boot_kept H" "span (H + 24) 8 \<subseteq> boot_kept H" "span (H + 40) 88 \<subseteq> boot_kept H"
    "span (H + 144) 88 \<subseteq> boot_kept H" "span (H + 0x2050) 5632 \<subseteq> boot_kept H" "image (unat H) \<subseteq> boot_kept H"
proof -
  have low: "0x100000 \<le> unat H" using assms by (simp add: heap_start_def)
  note above = in_heap_span [OF assms]
  have up: "span (H + i) n \<inter> vga_span = {}" if "unat i + n \<le> 0x10000" for i n
    using above [OF that] low by (auto simp: vga_span_unat)
  show "span (H + 16) 8 \<subseteq> boot_kept H" "span (H + 24) 8 \<subseteq> boot_kept H" "span (H + 40) 88 \<subseteq> boot_kept H"
    "span (H + 144) 88 \<subseteq> boot_kept H" "span (H + 0x2050) 5632 \<subseteq> boot_kept H"
    using boot_areas(1-5) [of H] up [of 16 8] up [of 24 8] up [of 40 88] up [of 144 88] up [of "0x2050" 5632]
    by (simp_all add: boot_kept_def) blast+
  show "image (unat H) \<subseteq> boot_kept H"
    using boot_areas(6) [of H] by (auto simp: boot_kept_def image_def vga_span_unat)
qed

definition boot_mount_paths :: "u8 list list" where
  "boot_mount_paths = [lit ''/'', lit ''/DEV/'']"

text \<open>The name of the console ends where the stack happened to hold a NUL.\<close>

definition device_names :: "env \<Rightarrow> u8 list list" where
  "device_names k = [lit ''ata'', lit ''video'' @ takeWhile (\<lambda>c. c \<noteq> 0) (drop 5 (stack_junk k)), lit ''devman'', lit ''kb'']"

lemma device_names_boot: "map (\<lambda>d. takeWhile (\<lambda>c. c \<noteq> 0) (vn_name d)) (boot_list k H) = device_names k"
proof -
  have five: "drop (length (lit ''video'')) xs = drop 5 xs" for xs :: "u8 list" by (rule arg_cong2 [where f = drop]) (simp_all add: lit_def)
  show ?thesis unfolding boot_list_def device_names_def drive_node_def video_node_def devman_node_def kb_node_def
      named_node_def copy_name_def vfs_node_new_def
    by (simp add: five) (simp add: lit_def)
qed

lemma boot_list_strings:
  assumes "junk_ok k" and "i < length (boot_list k H)"
  shows "0 \<in> set (vn_name (boot_list k H ! i))" and "vn_open (boot_list k H ! i) = 0"
  using assms(2) boot_names [OF assms(1)]
  by (auto simp: boot_list_def less_Suc_eq numeral_2_eq_2 numeral_3_eq_3 drive_node_def video_node_def devman_node_def
      kb_node_def named_node_def copy_name_def vfs_node_new_def)

text \<open>A kernel started as \<open>loaded\<close> and \<open>linked\<close> that has booted, with its heap from \<open>H\<close> on.\<close>

definition boot_done :: "env \<Rightarrow> 'a kernel_scheme \<Rightarrow> 'a kernel_scheme \<Rightarrow> u32 \<Rightarrow> bool" where
  "boot_done k s t H \<longleftrightarrow> booted k s t \<and> loaded s \<and> linked k (unat (curr_addr s)) (mem s) \<and> stack_ok k \<and> H = curr_addr s"

lemma boot_facts:
  assumes "boot_done k s t H"
  shows "heap_inv (boot_base H) t (walled_blocks H)" "heap_start (unat H) H" "mount_points t = H + 16" "mount_count t = 2"
    "boot_mounts k H (mem t)" "devices_are t (boot_list k H)" "m_devices t = H + 0x2050" "2000000000 \<le> heap_space t"
    "junk_ok k" "devices_at i t = H + 0x2050 + 88 * i"
  using assms
  by (auto simp: boot_done_def booted_def loaded_def stack_ok_def heap_start_def heap_space_def devices_at_def sizeof_vfs_def)

lemma boot_string:
  assumes b: "boot_done k s t H" and str: "string_in (image (unat H)) (mem s) p cs"
  shows "string_in (boot_kept H) (mem t) p cs" and "string_in (boot_areas H) (mem t) p cs"
proof -
  have "string_in (image (unat H)) (mem t) p cs"
    by (rule string_in_frame [OF str]) (use b in \<open>simp add: boot_done_def booted_def\<close>)
  then show "string_in (boot_kept H) (mem t) p cs" by (rule string_in_mono) (rule boot_kept(6) [OF boot_facts(2) [OF b]])
  then show "string_in (boot_areas H) (mem t) p cs" using string_in_mono boot_kept_areas by blast
qed

lemma boot_mount_table:
  assumes b: "boot_done k s t H"
  shows "mounts_in (boot_kept H) t boot_mount_paths" "string_in (boot_kept H) (mem t) (str_slash k) [0x2F]"
    "mount_device_at (of_nat 0) t = H + 0x2050" "mount_device_at (of_nat 1) t = H + 0x2050 + 88 * 2"
proof -
  note f = boot_facts [OF b]
  have str: "string_in (boot_kept H) (mem t) (str_slash k) (lit ''/'')"
    "string_in (boot_kept H) (mem t) (str_dev k) (lit ''/DEV/'')"
    using b boot_string(1) [OF b] by (simp_all add: boot_done_def linked_def)
  show "string_in (boot_kept H) (mem t) (str_slash k) [0x2F]" using str(1) by (simp add: lit_def)
  show "mount_device_at (of_nat 0) t = H + 0x2050" "mount_device_at (of_nat 1) t = H + 0x2050 + 88 * 2"
    using f(3,5) by (simp_all add: mount_device_at_def boot_mounts_def add.assoc)
  have p: "mount_path_at (of_nat 0) t = str_slash k" "mount_path_at (of_nat 1) t = str_dev k"
    using f(3,5) by (simp_all add: mount_path_at_def boot_mounts_def add.assoc)
  have two: "(\<forall>i < length boot_mount_paths. P i) \<longleftrightarrow> P 0 \<and> P 1" for P :: "nat \<Rightarrow> bool"
    by (auto simp: boot_mount_paths_def less_Suc_eq)
  show "mounts_in (boot_kept H) t boot_mount_paths"
    unfolding mounts_in_def two p using str f(3,4) boot_kept(1,2) [OF f(2)]
    by (simp add: boot_mount_paths_def add.assoc)
qed

lemma boot_slot:
  assumes b: "boot_done k s t H" and i: "i < 4"
  shows "span (devices_at (of_nat i) t) 88 \<subseteq> boot_kept H" and "get_vfs (mem t) (devices_at (of_nat i) t) = boot_list k H ! i"
proof -
  note f = boot_facts [OF b]
  have n: "unat (of_nat i :: u32) < 64" using i by (simp only: unat_of_nat) simp
  have "table_ok t" using f(6) by (simp add: devices_are_def)
  from slot_in_table [OF this n] show "span (devices_at (of_nat i) t) 88 \<subseteq> boot_kept H"
    using f(7) boot_kept(5) [OF f(2)] by auto
  show "get_vfs (mem t) (devices_at (of_nat i) t) = boot_list k H ! i"
    using f(6) i by (simp add: devices_are_def boot_list_def)
qed

lemma boot_device_table:
  assumes b: "boot_done k s t H"
  shows "devices_in (boot_areas H) t (device_names k)"
    and "i < length (device_names k) \<Longrightarrow> node_open t (devices_at (of_nat i) t) = 0"
proof -
  note f = boot_facts [OF b]
  have len: "length (device_names k) = 4" "length (boot_list k H) = 4" by (simp_all add: device_names_def boot_list_def)
  show "node_open t (devices_at (of_nat i) t) = 0" if "i < length (device_names k)"
    using arg_cong [OF boot_slot(2) [OF b, of i], of vn_open] boot_list_strings(2) [OF f(9), of i] that len
    by (simp add: get_vfs_def)
  have "cstring (mem t) (devices_at (of_nat i) t) (device_names k ! i) \<and> length (device_names k ! i) < 55" if i: "i < 4" for i
  proof -
    have "get_bytes (mem t) (devices_at (of_nat i) t) 55 = vn_name (boot_list k H ! i)"
      using arg_cong [OF boot_slot(2) [OF b i], of vn_name] by (simp add: get_vfs_def)
    note str = bytes_string [OF this boot_list_strings(1) [OF f(9)]]
    have "device_names k ! i = takeWhile (\<lambda>c. c \<noteq> 0) (vn_name (boot_list k H ! i))"
      using i len by (subst device_names_boot [symmetric, where H = H]) simp
    then show ?thesis using str i len by simp
  qed
  moreover have "unat (devices_number t) = 4"
    using f(6) by (simp add: devices_are_def devices_number_def boot_list_def)
  ultimately show "devices_in (boot_areas H) t (device_names k)"
    using boot_slot(1) [OF b] boot_kept_areas [of H] len by (fastforce simp: devices_in_def)
qed

section \<open>The mount of a path\<close>

lemma boot_lookup:
  "cs \<noteq> [] \<Longrightarrow> \<not> prefix (lit ''DEV/'') cs \<Longrightarrow> lookup_mount boot_mount_paths (ancestors (0x2F # cs)) = 0"
  "nm \<noteq> [] \<Longrightarrow> lookup_mount boot_mount_paths (ancestors (lit ''/DEV/'' @ nm)) = 1"
proof -
  have less: "lookup_mount boot_mount_paths zss < 2" for zss
    using lookup_mount_less [of boot_mount_paths zss] by (simp add: boot_mount_paths_def)
  have anc: "p \<in> set (ancestors (p @ q))" if "p \<noteq> []" "last p = 0x2F" "q \<noteq> []" for p q
  proof -
    have "prefix p (butlast (p @ q))" using that(3) by (simp add: butlast_append)
    then show ?thesis using that by (simp add: ancestors_def in_set_prefixes)
  qed
  show "lookup_mount boot_mount_paths (ancestors (0x2F # cs)) = 0" if cs: "cs \<noteq> []" "\<not> prefix (lit ''DEV/'') cs"
  proof -
    let ?j = "lookup_mount boot_mount_paths (ancestors (0x2F # cs))"
    have "[0x2F] \<in> set (ancestors (0x2F # cs))" using anc [of "[0x2F]" cs] cs(1) by simp
    moreover have "[0x2F] \<in> set boot_mount_paths" by (simp add: boot_mount_paths_def lit_def)
    ultimately have "boot_mount_paths ! ?j \<in> set (ancestors (0x2F # cs))"
      using lookup_mount_first [OF ancestors_sorted] by blast
    then have pre: "prefix (boot_mount_paths ! ?j) (0x2F # cs)" by (rule ancestors_prefix)
    have "?j \<noteq> 1"
    proof
      assume "?j = 1"
      then have "prefix (lit ''/DEV/'') (0x2F # cs)" using pre by (simp add: boot_mount_paths_def)
      then have "prefix (lit ''DEV/'') cs" by (simp add: lit_def)
      then show False using cs(2) by simp
    qed
    then show ?thesis using less [of "ancestors (0x2F # cs)"] by linarith
  qed
  show "lookup_mount boot_mount_paths (ancestors (lit ''/DEV/'' @ nm)) = 1" if nm: "nm \<noteq> []"
  proof -
    let ?j = "lookup_mount boot_mount_paths (ancestors (lit ''/DEV/'' @ nm))"
    have "lit ''/DEV/'' \<in> set (ancestors (lit ''/DEV/'' @ nm))" by (rule anc) (use nm in \<open>simp_all add: lit_def\<close>)
    moreover have "lit ''/DEV/'' \<in> set boot_mount_paths" by (simp add: boot_mount_paths_def)
    ultimately have "length (lit ''/DEV/'') \<le> length (boot_mount_paths ! ?j)"
      using lookup_mount_first [OF ancestors_sorted] by blast
    moreover have "length (boot_mount_paths ! 0) < length (lit ''/DEV/'')" by (simp add: boot_mount_paths_def lit_def)
    ultimately have "?j \<noteq> 0" by (metis not_less)
    then show ?thesis using less [of "ancestors (lit ''/DEV/'' @ nm)"] by linarith
  qed
qed

lemma no_device: "0x2F \<notin> set cs \<Longrightarrow> \<not> prefix (lit ''DEV/'') cs"
  by (auto simp: prefix_def lit_def)

text \<open>The first mount is that of the disk.\<close>

lemma boot_fat:
  assumes b: "boot_done k s t H" and link: "linked_apart k"
  shows "fat_mounted k (boot_kept H) t (mount_device_at (of_nat 0) t) (H + 0x2050)"
proof -
  note f = boot_facts [OF b]
  have at: "devices_at (of_nat 0) t = H + 0x2050" using f(10) [of 0] by simp
  have v: "get_vfs (mem t) (H + 0x2050) = (drive_node k)\<lparr>vn_master := H + 40\<rparr>" and sp: "span (H + 0x2050) 88 \<subseteq> boot_kept H"
    using boot_slot [OF b, of 0] unfolding at by (simp_all add: boot_list_def)
  have n: "node_master t (H + 0x2050) = H + 40" "node_read t (H + 0x2050) = fn_ata_read k"
    using arg_cong [OF v, of vn_master] arg_cong [OF v, of vn_read] by (simp_all add: get_vfs_def drive_node_def)
  have fs: "fs_node (mem t) (H + 40) (lit ''FAT16'') (fn_fat_read_dir k) (fn_fat_find_dir k) (H + 0x2050)"
    using f(5) by (simp add: boot_mounts_def)
  have "fn_fat_read_dir k \<noteq> 0" "fn_ata_read k \<noteq> 0" using link by (auto simp: linked_apart_def callbacks_def)
  moreover have "span (H + 0x2050 + 84) 4 \<subseteq> boot_kept H" using field_in_node [of 84 "H + 0x2050"] sp by auto
  ultimately show ?thesis
    unfolding fat_mounted_def boot_mount_table(3) [OF b] n(1) using fs n sp boot_kept(3) [OF f(2)] by (simp add: fs_node_def)
qed

text \<open>What the mount of the disk needs of the kernel, at any time after the boot.\<close>

definition files_ready :: "env \<Rightarrow> u32 \<Rightarrow> u32 set \<Rightarrow> 'a vfs_scheme \<Rightarrow> bool" where
  "files_ready k drv A s \<longleftrightarrow> mounts_in A s boot_mount_paths \<and> string_in A (mem s) (str_slash k) [0x2F]
     \<and> fat_mounted k A s (mount_device_at (of_nat 0) s) drv"

lemma boot_ready:
  assumes b: "boot_done k s t H" and link: "linked_apart k"
  shows "files_ready k (H + 0x2050) (boot_kept H) t"
  using boot_mount_table [OF b] boot_fat [OF b link] by (simp add: files_ready_def)

lemma files_ready_frame:
  assumes r: "files_ready k drv A s" and sub: "A \<subseteq> B" and same: "\<And>x. x \<in> A \<Longrightarrow> mem t x = mem s x"
    and globals: "mount_points t = mount_points s" "mount_count t = mount_count s"
  shows "files_ready k drv B t"
proof -
  let ?dev = "mount_device_at (of_nat 0) s"
  have tab: "mounts_in A s boot_mount_paths" and slash: "string_in A (mem s) (str_slash k) [0x2F]"
    and fat: "fat_mounted k A s ?dev drv"
    using r by (simp_all add: files_ready_def)
  have dev: "mount_device_at (of_nat 0) t = ?dev"
    by (rule mount_entry_frame(2) [OF tab same globals(1)]) (simp_all add: boot_mount_paths_def)
  have word: "load32 (mem t) a = load32 (mem s) a" if "span a 4 \<subseteq> A" for a
    by (rule c32.ld_local) (use same that in blast)
  have sp: "span (?dev + 84) 4 \<subseteq> A" "span (node_master s ?dev) 88 \<subseteq> A" "span drv 88 \<subseteq> A"
    using fat by (simp_all add: fat_mounted_def)
  have master: "node_master t ?dev = node_master s ?dev" using word [OF sp(1)] by simp
  have field: "load32 (mem t) (a + i) = load32 (mem s) (a + i)" if "span a 88 \<subseteq> A" "unat i + 4 \<le> 88" for a i
    using word field_in_node [OF that(2), of a] that(1) by blast
  have "fat_mounted k B t ?dev drv"
    using fat field [OF sp(2)] field [OF sp(3)] sp sub unfolding fat_mounted_def master by auto
  then show ?thesis
    using string_in_mono [OF string_in_frame [OF slash same] sub] mounts_in_mono [OF mounts_in_frame [OF tab same globals] sub] dev
    by (simp add: files_ready_def)
qed

lemma boot_ready_areas:
  assumes b: "boot_done k s t H" and link: "linked_apart k"
  shows "files_ready k (H + 0x2050) (boot_areas H) t"
  by (rule files_ready_frame [OF boot_ready [OF b link] boot_kept_areas]) simp_all

lemma files_lookup:
  assumes "cs \<noteq> []" and "\<not> prefix (lit ''DEV/'') cs"
  shows "0 = lookup_mount boot_mount_paths (ancestors (0x2F # cs))" and "cs = drop (length (boot_mount_paths ! 0)) (0x2F # cs)"
  using boot_lookup(1) [OF assms] by (simp_all add: boot_mount_paths_def lit_def)

text \<open>A file whose name, without the leading separator, the lookup finds.\<close>

lemma ready_read:
  fixes s :: "'a vfs_scheme"
  assumes at: "fs_at d base s bs" and ready: "files_ready k drv (usable base bs) s"
    and room: "4 * (length cs + 18) + 2592 + 2 * c + 2048 * unat (SectorsPerCluster (disk_bpb d)) \<le> heap_space s"
    and path: "string_in (usable base bs) (mem s) path (0x2F # cs)" "\<not> prefix (lit ''DEV/'') cs"
    and name: "opens d base k (usable base bs) c cs e s"
    and env: "length (stack_junk k) = 55" "fn_fat_file_read k \<noteq> 0"
    and geometry: "BytesPerSector (disk_bpb d) = 512" "SectorsPerCluster (disk_bpb d) \<noteq> 0"
    and cls: "chain (disk_bpb d) d (fe_starting_cluster e) cls"
    and w: "w = written (unat sz) 0 (map (cluster_data (disk_bpb d) d) cls)" "length w < 4294967296"
    and dst: "span ptr (length w) \<subseteq> usable base bs" "span ptr (length w) \<inter> span drv 88 = {}"
  shows "\<exists>p t u v bs'. fopen k path s = Inr (p, t) \<and> p \<noteq> 0 \<and> file_at k drv cs (mem t) p
    \<and> vread (call_read k) p off sz ptr t = Inr (0, u) \<and> fclose p u = Inr (- 1, v)
    \<and> heap_inv base v bs' \<and> live bs' = live bs \<and> (\<forall>x \<in> usable base bs. mem v x = put_bytes ptr w (mem s) x)"
proof -
  have cs: "cs \<noteq> []" using name by (simp add: opens_def)
  have "4 * (length (0x2F # cs) + 17) + 2592 + 2 * c + 2048 * unat (SectorsPerCluster (disk_bpb d)) \<le> heap_space s"
    using room by simp
  note run = fopen_read_run [OF at this path(1)]
  have abs: "0x2F # cs \<noteq> []" "hd (0x2F # cs) = 0x2F" "boot_mount_paths \<noteq> []" by (simp_all add: boot_mount_paths_def)
  show ?thesis
    using ready run [OF abs(1,2) _ abs(3) _ files_lookup [OF cs path(2)] _ name env geometry cls w dst]
    by (simp add: files_ready_def)
qed

section \<open>Opening a device, reading a file\<close>

text \<open>
  C12. Devices after the boot. In the booted kernel \<open>fopen\<close> of a path /DEV/name gives a fresh node, a copy of the
  node of the first of the four devices of that name, or NULL when there is none; what the kernel relies on stays
  as it was.
\<close>

theorem booted_fopen_device:
  fixes s t :: "'a kernel_scheme"
  assumes b: "boot_done k s t H" and link: "linked_apart k" and nm: "nm \<noteq> []" "length nm \<le> 1000000"
    and path: "string_in (boot_areas H) (mem t) path (lit ''/DEV/'' @ nm)"
  shows "case first_of (device_names k) nm of
      None \<Rightarrow> \<exists>u bs. fopen k path t = Inr (0, u) \<and> heap_inv (boot_base H) u bs \<and> live bs = live (walled_blocks H)
        \<and> (\<forall>x \<in> boot_areas H. mem u x = mem t x)
    | Some i \<Rightarrow> \<exists>p n u bs. fopen k path t = Inr (p, u) \<and> get_vfs (mem u) p = boot_list k H ! i
        \<and> heap_inv (boot_base H) u bs \<and> live bs = insert (p, n) (live (walled_blocks H))
        \<and> (\<forall>x \<in> boot_areas H. mem u x = mem t x)"
proof -
  let ?xs = "lit ''/DEV/'' @ nm" and ?dev = "mount_device_at (of_nat 1) t"
  note f = boot_facts [OF b] and A = boot_areas_def [symmetric] and m = boot_mount_table [OF b]
  note dt = boot_device_table [OF b]
  have tab: "mounts_in (boot_areas H) t boot_mount_paths" "string_in (boot_areas H) (mem t) (str_slash k) [0x2F]"
    using boot_ready_areas [OF b link] by (simp_all add: files_ready_def)
  have five: "length (boot_mount_paths ! 1) = 5" "length (lit ''/DEV/'') = 5" by (simp_all add: boot_mount_paths_def lit_def)
  have at: "devices_at (of_nat 2) t = ?dev" using f(10) [of 2] m(4) by simp
  have v: "get_vfs (mem t) ?dev = (devman_node k)\<lparr>vn_master := H + 144\<rparr>" and sp: "span ?dev 88 \<subseteq> boot_areas H"
    using boot_slot [OF b, of 2] boot_kept_areas [of H] unfolding at by (simp_all add: boot_list_def numeral_2_eq_2)
  have master: "node_master t ?dev = H + 144" using arg_cong [OF v, of vn_master] by (simp add: get_vfs_def)
  have fs: "fs_node (mem t) (H + 144) (lit ''DEVFS'') (fn_devfs_read_dir k) (fn_devfs_find_dir k) (H + 0x2050 + 88 * 2)"
    using f(5) by (simp add: boot_mounts_def)
  have ptrs: "fn_devfs_find_dir k \<noteq> fn_fat_find_dir k" "fn_devfs_find_dir k \<noteq> fn_fat_dir_finddir k" "fn_devfs_read_dir k \<noteq> 0"
    using link by (auto simp: linked_apart_def callbacks_def)
  have room: "4 * (length ?xs + 17) + 416 \<le> heap_space t" using f(8) nm(2) five by simp
  have abs: "?xs \<noteq> []" "hd ?xs = 0x2F" "boot_mount_paths \<noteq> []" by (simp_all add: lit_def boot_mount_paths_def)
  have j: "1 = lookup_mount boot_mount_paths (ancestors ?xs)" "length (boot_mount_paths ! 1) < length ?xs"
    using boot_lookup(2) [OF nm(1)] nm(1) five by simp_all
  have dv: "span (?dev + 84) 4 \<subseteq> boot_areas H" using field_in_node [of 84 ?dev] sp by auto
  have root: "span (node_master t ?dev) 88 \<subseteq> boot_areas H" "is_dir (node_flag t (node_master t ?dev))"
    "node_read_dir t (node_master t ?dev) \<noteq> 0" "node_find_dir t (node_master t ?dev) = fn_devfs_find_dir k"
    unfolding master using fs ptrs(3) boot_areas(4) [of H] by (simp_all add: fs_node_def is_dir_def)
  have drop: "drop (length (boot_mount_paths ! 1)) ?xs = nm" using five by simp
  have same: "get_vfs (mem t) (devices_at (of_nat i) t) = boot_list k H ! i" if "first_of (device_names k) nm = Some i" for i
    using boot_slot(2) [OF b, of i] first_of_Some [OF that] by (simp add: device_names_def)
  have "case first_of (device_names k) nm of
      None \<Rightarrow> \<exists>u bs. fopen k path t = Inr (0, u) \<and> heap_inv (boot_base H) u bs \<and> live bs = live (walled_blocks H)
        \<and> (\<forall>x \<in> boot_areas H. mem u x = mem t x)
    | Some i \<Rightarrow> \<exists>p n u bs. fopen k path t = Inr (p, u) \<and> heap_inv (boot_base H) u bs
        \<and> live bs = insert (p, n) (live (walled_blocks H)) \<and> span p (unat n) \<inter> boot_areas H = {}
        \<and> get_vfs (mem u) p = get_vfs (mem t) (devices_at (of_nat i) t) \<and> (\<forall>x \<in> boot_areas H. mem u x = mem t x)"
    using fopen_device_run [OF f(1) room, unfolded A, OF path abs(1,2) tab(1) abs(3) tab(2) j refl dv root ptrs(1,2) dt]
    unfolding drop by simp
  then show ?thesis using same by (fastforce split: option.splits)
qed

text \<open>The disk behind the drive: what its registers say, and the words of the sector asked for at its data port.\<close>

definition disk_holds :: "disk \<Rightarrow> 'a machine_scheme \<Rightarrow> bool" where
  "disk_holds d s \<longleftrightarrow> ata_disk s \<and> (\<forall>lba. length (d lba) = 256) \<and> (\<forall>log. in16 s log 0x1F0 = drive_word d log)"

lemma booted_serves:
  assumes b: "boot_done k s t H" and d: "disk_holds d s"
  shows "serves d t"
proof -
  have t: "boot_frame s t" "is_master_exist t = 1" using b by (simp_all add: boot_done_def booted_def)
  have "answers t"
    using settles_answers [of t] ata_disk_in8 [of s t] d t(1) by (simp add: ata_disk_def disk_holds_def boot_frame_def)
  then show ?thesis using t d by (simp add: serves_def disk_holds_def boot_frame_def)
qed

lemma booted_read:
  fixes s t :: "'a kernel_scheme" and d
  assumes b: "boot_done k s t H" and link: "linked_apart k" and d: "disk_holds d s"
    and path: "string_in (boot_areas H) (mem t) path (0x2F # cs)" "\<not> prefix (lit ''DEV/'') cs"
    and name: "opens d (boot_base H) k (boot_areas H) c cs e t" "c \<le> 900000000"
    and geometry: "BytesPerSector (disk_bpb d) = 512" "SectorsPerCluster (disk_bpb d) \<noteq> 0"
    and cls: "chain (disk_bpb d) d (fe_starting_cluster e) cls"
    and w: "w = written (unat sz) 0 (map (cluster_data (disk_bpb d) d) cls)" "length w < 4294967296"
    and dst: "span ptr (length w) \<subseteq> boot_areas H" "span ptr (length w) \<inter> span (H + 0x2050) 88 = {}"
  shows "\<exists>p u v x bs. fopen k path t = Inr (p, u) \<and> p \<noteq> 0 \<and> file_at k (H + 0x2050) cs (mem u) p
    \<and> vread (call_read k) p off sz ptr u = Inr (0, v) \<and> fclose p v = Inr (- 1, x)
    \<and> heap_inv (boot_base H) x bs \<and> live bs = live (walled_blocks H)
    \<and> (\<forall>a \<in> boot_areas H. mem x a = put_bytes ptr w (mem t) a)"
proof -
  note f = boot_facts [OF b]
  have at: "fs_at d (boot_base H) t (walled_blocks H)" using f(1) booted_serves [OF b d] by (simp add: fs_at_def)
  have cs: "length cs < 55" using name(1) by (simp add: opens_def)
  have "unat (SectorsPerCluster (disk_bpb d)) < 256" by (rule less_le_trans [OF unsigned_less]) simp
  then have room: "4 * (length cs + 18) + 2592 + 2 * c + 2048 * unat (SectorsPerCluster (disk_bpb d)) \<le> heap_space t"
    using f(8) cs name(2) by simp
  have env: "length (stack_junk k) = 55" "fn_fat_file_read k \<noteq> 0"
    using f(9) link by (auto simp: junk_ok_def linked_apart_def callbacks_def)
  show ?thesis
    using ready_read [OF at, folded boot_areas_def, OF boot_ready_areas [OF b link] room path name(1) env geometry cls w dst, of off]
    by blast
qed

text \<open>What the lookup of a path costs is little.\<close>

lemma joined_length: "length xs \<le> length (joined xs)" if "\<forall>x \<in> set xs. component x" for xs
  using that
proof (induction xs)
  case (Cons x xs)
  have "Suc 0 \<le> length x" using Cons.prems by (simp add: component_def Suc_le_eq)
  moreover have "length xs \<le> length (joined xs)" using Cons by simp
  ultimately show ?case by (cases "xs = []") (simp_all add: joined_Cons)
qed simp

lemma walk_cost_le: "walk_cost xs \<le> length xs * (4 * (length (joined xs) + 17) + 4224)"
proof (induction xs)
  case (Cons x xs)
  define c where "c = 4 * (length (joined (x # xs)) + 17) + 4224"
  have "length (joined xs) \<le> length (joined (x # xs))" by (cases "xs = []") (simp_all add: joined_Cons)
  then have "4 * (length (joined xs) + 17) + 4224 \<le> c" by (simp add: c_def)
  then have "length xs * (4 * (length (joined xs) + 17) + 4224) \<le> length xs * c" by (rule mult_le_mono2)
  then have "walk_cost xs \<le> length xs * c" using Cons by linarith
  moreover have "walk_cost (x # xs) = c + walk_cost xs" by (simp add: c_def)
  ultimately show ?case unfolding c_def [symmetric] by simp
qed simp

lemma path_cost_le:
  assumes "\<forall>x \<in> set xs. component x" and "length (joined xs) < 55"
  shows "path_cost xs \<le> 900000000"
proof -
  have "length xs * (4 * (length (joined xs) + 17) + 4224) \<le> 55 * 4512"
    by (rule mult_le_mono) (use joined_length [OF assms(1)] assms(2) in simp_all)
  with walk_cost_le [of xs] have "walk_cost xs \<le> 55 * 4512" by (rule le_trans)
  then show ?thesis using assms(2) by (simp add: path_cost_def)
qed

lemma opens_path:
  fixes t :: "'a vfs_scheme"
  assumes "walk d (root_dir d) xs = Some e" and "\<forall>x \<in> set xs. component x" and "length (joined xs) < 55"
    and "BytesPerSector (disk_bpb d) = 512"
  shows "opens d base k A (path_cost xs) (joined xs) e t"
proof -
  have "xs \<noteq> []" using assms(1) by auto
  then have "0 < length (joined xs)" using joined_length [OF assms(2)] by (meson length_greater_0_conv less_le_trans)
  then show ?thesis
    using finds_mono [OF finds_path [OF assms(1,2,4), of base k t] empty_subsetI] walk_file [OF assms(1)] assms(3)
    by (simp add: opens_def)
qed

text \<open>
  C2. Files after the boot. In the booted kernel, the path of a file through the directories of the disk can be
  opened, read and closed: \<open>fopen\<close> gives a node of the file, the read stores the data along the file's chain of
  clusters at the destination (from its beginning, whatever the offset), and after \<open>fclose\<close> the heap has the areas
  it had and nothing else of what the kernel relies on has changed. The components have at most 32 bytes and
  the name fits a node; the path does not begin with /DEV/, which is the mount of the devices.
\<close>

theorem booted_path_roundtrip:
  fixes s t :: "'a kernel_scheme" and d
  assumes b: "boot_done k s t H" and link: "linked_apart k" and d: "disk_holds d s"
    and path: "string_in (boot_areas H) (mem t) path (0x2F # joined xs)" "\<not> prefix (lit ''DEV/'') (joined xs)"
    and name: "\<forall>x \<in> set xs. component x" "length (joined xs) < 55"
    and found: "walk d (root_dir d) xs = Some e"
    and geometry: "BytesPerSector (disk_bpb d) = 512" "SectorsPerCluster (disk_bpb d) \<noteq> 0"
    and cls: "chain (disk_bpb d) d (fe_starting_cluster e) cls"
    and w: "w = written (unat sz) 0 (map (cluster_data (disk_bpb d) d) cls)" "length w < 4294967296"
    and dst: "span ptr (length w) \<subseteq> boot_areas H" "span ptr (length w) \<inter> span (H + 0x2050) 88 = {}"
  shows "\<exists>p u v x bs. fopen k path t = Inr (p, u) \<and> p \<noteq> 0 \<and> file_at k (H + 0x2050) (joined xs) (mem u) p
    \<and> vread (call_read k) p off sz ptr u = Inr (0, v) \<and> fclose p v = Inr (- 1, x)
    \<and> heap_inv (boot_base H) x bs \<and> live bs = live (walled_blocks H)
    \<and> (\<forall>a \<in> boot_areas H. mem x a = put_bytes ptr w (mem t) a)"
  by (rule booted_read [OF b link d path opens_path [OF found name geometry(1)] path_cost_le [OF name] geometry cls w dst])

text \<open>The case of a name of one component, in the root directory.\<close>

theorem booted_file_roundtrip:
  fixes s t :: "'a kernel_scheme" and d
  assumes b: "boot_done k s t H" and link: "linked_apart k" and d: "disk_holds d s"
    and path: "string_in (boot_areas H) (mem t) path (0x2F # cs)" and name: "plain_name d (mem t) (boot_areas H) cs"
    and found: "root_find d cs = Some i"
    and geometry: "BytesPerSector (disk_bpb d) = 512" "SectorsPerCluster (disk_bpb d) \<noteq> 0"
    and cls: "chain (disk_bpb d) d (fe_starting_cluster (entry_of (dir_entry d i))) cls"
    and w: "w = written (unat sz) 0 (map (cluster_data (disk_bpb d) d) cls)" "length w < 4294967296"
    and dst: "span ptr (length w) \<subseteq> boot_areas H" "span ptr (length w) \<inter> span (H + 0x2050) 88 = {}"
  shows "\<exists>p u v x bs. fopen k path t = Inr (p, u) \<and> p \<noteq> 0 \<and> file_at k (H + 0x2050) cs (mem u) p
    \<and> vread (call_read k) p off sz ptr u = Inr (0, v) \<and> fclose p v = Inr (- 1, x)
    \<and> heap_inv (boot_base H) x bs \<and> live bs = live (walled_blocks H)
    \<and> (\<forall>a \<in> boot_areas H. mem x a = put_bytes ptr w (mem t) a)"
proof -
  have e: "looked_up d (mem t) cs = entry_of (dir_entry d i)" using found by (simp add: looked_up_def)
  have nm: "length cs \<le> 32" "\<not> prefix (lit ''DEV/'') cs" using name no_device by (simp_all add: plain_name_def)
  have "4 * (length cs + 17) + 6528 \<le> 900000000" using nm(1) by simp
  from booted_read [OF b link d path nm(2) opens_name [OF name, unfolded e] this geometry cls w dst]
  show ?thesis .
qed

text \<open>
  C16. A missing file after the boot. \<open>fopen\<close> of a path /name whose name no entry of the root directory begins with
  does not give NULL: it gives the node of a file of that name. The lookup takes what lies at address 0 for the
  entry it has not found: the page table of the boot, which there says a file that starts in cluster 0.
\<close>

theorem booted_missing_file:
  fixes s t :: "'a kernel_scheme" and d
  assumes b: "boot_done k s t H" and link: "linked_apart k" and d: "disk_holds d s"
    and path: "string_in (boot_areas H) (mem t) path (0x2F # cs)"
    and name: "cs \<noteq> []" "length cs \<le> 32" "0x2F \<notin> set cs" and missing: "root_find d cs = None"
  shows "\<exists>p u n bs. fopen k path t = Inr (p, u) \<and> p \<noteq> 0 \<and> file_at k (H + 0x2050) cs (mem u) p
    \<and> heap_inv (boot_base H) u bs \<and> live bs = insert (p, n) (live (walled_blocks H))
    \<and> (\<forall>a \<in> boot_areas H. mem u a = mem t a) \<and> fe_starting_cluster (looked_up d (mem u) cs) = 0"
proof -
  let ?xs = "0x2F # cs"
  note f = boot_facts [OF b] and A = boot_areas_def [symmetric]
  have ready: "mounts_in (boot_areas H) t boot_mount_paths" "string_in (boot_areas H) (mem t) (str_slash k) [0x2F]"
    "fat_mounted k (boot_areas H) t (mount_device_at (of_nat 0) t) (H + 0x2050)"
    using boot_ready_areas [OF b link] by (simp_all add: files_ready_def)
  have low: "mem t 11 = 0" "mem t 26 = 0" "mem t 27 = 0" using b paged_low by (auto simp: boot_done_def booted_def)
  have at: "fs_at d (boot_base H) t (walled_blocks H)" using f(1) booted_serves [OF b d] by (simp add: fs_at_def)
  have abs: "?xs \<noteq> []" "hd ?xs = 0x2F" "boot_mount_paths \<noteq> []" by (simp_all add: boot_mount_paths_def)
  note j = files_lookup [OF name(1) no_device [OF name(3)]]
  have room: "4 * (length ?xs + 17) + 416 + (4 * (length cs + 17) + 6528) \<le> heap_space t" using f(8) name(2) by simp
  have zero: "span 0 32 \<subseteq> boot_areas H" using f(2) boot_areas(6) [of H] by (auto simp: heap_start_def in_span_unat)
  have ent: "fe_attributes (looked_up d (mem t) cs) = 0" "fe_starting_cluster (looked_up d (mem t) cs) = 0"
    using missing low by (simp_all add: looked_up_def get_entry_def load8_def load16_def)
  with zero have nm: "plain_name d (mem t) (boot_areas H) cs" using name by (simp add: plain_name_def)
  have junk: "length (stack_junk k) = 55" using f(9) by (simp add: junk_ok_def)
  obtain p u n bs where F: "fopen k path t = Inr (p, u)" "fs_at d (boot_base H) u bs"
    "live bs = insert (p, n) (live (walled_blocks H))" "file_at k (H + 0x2050) cs (mem u) p"
    "\<forall>a \<in> boot_areas H. mem u a = mem t a"
    using fopen_file_run [OF at room, unfolded A, OF path abs(1,2) ready(1) abs(3) ready(2) j ready(3) opens_name [OF nm] junk]
    by (elim exE conjE) (rule that)
  have inv: "heap_inv (boot_base H) u bs" using F(2) by (simp add: fs_at_def)
  then have "p \<noteq> 0" using live_off_heap [of "boot_base H" u bs p n] F(3) by simp
  moreover have "looked_up d (mem u) cs = looked_up d (mem t) cs"
    using looked_up_frame [of "boot_areas H" "mem u" "mem t" d cs] F(5) zero by blast
  ultimately show ?thesis using F inv ent(2)
    by (intro exI [of _ p, OF exI [of _ u, OF exI [of _ n, OF exI [of _ bs]]]]) simp
qed

section \<open>A machine with a disk\<close>

definition disk_machine :: kernel where
  "disk_machine = boot_machine\<lparr>in16 := (\<lambda>log _. drive_word sample_disk log)\<rparr>"

lemma disk_machine_boots: "\<exists>t. boot_done machine_env disk_machine t 0x200000"
proof -
  have "loaded disk_machine" "ata_disk disk_machine" "good_map (mem disk_machine) 0x9000" "low_region (mem disk_machine) 0x9000"
    "linked machine_env (unat (curr_addr disk_machine)) (mem disk_machine)"
    using machine_ok machine_map ata_disk_in8 [OF machine_disk, of disk_machine]
    by (simp_all add: disk_machine_def loaded_def term_ok_def)
  moreover have "curr_addr disk_machine = 0x200000" by (simp add: disk_machine_def boot_machine_def kernel_start_def)
  ultimately show ?thesis
    using boot_run [where s = disk_machine and k = machine_env and mbi = "0x9000"] machine_ok(2) by (fastforce simp: boot_done_def)
qed

lemma disk_machine_holds: "disk_holds sample_disk disk_machine"
proof -
  show ?thesis
    using ata_disk_in8 [OF machine_disk, of disk_machine] sample_length by (simp add: disk_holds_def disk_machine_def)
qed

lemma machine_apart: "linked_apart machine_env"
  by (simp add: linked_apart_def callbacks_def machine_env_def boot_env_def)

lemma machine_paths:
  assumes b: "boot_done machine_env disk_machine t 0x200000"
    and p: "(p, cs) \<in> {(0x100020, [0x2F, 0x48, 0x49]), (0x100030, lit ''/DEV/'' @ lit ''kb''), (0x100040, [0x2F, 0x5A]),
      (0x100050, [0x2F, 0x52, 0x45, 0x2F, 0x48, 0x49])}"
  shows "string_in (boot_areas 0x200000) (mem t) p cs"
proof (rule boot_string(2) [OF b])
  have here: "span a n \<subseteq> image 0x200000" if "unat a + n \<le> 0x200000" "0x100000 \<le> unat a" for a n
    using that by (auto simp: image_def in_span_unat)
  show "string_in (image (unat (0x200000 :: u32))) (mem disk_machine) p cs"
    using p unfolding string_in_def by (elim insertE emptyE) (simp_all add: disk_machine_def machine_mem here)
qed

lemma booted_fopen_device_witness:
  "\<exists>t p u. boot_done machine_env disk_machine t 0x200000 \<and> fopen machine_env 0x100030 t = Inr (p, u)
     \<and> vn_read (get_vfs (mem u) p) = fn_keyboard_read machine_env"
proof -
  obtain t where b: "boot_done machine_env disk_machine t 0x200000" using disk_machine_boots by blast
  have nm: "lit ''kb'' \<noteq> []" "length (lit ''kb'') \<le> 1000000" by (simp_all add: lit_def)
  have path: "string_in (boot_areas 0x200000) (mem t) 0x100030 (lit ''/DEV/'' @ lit ''kb'')"
    by (rule machine_paths [OF b]) simp
  have "first_of (device_names machine_env) (lit ''kb'') = Some 3"
    by (simp add: first_of_def device_names_def lit_def machine_env_def boot_env_def upt_conv_Cons)
  then show ?thesis
    using booted_fopen_device [OF b machine_apart nm path] b
    by (fastforce simp: boot_list_def kb_node_def numeral_3_eq_3)
qed

lemma machine_target:
  "span 0x7000 (length [0x41, 0x41, 0x41, 0x42 :: u8]) \<subseteq> boot_areas 0x200000"
  "span 0x7000 (length [0x41, 0x41, 0x41, 0x42 :: u8]) \<inter> span (0x200000 + 0x2050) 88 = {}"
proof -
  have len: "length [0x41, 0x41, 0x41, 0x42 :: u8] = 4" by simp
  have "unat x < unat (0x200000 :: u32)" if "x \<in> span 0x7000 4" for x :: u32 using that by (simp add: in_span_unat)
  then show "span 0x7000 (length [0x41, 0x41, 0x41, 0x42 :: u8]) \<subseteq> boot_areas 0x200000"
    unfolding len using boot_areas(6) [of "0x200000"] by blast
  show "span 0x7000 (length [0x41, 0x41, 0x41, 0x42 :: u8]) \<inter> span (0x200000 + 0x2050) 88 = {}"
    unfolding len by (auto simp: in_span_unat)
qed

lemma machine_result:
  assumes "\<forall>a \<in> boot_areas 0x200000. m a = put_bytes 0x7000 [0x41, 0x41, 0x41, 0x42] m' a"
  shows "get_bytes m 0x7000 4 = [0x41, 0x41, 0x41, 0x42]"
proof -
  let ?w = "[0x41, 0x41, 0x41, 0x42 :: u8]"
  have len: "length ?w = 4" by simp
  have "get_bytes m 0x7000 (length ?w) = get_bytes (put_bytes 0x7000 ?w m') 0x7000 (length ?w)"
  proof (rule get_bytes_local)
    fix x assume "x \<in> span 0x7000 (length ?w)"
    then have "x \<in> boot_areas 0x200000" using machine_target(1) by blast
    then show "m x = put_bytes 0x7000 ?w m' x" using assms by blast
  qed simp
  also have "\<dots> = ?w" by (rule get_put_bytes) simp
  finally show ?thesis unfolding len .
qed

lemma booted_path_roundtrip_witness:
  "\<exists>t p u v x. boot_done machine_env disk_machine t 0x200000 \<and> fopen machine_env 0x100050 t = Inr (p, u)
     \<and> vread (call_read machine_env) p 7 2 0x7000 u = Inr (0, v) \<and> fclose p v = Inr (- 1, x)
     \<and> get_bytes (mem x) 0x7000 4 = [0x41, 0x41, 0x41, 0x42]"
proof -
  let ?w = "[0x41, 0x41, 0x41, 0x42] :: u8 list" and ?xs = "[[0x52, 0x45], [0x48, 0x49]] :: u8 list list"
  let ?e = "entry_of (slot (sector sample_disk 36) 0)"
  obtain t where b: "boot_done machine_env disk_machine t 0x200000" using disk_machine_boots by blast
  have path: "string_in (boot_areas 0x200000) (mem t) 0x100050 (0x2F # joined ?xs)" "\<not> prefix (lit ''DEV/'') (joined ?xs)"
    by (rule machine_paths [OF b]) (simp_all add: lit_def)
  have name: "\<forall>x \<in> set ?xs. component x" "length (joined ?xs) < 55" by (simp_all add: component_def)
  have "chain (disk_bpb sample_disk) sample_disk 4 [4]" by (rule sample_chain(2))
  then have found: "walk sample_disk (root_dir sample_disk) ?xs = Some ?e"
    by (simp add: sample_inner [unfolded One_nat_def] sample_bpb sample_data(3) Let_def del: chain.simps)
  have cls: "chain (disk_bpb sample_disk) sample_disk (fe_starting_cluster ?e) [2, 3]"
    unfolding sample_inner by (rule sample_chain(1))
  obtain p u v x where R: "fopen machine_env 0x100050 t = Inr (p, u)" "vread (call_read machine_env) p 7 2 0x7000 u = Inr (0, v)"
    "fclose p v = Inr (- 1, x)" "\<forall>a \<in> boot_areas 0x200000. mem x a = put_bytes 0x7000 ?w (mem t) a"
    using booted_path_roundtrip [where off = 7, OF b machine_apart disk_machine_holds path name found _ _ cls sample_written _ machine_target]
    by (auto simp: sample_bpb)
  show ?thesis using b R(1-3) machine_result [OF R(4)] by blast
qed

lemma booted_file_roundtrip_witness:
  "\<exists>t p u v x. boot_done machine_env disk_machine t 0x200000 \<and> fopen machine_env 0x100020 t = Inr (p, u)
     \<and> vread (call_read machine_env) p 7 2 0x7000 u = Inr (0, v) \<and> fclose p v = Inr (- 1, x)
     \<and> get_bytes (mem x) 0x7000 4 = [0x41, 0x41, 0x41, 0x42]"
proof -
  let ?w = "[0x41, 0x41, 0x41, 0x42] :: u8 list"
  obtain t where b: "boot_done machine_env disk_machine t 0x200000" using disk_machine_boots by blast
  have path: "string_in (boot_areas 0x200000) (mem t) 0x100020 (0x2F # [0x48, 0x49])" by (rule machine_paths [OF b]) simp
  have name: "plain_name sample_disk (mem t) (boot_areas 0x200000) [0x48, 0x49]"
    using sample_found by (simp add: plain_name_def looked_up_def)
  have cls: "chain (disk_bpb sample_disk) sample_disk (fe_starting_cluster (entry_of (dir_entry sample_disk 0))) [2, 3]"
    unfolding sample_found by (rule sample_chain(1))
  obtain p u v x where R: "fopen machine_env 0x100020 t = Inr (p, u)" "vread (call_read machine_env) p 7 2 0x7000 u = Inr (0, v)"
    "fclose p v = Inr (- 1, x)" "\<forall>a \<in> boot_areas 0x200000. mem x a = put_bytes 0x7000 ?w (mem t) a"
    using booted_file_roundtrip [where off = 7, OF b machine_apart disk_machine_holds path name sample_found(1) _ _ cls sample_written _ machine_target]
    by (auto simp: sample_bpb)
  show ?thesis using b R(1-3) machine_result [OF R(4)] by blast
qed

lemma sample_missing: "root_find sample_disk [0x5A] = None"
proof -
  have lba: "root_sector (disk_bpb sample_disk) = 2" by (simp add: root_sector_def sample_bpb)
  have "take 1 (dir_entry sample_disk i) \<noteq> [0x5A]" if "i < 16" for i
  proof -
    have "dir_entry sample_disk i ! 0 = sector sample_disk 2 ! (32 * i)" using that by (simp add: slot_def lba sample_sector)
    moreover have "sector sample_disk 2 ! (32 * i) \<noteq> 0x5A" using that
      by (simp add: sample_sector sector_bytes_nth nth_list_update)
    ultimately show ?thesis by (cases "dir_entry sample_disk i") auto
  qed
  then show ?thesis by (auto simp: sec_find_def find_None_iff)
qed

lemma booted_missing_file_witness:
  "\<exists>t p u. boot_done machine_env disk_machine t 0x200000 \<and> fopen machine_env 0x100040 t = Inr (p, u) \<and> p \<noteq> 0"
proof -
  obtain t where b: "boot_done machine_env disk_machine t 0x200000" using disk_machine_boots by blast
  have path: "string_in (boot_areas 0x200000) (mem t) 0x100040 (0x2F # [0x5A])" by (rule machine_paths [OF b]) simp
  show ?thesis
    using booted_missing_file [OF b machine_apart disk_machine_holds path _ _ _ sample_missing] b by auto
qed

end
