(* ===== verification/Paging_Spec.thy ===== *)
theory Paging_Spec
  imports Boot_Open
begin

text \<open>
  The address space after the boot, in one piece: which regions of 4 MiB are mapped, all through the one page
  table at address 0, and to which frame each page of that table goes. \<open>paging_map\<close> of an address outside the
  first 4 MiB is shown to change this picture for the kernel's own pages too.
\<close>

section \<open>One page table for every region\<close>

definition mapped :: "nat set \<Rightarrow> (nat \<Rightarrow> u32) \<Rightarrow> memory \<Rightarrow> bool" where
  "mapped P f m \<longleftrightarrow> (\<forall>i<1024. load32 m (0x3000 + 4 * of_nat i) = (if i \<in> P then 3 else 2))
     \<and> (\<forall>i<1024. bit (load32 m (4 * of_nat i)) 0 \<and> load32 m (4 * of_nat i) AND NOT 0xFFF = f i)"

lemma pd_index_bound: "unat (pd_index v) < 1024"
  using u32_bound [of v] by (simp add: pd_index_unat div_less_iff_less_mult)

lemma pt_index_bound: "unat (pt_index v) < 1024"
  by (simp add: pt_index_unat)

lemma mapped_translate:
  assumes "mapped P f m"
  shows "translate m 0x3000 v
    = (if unat (pd_index v) \<in> P then Some (f (unat (pt_index v)) OR (v AND 0xFFF)) else None)"
proof -
  have d: "load32 m (0x3000 + 4 * pd_index v) = (if unat (pd_index v) \<in> P then 3 else 2)"
    using assms pd_index_bound [of v] by (auto simp: mapped_def dest: spec [where x = "unat (pd_index v)"])
  have "bit (load32 m (4 * pt_index v)) 0 \<and> load32 m (4 * pt_index v) AND NOT 0xFFF = f (unat (pt_index v))"
    using assms pt_index_bound [of v] by (auto simp: mapped_def dest: spec [where x = "unat (pt_index v)"])
  moreover have "(3 :: u32) AND NOT 0xFFF = 0" by simp
  ultimately show ?thesis
    unfolding translate_def Let_def pd_index_def [symmetric] pt_index_def [symmetric] d by (simp add: bit_0)
qed

lemma entry_spans:
  "i < 1024 \<Longrightarrow> span (4 * of_nat i) 4 \<subseteq> {x. unat x < 0x1000}"
  "i < 1024 \<Longrightarrow> span (0x3000 + 4 * of_nat i) 4 \<subseteq> {x. 0x3000 \<le> unat x \<and> unat x < 0x4000}"
proof -
  assume i: "i < 1024"
  have u: "unat (4 * of_nat i :: u32) = 4 * i" using i u32_of_nat_unat [of "4 * i"] by simp
  then have "unat (0x3000 + 4 * of_nat i :: u32) = 0x3000 + 4 * i"
    using u32_add_unat [of "0x3000" "4 * of_nat i"] i by simp
  with u i show "span (4 * of_nat i) 4 \<subseteq> {x. unat x < 0x1000}"
    "span (0x3000 + 4 * of_nat i) 4 \<subseteq> {x. 0x3000 \<le> unat x \<and> unat x < 0x4000}"
    by (auto simp: in_span_unat)
qed

text \<open>Only the table and the directory matter.\<close>

lemma mapped_local:
  assumes "mapped P f m" and same: "\<And>x. unat x < 0x1000 \<or> 0x3000 \<le> unat x \<and> unat x < 0x4000 \<Longrightarrow> m' x = m x"
  shows "mapped P f m'"
proof -
  have "load32 m' (0x3000 + 4 * of_nat i) = load32 m (0x3000 + 4 * of_nat i)"
    "load32 m' (4 * of_nat i) = load32 m (4 * of_nat i)" if "i < 1024" for i
    using entry_spans [OF that] by (auto intro!: c32.ld_local same)
  with assms(1) show ?thesis by (simp add: mapped_def)
qed

lemma entries_apart:
  assumes "i < 1024" and "j < 1024"
  shows "apart (4 * of_nat i) 4 (0x3000 + 4 * of_nat j) 4" "apart (0x3000 + 4 * of_nat j) 4 (4 * of_nat i) 4"
    "i \<noteq> j \<Longrightarrow> apart (4 * of_nat i) 4 (4 * of_nat j) 4"
    "i \<noteq> j \<Longrightarrow> apart (0x3000 + 4 * of_nat i) 4 (0x3000 + 4 * of_nat j) 4"
proof -
  have u: "unat (4 * of_nat k :: u32) = 4 * k" if "k < 1024" for k using that u32_of_nat_unat [of "4 * k"] by simp
  have "unat (0x3000 + 4 * of_nat j :: u32) = 0x3000 + 4 * j"
    using u32_add_unat [of "0x3000" "4 * of_nat j"] u [OF assms(2)] assms(2) by simp
  then show "apart (4 * of_nat i) 4 (0x3000 + 4 * of_nat j) 4"
    using u [OF assms(1)] assms by (intro apart_below) simp_all
  then show "apart (0x3000 + 4 * of_nat j) 4 (4 * of_nat i) 4" by (rule apart_sym)
  show "apart (4 * of_nat i) 4 (4 * of_nat j) 4" if "i \<noteq> j"
    using frame_words_apart [of i j 0] that assms by simp
  show "apart (0x3000 + 4 * of_nat i) 4 (0x3000 + 4 * of_nat j) 4" if "i \<noteq> j"
    using frame_words_apart [of i j "0x3000"] that assms by simp
qed

lemma mapped_store_entry:
  assumes "mapped P f m" and i: "i < 1024" and e: "bit e 0" "e AND NOT 0xFFF = a"
  shows "mapped P (f(i := a)) (store32 (4 * of_nat i) e m)"
proof -
  have "load32 (store32 (4 * of_nat i) e m) (4 * of_nat j) = (if j = i then e else load32 m (4 * of_nat j))"
    "load32 (store32 (4 * of_nat i) e m) (0x3000 + 4 * of_nat j) = load32 m (0x3000 + 4 * of_nat j)"
    if "j < 1024" for j
    using that i by (auto simp: c32_32.ld_st_apart entries_apart cells)
  then show ?thesis using assms(1) e unfolding mapped_def by auto
qed

lemma mapped_store_dir:
  assumes "mapped P f m" and i: "i < 1024"
  shows "mapped (insert i P) f (store32 (0x3000 + 4 * of_nat i) 3 m)"
proof -
  have "load32 (store32 (0x3000 + 4 * of_nat i) 3 m) (0x3000 + 4 * of_nat j)
      = (if j = i then 3 else load32 m (0x3000 + 4 * of_nat j))"
    "load32 (store32 (0x3000 + 4 * of_nat i) 3 m) (4 * of_nat j) = load32 m (4 * of_nat j)" if "j < 1024" for j
    using that i by (auto simp: c32_32.ld_st_apart entries_apart cells)
  then show ?thesis using assms(1) unfolding mapped_def by auto
qed

text \<open>The first word of the frame bitmap is an entry of the table, too.\<close>

lemma mapped_bitmap:
  assumes map: "mapped P f m" and w: "w AND NOT 0xFFF = 0"
  shows "mapped P f (store32 0x400 (load32 m 0x400 OR w) m)"
proof -
  have "(load32 m 0x400 OR w) AND NOT 0xFFF = f 256" "bit (load32 m 0x400 OR w) 0"
    using map w by (auto simp: mapped_def bit.conj_disj_distrib2 bit_or_iff dest: spec [where x = 256])
  then have "mapped P (f(256 := f 256)) (store32 (4 * of_nat 256) (load32 m 0x400 OR w) m)"
    by (intro mapped_store_entry [OF map]) simp_all
  then show ?thesis by simp
qed

section \<open>Mapping a page\<close>

text \<open>The state \<open>paging_map\<close> works on after the boot.\<close>

definition walks :: "nat set \<Rightarrow> (nat \<Rightarrow> u32) \<Rightarrow> 'a paging_scheme \<Rightarrow> bool" where
  "walks P f s \<longleftrightarrow> paging_on s \<and> cr3 s = 0x3000 \<and> current_page_dir s = 0x3000 \<and> frames s = 0x400
     \<and> 32 \<le> unat (frames_max s) \<and> mapped P f (mem s)"

lemma walks_local:
  assumes "walks P f s" and "\<And>x. unat x < 0x4000 \<Longrightarrow> m x = mem s x"
  shows "walks P f (s\<lparr>mem := m\<rparr>)"
proof -
  have "mapped P f m" by (rule mapped_local [of P f "mem s"]) (use assms in \<open>auto simp: walks_def\<close>)
  with assms(1) show ?thesis by (simp add: walks_def)
qed

lemma map_entry_mapped:
  assumes "mapped P f (mem s)" and p: "unat (pd_index v) \<in> P" and phys: "phys AND 0xFFF = 0"
    and old: "\<not> bit (f (unat (pt_index v))) 31"
  shows "\<exists>m. paging_map_entry (0x3000 + 4 * pd_index v) v phys s = s\<lparr>mem := m\<rparr>
    \<and> mapped P (f(unat (pt_index v) := phys)) m \<and> (\<forall>x. x \<notin> span (4 * pt_index v) 4 \<longrightarrow> m x = mem s x)"
proof -
  define e where "e = load32 (mem s) (4 * pt_index v)"
  define m where "m = store32 (4 * pt_index v) (((e OR 1) AND NOT 0x7FFFF000) OR phys) (mem s)"
  have "load32 (mem s) (0x3000 + 4 * pd_index v) = 3"
    using assms(1) p pd_index_bound [of v] by (auto simp: mapped_def dest: spec [where x = "unat (pd_index v)"])
  then have page: "4 * pt_index v = page_phys_address (0x3000 + 4 * pd_index v) (mem s) + 4 * pt_index v"
    by (simp add: page_phys_address_def)
  have "e AND NOT 0xFFF = f (unat (pt_index v))"
    using assms(1) pt_index_bound [of v] by (auto simp: mapped_def e_def dest: spec [where x = "unat (pt_index v)"])
  then have "bit (e AND NOT 0xFFF) 31 = bit (f (unat (pt_index v))) 31" by simp
  then have "\<not> bit e 31" using old by (simp add: bit_simps mask_12)
  note e = new_entry [OF phys this]
  have "mapped P (f(unat (pt_index v) := phys)) m"
    using mapped_store_entry [OF assms(1) pt_index_bound [of v] e] by (simp add: m_def)
  moreover have "paging_map_entry (0x3000 + 4 * pd_index v) v phys s = s\<lparr>mem := m\<rparr>"
    by (simp add: paging_map_entry_eq [OF page] m_def e_def)
  ultimately show ?thesis by (auto simp: m_def c32.st_outside)
qed

lemma map_present:
  assumes w: "walks P f s" and p: "unat (pd_index v) \<in> P" and phys: "phys AND 0xFFF = 0"
    and old: "\<not> bit (f (unat (pt_index v))) 31"
  shows "\<exists>m. paging_map v phys s = Inr ((), s\<lparr>mem := m\<rparr>) \<and> walks P (f(unat (pt_index v) := phys)) (s\<lparr>mem := m\<rparr>)
    \<and> (\<forall>x. x \<notin> span (4 * pt_index v) 4 \<longrightarrow> m x = mem s x)"
proof -
  have "load32 (mem s) (0x3000 + 4 * pd_index v) = 3"
    using w p pd_index_bound [of v] by (auto simp: walks_def mapped_def dest: spec [where x = "unat (pd_index v)"])
  then have "paging_map v phys s = Inr ((), paging_map_entry (0x3000 + 4 * pd_index v) v phys s)"
    using w by (simp add: paging_map_def walks_def Let_def test_attribute_def PTE_PRESENT_def)
  moreover have "mapped P f (mem s)" using w by (simp add: walks_def)
  ultimately show ?thesis using map_entry_mapped [where P = P and f = f and s = s and v = v and phys = phys] p phys old w
    by (auto simp: walks_def)
qed

lemma alloc_frame_1:
  fixes s :: "'a frames_scheme"
  assumes fr: "frames s = 0x400" and n: "32 \<le> unat (frames_max s)"
    and w: "bit (load32 (mem s) 0x400) 0" "\<not> bit (load32 (mem s) 0x400) 1"
  shows "frame_alloc s = Inr (0x1000, s\<lparr>mem := store32 0x400 (load32 (mem s) 0x400 OR 2) (mem s),
    alloced_frames := alloced_frames s + 1\<rparr>)"
proof -
  have "used (mem s) (frames s) 0" "\<not> used (mem s) (frames s) 1" using w by (simp_all add: fr bitmap_word)
  moreover have "[0..<frames_total s] = 0 # 1 # [2..<frames_total s]"
    using frames_total_32 [OF n] by (simp add: upt_conv_Cons [of 0] upt_conv_Cons [of "Suc 0"] numeral_2_eq_2)
  ultimately have "find (\<lambda>k. \<not> used (mem s) (frames s) k) [0..<frames_total s] = Some 1" by simp
  from alloc_single [OF this] show ?thesis by (simp add: frame_set_def fr)
qed

lemma map_absent:
  fixes s :: "'a paging_scheme"
  assumes w: "walks P f s" and p: "unat (pd_index v) \<notin> P" and phys: "phys AND 0xFFF = 0"
    and old: "\<not> bit (f (unat (pt_index v))) 31"
    and free: "bit (rd32 s 0x400) 0" "\<not> bit (rd32 s 0x400) 1"
  shows "\<exists>m. paging_map v phys s = Inr ((), s\<lparr>alloced_frames := alloced_frames s + 1, mem := m\<rparr>)
    \<and> walks (insert (unat (pd_index v)) P) (f(unat (pt_index v) := phys)) (s\<lparr>alloced_frames := alloced_frames s + 1, mem := m\<rparr>)
    \<and> (\<forall>x. 0x4000 \<le> unat x \<longrightarrow> m x = mem s x)"
proof -
  define pd where "pd = 0x3000 + 4 * pd_index v"
  define m1 where "m1 = store32 0x400 (rd32 s 0x400 OR 2) (mem s)"
  define m2 where "m2 = memset 0x1000 0 4096 m1"
  define m3 where "m3 = store32 pd 3 m2"
  define s3 where "s3 = s\<lparr>alloced_frames := alloced_frames s + 1, mem := m3\<rparr>"
  have fr: "frames s = 0x400" "32 \<le> unat (frames_max s)" "current_page_dir s = 0x3000" and map: "mapped P f (mem s)"
    using w by (simp_all add: walks_def)
  have e: "load32 M pd = 2" if "mapped P f M" for M
    using that p pd_index_bound [of v] by (auto simp: mapped_def pd_def dest: spec [where x = "unat (pd_index v)"])
  have "mapped P f m1" using mapped_bitmap [OF map, of 2] by (simp add: m1_def)
  then have map2: "mapped P f m2" by (rule mapped_local) (auto simp: m2_def memset_eq in_span_unat)
  have map3: "mapped (insert (unat (pd_index v)) P) f m3"
    using mapped_store_dir [OF map2 pd_index_bound [of v]] by (simp add: m3_def pd_def)
  obtain m where m: "paging_map_entry pd v phys s3 = s3\<lparr>mem := m\<rparr>"
    "mapped (insert (unat (pd_index v)) P) (f(unat (pt_index v) := phys)) m"
    "\<forall>x. x \<notin> span (4 * pt_index v) 4 \<longrightarrow> m x = m3 x"
    using map_entry_mapped [of "insert (unat (pd_index v)) P" f s3 v phys] map3 phys old by (auto simp: s3_def pd_def)
  have "set_attribute pd PDE_WRITABLE (set_attribute pd PDE_PRESENT m2) = m3"
    by (simp add: entry_defs cells store_twice e [OF map2] m3_def)
  then have run: "paging_map v phys s = Inr ((), s\<lparr>alloced_frames := alloced_frames s + 1, mem := m\<rparr>)"
    using alloc_frame_1 [OF fr(1,2) free] m(1) e [OF map]
    by (simp add: paging_map_def fr(3) pd_def [symmetric] m1_def [symmetric] m2_def [symmetric] test_attribute_def
        PTE_PRESENT_def Let_def s3_def)
  have "m x = mem s x" if "0x4000 \<le> unat x" for x
  proof -
    have "x \<notin> span (4 * pt_index v) 4" "x \<notin> span pd 4"
      using entry_spans [OF pt_index_bound [of v]] entry_spans [OF pd_index_bound [of v]] that
      by (auto simp: pd_def)
    then show ?thesis using m(3) that by (auto simp: m3_def m2_def m1_def c32.st_outside memset_eq in_span_unat)
  qed
  with run m(2) w show ?thesis by (auto simp: walks_def)
qed

section \<open>After the boot\<close>

definition identity :: "nat \<Rightarrow> u32" where
  "identity i = of_nat i * 4096"

lemma identity_low: "i < 1024 \<Longrightarrow> \<not> bit (identity i) 31"
proof -
  assume i: "i < 1024"
  then have "unat (identity i) = i * 4096" using u32_of_nat_unat [of "i * 4096"] by (simp add: identity_def)
  with i show ?thesis by (simp add: bit31_unat)
qed

lemma identity_page:
  assumes "v AND 0xFFF = w AND 0xFFF" and "unat (pt_index v) = unat w div 4096"
  shows "identity (unat (pt_index v)) OR (v AND 0xFFF) = w"
  using assms page_of [of w] split_page [of w] by (simp add: identity_def)

lemma paged_walks:
  fixes s :: "'a paging_scheme"
  assumes pg: "paged s" and fr: "frames s = 0x400" "32 \<le> unat (frames_max s)"
  shows "walks {0} identity s" and "rd32 s 0x400 = boot_word"
proof -
  obtain m0 where low: "mem s x = boot_tables m0 x" if "unat x < 0x4000" for x using pg by (auto simp: paged_def)
  have ui: "unat (4 * of_nat i :: u32) = 4 * i" if "i < 1024" for i
    using that u32_of_nat_unat [of "4 * i"] by simp
  have dir: "rd32 s (0x3000 + 4 * of_nat i) = load32 (boot_tables m0) (0x3000 + 4 * of_nat i)" if "i < 1024" for i
    by (rule low_word [OF low]) (use that ui [OF that] u32_add_unat [of "0x3000" "4 * of_nat i"] in simp_all)
  have "rd32 s (0x3000 + 4 * of_nat i) = (if i = 0 then 3 else 2)" if "i < 1024" for i
  proof (cases "i = 0")
    case True
    then show ?thesis using dir [of 0] by (simp add: boot_tables_def cells)
  next
    case False
    then show ?thesis
      using dir [OF that] frame_words_apart [of 0 i "0x3000"] that
        fill_directory_entry [of i "0x3000" "store32 0x400 boot_word (fill_table 0 m0)"]
      by (simp add: boot_tables_def c32_32.ld_st_apart)
  qed
  moreover have "bit (rd32 s (4 * of_nat i)) 0 \<and> rd32 s (4 * of_nat i) AND NOT 0xFFF = identity i" if i: "i < 1024" for i
    using boot_table_entry [where m = "mem s", OF low i] or_low [OF frame_aligned [of "of_nat i"], of 1] i
    by (simp add: bit_or_iff boot_word_def identity_def)
  ultimately show "walks {0} identity s" using pg fr by (simp add: walks_def mapped_def paged_def)
  show "rd32 s 0x400 = boot_word" using boot_table_entry [where m = "mem s", OF low, of 256] by simp
qed

text \<open>
  C10. Mapping a page after the boot. In the booted kernel \<open>paging_map\<close> of an address outside the first 4 MiB makes
  the processor translate that page to the frame asked for, and more: the directory entry is marked present but
  keeps the address 0, where the table of the first 4 MiB lies, so the whole region of \<open>v\<close> is a second view of
  the first 4 MiB, and the page of the kernel's own that has the same index is moved to the new frame with it.
\<close>

theorem booted_paging_map:
  fixes s t :: "'a kernel_scheme"
  assumes b: "boot_done k s t H" and v: "0x400000 \<le> unat v"
    and phys: "phys AND 0xFFF = 0"
  shows "\<exists>u. paging_map v phys t = Inr ((), u) \<and> (\<forall>x. 0x4000 \<le> unat x \<longrightarrow> mem u x = mem t x)
    \<and> (\<forall>w. translate (mem u) (cr3 u) w =
        (if pd_index w = 0 \<or> pd_index w = pd_index v
         then Some (if pt_index w = pt_index v then phys OR (w AND 0xFFF) else w AND 0x3FFFFF) else None))"
proof -
  have "paged t" "frames t = 0x400" "32 \<le> unat (frames_max t)" using b by (simp_all add: boot_done_def booted_def)
  note w = paged_walks [OF this]
  have d: "unat (pd_index v) \<notin> {0}" using v by (simp add: pd_index_unat div_greater_zero_iff)
  have "bit (rd32 t 0x400) 0" "\<not> bit (rd32 t 0x400) 1" by (simp_all add: w(2) boot_word_def)
  from map_absent [OF w(1) d phys identity_low [OF pt_index_bound] this] obtain m where
    run: "paging_map v phys t = Inr ((), t\<lparr>alloced_frames := alloced_frames t + 1, mem := m\<rparr>)"
    and m: "mapped (insert (unat (pd_index v)) {0}) (identity(unat (pt_index v) := phys)) m"
    and same: "\<forall>x. 0x4000 \<le> unat x \<longrightarrow> m x = mem t x"
    by (auto simp: walks_def)
  have "identity (unat (pt_index w)) OR (w AND 0xFFF) = w AND 0x3FFFFF" for w
  proof (rule identity_page)
    have mask: "(0x3FFFFF :: u32) = mask 22" by (simp add: mask_eq_exp_minus_1)
    show "w AND 0xFFF = (w AND 0x3FFFFF) AND 0xFFF" by (simp add: and.assoc)
    have "unat (w AND 0x3FFFFF) = unat w mod 4194304"
      by (simp add: mask flip: take_bit_eq_mask) (simp add: take_bit_eq_mod unat_mod)
    then show "unat (pt_index w) = unat (w AND 0x3FFFFF) div 4096"
      using mod_mult2_eq [of "unat w" 4096 1024] by (simp add: pt_index_unat)
  qed
  then have "translate m 0x3000 w = (if pd_index w = 0 \<or> pd_index w = pd_index v
         then Some (if pt_index w = pt_index v then phys OR (w AND 0xFFF) else w AND 0x3FFFFF) else None)" for w
    using mapped_translate [OF m, of w] by (auto simp: u32_eq_unat)
  then show ?thesis using run same w(1) by (simp add: walks_def)
qed

lemma booted_paging_map_witness:
  "\<exists>t u. boot_done machine_env disk_machine t 0x200000 \<and> paging_map 0x8049000 0x8000 t = Inr ((), u)
    \<and> translate (mem u) (cr3 u) 0x8049123 = Some 0x8123 \<and> translate (mem u) (cr3 u) 0x49123 = Some 0x8123
    \<and> translate (mem u) (cr3 u) 0x8100000 = Some 0x100000"
proof -
  obtain t where t: "boot_done machine_env disk_machine t 0x200000" using disk_machine_boots by blast
  have i: "pd_index 0x8049000 = 0x20" "pt_index 0x8049000 = 0x49" "pd_index 0x8049123 = 0x20" "pt_index 0x8049123 = 0x49"
    "pd_index 0x49123 = 0" "pt_index 0x49123 = 0x49" "pd_index 0x8100000 = 0x20" "pt_index 0x8100000 = 0x100"
    by (simp_all add: pd_index_def pt_index_def drop_bit_eq_div)
  obtain u where "paging_map 0x8049000 0x8000 t = Inr ((), u)"
    "\<forall>w. translate (mem u) (cr3 u) w =
        (if pd_index w = 0 \<or> pd_index w = pd_index 0x8049000
         then Some (if pt_index w = pt_index 0x8049000 then 0x8000 OR (w AND 0xFFF) else w AND 0x3FFFFF) else None)"
    using booted_paging_map [OF t, of "0x8049000" "0x8000"] by auto
  then show ?thesis using t i by (intro exI [of _ t] exI [of _ u]) simp
qed

end
