(* ===== verification/Elf_Spec.thy ===== *)
theory Elf_Spec
  imports Paging_Spec Elf
begin

text \<open>
  The program loader after the boot: what memory holds, and where the processor finds it, when \<open>elf_stat\<close> jumps to
  the entry of a program.
\<close>

section \<open>Programs\<close>

definition program_headers :: "memory \<Rightarrow> u32 \<Rightarrow> ElfProgramHeader list" where
  "program_headers m buffer = (let h = get_elf_header m buffer
     in map (\<lambda>i. get_program_header m (buffer + e_phoff h + 32 * of_nat i)) [0..<unat (e_phnum h)])"

definition load_headers :: "memory \<Rightarrow> u32 \<Rightarrow> ElfProgramHeader list" where
  "load_headers m buffer = filter (\<lambda>h. p_type h = 1) (program_headers m buffer)"

text \<open>
  A segment of at most one page in the region \<open>d\<close> of 4 MiB, in a page whose index is that of a page of
  conventional memory the kernel does not use, and whose bytes are inside the file.
\<close>

definition small_segment :: "nat \<Rightarrow> u32 \<Rightarrow> ElfProgramHeader \<Rightarrow> bool" where
  "small_segment d sz h \<longleftrightarrow> unat (pd_index (p_vaddr h)) = d \<and> 16 \<le> unat (pt_index (p_vaddr h))
     \<and> unat (pt_index (p_vaddr h)) < 160 \<and> unat (p_vaddr h AND 0xFFF) + unat (p_filesz h) \<le> 4096
     \<and> unat (p_offset h) + unat (p_filesz h) \<le> unat sz"

definition small_program :: "nat \<Rightarrow> memory \<Rightarrow> u32 \<Rightarrow> u32 \<Rightarrow> bool" where
  "small_program d m buffer sz \<longleftrightarrow> elf_probe m buffer \<and> e_type (get_elf_header m buffer) = 2
     \<and> 52 \<le> unat sz \<and> 0x100000 \<le> unat buffer \<and> unat buffer + unat sz \<le> 0x400000
     \<and> unat (e_phoff (get_elf_header m buffer)) + 32 * unat (e_phnum (get_elf_header m buffer)) \<le> unat sz
     \<and> 0 < d \<and> list_all (small_segment d sz) (load_headers m buffer)"

text \<open>What the loader leaves in memory: every segment in the same frame, the later ones over the earlier ones.\<close>

definition load_image :: "u32 \<Rightarrow> ElfProgramHeader list \<Rightarrow> memory \<Rightarrow> memory" where
  "load_image buffer hs m =
     fold (\<lambda>h. copied (0x8000 + (p_vaddr h AND 0xFFF)) (buffer + p_offset h) (unat (p_filesz h))) hs m"

section \<open>Copying through the page tables\<close>

text \<open>The pages with an index in \<open>T\<close> go to the frame at \<open>0x8000\<close>; the region \<open>d\<close> is mapped once there is one.\<close>

definition loading :: "nat \<Rightarrow> nat set \<Rightarrow> 'a paging_scheme \<Rightarrow> bool" where
  "loading d T s \<longleftrightarrow> walks (if T = {} then {0} else {0, d}) (\<lambda>i. if i \<in> T then 0x8000 else identity i) s
     \<and> (T = {} \<longrightarrow> bit (rd32 s 0x400) 0 \<and> \<not> bit (rd32 s 0x400) 1)"

lemma loading_virt:
  assumes "loading d T s"
  shows "unat v < 0x400000 \<Longrightarrow> unat v div 4096 \<notin> T \<Longrightarrow> virt s v = Some v"
    and "unat (pd_index v) = d \<Longrightarrow> unat (pt_index v) \<in> T \<Longrightarrow> virt s v = Some (0x8000 + (v AND 0xFFF))"
proof -
  have vt: "virt s v = (if unat (pd_index v) \<in> (if T = {} then {0} else {0, d})
      then Some ((if unat (pt_index v) \<in> T then 0x8000 else identity (unat (pt_index v))) OR (v AND 0xFFF)) else None)"
    using assms mapped_translate [of "if T = {} then {0} else {0, d}" _ "mem s" v]
    by (auto simp: loading_def walks_def virt_def)
  show "virt s v = Some v" if "unat v < 0x400000" "unat v div 4096 \<notin> T"
  proof -
    have i: "unat (pd_index v) = 0" "unat (pt_index v) = unat v div 4096"
      using that by (simp_all add: pd_index_unat pt_index_unat)
    then show ?thesis using identity_page [of v v] that by (simp add: vt)
  qed
  have "0x8000 OR (v AND 0xFFF) = 0x8000 + (v AND 0xFFF)"
  proof -
    have "(0x8000 :: u32) = push_bit 15 1" by simp
    then show ?thesis by (subst disjunctive_add) (auto simp only: bit_simps mask_12)
  qed
  then show "virt s v = Some (0x8000 + (v AND 0xFFF))" if "unat (pd_index v) = d" "unat (pt_index v) \<in> T"
    using that by (auto simp: vt)
qed

lemma loading_local:
  assumes "loading d T s" and "\<And>x. unat x < 0x4000 \<Longrightarrow> m x = mem s x"
  shows "loading d T (s\<lparr>mem := m\<rparr>)"
proof -
  have "load32 m 0x400 = load32 (mem s) 0x400" by (rule c32.ld_local) (simp add: assms(2) in_span_unat)
  then show ?thesis using assms(1) walks_local [OF _ assms(2)] by (auto simp: loading_def)
qed

lemma loading_map:
  fixes s :: "'a paging_scheme"
  assumes l: "loading d T s" and d: "unat (pd_index v) = d" "0 < d"
  shows "\<exists>m c. paging_map v 0x8000 s = Inr ((), s\<lparr>alloced_frames := c, mem := m\<rparr>)
    \<and> loading d (insert (unat (pt_index v)) T) (s\<lparr>alloced_frames := c, mem := m\<rparr>)
    \<and> (\<forall>x. 0x4000 \<le> unat x \<longrightarrow> m x = mem s x)"
proof -
  define f where "f = (\<lambda>i. if i \<in> T then 0x8000 else identity i)"
  have f: "f(unat (pt_index v) := 0x8000) = (\<lambda>i. if i \<in> insert (unat (pt_index v)) T then 0x8000 else identity i)"
    by (auto simp: f_def)
  have old: "\<not> bit (f (unat (pt_index v))) 31" using identity_low [OF pt_index_bound] by (simp add: f_def bit_numeral_rec)
  have w: "walks (if T = {} then {0} else {0, d}) f s" using l by (simp add: loading_def f_def)
  show ?thesis
  proof (cases "T = {}")
    case True
    then have "walks {0} f s" "bit (rd32 s 0x400) 0" "\<not> bit (rd32 s 0x400) 1" "unat (pd_index v) \<notin> {0}"
      using w l d by (auto simp: loading_def)
    from map_absent [OF this(1,4) _ old this(2,3), of "0x8000"] obtain m where
      "paging_map v 0x8000 s = Inr ((), s\<lparr>alloced_frames := alloced_frames s + 1, mem := m\<rparr>)"
      "walks {d, 0} (f(unat (pt_index v) := 0x8000)) (s\<lparr>alloced_frames := alloced_frames s + 1, mem := m\<rparr>)"
      "\<forall>x. 0x4000 \<le> unat x \<longrightarrow> m x = mem s x" using d by auto
    then show ?thesis unfolding loading_def f [symmetric] by (auto simp: insert_commute)
  next
    case False
    then have "walks {0, d} f s" "unat (pd_index v) \<in> {0, d}" using w d by simp_all
    from map_present [OF this _ old, of "0x8000"] obtain m where
      "paging_map v 0x8000 s = Inr ((), s\<lparr>mem := m\<rparr>)" "walks {0, d} (f(unat (pt_index v) := 0x8000)) (s\<lparr>mem := m\<rparr>)"
      "\<forall>x. x \<notin> span (4 * pt_index v) 4 \<longrightarrow> m x = mem s x" by auto
    moreover have "x \<notin> span (4 * pt_index v) 4" if "0x4000 \<le> unat x" for x
      using entry_spans(1) [OF pt_index_bound [of v]] that by auto
    ultimately show ?thesis
      unfolding loading_def f [symmetric] by (intro exI [of _ m] exI [of _ "alloced_frames s"]) auto
  qed
qed

text \<open>The bytes of one page, from a source below 4 MiB whose pages have not been moved.\<close>

lemma same_page:
  assumes "unat (v AND 0xFFF) + k < 4096"
  shows "pd_index (v + of_nat k) = pd_index v" and "pt_index (v + of_nat k) = pt_index v"
    and "(v + of_nat k) AND 0xFFF = (v AND 0xFFF) + of_nat k"
proof -
  have low: "unat (w AND 0xFFF) = unat w mod 4096" for w :: u32
    unfolding mask_12 by (simp flip: take_bit_eq_mask) (simp add: take_bit_eq_mod unat_mod)
  have k: "unat (of_nat k :: u32) = k" using assms by (intro u32_of_nat_unat) simp
  obtain c r where v: "unat v = r + 4096 * c" "r < 4096"
    using mult_div_mod_eq [of 4096 "unat v"] mod_less_divisor [of 4096 "unat v"] by (metis add.commute zero_less_numeral)
  have rk: "r + k < 4096" using assms by (simp add: low v)
  have "4096 * c < 4096 * 1048576" using u32_bound [of v] v by linarith
  then have "unat v + k < 4294967296" using rk v by simp
  then have "unat (v + of_nat k) = (r + k) + 4096 * c" using u32_add_unat [of v "of_nat k"] k v by simp
  then have q: "unat (v + of_nat k) div 4096 = unat v div 4096" "unat (v + of_nat k) mod 4096 = unat v mod 4096 + k"
    using rk by (simp_all add: v)
  show "pt_index (v + of_nat k) = pt_index v" by (simp add: u32_eq_unat pt_index_unat q)
  have "n div 4194304 = n div 4096 div 1024" for n :: nat by (simp add: div_mult2_eq [symmetric])
  then show "pd_index (v + of_nat k) = pd_index v" by (simp add: u32_eq_unat pd_index_unat q)
  have "unat ((v AND 0xFFF) + of_nat k) = unat v mod 4096 + k"
    using u32_add_unat [of "v AND 0xFFF" "of_nat k"] low k assms by simp
  then show "(v + of_nat k) AND 0xFFF = (v AND 0xFFF) + of_nat k" by (simp add: u32_eq_unat low q)
qed

lemma copy_segment:
  fixes s :: "'a paging_scheme"
  assumes l: "loading d T s" and v: "unat (pd_index v) = d" "unat (pt_index v) \<in> T"
    and n: "unat (v AND 0xFFF) + n \<le> 4096" and T: "T \<subseteq> {..<256}"
    and src: "0x100000 \<le> unat src" "unat src + n \<le> 0x400000" and j: "j \<le> n"
  shows "memcpy_virt v src [j..<n] s
    = Inr ((), s\<lparr>mem := fold (copy_byte (0x8000 + (v AND 0xFFF)) src) [j..<n] (mem s)\<rparr>)"
  using l j
proof (induction "n - j" arbitrary: j s)
  case (Suc i)
  then have j: "j < n" by simp
  define q where "q = 0x8000 + (v AND 0xFFF) + of_nat j"
  define m where "m = (mem s)(q := mem s (src + of_nat j))"
  have us: "unat (src + of_nat j) = unat src + j"
    using u32_add_unat [of src "of_nat j"] u32_of_nat_unat [of j] src(2) j n by simp
  have "256 \<le> (unat src + j) div 4096" using src(1) by (simp add: less_eq_div_iff_mult_less_eq)
  then have "(unat src + j) div 4096 \<notin> T" using T by auto
  then have "virt s (src + of_nat j) = Some (src + of_nat j)"
    using loading_virt(1) [OF Suc.prems(1), of "src + of_nat j"] us src(2) j by simp
  moreover have "virt s (v + of_nat j) = Some q"
    using loading_virt(2) [OF Suc.prems(1), of "v + of_nat j"] same_page [of v j] v n j by (simp add: q_def add.assoc)
  moreover have "loading d T (s\<lparr>mem := m\<rparr>)"
  proof (rule loading_local [OF Suc.prems(1)])
    have "unat q = 0x8000 + (unat (v AND 0xFFF) + j)"
      using u32_add_unat [of "v AND 0xFFF" "of_nat j"] u32_add_unat [of "0x8000" "(v AND 0xFFF) + of_nat j"]
        u32_of_nat_unat [of j] j n by (simp add: q_def add.assoc)
    then show "m x = mem s x" if "unat x < 0x4000" for x using that by (auto simp: m_def)
  qed
  moreover have "[j..<n] = j # [Suc j..<n]" using j by (simp add: upt_conv_Cons)
  ultimately show ?case
    using Suc.hyps(1) [of "Suc j" "s\<lparr>mem := m\<rparr>"] Suc.hyps(2) j
    by (simp add: m_def copy_byte_def q_def)
qed simp

lemma frame_page:
  assumes "unat (v AND 0xFFF) + n \<le> 4096"
  shows "span (0x8000 + (v AND 0xFFF)) n \<subseteq> span 0x8000 4096"
  using assms by (intro span_sub) simp_all

lemma copy_segment_run:
  fixes s :: "'a paging_scheme"
  assumes l: "loading d T s" and v: "unat (pd_index v) = d" "unat (pt_index v) \<in> T"
    and n: "unat (v AND 0xFFF) + n \<le> 4096" and T: "T \<subseteq> {..<256}"
    and src: "0x100000 \<le> unat src" "unat src + n \<le> 0x400000"
  shows "memcpy_virt v src [0..<n] s = Inr ((), s\<lparr>mem := copied (0x8000 + (v AND 0xFFF)) src n (mem s)\<rparr>)"
proof -
  have "fold (copy_byte (0x8000 + (v AND 0xFFF)) src) [0..<n] (mem s) = copied (0x8000 + (v AND 0xFFF)) src n (mem s)"
  proof (rule forward_copy)
    fix i assume i: "i < n"
    have "unat (src + of_nat i) = unat src + i"
      using u32_add_unat [of src "of_nat i"] u32_of_nat_unat [of i] src(2) i n by simp
    then have "src + of_nat i \<notin> span 0x8000 4096" using src(1) by (simp add: in_span_unat)
    then show "src + of_nat i \<notin> span (0x8000 + (v AND 0xFFF)) i"
      using frame_page [of v n] n span_mono [of i n "0x8000 + (v AND 0xFFF)"] i by auto
  qed (use n in simp)
  then show ?thesis using copy_segment [OF l v n T src, of 0] by simp
qed

section \<open>The loop over the program headers\<close>

text \<open>What lies from 1 MiB on is read only: the loader writes to low memory.\<close>

lemma load_image_low:
  assumes "list_all (small_segment d sz) hs" and "0x9000 \<le> unat x"
  shows "load_image buffer hs m x = m x"
  using assms(1)
proof (induction hs arbitrary: m)
  case (Cons h hs)
  then have "span (0x8000 + (p_vaddr h AND 0xFFF)) (unat (p_filesz h)) \<subseteq> span 0x8000 4096"
    by (intro frame_page) (simp add: small_segment_def)
  moreover have "x \<notin> span 0x8000 4096" using assms(2) by (simp add: in_span_unat)
  ultimately have "x \<notin> span (0x8000 + (p_vaddr h AND 0xFFF)) (unat (p_filesz h))" by blast
  with Cons show ?case by (simp add: load_image_def copied_def)
qed (simp add: load_image_def)

lemma program_header_same:
  assumes "\<And>x. 0x100000 \<le> unat x \<Longrightarrow> m' x = m x" and "0x100000 \<le> unat a" and "unat a + 32 \<le> 4294967296"
  shows "get_program_header m' a = get_program_header m a"
proof -
  have "load32 m' (a + of_nat k) = load32 m (a + of_nat k)" if "k + 4 \<le> 32" for k
  proof (rule c32.ld_local)
    have "unat (a + of_nat k) = unat a + k"
      using u32_add_unat [of a "of_nat k"] u32_of_nat_unat [of k] that assms(3) by simp
    then show "m' x = m x" if "x \<in> span (a + of_nat k) 4" for x
      using that assms \<open>k + 4 \<le> 32\<close> by (intro assms(1)) (simp add: in_span_unat)
  qed
  from this [of 0] this [of 4] this [of 8] this [of 12] this [of 16] this [of 20] this [of 24] this [of 28]
  show ?thesis by (simp add: get_program_header_def)
qed

lemma elf_header_same:
  assumes "\<And>x. 0x100000 \<le> unat x \<Longrightarrow> m' x = m x" and "0x100000 \<le> unat a" and "unat a + 52 \<le> 4294967296"
  shows "get_elf_header m' a = get_elf_header m a"
proof -
  have u: "unat (a + of_nat k) = unat a + k" if "k \<le> 50" for k
    using u32_add_unat [of a "of_nat k"] u32_of_nat_unat [of k] that assms(3) by simp
  have same: "m' (a + of_nat k) = m (a + of_nat k)" if "k \<le> 50" for k
    using u [OF that] assms(2) by (intro assms(1)) simp
  have "load32 m' (a + of_nat k) = load32 m (a + of_nat k)" if "k \<le> 48" for k
    by (rule c32.ld_local, rule assms(1)) (use u [of k] that assms in \<open>simp add: in_span_unat\<close>)
  note w = this [of 20] this [of 24] this [of 28] this [of 32] this [of 36]
  have "load16 m' (a + of_nat k) = load16 m (a + of_nat k)" if "k \<le> 50" for k
    by (rule c16.ld_local, rule assms(1)) (use u [of k] that assms in \<open>simp add: in_span_unat\<close>)
  note h = this [of 16] this [of 18] this [of 40] this [of 42] this [of 44] this [of 46] this [of 48] this [of 50]
  have "get_bytes m' a 16 = get_bytes m a 16" using same by (simp add: get_bytes_def)
  then show ?thesis using w h by (simp add: get_elf_header_def)
qed

text \<open>Where two memories agree from \<open>0x4000\<close> on, so do the images loaded into them.\<close>

definition agree :: "memory \<Rightarrow> memory \<Rightarrow> bool" where
  "agree m m' \<longleftrightarrow> (\<forall>x. 0x4000 \<le> unat x \<longrightarrow> m x = m' x)"

lemma copied_agree:
  assumes "agree m m'" and "0x4000 \<le> unat src" and "unat src + n \<le> 4294967296"
  shows "agree (copied dst src n m) (copied dst src n m')"
proof -
  have "m (src + (x - dst)) = m' (src + (x - dst))" if "x \<in> span dst n" for x
  proof -
    have "unat (x - dst) < n" using that by (simp add: in_span)
    then have "unat (src + (x - dst)) = unat src + unat (x - dst)" using assms(3) by (intro u32_add_unat) simp
    then show ?thesis using assms(1,2) by (simp add: agree_def)
  qed
  then show ?thesis using assms(1) by (simp add: agree_def copied_def)
qed

text \<open>Where the file is, and the bytes of a segment in it.\<close>

definition file_at_buffer :: "u32 \<Rightarrow> u32 \<Rightarrow> bool" where
  "file_at_buffer buffer sz \<longleftrightarrow> 0x100000 \<le> unat buffer \<and> unat buffer + unat sz \<le> 0x400000"

lemma segment_source:
  assumes "file_at_buffer buffer sz" and "small_segment d sz h"
  shows "0x100000 \<le> unat (buffer + p_offset h)" "unat (buffer + p_offset h) + unat (p_filesz h) \<le> 0x400000"
  using assms u32_add_unat [of buffer "p_offset h"] by (simp_all add: file_at_buffer_def small_segment_def)

lemma load_image_agree:
  assumes "list_all (small_segment d sz) hs" and "file_at_buffer buffer sz" and "agree m m'"
  shows "agree (load_image buffer hs m) (load_image buffer hs m')"
  using assms(1,3)
proof (induction hs arbitrary: m m')
  case (Cons h hs)
  note src = segment_source [OF assms(2), of d h]
  have "agree (copied dst (buffer + p_offset h) (unat (p_filesz h)) m) (copied dst (buffer + p_offset h) (unat (p_filesz h)) m')" for dst
    using src Cons.prems by (intro copied_agree) simp_all
  with Cons show ?case by (simp add: load_image_def)
qed (simp add: load_image_def)

text \<open>One segment: its page is mapped to the frame, and its bytes are copied there.\<close>

lemma load_segment:
  fixes s :: "'a paging_scheme"
  assumes l: "loading d T s" "T \<subseteq> {..<256}" and d: "0 < d" and buf: "file_at_buffer buffer sz"
    and h: "small_segment d sz h" "\<And>m. (\<And>x. 0x4000 \<le> unat x \<Longrightarrow> m x = mem s x) \<Longrightarrow> get_program_header m ph = h"
  shows "\<exists>m c. and_then (paging_map (p_vaddr h) 0x8000 s) (\<lambda>_ s1.
        let h' = get_program_header (mem s1) ph
        in memcpy_virt (p_vaddr h') (buffer + p_offset h') [0..<unat (p_filesz h')] s1)
      = Inr ((), s\<lparr>alloced_frames := c, mem := m\<rparr>)
    \<and> loading d (insert (unat (pt_index (p_vaddr h))) T) (s\<lparr>alloced_frames := c, mem := m\<rparr>)
    \<and> agree m (load_image buffer [h] (mem s))"
proof -
  define T' where "T' = insert (unat (pt_index (p_vaddr h))) T"
  define dst where "dst = 0x8000 + (p_vaddr h AND 0xFFF)"
  obtain m c where m: "paging_map (p_vaddr h) 0x8000 s = Inr ((), s\<lparr>alloced_frames := c, mem := m\<rparr>)"
    "loading d T' (s\<lparr>alloced_frames := c, mem := m\<rparr>)" "\<forall>x. 0x4000 \<le> unat x \<longrightarrow> m x = mem s x"
    using loading_map [OF l(1), of "p_vaddr h"] h(1) d by (auto simp: small_segment_def T'_def)
  have n: "unat (p_vaddr h AND 0xFFF) + unat (p_filesz h) \<le> 4096" using h(1) by (simp add: small_segment_def)
  have "T' \<subseteq> {..<256}" using l(2) h(1) by (simp add: T'_def small_segment_def)
  note run = copy_segment_run [OF m(2) _ _ n this segment_source [OF buf h(1)]]
  have "memcpy_virt (p_vaddr h) (buffer + p_offset h) [0..<unat (p_filesz h)] (s\<lparr>alloced_frames := c, mem := m\<rparr>)
      = Inr ((), s\<lparr>alloced_frames := c, mem := copied dst (buffer + p_offset h) (unat (p_filesz h)) m\<rparr>)"
    using run h(1) by (simp add: small_segment_def T'_def dst_def)
  moreover have "loading d T' (s\<lparr>alloced_frames := c, mem := copied dst (buffer + p_offset h) (unat (p_filesz h)) m\<rparr>)"
  proof -
    have "copied dst (buffer + p_offset h) (unat (p_filesz h)) m x = m x" if "unat x < 0x4000" for x
      using frame_page [OF n] that by (auto simp: copied_def dst_def in_span_unat subset_eq)
    then show ?thesis using loading_local [OF m(2)] by simp
  qed
  moreover have "agree (copied dst (buffer + p_offset h) (unat (p_filesz h)) m) (load_image buffer [h] (mem s))"
    using copied_agree [of m "mem s" "buffer + p_offset h" "unat (p_filesz h)" dst] segment_source [OF buf h(1)] m(3)
    by (simp add: load_image_def dst_def agree_def)
  moreover have "get_program_header m ph = h" using m(3) by (intro h(2)) simp
  ultimately show ?thesis using m(1) unfolding T'_def [symmetric] by auto
qed

abbreviation loadable :: "ElfProgramHeader list \<Rightarrow> ElfProgramHeader list" where
  "loadable \<equiv> filter (\<lambda>h. p_type h = 1)"

abbreviation pages :: "ElfProgramHeader list \<Rightarrow> nat set" where
  "pages hs \<equiv> (\<lambda>h. unat (pt_index (p_vaddr h))) ` set hs"

lemma load_segments_run:
  fixes s :: "'a paging_scheme" and buffer ph0 sz :: u32
  assumes n: "n = unat (e_phnum (get_elf_header m0 buffer))" and j: "j \<le> n" and d: "0 < d"
    and buf: "file_at_buffer buffer sz" "52 \<le> unat sz"
    and ph: "0x100000 \<le> unat ph0" "unat ph0 + 32 * n \<le> 0x400000"
    and hs: "hs = map (\<lambda>i. get_program_header m0 (ph0 + 32 * of_nat i)) [j..<n]"
    and segs: "list_all (small_segment d sz) (loadable hs)"
    and l: "loading d T s" "T \<subseteq> {..<256}" and same: "\<And>x. 0x100000 \<le> unat x \<Longrightarrow> mem s x = m0 x"
  shows "\<exists>m c. load_segments buffer 0x8000 j (ph0 + 32 * of_nat j) s = Inr ((), s\<lparr>alloced_frames := c, mem := m\<rparr>)
    \<and> loading d (T \<union> pages (loadable hs)) (s\<lparr>alloced_frames := c, mem := m\<rparr>)
    \<and> agree m (load_image buffer (loadable hs) (mem s))"
  using j hs segs l same
proof (induction "n - j" arbitrary: j hs T s)
  case 0
  have "e_phnum (get_elf_header (mem s) buffer) = e_phnum (get_elf_header m0 buffer)"
    using elf_header_same [of "mem s" m0 buffer] 0 buf by (simp add: file_at_buffer_def)
  with 0 n have "load_segments buffer 0x8000 j (ph0 + 32 * of_nat j) s = Inr ((), s)"
    by (subst load_segments.simps) simp
  with 0 show ?case
    by (intro exI [of _ "mem s"] exI [of _ "alloced_frames s"]) (simp add: load_image_def agree_def)
next
  case (Suc k)
  then have j: "j < n" by simp
  define ph where "ph = ph0 + 32 * of_nat j"
  define h where "h = get_program_header m0 ph"
  define hs' where "hs' = map (\<lambda>i. get_program_header m0 (ph0 + 32 * of_nat i)) [Suc j..<n]"
  have hs: "hs = h # hs'" using Suc.prems(2) j by (simp add: upt_conv_Cons h_def hs'_def ph_def)
  have ph': "ph0 + 32 * of_nat (Suc j) = ph + 32" by (simp add: ph_def algebra_simps)
  have ub: "n < 65536" using n unsigned_less [of "e_phnum (get_elf_header m0 buffer)"] by simp
  have "unat (32 * of_nat j :: u32) = 32 * j" using u32_of_nat_unat [of "32 * j"] j ub by simp
  then have uph: "unat ph = unat ph0 + 32 * j" using u32_add_unat [of ph0 "32 * of_nat j"] ph j by (simp add: ph_def)
  have head: "get_program_header m ph = h" if "\<And>x. 0x100000 \<le> unat x \<Longrightarrow> m x = m0 x" for m
    unfolding h_def by (rule program_header_same) (use that uph ph j in simp_all)
  have num: "j < unat (e_phnum (get_elf_header (mem s) buffer))"
    using elf_header_same [of "mem s" m0 buffer] Suc.prems buf j n by (simp add: file_at_buffer_def)
  have run: "load_segments buffer 0x8000 j ph s =
      (if p_type h \<noteq> 1 then load_segments buffer 0x8000 (Suc j) (ph + 32) s
       else case and_then (paging_map (p_vaddr h) 0x8000 s) (\<lambda>_ s1.
          let h' = get_program_header (mem s1) ph
          in memcpy_virt (p_vaddr h') (buffer + p_offset h') [0..<unat (p_filesz h')] s1) of
         Inl e \<Rightarrow> Inl e | Inr (_, s2) \<Rightarrow> load_segments buffer 0x8000 (Suc j) (ph + 32) s2)"
    using num head [OF Suc.prems(6)] by (subst load_segments.simps) (simp add: Let_def)
  have rest: "k = n - Suc j" "Suc j \<le> n" using Suc.hyps(2) j by simp_all
  note IH = Suc.hyps(1) [OF rest hs'_def, unfolded ph']
  show ?case
  proof (cases "p_type h = 1")
    case False
    then have "loadable hs = loadable hs'" by (simp add: hs)
    with IH [OF _ Suc.prems(4-6)] Suc.prems(3) False run show ?thesis by (simp add: ph_def [symmetric])
  next
    case True
    have small: "small_segment d sz h" "list_all (small_segment d sz) (loadable hs')" using Suc.prems(3) True hs by simp_all
    define T' where "T' = insert (unat (pt_index (p_vaddr h))) T"
    obtain m c where m: "and_then (paging_map (p_vaddr h) 0x8000 s) (\<lambda>_ s1.
          let h' = get_program_header (mem s1) ph
          in memcpy_virt (p_vaddr h') (buffer + p_offset h') [0..<unat (p_filesz h')] s1)
        = Inr ((), s\<lparr>alloced_frames := c, mem := m\<rparr>)"
      "loading d T' (s\<lparr>alloced_frames := c, mem := m\<rparr>)" "agree m (load_image buffer [h] (mem s))"
      using load_segment [OF Suc.prems(4,5) d buf(1) small(1), of ph] head Suc.prems(6) by (auto simp: T'_def)
    have "m x = m0 x" if "0x100000 \<le> unat x" for x
      using m(3) load_image_low [of d sz "[h]" x buffer "mem s"] small(1) Suc.prems(6) that by (simp add: agree_def)
    moreover have "T' \<subseteq> {..<256}" using Suc.prems(5) small(1) by (simp add: T'_def small_segment_def)
    ultimately obtain m' c' where m': "load_segments buffer 0x8000 (Suc j) (ph + 32) (s\<lparr>alloced_frames := c, mem := m\<rparr>)
        = Inr ((), s\<lparr>alloced_frames := c', mem := m'\<rparr>)"
      "loading d (T' \<union> pages (loadable hs')) (s\<lparr>alloced_frames := c', mem := m'\<rparr>)"
      "agree m' (load_image buffer (loadable hs') m)"
      using IH [OF small(2) m(2)] by auto
    have "agree (load_image buffer (loadable hs') m) (load_image buffer (loadable hs) (mem s))"
      using load_image_agree [OF small(2) buf(1) m(3)] True hs by (simp add: load_image_def)
    with m' have "agree m' (load_image buffer (loadable hs) (mem s))" by (simp add: agree_def)
    moreover have "T' \<union> pages (loadable hs') = T \<union> pages (loadable hs)" using True hs by (auto simp: T'_def)
    ultimately show ?thesis using run True m(1) m' by (auto simp: ph_def [symmetric])
  qed
qed

section \<open>The loader after the boot\<close>

text \<open>
  The three frames \<open>elf_stat\<close> asks for: the first run of three is that of the frames 6 to 8, the search returns the
  last of them, and the frames 8 to 10 are marked.
\<close>

lemma boot_alloc_program:
  fixes s :: "'a frames_scheme"
  assumes fr: "frames s = 0x400" and n: "32 \<le> unat (frames_max s)" and w: "load32 (mem s) 0x400 = boot_word"
  shows "frame_alloc_ex 3 s = Inr (0x8000, s\<lparr>mem := store32 0x400 (boot_word OR 0x700) (mem s),
    alloced_frames := alloced_frames s + 3\<rparr>)"
proof -
  have "run_at (used (mem s) 0x400) 3 6" "\<forall>k \<in> {..<6}. \<not> run_at (used (mem s) 0x400) 3 k"
    by (auto simp: run_at_word w boot_word_def bit_numeral_rec numeral_3_eq_3 less_Suc_eq lessThan_nat_numeral lessThan_Suc
        numeral_eq_Suc)
  then have "frame_frist_free 3 s = 8"
    using frist_free_at [of 3 6 s] frames_total_32 [OF n] by (simp add: fr)
  then show ?thesis
    by (simp add: frame_alloc_ex_def Let_def frame_set_def fr upt_rec cells store_twice w FRAME_BLOCK_SIZE_def boot_word_def)
qed

text \<open>In any state with the address space of the boot.\<close>

lemma elf_runs:
  fixes t :: "'a paging_scheme"
  assumes pg: "paged t" and fr: "frames t = 0x400" "32 \<le> unat (frames_max t)"
    and prog: "small_program d (mem t) buffer n" and sz: "n \<le> sz"
  shows "\<exists>u. (\<exists>m c. u = t\<lparr>mem := m, alloced_frames := c\<rparr>) \<and> elf_stat code buffer sz t
      = and_then (code (e_entry (get_elf_header (mem t) buffer)) u) (\<lambda>r v. Inr (r, frame_free_ex 0x8000 3 v))
    \<and> (\<forall>x. 0x4000 \<le> unat x \<longrightarrow> mem u x = load_image buffer (load_headers (mem t) buffer) (mem t) x)
    \<and> (\<forall>h \<in> set (load_headers (mem t) buffer). \<forall>i < unat (p_filesz h).
        virt u (p_vaddr h + of_nat i) = Some (0x8000 + (p_vaddr h AND 0xFFF) + of_nat i))"
proof -
  define hd where "hd = get_elf_header (mem t) buffer"
  define hs where "hs = program_headers (mem t) buffer"
  note w = paged_walks [OF pg fr]
  define t1 where "t1 = t\<lparr>mem := store32 0x400 (boot_word OR 0x700) (mem t), alloced_frames := alloced_frames t + 3\<rparr>"
  note alloc = boot_alloc_program [OF fr w(2), folded t1_def]
  have "mapped {0} identity (mem t1)"
    using mapped_bitmap [of "{0}" identity "mem t" "0x700"] w by (simp add: walks_def t1_def)
  then have l: "loading d {} t1"
    using w(1) by (simp add: loading_def walks_def t1_def cells boot_word_def bit_numeral_rec numeral_eq_Suc)
  have same: "mem t1 x = mem t x" if "0x4000 \<le> unat x" for x
    using that by (simp add: t1_def c32.st_outside in_span_unat)
  have p: "52 \<le> unat n" "0x100000 \<le> unat buffer" "unat buffer + unat n \<le> 0x400000" "elf_probe (mem t) buffer"
    "e_type hd = 2" "unat (e_phoff hd) + 32 * unat (e_phnum hd) \<le> unat n" "0 < d"
    "list_all (small_segment d n) (loadable hs)"
    using prog by (simp_all add: small_program_def hd_def hs_def load_headers_def)
  have ph: "unat (buffer + e_phoff hd) = unat buffer + unat (e_phoff hd)" using p by (intro u32_add_unat) simp
  have buf: "file_at_buffer buffer n" using p by (simp add: file_at_buffer_def)
  have "\<exists>m c. load_segments buffer 0x8000 0 (buffer + e_phoff hd + 32 * of_nat 0) t1
      = Inr ((), t1\<lparr>alloced_frames := c, mem := m\<rparr>)
    \<and> loading d ({} \<union> pages (loadable hs)) (t1\<lparr>alloced_frames := c, mem := m\<rparr>)
    \<and> agree m (load_image buffer (loadable hs) (mem t1))"
    by (rule load_segments_run [where n = "unat (e_phnum hd)" and sz = n and ?m0.0 = "mem t"])
      (use p ph buf l same in \<open>simp_all add: hd_def hs_def program_headers_def Let_def\<close>)
  then obtain m c where m: "load_segments buffer 0x8000 0 (buffer + e_phoff hd) t1 = Inr ((), t1\<lparr>alloced_frames := c, mem := m\<rparr>)"
    "loading d (pages (loadable hs)) (t1\<lparr>alloced_frames := c, mem := m\<rparr>)"
    "agree m (load_image buffer (loadable hs) (mem t1))" by auto
  define u where "u = t1\<lparr>alloced_frames := c, mem := m\<rparr>"
  have "agree (mem t1) (mem t)" using same by (simp add: agree_def)
  from load_image_agree [OF p(8) buf this] m(3)
  have img: "mem u x = load_image buffer (loadable hs) (mem t) x" if "0x4000 \<le> unat x" for x
    using that by (simp add: agree_def u_def)
  have "get_elf_header (mem u) buffer = hd"
    unfolding hd_def using p img load_image_low [OF p(8)] by (intro elf_header_same) simp_all
  moreover have "\<not> sz < 4" using p(1) sz by (simp add: u32_less_unat u32_le_unat)
  ultimately have "elf_stat code buffer sz t
      = and_then (code (e_entry hd) u) (\<lambda>r v. Inr (r, frame_free_ex 0x8000 3 v))"
    using p alloc m(1) by (simp add: elf_stat_def hd_def [symmetric] u_def)
  moreover have "virt u (p_vaddr h + of_nat i) = Some (0x8000 + (p_vaddr h AND 0xFFF) + of_nat i)"
    if h: "h \<in> set (loadable hs)" and i: "i < unat (p_filesz h)" for h i
  proof -
    have seg: "small_segment d n h" using p(8) h by (simp add: list_all_iff)
    then have "unat (p_vaddr h AND 0xFFF) + i < 4096" using i by (simp add: small_segment_def)
    note page = same_page [OF this]
    show ?thesis
      using loading_virt(2) [OF m(2) [folded u_def], of "p_vaddr h + of_nat i"] seg h
      by (simp add: page small_segment_def add.assoc)
  qed
  moreover have "\<exists>m c. u = t\<lparr>mem := m, alloced_frames := c\<rparr>"
    unfolding u_def t1_def by (intro exI [of _ m] exI [of _ c]) simp
  ultimately show ?thesis using img by (intro exI [of _ u]) (simp add: hd_def hs_def load_headers_def)
qed

text \<open>
  C11. Running a program after the boot. For an ELF file whose segments are of one page each, all in one region of
  4 MiB, \<open>elf_stat\<close> gets to the entry of the program and gives back what it returns; there every address of
  every segment is mapped, each to the same frame at \<open>0x8000\<close>, and memory holds the segments one over the other:
  what two segments have at the same offset of their pages is that of the later one.
\<close>

theorem booted_elf_runs:
  fixes s t :: "'a kernel_scheme"
  assumes b: "boot_done k s t H" and prog: "small_program d (mem t) buffer sz"
  shows "\<exists>u. elf_stat code buffer sz t
      = and_then (code (e_entry (get_elf_header (mem t) buffer)) u) (\<lambda>r v. Inr (r, frame_free_ex 0x8000 3 v))
    \<and> (\<forall>x. 0x4000 \<le> unat x \<longrightarrow> mem u x = load_image buffer (load_headers (mem t) buffer) (mem t) x)
    \<and> (\<forall>h \<in> set (load_headers (mem t) buffer). \<forall>i < unat (p_filesz h).
        virt u (p_vaddr h + of_nat i) = Some (0x8000 + (p_vaddr h AND 0xFFF) + of_nat i))"
proof -
  have "paged t" "frames t = 0x400" "32 \<le> unat (frames_max t)" using b by (simp_all add: boot_done_def booted_def)
  from elf_runs [OF this prog order_refl, of code] show ?thesis by blast
qed

text \<open>The program of the sample machine: its second segment goes over the third byte of the first.\<close>

lemma sample_elf_byte:
  assumes b: "boot_done machine_env disk_machine t 0x200000" and x: "0x101000 \<le> x" "x < 0x101087"
  shows "mem t x = sample_elf ! unat (x - 0x101000)"
proof -
  have i: "unat (x - 0x101000) < 135"
    using x by (simp_all add: u32_diff_unat u32_le_unat u32_less_unat)
  have "x \<in> image 0x200000" using x by (simp add: image_def u32_le_unat u32_less_unat)
  then have "mem t x = mem disk_machine x"
    using b by (simp add: boot_done_def booted_def)
  also have "\<dots> = sample_elf ! unat (x - 0x101000)"
    using i by (simp add: disk_machine_def boot_machine_def place_def put_bytes_def in_span)
  finally show ?thesis .
qed

definition read_third :: "u32 \<Rightarrow> 'a paging_scheme \<Rightarrow> (u32, 'a paging_scheme) run" where
  "read_third entry s = (case virt s (entry + 2) of None \<Rightarrow> Inl Undefined | Some p \<Rightarrow> Inr (ucast (mem s p), s))"

lemma sample_headers:
  assumes byte: "\<forall>x. 0x101000 \<le> x \<and> x < 0x101087 \<longrightarrow> m x = sample_elf ! unat (x - 0x101000)"
  defines "eh \<equiv> get_elf_header m 0x101000"
  shows "elf_probe m 0x101000" "e_type eh = 2" "e_entry eh = 0x8049010" "e_phoff eh = 52" "e_phnum eh = 2"
    "load_headers m 0x101000 =
      [\<lparr>p_type = 1, p_offset = 0x80, p_vaddr = 0x8049010, p_paddr = 0, p_filesz = 6, p_memsz = 0, p_flags = 0, p_align = 0\<rparr>,
       \<lparr>p_type = 1, p_offset = 0x86, p_vaddr = 0x804A012, p_paddr = 0, p_filesz = 1, p_memsz = 0, p_flags = 0, p_align = 0\<rparr>]"
proof -
  note elf = byte [rule_format] sample_elf_def nth_append
  have e: "e_ident eh = map (\<lambda>i. m (0x101000 + of_nat i)) [0..<16]" by (simp add: eh_def get_elf_header_def get_bytes_def)
  show "elf_probe m 0x101000"
    by (simp add: elf_probe_def e [unfolded eh_def] target_sig_def upt_rec elf)
  show "e_type eh = 2" by (simp add: eh_def get_elf_header_def load16_def elf)
  show "e_entry eh = 0x8049010" by (simp add: eh_def get_elf_header_def load32_def elf)
  show ph: "e_phoff eh = 52" by (simp add: eh_def get_elf_header_def load32_def elf)
  show n: "e_phnum eh = 2" by (simp add: eh_def get_elf_header_def load16_def elf)
  show "load_headers m 0x101000 =
      [\<lparr>p_type = 1, p_offset = 0x80, p_vaddr = 0x8049010, p_paddr = 0, p_filesz = 6, p_memsz = 0, p_flags = 0, p_align = 0\<rparr>,
       \<lparr>p_type = 1, p_offset = 0x86, p_vaddr = 0x804A012, p_paddr = 0, p_filesz = 1, p_memsz = 0, p_flags = 0, p_align = 0\<rparr>]"
    by (simp add: load_headers_def program_headers_def Let_def ph [unfolded eh_def] n [unfolded eh_def] upt_rec
        get_program_header_def load32_def elf)
qed

lemma booted_elf_runs_witness:
  "\<exists>t w. boot_done machine_env disk_machine t 0x200000 \<and> mem t 0x101082 = 0
    \<and> elf_stat read_third 0x101000 0x1000 t = Inr (0x55, w)"
proof -
  obtain t where b: "boot_done machine_env disk_machine t 0x200000" using disk_machine_boots by blast
  have "\<forall>x. 0x101000 \<le> x \<and> x < 0x101087 \<longrightarrow> mem t x = sample_elf ! unat (x - 0x101000)"
    using sample_elf_byte [OF b] by simp
  note eh = sample_headers [OF this]
  have i: "pd_index 0x8049010 = 0x20" "pt_index 0x8049010 = 0x49" "pd_index 0x804A012 = 0x20" "pt_index 0x804A012 = 0x4A"
    by (simp_all add: pd_index_def pt_index_def drop_bit_eq_div)
  have "small_program 0x20 (mem t) 0x101000 0x1000"
    by (simp add: small_program_def eh small_segment_def i)
  from booted_elf_runs [OF b this, of read_third] obtain u where
    run: "elf_stat read_third 0x101000 0x1000 t
      = and_then (read_third 0x8049010 u) (\<lambda>r v. Inr (r, frame_free_ex 0x8000 3 v))"
    and img: "\<forall>x. 0x4000 \<le> unat x \<longrightarrow> mem u x = load_image 0x101000 (load_headers (mem t) 0x101000) (mem t) x"
    and virt: "\<forall>h \<in> set (load_headers (mem t) 0x101000). \<forall>i < unat (p_filesz h).
        virt u (p_vaddr h + of_nat i) = Some (0x8000 + (p_vaddr h AND 0xFFF) + of_nat i)"
    unfolding eh(3) by blast
  have byte: "mem t 0x101086 = 0x55" "mem t 0x101082 = 0"
    using sample_elf_byte [OF b, of "0x101086"] sample_elf_byte [OF b, of "0x101082"]
    by (simp_all add: sample_elf_def nth_append)
  have "virt u (0x8049010 + of_nat 2) = Some (0x8000 + (0x8049010 AND 0xFFF) + of_nat 2)"
    using virt unfolding eh(6) by (simp del: of_nat_numeral)
  then have "virt u 0x8049012 = Some 0x8012" by simp
  moreover have "mem u 0x8012 = 0x55"
    using img by (simp add: eh(6) load_image_def copied_def in_span byte)
  ultimately show ?thesis using b byte(2) run by (simp add: read_third_def) blast
qed

end
