(* ===== verification/Init_Spec.thy ===== *)
theory Init_Spec
  imports Elf_Spec
begin

text \<open>
  The program of the system, /BIN/INIT: read from the disk by the kernel after the boot, loaded and entered.
\<close>

unbundle bit_operations_syntax

section \<open>A file moved in memory\<close>

text \<open>What a file holds does not depend on where it lies.\<close>

lemma moved_byte:
  assumes "get_bytes m' p n = get_bytes m q n" and "i < n"
  shows "m' (p + of_nat i) = m (q + of_nat i)"
  using arg_cong [OF assms(1), of "\<lambda>xs. xs ! i"] assms(2) by (simp add: get_bytes_def)

lemma moved_cells:
  assumes "get_bytes m' p n = get_bytes m q n"
  shows "i + 4 \<le> n \<Longrightarrow> load32 m' (p + of_nat i) = load32 m (q + of_nat i)"
    and "i + 2 \<le> n \<Longrightarrow> load16 m' (p + of_nat i) = load16 m (q + of_nat i)"
proof -
  note byte = moved_byte [OF assms]
  show "load32 m' (p + of_nat i) = load32 m (q + of_nat i)" if "i + 4 \<le> n"
    using byte [of i] byte [of "i + 1"] byte [of "i + 2"] byte [of "i + 3"] that by (simp add: load32_def add_ac)
  show "load16 m' (p + of_nat i) = load16 m (q + of_nat i)" if "i + 2 \<le> n"
    using byte [of i] byte [of "i + 1"] that by (simp add: load16_def add_ac)
qed

lemma moved_elf_header:
  assumes eq: "get_bytes m' p n = get_bytes m q n" and "52 \<le> n"
  shows "get_elf_header m' p = get_elf_header m q"
proof -
  have "get_bytes m' p 16 = get_bytes m q 16" using moved_byte [OF eq] assms(2) by (simp add: get_bytes_def)
  moreover note w = moved_cells(1) [OF eq] and h = moved_cells(2) [OF eq]
  note w [of 20] w [of 24] w [of 28] w [of 32] w [of 36]
    h [of 16] h [of 18] h [of 40] h [of 42] h [of 44] h [of 46] h [of 48] h [of 50]
  ultimately show ?thesis using assms(2) by (simp add: get_elf_header_def)
qed

lemma moved_program_header:
  assumes eq: "get_bytes m' p n = get_bytes m q n" and "i + 32 \<le> n"
  shows "get_program_header m' (p + of_nat i) = get_program_header m (q + of_nat i)"
proof -
  have "load32 m' (p + of_nat i + of_nat j) = load32 m (q + of_nat i + of_nat j)" if "j + 4 \<le> 32" for j
    using moved_cells(1) [OF eq, of "i + j"] assms(2) that by (simp add: add_ac)
  from this [of 0] this [of 4] this [of 8] this [of 12] this [of 16] this [of 20] this [of 24] this [of 28]
  show ?thesis by (simp add: get_program_header_def)
qed

lemma moved_program:
  assumes eq: "get_bytes m' p (unat n) = get_bytes m q (unat n)" and prog: "small_program d m q n"
  shows "load_headers m' p = load_headers m q"
    and "0x100000 \<le> unat p \<Longrightarrow> unat p + unat n \<le> 0x400000 \<Longrightarrow> small_program d m' p n"
proof -
  define h where "h = get_elf_header m q"
  have n: "52 \<le> unat n" and ph: "unat (e_phoff h) + 32 * unat (e_phnum h) \<le> unat n"
    using prog by (simp_all add: small_program_def h_def)
  have head: "get_elf_header m' p = h" using moved_elf_header [OF eq n] by (simp add: h_def)
  have "get_program_header m' (p + e_phoff h + 32 * of_nat i) = get_program_header m (q + e_phoff h + 32 * of_nat i)"
    if "i < unat (e_phnum h)" for i
    using moved_program_header [OF eq, of "unat (e_phoff h) + 32 * i"] ph that by (simp add: add_ac)
  then have "program_headers m' p = program_headers m q"
    by (simp add: program_headers_def head h_def [symmetric] Let_def)
  then show headers: "load_headers m' p = load_headers m q" by (simp add: load_headers_def)
  have "elf_probe m' p = elf_probe m q" by (simp add: elf_probe_def head h_def [symmetric])
  then show "small_program d m' p n" if "0x100000 \<le> unat p" "unat p + unat n \<le> 0x400000"
    using prog that by (simp add: small_program_def head h_def [symmetric] headers)
qed

lemma moved_image:
  assumes eq: "get_bytes m' p (unat n) = get_bytes m q (unat n)" and segs: "list_all (small_segment d n) hs"
    and page: "\<And>x. x \<in> span 0x8000 4096 \<Longrightarrow> m' x = m x" and x: "x \<in> span 0x8000 4096"
    and apart: "span p (unat n) \<inter> span 0x8000 4096 = {}" "span q (unat n) \<inter> span 0x8000 4096 = {}"
  shows "load_image p hs m' x = load_image q hs m x"
  using eq segs page
proof (induction hs arbitrary: m m')
  case (Cons h hs)
  define dst l where "dst = 0x8000 + (p_vaddr h AND 0xFFF)" and "l = unat (p_filesz h)"
  have seg: "unat (p_offset h) + l \<le> unat n" and sub: "span dst l \<subseteq> span 0x8000 4096"
    using Cons.prems(2) frame_page [of "p_vaddr h"] by (simp_all add: small_segment_def dst_def l_def)
  have same: "get_bytes (copied dst (a + p_offset h) l m0) a (unat n) = get_bytes m0 a (unat n)"
    if "span a (unat n) \<inter> span 0x8000 4096 = {}" for a m0
  proof (rule get_bytes_local)
    fix y assume "y \<in> span a (unat n)"
    then have "y \<notin> span dst l" using that sub by blast
    then show "copied dst (a + p_offset h) l m0 y = m0 y" by (simp add: copied_def)
  qed (use u32_bound [of n] in simp)
  have "get_bytes (copied dst (p + p_offset h) l m') p (unat n) = get_bytes (copied dst (q + p_offset h) l m) q (unat n)"
    using same apart Cons.prems(1) by simp
  moreover have "copied dst (p + p_offset h) l m' y = copied dst (q + p_offset h) l m y" if "y \<in> span 0x8000 4096" for y
  proof (cases "y \<in> span dst l")
    case True
    then have "unat (y - dst) < l" by (simp add: in_span)
    then have "unat (p_offset h) + unat (y - dst) < unat n" using seg by simp
    from moved_byte [OF Cons.prems(1) this] True show ?thesis by (simp add: copied_def add_ac)
  qed (use that Cons.prems(3) in \<open>simp add: copied_def\<close>)
  ultimately have "load_image p hs (copied dst (p + p_offset h) l m') x = load_image q hs (copied dst (q + p_offset h) l m) x"
    using Cons.IH Cons.prems(2) by simp
  then show ?case by (simp add: load_image_def dst_def l_def)
qed (use x in \<open>simp add: load_image_def\<close>)

section \<open>A file into an area of its own\<close>

lemma live_end:
  assumes inv: "heap_inv base s bs" and p: "(p, l) \<in> live bs"
  shows "unat p + unat l \<le> unat (curr_addr s)"
proof -
  have ld: "laid (fst base) bs (unat (curr_addr s))" and hi: "unat (curr_addr s) \<le> 2147483648"
    using inv by (simp_all add: heap_inv_def)
  obtain b where b: "b \<in> set bs" "p = b_addr b + 16" "l = b_size b" using p by (auto simp: live_def)
  have e: "bend b \<le> unat (curr_addr s)" using laid_in [OF ld b(1)] by simp
  then have "unat p = unat (b_addr b) + 16"
    using hi unfolding b(2) by (intro u32_add_numeral_unat) (simp add: bend_def)
  then show ?thesis using e b(3) by (simp add: bend_def)
qed

lemma load_file:
  fixes s :: "'a vfs_scheme" and d
  assumes at: "fs_at d base s bs" and ready: "files_ready k drv A s" "A \<subseteq> usable base bs"
    and room: "alloc_cost n + 4 * (length (joined xs) + 18) + 2592 + 2 * path_cost xs
      + 2048 * unat (SectorsPerCluster (disk_bpb d)) \<le> heap_space s"
    and path: "string_in A (mem s) path (0x2F # joined xs)" "\<not> prefix (lit ''DEV/'') (joined xs)"
    and name: "\<forall>x \<in> set xs. component x" "length (joined xs) < 55"
    and found: "walk d (root_dir d) xs = Some e"
    and env: "length (stack_junk k) = 55" "fn_fat_file_read k \<noteq> 0"
    and geometry: "BytesPerSector (disk_bpb d) = 512" "SectorsPerCluster (disk_bpb d) \<noteq> 0"
    and cls: "chain (disk_bpb d) d (fe_starting_cluster e) cls"
    and w: "w = written (unat n) 0 (map (cluster_data (disk_bpb d) d) cls)" "length w \<le> unat n"
  shows "\<exists>p l s1 f s2 s3 t bs'. malloc n s = Inr (p, s1) \<and> fopen k path s1 = Inr (f, s2) \<and> f \<noteq> 0
    \<and> vread (call_read k) f 0 n p s2 = Inr (0, s3) \<and> fclose f s3 = Inr (- 1, t)
    \<and> heap_inv base t bs' \<and> live bs' = insert (p, l) (live bs) \<and> (p, l) \<notin> live bs \<and> file_io False s t
    \<and> span p (unat n) \<inter> usable base bs = {} \<and> unat p + unat n \<le> unat (curr_addr s) + alloc_cost n
    \<and> get_bytes (mem t) p (length w) = w \<and> (\<forall>x \<in> usable base bs. mem t x = mem s x)"
proof -
  have "alloc_cost n \<le> heap_space s" using room by simp
  then obtain p l s1 bs1 where M: "malloc n s = Inr (p, s1)" "fs_at d base s1 bs1" "n \<le> l"
    "live bs1 = insert (p, l) (live bs)" "(p, l) \<notin> live bs" "span p (unat l) \<inter> usable base bs = {}"
    "fs_keeps base (alloc_cost n) s bs s1 bs1" "heap_only s s1"
    using fs_alloc [OF at] by blast
  have sub: "live bs \<subseteq> live bs1" and area: "(p, l) \<in> live bs1" using M(4) by auto
  note U = usable_mono [OF sub, of base] usable_area [OF area, of base]
  have same: "mem s1 x = mem s x" if "x \<in> usable base bs" for x using M(7) U(1) that by (auto simp: fs_keeps_def)
  have io1: "file_io False s s1" using file_io_malloc [of False s n] M(1) by simp
  have ready1: "files_ready k drv (usable base bs) s1" "files_ready k drv (usable base bs1) s1"
    using files_ready_frame [OF ready] files_ready_frame [OF ready(1) subset_trans [OF ready(2) U(1)]] ready(2) same io1
    by (auto simp: file_io_def)
  have path1: "string_in (usable base bs1) (mem s1) path (0x2F # joined xs)"
    by (rule string_in_mono [OF string_in_frame [OF path(1)]]) (use ready(2) same U(1) in auto)
  have area_n: "span p (unat n) \<subseteq> span p (unat l)" by (rule span_mono) (use M(3) in \<open>simp add: u32_le_unat\<close>)
  have area_w: "span p (length w) \<subseteq> span p (unat n)" by (rule span_mono [OF w(2)])
  have "span drv 88 \<subseteq> usable base bs" using ready1(1) by (simp add: files_ready_def fat_mounted_def)
  then have dst: "span p (length w) \<subseteq> usable base bs1" "span p (length w) \<inter> span drv 88 = {}"
    using area_w area_n U(2) M(6) by blast+
  have room1: "4 * (length (joined xs) + 18) + 2592 + 2 * path_cost xs + 2048 * unat (SectorsPerCluster (disk_bpb d)) \<le> heap_space s1"
    using room M(7) by (simp add: fs_keeps_def)
  have short: "length w < 4294967296" using w(2) u32_bound [of n] by simp
  obtain f s2 s3 t bs' where R: "fopen k path s1 = Inr (f, s2)" "f \<noteq> 0" "vread (call_read k) f 0 n p s2 = Inr (0, s3)"
    "fclose f s3 = Inr (- 1, t)" "heap_inv base t bs'" "live bs' = live bs1"
    "\<forall>x \<in> usable base bs1. mem t x = put_bytes p w (mem s1) x"
    using ready_read [OF M(2) ready1(2) room1 path1 path(2) opens_path [OF found name geometry(1)] env geometry cls w(1) short dst]
    by blast
  have io: "file_io False s t"
    using file_io_open [of s1 k path] file_io_call_read [of s2 k f 0 n p] file_io_close [of False s3 f] R(1,3,4) io1
    by (auto intro: file_io.R_trans)
  have "mem t x = mem s x" if "x \<in> usable base bs" for x
  proof -
    have "x \<notin> span p (length w)" "x \<in> usable base bs1" using that M(6) U(1) area_w area_n by blast+
    then show ?thesis using R(7) same [OF that] put_bytes_outside by simp
  qed
  moreover have "get_bytes (mem t) p (length w) = w"
  proof -
    have "get_bytes (mem t) p (length w) = get_bytes (put_bytes p w (mem s1)) p (length w)"
      by (rule get_bytes_local) (use R(7) dst(1) short in auto)
    then show ?thesis using get_put_bytes [of w p "mem s1"] short by simp
  qed
  moreover have "unat p + unat n \<le> unat (curr_addr s) + alloc_cost n"
  proof -
    have inv: "heap_inv base s bs" "heap_inv base s1 bs1" using at M(2) by (simp_all add: fs_at_def)
    have "unat p + unat l \<le> unat (curr_addr s1)" by (rule live_end [OF inv(2) area])
    moreover have "unat (curr_addr s) \<le> 2147483648" "unat (curr_addr s1) \<le> 2147483648"
      using inv by (simp_all add: heap_inv_def)
    moreover have "unat n \<le> unat l" using M(3) by (simp add: u32_le_unat)
    moreover have "heap_space s \<le> heap_space s1 + alloc_cost n" using M(7) by (simp only: fs_keeps_def)
    ultimately show ?thesis unfolding heap_space_def by linarith
  qed
  moreover have "span p (unat n) \<inter> usable base bs = {}" using area_n M(6) by blast
  ultimately show ?thesis using M(1,4,5) R(1-6) io
    by (intro exI [of _ p] exI [of _ l] exI [of _ s1] exI [of _ f] exI [of _ s2] exI [of _ s3] exI [of _ t] exI [of _ bs']) simp
qed

section \<open>The state after a line of output\<close>

lemma boot_printed:
  fixes s t u :: "'a kernel_scheme"
  assumes b: "boot_done k s t H" and link: "linked_apart k" and d: "disk_holds d s" and out: "term_only t u"
  shows "fs_at d (boot_base H) u (walled_blocks H)" and "files_ready k (H + 0x2050) (boot_kept H) u"
    and "curr_addr u = curr_addr t" and "paged u" and "frames u = 0x400" "32 \<le> unat (frames_max u)"
    and "x \<in> boot_kept H \<Longrightarrow> mem u x = mem t x"
proof -
  note f = boot_facts [OF b] and c = calm_term [OF out]
  note g = calm_kernel [OF c(1)]
  have same: "mem u x = mem t x" if "x \<notin> vga_span" for x using out that by (simp add: term_only_def)
  show kept: "mem u x = mem t x" if "x \<in> boot_kept H" for x using same that by (simp add: boot_kept_def)
  have vga: "vga_span \<subseteq> usable (boot_base H) (walled_blocks H)"
    using f(2) by (auto simp: usable_def off_heap_def boot_base_def vga_span_unat heap_start_def)
  have "heap_inv (boot_base H) u (walled_blocks H)" by (rule heap_keep [OF f(1) c(2-4)]) (use same vga in blast)
  moreover have "serves d u"
    by (rule serves_frame [OF booted_serves [OF b d]]) (simp_all add: calm_fields [OF c(1)] g)
  ultimately show "fs_at d (boot_base H) u (walled_blocks H)" by (simp add: fs_at_def)
  show "files_ready k (H + 0x2050) (boot_kept H) u"
    by (rule files_ready_frame [OF boot_ready [OF b link] order_refl kept]) (simp_all add: g)
  show "curr_addr u = curr_addr t" by (rule c(2))
  have "mem u x = mem t x" if "unat x < 0x4000" for x using that by (intro same) (simp add: vga_span_unat)
  then show "paged u" using b by (simp add: boot_done_def booted_def paged_def g)
  show "frames u = 0x400" "32 \<le> unat (frames_max u)" using b by (simp_all add: boot_done_def booted_def g)
qed

section \<open>Starting the program\<close>

lemma and_then_assoc: "and_then (and_then r f) g = and_then r (\<lambda>x s. and_then (f x s) g)"
  by (simp add: and_then_def split: sum.split)

text \<open>A file and the program in it, wherever the file lies.\<close>

definition file_image :: "u8 list \<Rightarrow> memory" where
  "file_image w = put_bytes 0x101000 w (\<lambda>_. 0)"

definition program_file :: "nat \<Rightarrow> u8 list \<Rightarrow> bool" where
  "program_file d w \<longleftrightarrow> small_program d (file_image w) 0x101000 (of_nat (length w))"

definition file_entry :: "u8 list \<Rightarrow> u32" where
  "file_entry w = e_entry (get_elf_header (file_image w) 0x101000)"

definition file_segments :: "u8 list \<Rightarrow> ElfProgramHeader list" where
  "file_segments w = load_headers (file_image w) 0x101000"

lemma file_at_place:
  assumes prog: "program_file d w" and len: "length w \<le> 0x1000" and at: "get_bytes m p (length w) = w"
    and place: "0x100000 \<le> unat p" "unat p + 0x1000 \<le> 0x400000"
  shows "small_program d m p (of_nat (length w))" and "e_entry (get_elf_header m p) = file_entry w"
    and "load_headers m p = file_segments w"
    and "x \<in> span 0x8000 4096 \<Longrightarrow> \<forall>y \<in> span 0x8000 4096. m y = m0 y
      \<Longrightarrow> load_image p (file_segments w) m x = load_image 0x101000 (file_segments w) (put_bytes 0x101000 w m0) x"
proof -
  have n: "unat (of_nat (length w) :: u32) = length w" using len by (intro u32_of_nat_unat) simp
  have eq: "get_bytes m p (unat (of_nat (length w) :: u32)) = get_bytes (file_image w) 0x101000 (unat (of_nat (length w) :: u32))"
    unfolding n using at get_put_bytes [of w "0x101000" "\<lambda>_. 0"] len by (simp add: file_image_def)
  note prog' = prog [unfolded program_file_def]
  show sp: "small_program d m p (of_nat (length w))"
    by (rule moved_program(2) [OF eq prog']) (use place len n in simp_all)
  show "load_headers m p = file_segments w" unfolding file_segments_def by (rule moved_program(1) [OF eq prog'])
  have "52 \<le> unat (of_nat (length w) :: u32)" using prog' by (simp add: small_program_def)
  then show "e_entry (get_elf_header m p) = file_entry w" unfolding file_entry_def by (simp add: moved_elf_header [OF eq])
  assume x: "x \<in> span 0x8000 4096" and m0: "\<forall>y \<in> span 0x8000 4096. m y = m0 y"
  have segs: "list_all (small_segment d (of_nat (length w))) (file_segments w)"
    using prog' by (simp add: small_program_def file_segments_def)
  show "load_image p (file_segments w) m x = load_image 0x101000 (file_segments w) (put_bytes 0x101000 w m0) x"
  proof (rule moved_image [OF _ segs _ x])
    show "get_bytes m p (unat (of_nat (length w) :: u32)) = get_bytes (put_bytes 0x101000 w m0) 0x101000 (unat (of_nat (length w) :: u32))"
      unfolding n using at get_put_bytes [of w "0x101000" m0] len by simp
    have far: "span q (length w) \<inter> span 0x8000 4096 = {}" if "0x100000 \<le> unat q" "unat q + 0x1000 \<le> 0x400000" for q :: u32
      using that len by (auto simp: in_span_unat)
    show "span p (unat (of_nat (length w) :: u32)) \<inter> span 0x8000 4096 = {}" unfolding n by (rule far) (use place in simp_all)
    show "span 0x101000 (unat (of_nat (length w) :: u32)) \<inter> span 0x8000 4096 = {}" unfolding n by (rule far) simp_all
    show "m y = put_bytes 0x101000 w m0 y" if "y \<in> span 0x8000 4096" for y
    proof -
      have "y \<notin> span 0x101000 (length w)" using that far [of "0x101000"] by auto
      then show ?thesis using that m0 put_bytes_outside by simp
    qed
  qed
qed

text \<open>
  C3. The program of the system. On the booted kernel the command init reads /BIN/INIT from the disk and gets to the
  entry of the program in it, for a file of at most 4096 bytes whose segments are of one page each: there the frame
  at \<open>0x8000\<close> holds the segments, one over the other, every address of every segment is mapped to it, what the
  kernel relies on is as it was, and the heap has the areas it had and the one with the file. What the program
  returns is printed, its frames and the file are given back.
\<close>

theorem booted_init_runs:
  fixes s t :: "'a kernel_scheme" and d
  assumes b: "boot_done k s t H" and link: "linked_apart k" and d: "disk_holds d s"
    and path: "string_in (image (unat H)) (mem s) (str_bin_init k) (lit ''/BIN/INIT'')"
    and found: "walk d (root_dir d) [lit ''BIN'', lit ''INIT''] = Some e"
    and geometry: "BytesPerSector (disk_bpb d) = 512" "SectorsPerCluster (disk_bpb d) \<noteq> 0"
    and cls: "chain (disk_bpb d) d (fe_starting_cluster e) cls"
    and w: "w = written 0x1000 0 (map (cluster_data (disk_bpb d) d) cls)" "length w \<le> 0x1000"
    and prog: "program_file r w"
  shows "\<exists>p l u bs. runinit_prog k out t
      = and_then (run_code out (file_entry w) u) (\<lambda>status v.
        and_then (term_printf ''\<newline>Init returned: %x!\<newline>'' [VWord status] (frame_free_ex 0x8000 3 v)) (\<lambda>_. free p))
    \<and> (\<forall>x \<in> span 0x8000 4096. mem u x = load_image 0x101000 (file_segments w) (put_bytes 0x101000 w (mem t)) x)
    \<and> (\<forall>h \<in> set (file_segments w). \<forall>i < unat (p_filesz h).
        virt u (p_vaddr h + of_nat i) = Some (0x8000 + (p_vaddr h AND 0xFFF) + of_nat i))
    \<and> (\<forall>x \<in> boot_kept H. 0x9000 \<le> unat x \<longrightarrow> mem u x = mem t x)
    \<and> heap_inv (boot_base H) u bs \<and> live bs = insert (p, l) (live (walled_blocks H))"
proof -
  define xs where "xs = [lit ''BIN'', lit ''INIT'']"
  define t1 where "t1 = write_lit ''Starting /BIN/INIT!\<newline>'' t"
  note f = boot_facts [OF b]
  have ok: "term_ok t" and brk: "unat (curr_addr t) = unat H + 0x7880" and low: "0x100000 \<le> unat H" "unat H + 0x10000 \<le> 0x400000"
    using b by (auto simp: boot_done_def booted_def loaded_def)
  have below: "x \<in> boot_areas H" if "unat x < 0x100000" for x
  proof -
    have "x \<in> {x. unat x < unat H}" using that low(1) by simp
    then show ?thesis using boot_areas(6) by blast
  qed
  have out1: "term_only t t1" using write_lit_run [OF ok] by (simp add: t1_def)
  note q = boot_printed [OF b link d out1]
  have xs: "\<forall>x \<in> set xs. component x" "length (joined xs) < 55" "\<not> prefix (lit ''DEV/'') (joined xs)"
    "0x2F # joined xs = lit ''/BIN/INIT''"
    by (simp_all add: xs_def component_def lit_def)
  have str: "string_in (boot_kept H) (mem t1) (str_bin_init k) (0x2F # joined xs)"
    unfolding xs(4) by (rule string_in_frame [OF boot_string(1) [OF b path] q(7)])
  have "unat (SectorsPerCluster (disk_bpb d)) < 256" by (rule less_le_trans [OF unsigned_less]) simp
  moreover have "heap_space t1 = heap_space t" using q(3) by (simp add: heap_space_def)
  ultimately have room: "alloc_cost 0x1000 + 4 * (length (joined xs) + 18) + 2592 + 2 * path_cost xs
      + 2048 * unat (SectorsPerCluster (disk_bpb d)) \<le> heap_space t1"
    using f(8) xs(2) path_cost_le [OF xs(1,2)] by (simp add: alloc_cost_def)
  have env: "length (stack_junk k) = 55" "fn_fat_file_read k \<noteq> 0"
    using f(9) link by (auto simp: junk_ok_def linked_apart_def callbacks_def)
  have w': "w = written (unat (0x1000 :: u32)) 0 (map (cluster_data (disk_bpb d) d) cls)" "length w \<le> unat (0x1000 :: u32)"
    using w by simp_all
  obtain p l s1 g s2 s3 y bs where L: "malloc 0x1000 t1 = Inr (p, s1)" "fopen k (str_bin_init k) s1 = Inr (g, s2)" "g \<noteq> 0"
    "vread (call_read k) g 0 0x1000 p s2 = Inr (0, s3)" "fclose g s3 = Inr (- 1, y)"
    "heap_inv (boot_base H) y bs" "live bs = insert (p, l) (live (walled_blocks H))" "file_io False t1 y"
    "span p (unat (0x1000 :: u32)) \<inter> boot_areas H = {}" "unat p + unat (0x1000 :: u32) \<le> unat (curr_addr t1) + alloc_cost 0x1000"
    "get_bytes (mem y) p (length w) = w" "\<forall>x \<in> boot_areas H. mem y x = mem t1 x"
    using load_file [OF q(1,2), folded boot_areas_def, OF boot_kept_areas room str xs(3,1,2) found [folded xs_def] env geometry cls w']
    by (elim exE conjE) (rule that)
  have place: "0x100000 \<le> unat p" "unat p + 0x1000 \<le> 0x400000"
  proof -
    have "p \<in> span p (unat (0x1000 :: u32))" by (simp add: in_span)
    then have "p \<notin> boot_areas H" using L(9) by blast
    then show "0x100000 \<le> unat p" using below [of p] by fastforce
    show "unat p + 0x1000 \<le> 0x400000" using L(10) q(3) brk low(2) by (simp add: alloc_cost_def)
  qed
  note placed = file_at_place [OF prog w(2) L(11) place]
  have "mem y x = mem t1 x" if "unat x < 0x4000" for x
    using L(12) below [of x] that by simp
  then have pg: "paged y" "frames y = 0x400" "32 \<le> unat (frames_max y)"
    using q(4-6) L(8) by (simp_all add: paged_def file_io_def)
  have "(of_nat (length w) :: u32) \<le> 0x1000" using w(2) u32_of_nat_unat [of "length w"] by (simp add: u32_le_unat)
  from elf_runs [OF pg placed(1) this, of "run_code out"] obtain u m c where U: "u = y\<lparr>mem := m, alloced_frames := c\<rparr>"
    "elf_stat (run_code out) p 0x1000 y = and_then (run_code out (file_entry w) u) (\<lambda>r v. Inr (r, frame_free_ex 0x8000 3 v))"
    "\<forall>x. 0x4000 \<le> unat x \<longrightarrow> mem u x = load_image p (file_segments w) (mem y) x"
    "\<forall>h \<in> set (file_segments w). \<forall>i < unat (p_filesz h).
      virt u (p_vaddr h + of_nat i) = Some (0x8000 + (p_vaddr h AND 0xFFF) + of_nat i)"
    unfolding placed(2,3) by blast
  have segs: "list_all (small_segment r (of_nat (length w))) (file_segments w)"
    using prog by (simp add: program_file_def small_program_def file_segments_def)
  have high: "mem u x = mem y x" if "0x9000 \<le> unat x" for x
    using U(3) load_image_low [OF segs that] that by simp
  have same: "mem y x = mem t x" if "x \<in> boot_kept H" for x
    using L(12) q(7) [OF that] boot_kept_areas [of H] that by auto
  have page: "x \<in> boot_kept H" if "x \<in> span 0x8000 4096" for x
  proof -
    have "unat x < 0x9000" using that by (simp add: in_span_unat)
    then show ?thesis using below [of x] by (simp add: boot_kept_def vga_span_unat)
  qed
  have "mem u x = load_image 0x101000 (file_segments w) (put_bytes 0x101000 w (mem t)) x" if "x \<in> span 0x8000 4096" for x
    using U(3) placed(4) [OF that, of "mem t"] same page that by (simp add: in_span_unat)
  moreover have "mem u x = mem t x" if "x \<in> boot_kept H" "0x9000 \<le> unat x" for x
    using high [OF that(2)] same [OF that(1)] by simp
  moreover have "heap_inv (boot_base H) u bs"
  proof (rule heap_keep [OF L(6)])
    fix x assume "x \<notin> usable (boot_base H) bs"
    then have "0x9000 \<le> unat x" using low(1) by (simp add: usable_def off_heap_def boot_base_def)
    then show "mem u x = mem y x" by (rule high)
  qed (simp_all add: U(1))
  moreover have "runinit_prog k out t
      = and_then (run_code out (file_entry w) u) (\<lambda>status v.
        and_then (term_printf ''\<newline>Init returned: %x!\<newline>'' [VWord status] (frame_free_ex 0x8000 3 v)) (\<lambda>_. free p))"
    using L(1-5) U(2) by (simp add: runinit_prog_def t1_def [symmetric] and_then_assoc)
  ultimately show ?thesis using U(4) L(7) by blast
qed

text \<open>The disk of the sample machine has the program; it reads the third byte of its first segment.\<close>

lemma sample_program:
  defines "w \<equiv> sample_elf @ replicate 377 0"
  shows "program_file 0x20 w" "length w = 512" "file_entry w = 0x8049010"
    and "file_segments w = [\<lparr>p_type = 1, p_offset = 0x80, p_vaddr = 0x8049010, p_paddr = 0, p_filesz = 6, p_memsz = 0, p_flags = 0, p_align = 0\<rparr>,
       \<lparr>p_type = 1, p_offset = 0x86, p_vaddr = 0x804A012, p_paddr = 0, p_filesz = 1, p_memsz = 0, p_flags = 0, p_align = 0\<rparr>]"
proof -
  show len: "length w = 512" by (simp add: w_def)
  have "file_image w x = sample_elf ! unat (x - 0x101000)" if "0x101000 \<le> x" "x < 0x101087" for x
  proof -
    have "unat (x - 0x101000) < 135" using that by (simp add: u32_diff_unat u32_le_unat u32_less_unat)
    then show ?thesis by (simp add: file_image_def put_bytes_def in_span w_def nth_append)
  qed
  then have "\<forall>x. 0x101000 \<le> x \<and> x < 0x101087 \<longrightarrow> file_image w x = sample_elf ! unat (x - 0x101000)" by simp
  note eh = sample_headers [OF this]
  have i: "pd_index 0x8049010 = 0x20" "pt_index 0x8049010 = 0x49" "pd_index 0x804A012 = 0x20" "pt_index 0x804A012 = 0x4A"
    by (simp_all add: pd_index_def pt_index_def drop_bit_eq_div)
  show "program_file 0x20 w" by (simp add: program_file_def small_program_def len eh small_segment_def i)
  show "file_entry w = 0x8049010" by (simp add: file_entry_def eh)
  show "file_segments w = [\<lparr>p_type = 1, p_offset = 0x80, p_vaddr = 0x8049010, p_paddr = 0, p_filesz = 6, p_memsz = 0, p_flags = 0, p_align = 0\<rparr>,
       \<lparr>p_type = 1, p_offset = 0x86, p_vaddr = 0x804A012, p_paddr = 0, p_filesz = 1, p_memsz = 0, p_flags = 0, p_align = 0\<rparr>]"
    by (simp add: file_segments_def eh)
qed

lemma booted_init_runs_witness:
  "\<exists>t p v. boot_done machine_env disk_machine t 0x200000
    \<and> runinit_prog machine_env (no_program\<lparr>run_code := read_third\<rparr>) t
      = and_then (term_printf ''\<newline>Init returned: %x!\<newline>'' [VWord 0x55] v) (\<lambda>_. free p)"
proof -
  let ?w = "sample_elf @ replicate 377 0 :: u8 list" and ?e = "entry_of (slot (sector sample_disk 37) 0)"
  obtain t where b: "boot_done machine_env disk_machine t 0x200000" using disk_machine_boots by blast
  have path: "string_in (image (unat (0x200000 :: u32))) (mem disk_machine) (str_bin_init machine_env) (lit ''/BIN/INIT'')"
  proof -
    have "span 0x100060 10 \<subseteq> image 0x200000" by (auto simp: image_def in_span_unat)
    moreover have "cstring (mem disk_machine) 0x100060 (lit ''/BIN/INIT'')" by (simp add: disk_machine_def machine_mem)
    moreover have "Suc (length (lit ''/BIN/INIT'')) = 10" "str_bin_init machine_env = 0x100060" "unat (0x200000 :: u32) = 0x200000"
      by (simp_all add: lit_def machine_env_def)
    ultimately show ?thesis by (simp only: string_in_def simp_thms)
  qed
  have "chain (disk_bpb sample_disk) sample_disk 5 [5]" by (rule sample_chain(3))
  then have found: "walk sample_disk (root_dir sample_disk) [lit ''BIN'', lit ''INIT''] = Some ?e"
    using sample_inner sample_program_found by (simp add: sample_bpb sample_data Let_def del: chain.simps)
  have cls: "chain (disk_bpb sample_disk) sample_disk (fe_starting_cluster ?e) [6]"
    unfolding sample_inner by (rule sample_chain(4))
  note prog = sample_program
  have w: "?w = written 0x1000 0 (map (cluster_data (disk_bpb sample_disk) sample_disk) [6])" "length ?w \<le> 0x1000"
    by (simp_all add: sample_data)
  obtain p u where run: "runinit_prog machine_env (no_program\<lparr>run_code := read_third\<rparr>) t
      = and_then (read_third 0x8049010 u) (\<lambda>status v.
        and_then (term_printf ''\<newline>Init returned: %x!\<newline>'' [VWord status] (frame_free_ex 0x8000 3 v)) (\<lambda>_. free p))"
    and img: "\<forall>x \<in> span 0x8000 4096. mem u x = load_image 0x101000 (file_segments ?w) (put_bytes 0x101000 ?w (mem t)) x"
    and virt: "\<forall>h \<in> set (file_segments ?w). \<forall>i < unat (p_filesz h).
        virt u (p_vaddr h + of_nat i) = Some (0x8000 + (p_vaddr h AND 0xFFF) + of_nat i)"
    using booted_init_runs [OF b machine_apart disk_machine_holds path found _ _ cls w prog(1), of "no_program\<lparr>run_code := read_third\<rparr>"]
    unfolding prog(3) by (auto simp: sample_bpb)
  have "virt u (0x8049010 + of_nat 2) = Some (0x8000 + (0x8049010 AND 0xFFF) + of_nat 2)"
    using virt unfolding prog(4) by (simp del: of_nat_numeral)
  then have "virt u 0x8049012 = Some 0x8012" by simp
  moreover have "mem u 0x8012 = 0x55"
  proof -
    have "put_bytes 0x101000 ?w (mem t) 0x101086 = sample_elf ! 134" by (simp add: put_bytes_def in_span nth_append)
    also have "\<dots> = 0x55" by (simp add: sample_elf_def nth_append)
    finally have "load_image 0x101000 (file_segments ?w) (put_bytes 0x101000 ?w (mem t)) 0x8012 = 0x55"
      unfolding prog(4) by (simp add: load_image_def copied_def in_span)
    then show ?thesis using img by (simp add: in_span)
  qed
  ultimately show ?thesis using b run by (simp add: read_third_def) blast
qed

end
