(* ===== verification/Stubs.thy ===== *)
theory Stubs
  imports Shell_Spec Samples
begin

text \<open>
  The assembly files: \<^verbatim>\<open>src/arch/x86/gdt.asm\<close>, \<^verbatim>\<open>idt.asm\<close>, \<^verbatim>\<open>memory.asm\<close>, \<^verbatim>\<open>io.asm\<close>,
  \<^verbatim>\<open>src/kernel/main.asm\<close>, \<^verbatim>\<open>systemcalls.asm\<close> and \<^verbatim>\<open>src/utils/multiboot.asm\<close>. A stub is the list of
  its instructions; \<open>exec\<close> is what a processor does with it, on its registers and on the state of the kernel,
  whose memory holds the stack. The C functions a stub calls are an argument of \<open>exec\<close>. A label is a number
  of instructions to skip: the stubs only jump forwards, but for the last loop of \<open>start\<close>.
\<close>

unbundle bit_operations_syntax

section \<open>The processor\<close>

datatype register = EAX | EBX | ECX | EDX | ESI | EDI | EBP | ESP | CS | DS | ES | FS | GS | SS
  | EIP | EFLAGS | CR0 | CR2 | GDTR_LIMIT | GDTR_BASE | IDTR_LIMIT | IDTR_BASE

type_synonym processor = "register \<Rightarrow> u32"

datatype instr = Push register | Push_imm u32 | Pop register | Mov register register | Mov_ax u16 | Load register register u32
  | Store_retval register | Add_imm register u32 | Or_imm register u32 | Cmp_imm register u32 | Ja nat | Jz nat | Jmp_self
  | Call u32 | Call_table u32 register | Jmp_far u16 | Ret | Iretd | Sti | Cli | Hlt | Lgdt u32 | Lidt register | To_cr3 register

text \<open>The two flags the stubs test after a comparison: carry (bit 0) and zero (bit 6).\<close>

definition compare :: "u32 \<Rightarrow> u32 \<Rightarrow> u32 \<Rightarrow> u32" where
  "compare fl a b = (fl AND NOT 0x41) OR (if a < b then 1 else 0) OR (if a = b then 0x40 else 0)"

type_synonym 'a callee = "u32 \<Rightarrow> processor \<Rightarrow> 'a kernel_scheme \<Rightarrow> (processor, 'a kernel_scheme) run"

text \<open>A segment register takes the low 16 bits.\<close>

definition reg_value :: "register \<Rightarrow> u32 \<Rightarrow> u32" where
  "reg_value r v = (if r \<in> {CS, DS, ES, FS, GS, SS} then v AND 0xFFFF else v)"

text \<open>
  \<open>lgdt\<close> and \<open>lidt\<close> load the limit (16 bits) and the base of a table from the memory at their operand.
  \<open>call\<close> pushes the address behind it; which address that is does not matter here, and \<open>EIP\<close> stands for it.
  \<open>iretd\<close> restores the interrupt flag (bit 9) with the others; \<open>hlt\<close>
  waits for the next interrupt, which without interrupts never comes. Running off the end of a stub is \<open>Undefined\<close>.
\<close>

function exec :: "'a callee \<Rightarrow> instr list \<Rightarrow> processor \<Rightarrow> 'a kernel_scheme \<Rightarrow> (processor, 'a kernel_scheme) run" where
  "exec c [] p s = Inl Undefined"
| "exec c (Push r # is) p s = exec c is (p(ESP := p ESP - 4)) (wr32 (p ESP - 4) (p r) s)"
| "exec c (Push_imm v # is) p s = exec c is (p(ESP := p ESP - 4)) (wr32 (p ESP - 4) v s)"
| "exec c (Pop r # is) p s = exec c is (p(ESP := p ESP + 4, r := reg_value r (rd32 s (p ESP)))) s"
| "exec c (Mov r q # is) p s =
     exec c is (p(r := reg_value r (p q))) (if r = CR0 then s\<lparr>paging_on := bit (p q) 31\<rparr> else s)"
| "exec c (Mov_ax v # is) p s = exec c is (p(EAX := (p EAX AND NOT 0xFFFF) OR ucast v)) s"
| "exec c (Load r q d # is) p s = exec c is (p(r := rd32 s (p q + d))) s"
| "exec c (Store_retval r # is) p s = exec c is p (s\<lparr>retval := p r\<rparr>)"
| "exec c (Add_imm r v # is) p s = exec c is (p(r := p r + v)) s"
| "exec c (Or_imm r v # is) p s = exec c is (p(r := p r OR v)) s"
| "exec c (Cmp_imm r v # is) p s = exec c is (p(EFLAGS := compare (p EFLAGS) (p r) v)) s"
| "exec c (Ja n # is) p s = exec c (if \<not> bit (p EFLAGS) 0 \<and> \<not> bit (p EFLAGS) 6 then drop n is else is) p s"
| "exec c (Jz n # is) p s = exec c (if bit (p EFLAGS) 6 then drop n is else is) p s"
| "exec c (Jmp_self # is) p s = Inl Hangs"
| "exec c (Call f # is) p s =
     and_then (c f (p(ESP := p ESP - 4)) (wr32 (p ESP - 4) (p EIP) s)) (\<lambda>p1 s1. exec c is p1 s1)"
| "exec c (Call_table t r # is) p s =
     and_then (c (rd32 s (t + p r * 4)) (p(ESP := p ESP - 4)) (wr32 (p ESP - 4) (p EIP) s)) (\<lambda>p1 s1. exec c is p1 s1)"
| "exec c (Jmp_far sel # is) p s = exec c is (p(CS := ucast sel)) s"
| "exec c (Ret # is) p s = Inr (p(EIP := rd32 s (p ESP), ESP := p ESP + 4), s)"
| "exec c (Iretd # is) p s =
     Inr (p(EIP := rd32 s (p ESP), CS := reg_value CS (rd32 s (p ESP + 4)), EFLAGS := rd32 s (p ESP + 8), ESP := p ESP + 12),
          s\<lparr>interrupts_on := bit (rd32 s (p ESP + 8)) 9\<rparr>)"
| "exec c (Sti # is) p s = exec c is p (s\<lparr>interrupts_on := True\<rparr>)"
| "exec c (Cli # is) p s = exec c is p (s\<lparr>interrupts_on := False\<rparr>)"
| "exec c (Hlt # is) p s = (if interrupts_on s then exec c is p s else Inl (Halted s))"
| "exec c (Lgdt a # is) p s =
     exec c is (p(GDTR_LIMIT := ucast (load16 (mem s) a), GDTR_BASE := rd32 s (a + 2))) (s\<lparr>gdt_loaded := True\<rparr>)"
| "exec c (Lidt r # is) p s =
     exec c is (p(IDTR_LIMIT := ucast (load16 (mem s) (p r)), IDTR_BASE := rd32 s (p r + 2))) (s\<lparr>idtr_loaded := True\<rparr>)"
| "exec c (To_cr3 r # is) p s = exec c is p (s\<lparr>cr3 := p r\<rparr>)"
  by pat_completeness auto
termination by (relation "measure (\<lambda>(c, is, p, s). length is)") auto

text \<open>
  A C function called with its arguments on the stack: it returns to its caller with its result in \<open>EAX\<close>, and
  may leave anything (here what \<open>junk\<close> has) in \<open>ECX\<close>, \<open>EDX\<close> and the flags.
\<close>

definition cdecl ::
  "processor \<Rightarrow> (u32 \<Rightarrow> 'a kernel_scheme \<Rightarrow> (u32, 'a kernel_scheme) run) \<Rightarrow> processor \<Rightarrow> 'a kernel_scheme \<Rightarrow>
     (processor, 'a kernel_scheme) run" where
  "cdecl junk f p s = and_then (f (p ESP + 4) s) (\<lambda>r s1.
     Inr (p(EAX := r, ECX := junk ECX, EDX := junk EDX, EFLAGS := junk EFLAGS, ESP := p ESP + 4), s1))"

lemma compare_flags: "bit (compare fl a b) 0 \<longleftrightarrow> a < b" "bit (compare fl a b) 6 \<longleftrightarrow> a = b"
proof -
  have c: "bit (0x41 :: u32) 0" "bit (0x41 :: u32) 6" "\<not> bit (0x40 :: u32) 0" "bit (0x40 :: u32) 6" "bit (1 :: u32) 0"
    "\<not> bit (1 :: u32) 6"
    by code_simp+
  show "bit (compare fl a b) 0 \<longleftrightarrow> a < b" "bit (compare fl a b) 6 \<longleftrightarrow> a = b"
    unfolding compare_def bit_or_iff bit_and_iff bit_not_iff by (auto simp: c split: if_split)
qed

section \<open>The stack\<close>

fun pushed :: "u32 list \<Rightarrow> u32 \<Rightarrow> memory \<Rightarrow> memory" where
  "pushed [] sp m = m"
| "pushed (v # vs) sp m = pushed vs (sp - 4) (store32 (sp - 4) v m)"

lemma exec_pushes:
  "ESP \<notin> set rs \<Longrightarrow> exec c (map Push rs @ is) p s
    = exec c is (p(ESP := p ESP - 4 * of_nat (length rs))) (s\<lparr>mem := pushed (map p rs) (p ESP) (mem s)\<rparr>)"
proof (induction rs arbitrary: p s)
  case (Cons r rs)
  then have "map (p(ESP := v)) rs = map p rs" for v by auto
  moreover have "(p(ESP := p ESP - 4))(ESP := (p(ESP := p ESP - 4)) ESP - 4 * of_nat (length rs))
      = p(ESP := p ESP - 4 * of_nat (length (r # rs)))" by (simp add: fun_eq_iff algebra_simps)
  ultimately show ?case using Cons by (simp only: list.map append_Cons exec.simps list.set insert_iff de_Morgan_disj pushed.simps
      simp_thms fun_upd_same) simp
qed simp

lemma pushed_outside:
  assumes "x \<notin> span (sp - 4 * of_nat (length vs)) (4 * length vs)" and "length vs \<le> 1000"
  shows "pushed vs sp m x = m x"
  using assms
proof (induction vs arbitrary: sp m)
  case (Cons v vs)
  define b where "b = sp - 4 * of_nat (length (v # vs))"
  have n: "unat (4 * of_nat (length vs) :: u32) = 4 * length vs"
    using Cons.prems(2) u32_of_nat_unat [of "4 * length vs"] by simp
  have a: "b + 4 * of_nat (length vs) = sp - 4" by (simp add: b_def algebra_simps)
  have "span (b + 4 * of_nat (length vs)) 4 \<subseteq> span b (4 * length (v # vs))"
    using n Cons.prems(2) by (intro span_sub) simp_all
  moreover have "span b (4 * length vs) \<subseteq> span b (4 * length (v # vs))" by (rule span_mono) simp
  ultimately have "x \<notin> span (sp - 4) 4" "x \<notin> span b (4 * length vs)"
    using Cons.prems(1) unfolding b_def [symmetric] a by auto
  moreover have "b = (sp - 4) - 4 * of_nat (length vs)" by (simp add: b_def algebra_simps)
  ultimately show ?case using Cons.IH [of "sp - 4"] Cons.prems(2) by (simp add: c32.st_outside)
qed simp

lemma pushed_load:
  assumes "i < length vs" and "length vs \<le> 1000"
  shows "load32 (pushed vs sp m) (sp - 4 * of_nat (Suc i)) = vs ! i"
  using assms
proof (induction vs arbitrary: sp m i)
  case (Cons v vs)
  show ?case
  proof (cases i)
    case 0
    have "load32 (pushed vs (sp - 4) (store32 (sp - 4) v m)) (sp - 4) = load32 (store32 (sp - 4) v m) (sp - 4)"
    proof (rule c32.ld_local, rule pushed_outside)
      fix x assume x: "x \<in> span (sp - 4) 4"
      have n: "unat (4 * of_nat (length vs) :: u32) = 4 * length vs"
        using Cons.prems(2) u32_of_nat_unat [of "4 * length vs"] by simp
      define b where "b = (sp - 4) - 4 * of_nat (length vs)"
      have b: "sp - 4 = b + 4 * of_nat (length vs)" by (simp add: b_def)
      have e: "x - b = (x - (sp - 4)) + 4 * of_nat (length vs)" unfolding b by simp
      have "unat (x - (sp - 4)) < 4" using x by (simp add: in_span)
      then have "unat (x - b) = unat (x - (sp - 4)) + 4 * length vs"
        unfolding e using u32_add_unat [of "x - (sp - 4)" "4 * of_nat (length vs)"] n Cons.prems(2) by simp
      then show "x \<notin> span (sp - 4 - 4 * of_nat (length vs)) (4 * length vs)"
        unfolding b_def [symmetric] by (simp add: in_span)
    qed (use Cons.prems in simp)
    then show ?thesis using 0 by (simp add: cells)
  next
    case (Suc j)
    have e: "sp - 4 * of_nat (Suc i) = (sp - 4) - 4 * of_nat (Suc j)" by (simp add: Suc algebra_simps)
    show ?thesis unfolding e pushed.simps
      using Cons.IH [of j "sp - 4" "store32 (sp - 4) v m"] Cons.prems Suc by (simp del: of_nat_Suc)
  qed
qed simp

section \<open>Interrupts\<close>

text \<open>
  An interrupt or exception through a gate, with the processor in the kernel: flags, \<open>CS\<close> and \<open>EIP\<close> are
  pushed, and for some exceptions an error code; an interrupt gate (type bit 0 clear) also turns interrupts off.
\<close>

definition interrupted :: "IdtEntry \<Rightarrow> u32 list \<Rightarrow> processor \<Rightarrow> 'a kernel_scheme \<Rightarrow> 'a kernel_scheme" where
  "interrupted g err p s = s\<lparr>mem := pushed ([p EFLAGS, p CS, p EIP] @ err) (p ESP) (mem s),
     interrupts_on := interrupts_on s \<and> bit (attributes g) 0\<rparr>"

definition at_handler :: "IdtEntry \<Rightarrow> u32 list \<Rightarrow> processor \<Rightarrow> processor" where
  "at_handler g err p = p(ESP := p ESP - 4 * of_nat (length ([p EFLAGS, p CS, p EIP] @ err)), CS := ucast (kernel_cs g))"

definition interrupt ::
  "'a callee \<Rightarrow> IdtEntry \<Rightarrow> u32 list \<Rightarrow> instr list \<Rightarrow> processor \<Rightarrow> 'a kernel_scheme \<Rightarrow> (processor, 'a kernel_scheme) run" where
  "interrupt c g err code p s = exec c code (at_handler g err p) (interrupted g err p s)"

section \<open>System calls\<close>

definition syscall_dispatch_code :: "u32 \<Rightarrow> u32 \<Rightarrow> instr list" where
  "syscall_dispatch_code syscall_cnt syscalls =
     [Cmp_imm EAX (syscall_cnt - 1), Ja 27] @
     map Push [EAX, GS, FS, ES, DS, EBP, EDI, ESI, EDX, ECX, EBX] @ [Push ESP,
      Call_table syscalls EAX, Store_retval EAX, Add_imm ESP 4,
      Pop EBX, Pop ECX, Pop EDX, Pop ESI, Pop EDI, Pop EBP, Pop DS, Pop ES, Pop FS, Pop GS,
      Add_imm ESP 4, Iretd,
      Iretd]"

text \<open>\<open>SyscallRegs_t\<close>, the argument of every handler, as it lies on the stack.\<close>

definition get_syscall_regs :: "memory \<Rightarrow> u32 \<Rightarrow> syscall_regs" where
  "get_syscall_regs m a = \<lparr>r_esp = load32 m a, r_ebx = load32 m (a + 4), r_ecx = load32 m (a + 8), r_edx = load32 m (a + 12),
     r_esi = load32 m (a + 16), r_edi = load32 m (a + 20), r_ebp = load32 m (a + 24), r_ds = load32 m (a + 28),
     r_es = load32 m (a + 32), r_fs = load32 m (a + 36), r_gs = load32 m (a + 40), r_eax = load32 m (a + 44)\<rparr>"

text \<open>The C functions of the table \<open>syscalls\<close>; \<open>hs\<close> are their addresses.\<close>

definition syscall_functions :: "env \<Rightarrow> u32 list \<Rightarrow> processor \<Rightarrow> 'a callee" where
  "syscall_functions k hs junk f p s =
     (case map_of (zip hs (syscalls_table k)) f of None \<Rightarrow> Inl Undefined
      | Some h \<Rightarrow> cdecl junk (\<lambda>args s. h (get_syscall_regs (mem s) args) s) p s)"

text \<open>What the caller of \<open>int 0x80\<close> asks for, and the state its handler finds: the frame below the caller's stack.\<close>

definition caller_regs :: "processor \<Rightarrow> syscall_regs" where
  "caller_regs p = \<lparr>r_esp = p ESP - 44, r_ebx = p EBX, r_ecx = p ECX, r_edx = p EDX, r_esi = p ESI, r_edi = p EDI,
     r_ebp = p EBP, r_ds = p DS, r_es = p ES, r_fs = p FS, r_gs = p GS, r_eax = p EAX\<rparr>"

definition frame_words :: "processor \<Rightarrow> u32 list" where
  "frame_words p = map p [EAX, GS, FS, ES, DS, EBP, EDI, ESI, EDX, ECX, EBX] @ [p ESP - 44, p EIP]"

definition entered :: "processor \<Rightarrow> 'a machine_scheme \<Rightarrow> 'a machine_scheme" where
  "entered p s = s\<lparr>mem := pushed (frame_words p) (p ESP) (mem s)\<rparr>"

lemma frame_length [simp]: "length (frame_words p) = 13"
  by (simp add: frame_words_def)

lemma frame_slots:
  "load32 (pushed (frame_words p) sp m) (sp - 48) = p ESP - 44" "load32 (pushed (frame_words p) sp m) (sp - 44) = p EBX"
  "load32 (pushed (frame_words p) sp m) (sp - 40) = p ECX" "load32 (pushed (frame_words p) sp m) (sp - 36) = p EDX"
  "load32 (pushed (frame_words p) sp m) (sp - 32) = p ESI" "load32 (pushed (frame_words p) sp m) (sp - 28) = p EDI"
  "load32 (pushed (frame_words p) sp m) (sp - 24) = p EBP" "load32 (pushed (frame_words p) sp m) (sp - 20) = p DS"
  "load32 (pushed (frame_words p) sp m) (sp - 16) = p ES" "load32 (pushed (frame_words p) sp m) (sp - 12) = p FS"
  "load32 (pushed (frame_words p) sp m) (sp - 8) = p GS" "load32 (pushed (frame_words p) sp m) (sp - 4) = p EAX"
proof -
  have w: "load32 (pushed (frame_words p) sp m) (sp - 4 * of_nat (Suc i)) = frame_words p ! i" if "i < 13" for i
    using pushed_load [of i "frame_words p" sp m] that by simp
  note f = frame_words_def
  show "load32 (pushed (frame_words p) sp m) (sp - 48) = p ESP - 44" "load32 (pushed (frame_words p) sp m) (sp - 44) = p EBX"
    "load32 (pushed (frame_words p) sp m) (sp - 40) = p ECX" "load32 (pushed (frame_words p) sp m) (sp - 36) = p EDX"
    "load32 (pushed (frame_words p) sp m) (sp - 32) = p ESI" "load32 (pushed (frame_words p) sp m) (sp - 28) = p EDI"
    "load32 (pushed (frame_words p) sp m) (sp - 24) = p EBP" "load32 (pushed (frame_words p) sp m) (sp - 20) = p DS"
    "load32 (pushed (frame_words p) sp m) (sp - 16) = p ES" "load32 (pushed (frame_words p) sp m) (sp - 12) = p FS"
    "load32 (pushed (frame_words p) sp m) (sp - 8) = p GS" "load32 (pushed (frame_words p) sp m) (sp - 4) = p EAX"
    using w [of 11] w [of 10] w [of 9] w [of 8] w [of 7] w [of 6] w [of 5] w [of 4] w [of 3] w [of 2] w [of 1] w [of 0]
    by (simp_all add: f nth_append)
qed

lemma entered_regs: "get_syscall_regs (mem (entered p s)) (p ESP - 48) = caller_regs p"
  by (simp add: entered_def get_syscall_regs_def caller_regs_def frame_slots)

lemma pushed_append: "pushed (vs @ ws) sp m = pushed ws (sp - 4 * of_nat (length vs)) (pushed vs sp m)"
  by (induction vs arbitrary: sp m) (simp_all add: algebra_simps)

text \<open>From the entry of the stub to the handler, and from the handler back.\<close>

lemma dispatch_enter:
  assumes num: "p EAX \<le> cnt - 1" and h: "rd32 s (tbl + p EAX * 4) = f" and tbl: "apart (p ESP - 48) 48 (tbl + p EAX * 4) 4"
  shows "exec c (syscall_dispatch_code cnt tbl) p s
    = and_then (c f (p(EFLAGS := compare (p EFLAGS) (p EAX) (cnt - 1), ESP := p ESP - 52)) (entered p s))
        (exec c (drop 15 (syscall_dispatch_code cnt tbl)))"
proof -
  define q where "q = p(EFLAGS := compare (p EFLAGS) (p EAX) (cnt - 1))"
  define rs where "rs = [EAX, GS, FS, ES, DS, EBP, EDI, ESI, EDX, ECX, EBX]"
  have flags: "\<not> (\<not> bit (q EFLAGS) 0 \<and> \<not> bit (q EFLAGS) 6)"
    using num by (auto simp: q_def compare_flags)
  have m: "map q rs = map p rs" by (simp add: rs_def q_def)
  have e: "mem (entered p s) = store32 (p ESP - 52) (p EIP) (store32 (p ESP - 48) (p ESP - 44) (pushed (map p rs) (p ESP) (mem s)))"
    by (simp add: entered_def frame_words_def rs_def pushed_append)
  have "load32 (pushed (map p rs @ [p ESP - 44]) (p ESP) (mem s)) (tbl + p EAX * 4) = f"
    unfolding h [symmetric]
    by (rule c32.ld_local, rule pushed_outside) (use apart_disjoint [OF tbl] in \<open>auto simp: rs_def\<close>)
  then have f: "load32 (store32 (p ESP - 48) (p ESP - 44) (pushed (map p rs) (p ESP) (mem s))) (tbl + p EAX * 4) = f"
    by (simp add: pushed_append) (simp add: rs_def)
  define tail where "tail = drop 15 (syscall_dispatch_code cnt tbl)"
  have code: "syscall_dispatch_code cnt tbl = Cmp_imm EAX (cnt - 1) # Ja 27 # map Push rs @ Push ESP # Call_table tbl EAX # tail"
    by (simp add: syscall_dispatch_code_def tail_def rs_def)
  have "exec c (syscall_dispatch_code cnt tbl) p s = exec c (map Push rs @ Push ESP # Call_table tbl EAX # tail) q s"
    unfolding code exec.simps q_def [symmetric] if_not_P [OF flags] ..
  also have "\<dots> = exec c (Push ESP # Call_table tbl EAX # tail) (q(ESP := p ESP - 44))
      (s\<lparr>mem := pushed (map p rs) (p ESP) (mem s)\<rparr>)"
    using exec_pushes [of rs c "Push ESP # Call_table tbl EAX # tail" q s] m by (simp add: rs_def q_def)
  also have "\<dots> = and_then (c f (q(ESP := p ESP - 52)) (entered p s)) (exec c tail)"
    using f e by (simp add: q_def entered_def)
  finally show ?thesis by (simp add: q_def tail_def)
qed

lemma dispatch_leave:
  assumes slots: "\<And>x. x \<in> span (p ESP - 48) 48 \<Longrightarrow> mem t x = pushed (frame_words p) (p ESP) m x"
    and q: "q ESP = p ESP - 48" "\<And>r. r \<notin> {EAX, ECX, EDX, EFLAGS, ESP} \<Longrightarrow> q r = p r"
    and segs: "\<And>r. reg_value r (p r) = p r"
  shows "exec c (drop 15 (syscall_dispatch_code cnt tbl)) q t
    = Inr (p(EAX := q EAX, EIP := rd32 t (p ESP), CS := reg_value CS (rd32 t (p ESP + 4)), EFLAGS := rd32 t (p ESP + 8), ESP := p ESP + 12),
        t\<lparr>retval := q EAX, interrupts_on := bit (rd32 t (p ESP + 8)) 9\<rparr>)"
proof -
  have "rd32 t (p ESP - 48 + of_nat i) = load32 (pushed (frame_words p) (p ESP) m) (p ESP - 48 + of_nat i)" if "i + 4 \<le> 48" for i
  proof (rule c32.ld_local, rule slots)
    have "unat (of_nat i :: u32) = i" using that u32_of_nat_unat [of i] by simp
    then have "span (p ESP - 48 + of_nat i) 4 \<subseteq> span (p ESP - 48) 48" using that by (intro span_sub) simp_all
    then show "x \<in> span (p ESP - 48)  48" if "x \<in> span (p ESP - 48 + of_nat i) 4" for x using that by blast
  qed
  from this [of 4] this [of 8] this [of 12] this [of 16] this [of 20] this [of 24] this [of 28] this [of 32] this [of 36] this [of 40]
  have slot: "rd32 t (p ESP - 44) = p EBX" "rd32 t (p ESP - 40) = p ECX" "rd32 t (p ESP - 36) = p EDX" "rd32 t (p ESP - 32) = p ESI"
    "rd32 t (p ESP - 28) = p EDI" "rd32 t (p ESP - 24) = p EBP" "rd32 t (p ESP - 20) = p DS" "rd32 t (p ESP - 16) = p ES"
    "rd32 t (p ESP - 12) = p FS" "rd32 t (p ESP - 8) = p GS"
    by (simp_all add: frame_slots)
  have "drop 15 (syscall_dispatch_code cnt tbl) = [Store_retval EAX, Add_imm ESP 4,
      Pop EBX, Pop ECX, Pop EDX, Pop ESI, Pop EDI, Pop EBP, Pop DS, Pop ES, Pop FS, Pop GS, Add_imm ESP 4, Iretd, Iretd]"
    by (simp add: syscall_dispatch_code_def)
  moreover have "q(EBX := p EBX, ECX := p ECX, EDX := p EDX, ESI := p ESI, EDI := p EDI, EBP := p EBP, DS := p DS, ES := p ES,
      FS := p FS, GS := p GS, EIP := a, CS := b, EFLAGS := d, ESP := p ESP + 12)
    = p(EAX := q EAX, EIP := a, CS := b, EFLAGS := d, ESP := p ESP + 12)" for a b d
    by (intro ext) (auto simp: q(2))
  ultimately show ?thesis by (simp add: q(1) slot segs)
qed

text \<open>The memory an interrupt without an error code leaves above the stub.\<close>

lemma interrupted_words:
  "rd32 (interrupted g [] p s) (p ESP - 12) = p EIP" "rd32 (interrupted g [] p s) (p ESP - 8) = p CS"
  "rd32 (interrupted g [] p s) (p ESP - 4) = p EFLAGS"
  using pushed_load [of 2 "[p EFLAGS, p CS, p EIP]" "p ESP" "mem s"] pushed_load [of 1 "[p EFLAGS, p CS, p EIP]" "p ESP" "mem s"]
    pushed_load [of 0 "[p EFLAGS, p CS, p EIP]" "p ESP" "mem s"]
  by (simp_all add: interrupted_def del: pushed.simps)

lemma entered_above:
  assumes "x \<in> span (p ESP) 12"
  shows "mem (entered p s) x = mem s x"
proof -
  have "x \<notin> span (p ESP - 52) 52"
  proof
    assume "x \<in> span (p ESP - 52) 52"
    moreover have "apart (p ESP - 52) 52 (p ESP - 52 + 52) 12" by (simp add: apart_def)
    ultimately show False using apart_disjoint assms by fastforce
  qed
  then show ?thesis using pushed_outside [of x "p ESP" "frame_words p"] by (simp add: entered_def)
qed

lemma handler_of:
  assumes "length hs = 11" and "distinct hs" and "i < 11"
  shows "syscall_functions k hs junk (hs ! i) p s
    = cdecl junk (\<lambda>args s. (syscalls_table k ! i) (get_syscall_regs (mem s) args) s) p s"
  unfolding syscall_functions_def
  by (subst map_of_zip_nth) (use assms in \<open>simp_all add: syscalls_table_def\<close>)

text \<open>
  C9. The system call. With the gate and the table of the kernel, \<open>int 0x80\<close> runs the dispatcher's instructions,
  which do what \<open>syscall_dispatch\<close> says: the handler of number \<open>EAX\<close> gets the caller's registers, and the caller goes
  on behind its \<open>int\<close> with its registers, flags and stack as they were but for \<open>EAX\<close>, the result. The
  handler must leave the 60 bytes of its caller's frame alone.
\<close>

theorem syscall_interrupt:
  fixes s :: "'a kernel_scheme"
  assumes table: "length hs = 11" "distinct hs" "\<And>i. i < 11 \<Longrightarrow> rd32 s (tbl + of_nat i * 4) = hs ! i"
    and number: "unat (p EAX) < 11" "11 \<le> unat (addr_syscall_cnt k)"
    and stack: "apart (p ESP - 64) 64 tbl 44"
    and cpu: "\<And>r. reg_value r (p r) = p r" "bit (p EFLAGS) 9 = interrupts_on s"
    and gate: "g = new_gate (fn_syscall_dispatch k) INT_GATE_USER_FLAGS"
    and at: "q = at_handler g [] p" "e = entered q (interrupted g [] p s)"
    and keeps: "\<And>r t. syscall_dispatch k (caller_regs q) e = Inr (r, t) \<Longrightarrow> \<forall>x \<in> span (p ESP - 60) 60. mem t x = mem e x"
  shows "interrupt (syscall_functions k hs junk) g [] (syscall_dispatch_code (addr_syscall_cnt k) tbl) p s
    = and_then (syscall_dispatch k (caller_regs q) e) (\<lambda>r t. Inr (p(EAX := r_eax r), t\<lparr>interrupts_on := interrupts_on s\<rparr>))"
proof -
  define s' where "s' = interrupted g [] p s"
  define i where "i = unat (p EAX)"
  define h :: "syscall_regs \<Rightarrow> 'a kernel_scheme \<Rightarrow> (u32, 'a kernel_scheme) run" where "h = syscalls_table k ! i"
  have q: "q ESP = p ESP - 12" "q EAX = p EAX" "q CS = 8" "\<And>r. r \<notin> {ESP, CS} \<Longrightarrow> q r = p r"
    using gate by (simp_all add: at at_handler_def new_gate_def)
  have i: "i < 11" "p EAX = of_nat i" using number by (simp_all add: i_def)
  have tbl: "apart (p ESP - 64) 64 (tbl + p EAX * 4) 4"
  proof -
    have "unat (p EAX * 4) = 4 * i" using i u32_of_nat_unat [of "4 * i"] by (simp add: mult.commute)
    then show ?thesis using apart_parts [OF stack, of 0 64 "p EAX * 4" 4] i by simp
  qed
  have f: "rd32 s' (tbl + q EAX * 4) = hs ! i"
  proof -
    have "rd32 s' (tbl + p EAX * 4) = rd32 s (tbl + p EAX * 4)"
    proof (rule c32.ld_local)
      fix x assume "x \<in> span (tbl + p EAX * 4) 4"
      then have "x \<notin> span (p ESP - 64) 64" by (rule apart_notin [OF tbl])
      moreover have "span (p ESP - 64 + 52) 12 \<subseteq> span (p ESP - 64) 64" by (rule span_sub) simp_all
      ultimately show "mem s' x = mem s x"
        using pushed_outside [of x "p ESP" "[p EFLAGS, p CS, p EIP]" "mem s"]
        by (auto simp: s'_def interrupted_def simp del: pushed.simps)
    qed
    then show ?thesis using table(3) [OF i(1)] i(2) by (simp add: q)
  qed
  have t48: "apart (q ESP - 48) 48 (tbl + q EAX * 4) 4"
    using apart_parts [OF tbl, of 4 48 0 4] by (simp add: q)
  have le: "q EAX \<le> addr_syscall_cnt k - 1"
  proof -
    have "unat (addr_syscall_cnt k - 1) = unat (addr_syscall_cnt k) - 1" using number(2) by (simp add: u32_diff_unat)
    then show ?thesis using number by (simp add: q u32_le_unat)
  qed
  define a where "a = q(EFLAGS := compare (q EFLAGS) (q EAX) (addr_syscall_cnt k - 1), ESP := q ESP - 52)"
  have run: "interrupt (syscall_functions k hs junk) g [] (syscall_dispatch_code (addr_syscall_cnt k) tbl) p s
    = and_then (cdecl junk (\<lambda>args s. h (get_syscall_regs (mem s) args) s) a e)
        (exec (syscall_functions k hs junk) (drop 15 (syscall_dispatch_code (addr_syscall_cnt k) tbl)))"
    using dispatch_enter [OF le f t48, of "syscall_functions k hs junk"]
    by (simp add: interrupt_def at(1) [symmetric] s'_def [symmetric] at(2) handler_of [OF table(1,2) i(1)] h_def a_def)
  have "get_syscall_regs (mem e) (a ESP + 4) = caller_regs q"
    using entered_regs [of q s'] by (simp add: a_def at(2) s'_def)
  moreover
  have sd: "syscall_dispatch k (caller_regs q) e
      = and_then (h (caller_regs q) e) (\<lambda>r t. Inr ((caller_regs q)\<lparr>r_eax := r\<rparr>, t\<lparr>retval := r\<rparr>))"
  proof -
    have "\<not> addr_syscall_cnt k - 1 < r_eax (caller_regs q)" using le by (simp only: not_less caller_regs_def syscall_regs.simps)
    then show ?thesis using number(1) by (simp add: syscall_dispatch_def SYSCALLS_COUNT_def h_def i_def) (simp add: caller_regs_def q)
  qed
  ultimately have run: "interrupt (syscall_functions k hs junk) g [] (syscall_dispatch_code (addr_syscall_cnt k) tbl) p s
    = and_then (h (caller_regs q) e) (\<lambda>r. exec (syscall_functions k hs junk) (drop 15 (syscall_dispatch_code (addr_syscall_cnt k) tbl))
        (a(EAX := r, ECX := junk ECX, EDX := junk EDX, EFLAGS := junk EFLAGS, ESP := a ESP + 4)))"
    unfolding run cdecl_def by (simp add: and_then_def split: sum.split)
  show ?thesis
  proof (cases "h (caller_regs q) e")
    case (Inl x)
    then show ?thesis unfolding run sd by simp
  next
    case (Inr rt)
    obtain r t where rt: "rt = (r, t)" by (cases rt)
    define b where "b = a(EAX := r, ECX := junk ECX, EDX := junk EDX, EFLAGS := junk EFLAGS, ESP := a ESP + 4)"
    have same: "mem t x = mem e x" if "x \<in> span (p ESP - 60) 60" for x
      using keeps [of "(caller_regs q)\<lparr>r_eax := r\<rparr>" "t\<lparr>retval := r\<rparr>"] that unfolding sd Inr rt by simp
    have sub: "span (p ESP - 60) 48 \<subseteq> span (p ESP - 60) 60" by (rule span_mono) simp
    have "mem t x = pushed (frame_words q) (q ESP) (mem s') x" if "x \<in> span (q ESP - 48) 48" for x
      using same [of x] that sub by (auto simp: q at(2) s'_def [symmetric] entered_def)
    moreover have "b ESP = q ESP - 48" "\<And>r. r \<notin> {EAX, ECX, EDX, EFLAGS, ESP} \<Longrightarrow> b r = q r"
      by (simp_all add: b_def a_def)
    moreover have "reg_value r (q r) = q r" for r
      using cpu(1) [of r] q(3) q(4) [of r] by (cases "r = CS"; cases "r = ESP") (simp_all add: reg_value_def)
    ultimately have leave: "exec (syscall_functions k hs junk) (drop 15 (syscall_dispatch_code (addr_syscall_cnt k) tbl)) b t
      = Inr (q(EAX := b EAX, EIP := rd32 t (q ESP), CS := reg_value CS (rd32 t (q ESP + 4)), EFLAGS := rd32 t (q ESP + 8), ESP := q ESP + 12),
        t\<lparr>retval := b EAX, interrupts_on := bit (rd32 t (q ESP + 8)) 9\<rparr>)"
      by (rule dispatch_leave)
    have "rd32 t (p ESP - 12 + j) = rd32 s' (p ESP - 12 + j)" if j: "unat j + 4 \<le> 12" for j
    proof (rule c32.ld_local)
      fix x assume "x \<in> span (p ESP - 12 + j) 4"
      then have x: "x \<in> span (p ESP - 12) 12" using span_sub [of j 4 12 "p ESP - 12"] j by auto
      moreover have "span (p ESP - 60 + 48) 12 \<subseteq> span (p ESP - 60) 60" by (rule span_sub) simp_all
      ultimately have "mem t x = mem e x" by (intro same) auto
      also have "\<dots> = mem s' x" unfolding at(2) s'_def [symmetric] by (rule entered_above) (use x q in simp)
      finally show "mem t x = mem s' x" .
    qed
    from this [of 0] this [of 4] this [of 8] interrupted_words [of g p s, folded s'_def]
    have words: "rd32 t (p ESP - 12) = p EIP" "rd32 t (p ESP - 8) = p CS" "rd32 t (p ESP - 4) = p EFLAGS" by simp_all
    have "q(EAX := r, EIP := p EIP, CS := p CS, EFLAGS := p EFLAGS, ESP := p ESP) = p(EAX := r)"
      by (intro ext) (auto simp: q(4))
    then show ?thesis
      using leave cpu unfolding run sd Inr rt by (simp add: b_def [symmetric]) (simp add: b_def a_def q words)
  qed
qed

text \<open>The witness: a caller asks for the status of the last call, with the table at \<open>0x8000\<close>.\<close>

definition sample_handlers :: "u32 list" where
  "sample_handlers = map (\<lambda>i. 0x5000 + of_nat i) [0..<11]"

definition sample_kernel :: kernel where
  "sample_kernel = kernel_start\<lparr>retval := 7, mem := fold (\<lambda>i. store32 (0x8000 + 4 * of_nat i) (0x5000 + of_nat i)) [0..<11] (\<lambda>_. 0)\<rparr>"

definition sample_caller :: processor where
  "sample_caller = (\<lambda>_. 0)(EAX := 10, EBX := 0x7000, ESP := 0x6000, EIP := 0x9000, CS := 8, DS := 16, ES := 16, FS := 16, GS := 16, SS := 16)"

lemma syscall_interrupt_witness:
  "\<exists>t. interrupt (syscall_functions boot_env sample_handlers (\<lambda>_. 0)) (new_gate (fn_syscall_dispatch boot_env) INT_GATE_USER_FLAGS) []
      (syscall_dispatch_code 0x4000 0x8000) sample_caller sample_kernel = Inr (sample_caller(EAX := 0), t)
    \<and> rd32 t 0x7000 = 7"
proof -
  define g where "g = new_gate (fn_syscall_dispatch boot_env) INT_GATE_USER_FLAGS"
  define q where "q = at_handler g [] sample_caller"
  define e where "e = entered q (interrupted g [] sample_caller sample_kernel)"
  have regs: "sample_caller EAX = 10" "sample_caller EBX = 0x7000" "sample_caller ESP = 0x6000"
    by (simp_all add: sample_caller_def)
  have num: "unat (sample_caller EAX) < 11" "11 \<le> unat (addr_syscall_cnt boot_env)"
    by (simp_all add: regs boot_env_def)
  have r: "r_eax (caller_regs q) = 10" "r_ebx (caller_regs q) = 0x7000"
    by (simp_all add: q_def caller_regs_def at_handler_def regs)
  have table: "rd32 sample_kernel (0x8000 + of_nat i * 4) = sample_handlers ! i" if "i < 11" for i
    using array_fill(1) [of 11 11 i "0x8000" "\<lambda>i. 0x5000 + of_nat i" "\<lambda>_. 0"] that
    by (simp add: sample_kernel_def sample_handlers_def mult.commute del: upt_rec_numeral)
  have "retval e = 7" by (simp add: e_def entered_def interrupted_def sample_kernel_def)
  then have sd: "syscall_dispatch boot_env (caller_regs q) e = Inr ((caller_regs q)\<lparr>r_eax := 0\<rparr>, (wr32 0x7000 7 e)\<lparr>retval := 0\<rparr>)"
    by (simp add: syscall_dispatch_def r SYSCALLS_COUNT_def syscalls_table_def sc_sysc_status_def boot_env_def)
  have "interrupt (syscall_functions boot_env sample_handlers (\<lambda>_. 0)) g []
      (syscall_dispatch_code (addr_syscall_cnt boot_env) 0x8000) sample_caller sample_kernel
    = and_then (syscall_dispatch boot_env (caller_regs q) e)
        (\<lambda>r t. Inr (sample_caller(EAX := r_eax r), t\<lparr>interrupts_on := interrupts_on sample_kernel\<rparr>))"
  proof (rule syscall_interrupt [OF _ _ table num _ _ _ g_def q_def e_def])
    show "length sample_handlers = 11" "distinct sample_handlers" by (simp_all add: sample_handlers_def upt_rec)
    show "apart (sample_caller ESP - 64) 64 0x8000 44" by (simp add: regs apart_def)
    show "reg_value r (sample_caller r) = sample_caller r" for r by (simp add: reg_value_def sample_caller_def)
    show "bit (sample_caller EFLAGS) 9 = interrupts_on sample_kernel"
      by (simp add: sample_caller_def sample_kernel_def kernel_start_def)
    show "\<forall>x \<in> span (sample_caller ESP - 60) 60. mem t x = mem e x"
      if "syscall_dispatch boot_env (caller_regs q) e = Inr (r, t)" for r t
      using that by (auto simp: sd regs in_span_unat c32.st_outside)
  qed
  moreover have "addr_syscall_cnt boot_env = 0x4000" by (simp add: boot_env_def)
  ultimately show ?thesis unfolding sd g_def by (simp add: cells)
qed

section \<open>The routines the C code calls\<close>

text \<open>The descriptor table of \<^verbatim>\<open>gdt.asm\<close>, byte by byte, and what the processor reads in a descriptor.\<close>

definition CODE_SEG :: u16 where "CODE_SEG = 8"
definition DATA_SEG :: u16 where "DATA_SEG = 16"

definition gdt_bytes :: "u8 list" where
  "gdt_bytes = [0, 0, 0, 0, 0, 0, 0, 0] @ [0xFF, 0xFF, 0, 0, 0, 0x9A, 0xCF, 0] @ [0xFF, 0xFF, 0, 0, 0, 0x92, 0xCF, 0]"

record descriptor =
  seg_base :: nat
  seg_bytes :: nat
  seg_present :: bool
  seg_ring :: nat
  seg_code :: bool

definition get_descriptor :: "u8 list \<Rightarrow> u16 \<Rightarrow> descriptor" where
  "get_descriptor bs sel =
     (let b = \<lambda>i. unat (bs ! (unat sel + i));
          limit = b 0 + 256 * b 1 + 65536 * (b 6 mod 16)
      in \<lparr>seg_base = b 2 + 256 * b 3 + 65536 * b 4 + 16777216 * b 7,
          seg_bytes = (limit + 1) * (if b 6 div 128 = 1 then 4096 else 1),
          seg_present = b 5 div 128 = 1, seg_ring = b 5 div 32 mod 4, seg_code = b 5 div 8 mod 2 = 1\<rparr>)"

lemma gdt_flat:
  "get_descriptor gdt_bytes CODE_SEG = \<lparr>seg_base = 0, seg_bytes = 4294967296, seg_present = True, seg_ring = 0, seg_code = True\<rparr>"
  "get_descriptor gdt_bytes DATA_SEG = \<lparr>seg_base = 0, seg_bytes = 4294967296, seg_present = True, seg_ring = 0, seg_code = False\<rparr>"
  by (simp_all add: get_descriptor_def gdt_bytes_def CODE_SEG_def DATA_SEG_def Let_def)

text \<open>
  The image the assembler lays at \<open>GDT_start\<close>: the table and behind it \<open>GDT_descriptor\<close>, its last byte's offset and its
  address. A segment of a processor is the descriptor its selector names in the table the processor has loaded.
\<close>

definition gdt_image :: "u32 \<Rightarrow> memory \<Rightarrow> bool" where
  "gdt_image GDT_start m \<longleftrightarrow> get_bytes m GDT_start (length gdt_bytes) = gdt_bytes
     \<and> load16 m (GDT_start + of_nat (length gdt_bytes)) = of_nat (length gdt_bytes - 1)
     \<and> load32 m (GDT_start + of_nat (length gdt_bytes) + 2) = GDT_start"

definition segment :: "processor \<Rightarrow> memory \<Rightarrow> register \<Rightarrow> descriptor option" where
  "segment p m r = (if unat (p r) + 7 \<le> unat (p GDTR_LIMIT)
     then Some (get_descriptor (get_bytes m (p GDTR_BASE) (unat (p GDTR_LIMIT) + 1)) (ucast (p r))) else None)"

text \<open>\<open>IdtEntry_t\<close> as it lies in memory, and the gate the processor finds for an interrupt in the table it has loaded.\<close>

definition get_idt_entry :: "memory \<Rightarrow> u32 \<Rightarrow> IdtEntry" where
  "get_idt_entry m a = \<lparr>isr_low = load16 m a, kernel_cs = load16 m (a + 2), reserved = load8 m (a + 4),
     attributes = load8 m (a + 5), isr_high = load16 m (a + 6)\<rparr>"

definition gate_of :: "processor \<Rightarrow> memory \<Rightarrow> nat \<Rightarrow> IdtEntry option" where
  "gate_of p m n = (if 8 * n + 7 \<le> unat (p IDTR_LIMIT) then Some (get_idt_entry m (p IDTR_BASE + 8 * of_nat n)) else None)"

lemma gates_use_code_segment: "kernel_cs (new_gate isr flags) = CODE_SEG"
  by (simp add: new_gate_def CODE_SEG_def)

definition gdt_init_code :: "u32 \<Rightarrow> instr list" where
  "gdt_init_code GDT_descriptor = [Lgdt GDT_descriptor, Jmp_far CODE_SEG, Mov_ax DATA_SEG, Mov DS EAX, Mov ES EAX, Mov FS EAX, Mov GS EAX, Mov SS EAX, Ret]"

definition load_idt_code :: "instr list" where
  "load_idt_code = [Push EBP, Mov EBP ESP, Load EAX EBP 8, Lidt EAX, Mov ESP EBP, Pop EBP, Ret]"

definition load_page_directory_code :: "instr list" where
  "load_page_directory_code = [Load EAX ESP 4, To_cr3 EAX, Ret]"

definition enable_paging_code :: "instr list" where
  "enable_paging_code = [Mov EBX CR0, Or_imm EBX 0x80000001, Mov CR0 EBX, Ret]"

definition read_cr2_code :: "instr list" where "read_cr2_code = [Mov EAX CR2, Ret]"
definition x86_int_on_code :: "instr list" where "x86_int_on_code = [Sti, Ret]"
definition x86_int_off_code :: "instr list" where "x86_int_off_code = [Cli, Ret]"

text \<open>What C expects of a routine it has called: back behind the call, with the registers a function may not change.\<close>

definition back_in_c :: "processor \<Rightarrow> 'a machine_scheme \<Rightarrow> processor \<Rightarrow> bool" where
  "back_in_c p s q \<longleftrightarrow> q EIP = rd32 s (p ESP) \<and> q ESP = p ESP + 4 \<and> (\<forall>r \<in> {EBX, ESI, EDI, EBP}. q r = p r)"

lemmas routine_code = gdt_init_code_def load_idt_code_def load_page_directory_code_def enable_paging_code_def
  read_cr2_code_def x86_int_on_code_def x86_int_off_code_def
lemmas routine_defs = back_in_c_def reg_value_def gdt_init_def load_page_directory_def enable_paging_def
  x86_int_on_def x86_int_off_def CODE_SEG_def DATA_SEG_def

lemma data_selector: "((a AND NOT 0xFFFF) OR 16) AND 0xFFFF = (16 :: u32)"
  by (simp add: bit.conj_disj_distrib2 and.assoc)

lemma get_idt_entry_local:
  assumes "\<And>x. x \<in> span a 8 \<Longrightarrow> m' x = m x"
  shows "get_idt_entry m' a = get_idt_entry m a"
proof -
  have m: "m' (a + of_nat i) = m (a + of_nat i)" if "i < 8" for i
    using that u32_of_nat_unat [of i] by (intro assms) (simp add: in_span)
  show ?thesis using m [of 0] m [of 1] m [of 2] m [of 3] m [of 4] m [of 5] m [of 6] m [of 7]
    by (simp add: get_idt_entry_def load16_def load8_def add.assoc)
qed

lemma gdt_length: "length gdt_bytes = 24"
  by (simp add: gdt_bytes_def)

lemma bit31: "bit (v OR 0x80000001 :: u32) 31"
proof -
  have "bit (0x80000001 :: u32) 31" by code_simp
  then show ?thesis by (simp only: bit_or_iff simp_thms)
qed

text \<open>\<open>load_idt\<close> reads its argument behind the return address, after it has pushed \<open>EBP\<close>.\<close>

lemma load_idt_gates:
  assumes idtr: "load16 (mem s) (rd32 s (p ESP + 4)) = idtr_limit s" "load32 (mem s) (rd32 s (p ESP + 4) + 2) = idtr_base s"
      "idtr_limit s = 2048"
    and idt: "\<forall>n < 256. get_idt_entry (mem s) (idtr_base s + 8 * of_nat n) = the_idt s ! n"
    and stack: "apart (p ESP - 4) 4 (rd32 s (p ESP + 4)) 6" "apart (p ESP - 4) 4 (idtr_base s) 2048"
  shows "\<exists>q t. exec c load_idt_code p s = Inr (q, t\<lparr>idtr_loaded := True\<rparr>) \<and> back_in_c p s q \<and> t = wr32 (p ESP - 4) (p EBP) s
      \<and> (\<forall>n < 256. gate_of q (mem t) n = Some (the_idt s ! n))"
proof -
  define m where "m = store32 (p ESP - 4) (p EBP) (mem s)"
  have same: "m x = mem s x" if "x \<in> span b n" "apart (p ESP - 4) 4 b n" for x b n
    using that unfolding m_def by (intro c32.st_apart_byte)
  have arg: "load32 m (p ESP + 4) = rd32 s (p ESP + 4)" "load32 m (p ESP) = rd32 s (p ESP)" "load32 m (p ESP - 4) = p EBP"
    unfolding m_def by (simp_all add: c32_32.ld_st_apart apart_def cells)
  define a where "a = rd32 s (p ESP + 4)"
  have i: "load16 m a = load16 (mem s) a" "load32 m (a + 2) = load32 (mem s) (a + 2)"
    using stack(1) span_mono [of 2 6 a] span_sub [of 2 4 6 a] unfolding a_def [symmetric]
    by (auto intro!: c16.ld_local c32.ld_local same [of _ a 6])
  have "get_idt_entry m (idtr_base s + 8 * of_nat n) = the_idt s ! n" if n: "n < 256" for n
  proof -
    have "unat (8 * of_nat n :: u32) = 8 * n" using n u32_of_nat_unat [of "8 * n"] by simp
    then have "span (idtr_base s + 8 * of_nat n) 8 \<subseteq> span (idtr_base s) 2048" using n by (intro span_sub) simp_all
    then have "get_idt_entry m (idtr_base s + 8 * of_nat n) = get_idt_entry (mem s) (idtr_base s + 8 * of_nat n)"
      using stack(2) by (intro get_idt_entry_local) (auto intro!: same [of _ "idtr_base s" 2048])
    then show ?thesis using idt n by simp
  qed
  then show ?thesis using idtr i unfolding a_def
    by (simp add: load_idt_code_def back_in_c_def reg_value_def gate_of_def m_def [symmetric] arg arg(1) [unfolded add.commute [of "p ESP"]] add.commute [of "p ESP" 4])
qed

text \<open>
  C36. The routines in assembly. With the image of \<open>gdt.asm\<close> in memory, \<open>gdt_init\<close> leaves a processor whose code, data
  and stack segments are those of the new table: flat, of ring 0, and the code segment alone for code. With the
  \<open>IdtR_t\<close> of \<open>idt_init\<close> at its argument and the table of gates in memory, \<open>load_idt\<close> leaves a processor that finds for
  every interrupt the gate installed for it. \<open>load_page_directory\<close> has its argument in \<open>cr3\<close>, \<open>enable_paging\<close> the bits for
  paging and protection in \<open>CR0\<close>. Each does to the kernel's state what the operation of its name does, and comes
  back as a C function has to. The exception is \<open>enable_paging\<close>, which comes back with \<open>EBX\<close> overwritten.
\<close>

theorem routines_refine:
  assumes gdt: "gdt_image GDT_start (mem s)"
    and idtr: "load16 (mem s) (rd32 s (p ESP + 4)) = idtr_limit s" "load32 (mem s) (rd32 s (p ESP + 4) + 2) = idtr_base s"
      "idtr_limit s = 2048"
    and idt: "\<forall>n < 256. get_idt_entry (mem s) (idtr_base s + 8 * of_nat n) = the_idt s ! n"
    and stack: "apart (p ESP - 4) 4 (rd32 s (p ESP + 4)) 6" "apart (p ESP - 4) 4 (idtr_base s) 2048"
  shows "(\<exists>q. exec c (gdt_init_code (GDT_start + 24)) p s = Inr (q, gdt_init s) \<and> back_in_c p s q
      \<and> segment q (mem s) CS = Some \<lparr>seg_base = 0, seg_bytes = 4294967296, seg_present = True, seg_ring = 0, seg_code = True\<rparr>
      \<and> (\<forall>r \<in> {DS, ES, FS, GS, SS}. segment q (mem s) r
          = Some \<lparr>seg_base = 0, seg_bytes = 4294967296, seg_present = True, seg_ring = 0, seg_code = False\<rparr>))
    \<and> (\<exists>q t. exec c load_idt_code p s = Inr (q, t\<lparr>idtr_loaded := True\<rparr>) \<and> back_in_c p s q \<and> t = wr32 (p ESP - 4) (p EBP) s
      \<and> (\<forall>n < 256. gate_of q (mem t) n = Some (the_idt s ! n)))
    \<and> (\<exists>q. exec c load_page_directory_code p s = Inr (q, load_page_directory (rd32 s (p ESP + 4)) s) \<and> back_in_c p s q)
    \<and> (\<exists>q. exec c enable_paging_code p s = Inr (q, enable_paging s) \<and> q EIP = rd32 s (p ESP) \<and> q ESP = p ESP + 4
      \<and> q CR0 = p CR0 OR 0x80000001 \<and> q EBX = p CR0 OR 0x80000001 \<and> (\<forall>r \<in> {ESI, EDI, EBP}. q r = p r))
    \<and> (\<exists>q. exec c read_cr2_code p s = Inr (q, s) \<and> back_in_c p s q \<and> q EAX = p CR2)
    \<and> (\<exists>q. exec c x86_int_on_code p s = Inr (q, x86_int_on s) \<and> back_in_c p s q)
    \<and> (\<exists>q. exec c x86_int_off_code p s = Inr (q, x86_int_off s) \<and> back_in_c p s q)"
proof (intro conjI)
  show "\<exists>q. exec c (gdt_init_code (GDT_start + 24)) p s = Inr (q, gdt_init s) \<and> back_in_c p s q
      \<and> segment q (mem s) CS = Some \<lparr>seg_base = 0, seg_bytes = 4294967296, seg_present = True, seg_ring = 0, seg_code = True\<rparr>
      \<and> (\<forall>r \<in> {DS, ES, FS, GS, SS}. segment q (mem s) r
          = Some \<lparr>seg_base = 0, seg_bytes = 4294967296, seg_present = True, seg_ring = 0, seg_code = False\<rparr>)"
    using gdt gdt_flat data_selector [of "p EAX"]
    by (simp add: routine_code routine_defs gdt_image_def gdt_length segment_def add.assoc)
  show "\<exists>q t. exec c load_idt_code p s = Inr (q, t\<lparr>idtr_loaded := True\<rparr>) \<and> back_in_c p s q \<and> t = wr32 (p ESP - 4) (p EBP) s
      \<and> (\<forall>n < 256. gate_of q (mem t) n = Some (the_idt s ! n))"
    by (rule load_idt_gates [where p = p and s = s, OF idtr idt stack])
qed (use bit31 in \<open>simp_all add: routine_code routine_defs\<close>)

text \<open>
  The witness: the image of \<^verbatim>\<open>gdt.asm\<close> at \<open>0x2000\<close>, a table of gates at \<open>0x9000\<close> that is zero but for the gate of the
  system calls, and the \<open>IdtR_t\<close> at \<open>0x7000\<close>, which the caller has pushed.
\<close>

definition sample_gates :: "IdtEntry list" where
  "sample_gates = (replicate 256 \<lparr>isr_low = 0, kernel_cs = 0, reserved = 0, attributes = 0, isr_high = 0\<rparr>)
     [128 := new_gate 0x1234 INT_GATE_USER_FLAGS]"

definition sample_image :: memory where
  "sample_image = put_bytes 0x2000 (gdt_bytes @ [23, 0, 0, 0x20, 0, 0]) (put_bytes 0x6004 [0, 0x70, 0, 0]
     (put_bytes 0x7000 [0, 8, 0, 0x90, 0, 0] (put_bytes 0x9400 [0x34, 0x12, 8, 0, 0, 0xEE, 0, 0] (\<lambda>_. 0))))"

definition sample_tables :: kernel where
  "sample_tables = kernel_start\<lparr>mem := sample_image, the_idt := sample_gates, idtr_limit := 2048, idtr_base := 0x9000\<rparr>"

lemma sample_bytes:
  "map sample_image [0x6004, 0x6005, 0x6006, 0x6007] = [0, 0x70, 0, 0]"
  "map sample_image [0x7000, 0x7001, 0x7002, 0x7003, 0x7004, 0x7005] = [0, 8, 0, 0x90, 0, 0]"
  "map sample_image [0x9400, 0x9401, 0x9402, 0x9403, 0x9404, 0x9405, 0x9406, 0x9407] = [0x34, 0x12, 8, 0, 0, 0xEE, 0, 0]"
  "map sample_image [0x2018, 0x2019, 0x201A, 0x201B, 0x201C, 0x201D] = [23, 0, 0, 0x20, 0, 0]"
  "get_bytes sample_image 0x2000 24 = gdt_bytes"
  by (simp_all add: sample_image_def get_bytes_def put_bytes_def in_span gdt_bytes_def upt_rec)

lemma sample_entry:
  assumes n: "n < 256"
  shows "get_idt_entry sample_image (0x9000 + 8 * of_nat n) = sample_gates ! n"
proof (cases "n = 128")
  case True
  show ?thesis
    by (simp add: True sample_gates_def get_idt_entry_def load16_def load8_def new_gate_def sample_bytes [simplified] INT_GATE_USER_FLAGS_def)
next
  case False
  have "get_idt_entry sample_image (0x9000 + 8 * of_nat n) = get_idt_entry (\<lambda>_. 0) (0x9000 + 8 * of_nat n)"
  proof (rule get_idt_entry_local)
    fix x :: u32 assume "x \<in> span (0x9000 + 8 * of_nat n) 8"
    moreover have "unat (0x9000 + 8 * of_nat n :: u32) = 0x9000 + 8 * n"
      using n u32_of_nat_unat [of "0x9000 + 8 * n"] by simp
    ultimately have "0x9000 + 8 * n \<le> unat x" "unat x < 0x9000 + 8 * n + 8" using n by (auto simp: in_span_unat)
    then show "sample_image x = 0"
      using n False by (simp add: sample_image_def put_bytes_outside gdt_length in_span_unat)
  qed
  then show ?thesis using n False by (simp add: sample_gates_def get_idt_entry_def load16_def load8_def)
qed

lemma routines_refine_witness:
  "(\<exists>q. exec (\<lambda>_ _ _. Inl Undefined) (gdt_init_code 0x2018) sample_caller sample_tables = Inr (q, gdt_init sample_tables)
     \<and> segment q sample_image SS = Some \<lparr>seg_base = 0, seg_bytes = 4294967296, seg_present = True, seg_ring = 0, seg_code = False\<rparr>)
   \<and> (\<exists>q t. exec (\<lambda>_ _ _. Inl Undefined) load_idt_code sample_caller sample_tables = Inr (q, t)
     \<and> gate_of q (mem t) 128 = Some (new_gate 0x1234 INT_GATE_USER_FLAGS))"
proof -
  have arg: "rd32 sample_tables (sample_caller ESP + 4) = 0x7000"
    using sample_bytes(1) by (simp add: sample_tables_def sample_caller_def load32_def)
  have e: "mem sample_tables = sample_image" "idtr_base sample_tables = 0x9000" "idtr_limit sample_tables = 2048"
    "the_idt sample_tables = sample_gates" by (simp_all add: sample_tables_def)
  have g: "gdt_image 0x2000 (mem sample_tables)"
    using sample_bytes(4,5) by (simp add: gdt_image_def e gdt_length load16_def load32_def)
  have i: "load16 (mem sample_tables) (rd32 sample_tables (sample_caller ESP + 4)) = idtr_limit sample_tables"
    "load32 (mem sample_tables) (rd32 sample_tables (sample_caller ESP + 4) + 2) = idtr_base sample_tables"
    unfolding arg using sample_bytes(2) by (simp_all add: e load16_def load32_def)
  have st: "apart (sample_caller ESP - 4) 4 (rd32 sample_tables (sample_caller ESP + 4)) 6"
    "apart (sample_caller ESP - 4) 4 (idtr_base sample_tables) 2048"
    unfolding arg by (simp_all add: e sample_caller_def apart_def)
  have "\<forall>n < 256. get_idt_entry (mem sample_tables) (idtr_base sample_tables + 8 * of_nat n) = the_idt sample_tables ! n"
    using sample_entry by (simp add: e)
  note w = routines_refine [where c = "\<lambda>_ _ _. Inl Undefined" and s = sample_tables and p = sample_caller and GDT_start = "0x2000",
      OF g i e(3) this st]
  have "sample_gates ! 128 = new_gate 0x1234 INT_GATE_USER_FLAGS" by (simp add: sample_gates_def)
  with w show ?thesis
    unfolding e by auto
qed

text \<open>
  \<open>x86_io_wait\<close> pushes the port before the value and does not take its arguments off the stack again: the value
  goes to port 0, and its \<open>ret\<close> jumps to the last argument.
\<close>

definition x86_io_wait_code :: "u32 \<Rightarrow> instr list" where
  "x86_io_wait_code outb = [Push_imm 0x80, Push_imm 0, Call outb, Ret]"

lemma io_wait_jumps_to_0:
  assumes c: "c outb = cdecl junk (\<lambda>args s. Inr (eax, x86_outb (ucast (rd32 s args)) (ucast (rd32 s (args + 4))) s))"
  shows "\<exists>q t. exec c (x86_io_wait_code outb) p s = Inr (q, t) \<and> q EIP = 0 \<and> io_log t = io_log s @ [OutB 0 0x80]"
proof -
  have a: "load32 (store32 (p ESP - 12) v m) (p ESP - 8) = load32 m (p ESP - 8)"
    "load32 (store32 (p ESP - 12) v m) (p ESP - 4) = load32 m (p ESP - 4)"
    "load32 (store32 (p ESP - 8) v m) (p ESP - 4) = load32 m (p ESP - 4)" for v m
    by (rule c32_32.ld_st_apart, simp add: apart_def)+
  show ?thesis by (simp add: x86_io_wait_code_def c cdecl_def x86_outb_def a cells)
qed

section \<open>Exceptions\<close>

text \<open>The exceptions with an error code, for which the processor pushes one, and those the table takes for them.\<close>

definition pushes_error_code :: "nat \<Rightarrow> bool" where
  "pushes_error_code n \<longleftrightarrow> n \<in> {8, 10, 11, 12, 13, 14, 17}"

definition isr_err :: "nat list" where "isr_err = [8, 10, 11, 12, 13, 14]"

definition isr_code :: "u32 \<Rightarrow> u32 \<Rightarrow> nat \<Rightarrow> instr list" where
  "isr_code handler_err handler n = [Call (if n \<in> set isr_err then handler_err else handler), Iretd]"

definition isr_stub_table_code :: "u32 \<Rightarrow> u32 \<Rightarrow> instr list list" where
  "isr_stub_table_code handler_err handler = map (isr_code handler_err handler) [0..<32]"

text \<open>Alignment check (17) is the one exception of the first thirty whose error code no stub expects.\<close>

lemma isr_err_exceptions: "n < 30 \<Longrightarrow> n \<noteq> 17 \<Longrightarrow> pushes_error_code n \<longleftrightarrow> n \<in> set isr_err"
  by (auto simp: pushes_error_code_def isr_err_def)

text \<open>A stub for an exception with an error code does not come back: its handler halts the machine.\<close>

lemma isr_err_halts:
  fixes s :: "'a kernel_scheme"
  assumes n: "n \<in> set isr_err"
    and c: "c handler_err = cdecl junk (\<lambda>args s. and_then (general_exception_handler_err (rd32 s args) s) (\<lambda>_ s1. Inr (eax, s1)))"
  shows "\<exists>x. interrupt c g err (isr_code handler_err handler n) p s = Inl x"
proof -
  define q where "q = at_handler g err p"
  define t where "t = wr32 (q ESP - 4) (q EIP) (interrupted g err p s)"
  have "\<exists>x. (panic ''A faulty exception was trigged!'' [] t :: (unit, 'a kernel_scheme) run) = Inl x"
    by (cases "panic ''A faulty exception was trigged!'' [] t :: (unit, 'a kernel_scheme) run")
      (auto simp: panic_never_returns)
  then obtain x where "(panic ''A faulty exception was trigged!'' [] t :: (unit, 'a kernel_scheme) run) = Inl x" ..
  then show ?thesis
    using n by (simp add: interrupt_def isr_code_def c cdecl_def general_exception_handler_err_def q_def [symmetric] t_def [symmetric])
qed

text \<open>
  The other exceptions come back: the message is on the screen, and the interrupted code goes on with the registers
  it had but for those a C function may change, which the stub does not save.
\<close>

lemma exception_resumes:
  fixes s :: "'a kernel_scheme"
  assumes n: "n \<notin> set isr_err" and ok: "term_ok s" and vga: "span (p ESP - 16) 16 \<inter> vga_span = {}"
    and cpu: "reg_value CS (p CS) = p CS"
    and c: "c handler = cdecl junk (\<lambda>args s. and_then (general_exception_handler (rd32 s args) s) (\<lambda>_ s1. Inr (eax, s1)))"
  shows "\<exists>t. interrupt c g [] (isr_code handler_err handler n) p s
      = Inr (p(EAX := eax, ECX := junk ECX, EDX := junk EDX), t\<lparr>interrupts_on := bit (p EFLAGS) 9\<rparr>)
    \<and> term_only (s\<lparr>mem := pushed [p EFLAGS, p CS, p EIP, p EIP] (p ESP) (mem s), interrupts_on := interrupts_on s \<and> bit (attributes g) 0\<rparr>) t"
proof -
  define q where "q = at_handler g [] p"
  define s1 where "s1 = s\<lparr>mem := pushed [p EFLAGS, p CS, p EIP, p EIP] (p ESP) (mem s), interrupts_on := interrupts_on s \<and> bit (attributes g) 0\<rparr>"
  have q: "q ESP = p ESP - 12" "\<And>r. r \<notin> {ESP, CS} \<Longrightarrow> q r = p r" by (simp_all add: q_def at_handler_def)
  have s1: "wr32 (p ESP - 16) (p EIP) (interrupted g [] p s) = s1" by (simp add: s1_def interrupted_def)
  have "term_ok s1" using ok by (simp add: s1_def term_ok_def)
  moreover have "fmt_render (lit ''A unexpected exception was trigged!'') [] = Some (lit ''A unexpected exception was trigged!'')"
    by (simp add: lit_def)
  ultimately obtain t where t: "yell ''A unexpected exception was trigged!'' [] s1 = Inr ((), t)" "term_only s1 t"
    using yell_lit by blast
  have same: "rd32 t (p ESP - 16 + j) = rd32 s1 (p ESP - 16 + j)" if j: "unat j + 4 \<le> 16" for j
  proof (rule c32.ld_local)
    fix x assume "x \<in> span (p ESP - 16 + j) 4"
    then have "x \<in> span (p ESP - 16) 16" using span_sub [of j 4 16 "p ESP - 16"] j by auto
    then show "mem t x = mem s1 x" using t(2) vga by (auto simp: term_only_def)
  qed
  have "rd32 s1 (p ESP - 4 * of_nat (Suc i)) = [p EFLAGS, p CS, p EIP, p EIP] ! i" if "i < 4" for i
    using pushed_load [of i "[p EFLAGS, p CS, p EIP, p EIP]" "p ESP" "mem s"] that by (simp add: s1_def del: pushed.simps)
  from this [of 0] this [of 1] this [of 2] same [of 4] same [of 8] same [of 12]
  have words: "rd32 t (p ESP - 12) = p EIP" "rd32 t (p ESP - 8) = p CS" "rd32 t (p ESP - 4) = p EFLAGS" by simp_all
  have "q(EAX := eax, ECX := junk ECX, EDX := junk EDX, EIP := p EIP, CS := p CS, EFLAGS := p EFLAGS, ESP := p ESP)
      = p(EAX := eax, ECX := junk ECX, EDX := junk EDX)"
    by (intro ext) (auto simp: q(2))
  then have "interrupt c g [] (isr_code handler_err handler n) p s
      = Inr (p(EAX := eax, ECX := junk ECX, EDX := junk EDX), t\<lparr>interrupts_on := bit (p EFLAGS) 9\<rparr>)"
    using n t(1) cpu
    by (simp add: interrupt_def q_def [symmetric] isr_code_def c cdecl_def general_exception_handler_def q(1) q(2) [of EIP] s1 words)
  then show ?thesis using t(2) by (auto simp: s1_def)
qed

section \<open>The entry of the kernel\<close>

definition start_code :: "u32 \<Rightarrow> u32 \<Rightarrow> u32 \<Rightarrow> instr list" where
  "start_code addr_kernel_main addr_panic krnl_exit_code =
     [Push EBX, Call addr_kernel_main, Cmp_imm EAX 0, Jz 2, Push_imm krnl_exit_code, Call addr_panic, Jmp_self, Cli, Hlt]"

text \<open>Whatever \<open>kernel_main\<close> and \<open>panic\<close> do, the entry never returns.\<close>

lemma start_never_returns: "\<exists>x. exec c (start_code f g a) p s = Inl x"
proof -
  have stops: "\<exists>x. and_then r k = Inl x" if "\<And>q t. \<exists>x. k q t = Inl x"
    for r :: "(processor, 'b kernel_scheme) run" and k :: "processor \<Rightarrow> 'b kernel_scheme \<Rightarrow> (processor, 'b kernel_scheme) run"
    using that by (cases r) auto
  show ?thesis
    unfolding start_code_def exec.simps
    by (intro stops) (simp only: exec.simps drop_Suc_Cons drop_0 numeral_2_eq_2 split: if_split, auto intro: stops)
qed

text \<open>The header the boot loader looks for: the three words add up to 0.\<close>

definition multiboot_header :: "u32 list" where
  "multiboot_header = [0x1BADB002, 3, - (0x1BADB002 + 3)]"

lemma multiboot_checksum: "sum_list multiboot_header = 0"
  by (simp add: multiboot_header_def)


end
