(* ===== verification/Spec2Isabelle.thy ===== *)
theory Spec2Isabelle
  imports Syscall_Spec Init_Spec Stubs
begin

text \<open>
  CookiesOS32, a 32-bit x86 kernel in C: a heap, a text console, physical frames and page tables, interrupt
  set-up, keyboard and disk drivers, a table of devices, a virtual file system with a FAT16 and a device
  file system behind it, a program loader, system calls and a shell. Paths below are relative to the
  repository's \<^verbatim>\<open>src/\<close> directory.

  \<^bold>\<open>How the parts interact.\<close> \<open>kernel_main\<close> sets the parts up in a fixed order and enters the shell. Everything
  dynamic lives in the heap: file-system nodes, sector buffers, path copies, the mount table and the table of
  devices. A node is 88 bytes of memory that hold the addresses of its callbacks; the virtual file system
  calls through them, and the FAT16 code reads its sectors through the node of the drive it is mounted on. The
  console is written by everybody and is a device itself. System calls and the shell sit on top.

  \<^bold>\<open>State.\<close> One record per source file with globals, each extending the one before, in the order the files use
  each other: \<open>machine\<close> (memory, the log of port accesses, what the devices answer), \<open>terminal\<close>, \<open>kheap\<close>,
  \<open>frames\<close>, \<open>paging\<close>, \<open>interrupts\<close>, \<open>devices\<close>, \<open>keyboard\<close>, \<open>ata\<close>, \<open>vfs\<close>, \<open>syscalls\<close>, \<open>kernel\<close>. Operations are
  polymorphic in what extends their record, so that a result about the heap holds in every later state. A global is a
  field beside the memory and has no address: a store through a pointer changes memory, never a global, and that
  a pointer stays inside its object is a matter of what is proved about memory (blocks, areas, the screen, the
  image of the disk). What the code reaches by address, the heap with its nodes and tables, page tables, the
  screen, buffers, literals, is in memory. The assembly files run on the registers of a \<open>processor\<close> and the state of the kernel.

  \<^bold>\<open>Theories that model the source.\<close>
  \<^item> \<open>Kernel_Base\<close>, \<open>Machine\<close>: machine words, intervals of addresses, memory cells, results of kernel code, the
    machine (\<^verbatim>\<open>arch/x86/io.c\<close>).
  \<^item> \<open>CString\<close>: \<^verbatim>\<open>libs/libc/string.c\<close>. \<open>Terminal\<close>: \<^verbatim>\<open>kernel/framebuffer.c\<close>, \<^verbatim>\<open>kernel/panic.c\<close>.
  \<^item> \<open>KHeap\<close>: \<^verbatim>\<open>kernel/kheap.c\<close>. \<open>Frames\<close>: \<^verbatim>\<open>kernel/frame.c\<close>. \<open>Paging\<close>: \<^verbatim>\<open>kernel/paging.c\<close>, \<^verbatim>\<open>kernel/paging.h\<close>.
  \<^item> \<open>Interrupts\<close>: \<^verbatim>\<open>arch/x86/pic.c\<close>, \<^verbatim>\<open>arch/x86/idt.c\<close>, \<^verbatim>\<open>kernel/trap.c\<close>. \<open>Device\<close>: \<^verbatim>\<open>kernel/device.c\<close> and the nodes of
    \<^verbatim>\<open>fs/vfs.h\<close>. \<open>Keyboard\<close>, \<open>Ata\<close>: \<^verbatim>\<open>drivers/keyboard.c\<close>, \<^verbatim>\<open>drivers/ata.c\<close>.
  \<^item> \<open>Vfs_Calls\<close>, \<open>Vfs\<close>: \<^verbatim>\<open>fs/vfs.c\<close>, \<^verbatim>\<open>fs/devfs.c\<close>. \<open>Fat\<close>: \<^verbatim>\<open>fs/fat.c\<close>. \<open>Elf\<close>: \<^verbatim>\<open>utils/elf.c\<close>. \<open>Syscalls\<close>:
    \<^verbatim>\<open>kernel/systemcalls.h\<close>. \<open>Shell\<close>, \<open>Boot\<close>: \<^verbatim>\<open>kernel/kernel.c\<close>, \<^verbatim>\<open>utils/multiboot.h\<close>.
  \<^item> \<open>Stubs\<close>: the assembly files \<^verbatim>\<open>arch/x86/gdt.asm\<close>, \<^verbatim>\<open>idt.asm\<close>, \<^verbatim>\<open>memory.asm\<close>, \<^verbatim>\<open>io.asm\<close>, \<^verbatim>\<open>kernel/main.asm\<close>,
    \<^verbatim>\<open>kernel/systemcalls.asm\<close> and \<^verbatim>\<open>utils/multiboot.asm\<close>, as lists of instructions that \<open>exec\<close> runs on a small processor.
    Routines the C side calls are related to their operations and to the segments, gates and control registers they leave in the
    processor (\<open>routines_refine\<close>), the entry of the system calls to \<open>syscall_dispatch\<close> (\<open>syscall_interrupt\<close>).

  \<^bold>\<open>Theories that say what the parts do together.\<close>
  \<^item> \<open>Terminal_Spec\<close>: the console refines an abstract screen. \<open>KHeap_Refine\<close>, \<open>KHeap_Spec\<close>: the heap refines a list
    of blocks and is an allocator; \<open>Heap_Client\<close>: the same interface with a budget, for code that allocates often.
  \<^item> \<open>Samples\<close>: the concrete states of the witnesses.
  \<^item> \<open>Mount_Spec\<close>: the mount lookup is the longest mounted prefix. \<open>Open_Spec\<close>: \<open>fopen\<close> over the heap, the mount
    table and the device file system. \<open>Disk_Spec\<close>: a drive that holds a disk; a read through its node copies
    sectors. \<open>Fat_Spec\<close>: reading along a cluster chain. \<open>Lookup_Spec\<close>: from the name of a file to its bytes.
    \<open>File_Spec\<close>: from its path.
  \<^item> \<open>Syscall_Spec\<close>: the heap system calls, and programs that use them. \<open>Shell_Spec\<close>: the line editor, the
    command lookup, the rounds of \<open>crashme\<close>, a bad memory map.
  \<^item> \<open>Boot_Init\<close> (memory map, tables, paging), \<open>Drive_Spec\<close> (finding the drive), \<open>Boot_Tables\<close> and \<open>Boot_Devices\<close>
    (devices, mounts and the heap they leave), \<open>Boot_Spec\<close>: the boot sequence as a whole, up to the shell.
  \<^item> Behind the boot: \<open>Node_Types\<close> (the callbacks of the devices are typed), \<open>Boot_Open\<close> (devices and files),
    \<open>Paging_Spec\<close> (the address space), \<open>Elf_Spec\<close> (a loaded program), \<open>Init_Spec\<close> (the command that reads the
    program /BIN/INIT from the disk and enters it).

  \<^bold>\<open>Interfaces.\<close> \<open>mem_cell\<close> (a cell of memory, interpreted at one, two and four bytes), \<open>bitmap\<close> (the frame
  bitmap), \<open>allocator\<close> and \<open>budget_allocator\<close> (the heap as its clients see it), \<open>polling\<close> (a status loop), and
  \<open>effect\<close> (what a kind of code may change), interpreted for the console, the ports, the disk, the keyboard, the
  reads of a sector, the file operations and the phases of the boot. \<open>printing\<close> extends \<open>effect\<close> to everything that
  prints through \<open>term_putchar\<close>. Each is interpreted on the model's definitions, in the theory of
  the provider.

  \<^bold>\<open>Errors, loops and fuel.\<close> A result is \<open>Inr (value, state)\<close>, or \<open>Inl\<close> of how the code stopped: \<open>Halted\<close> through
  \<open>panic\<close>, \<open>Hangs\<close> in a loop that never ends, \<open>Undefined\<close> where the C code leaves its objects. Loops that may run
  for ever are \<open>partial_function\<close>s over option, so that not ending is the value \<open>None\<close>; a theorem that such code
  returns proves the value is \<open>Some\<close>. No fuel is used. Loops with a bound of their own are structural recursion
  or \<open>fold\<close>.

  \<^bold>\<open>Environment.\<close> What the source does not determine is an argument: the answers of the devices (\<open>in8\<close>, \<open>in16\<close>,
  functions of the port log), and in the record \<open>env\<close> the addresses the linker gives to functions, literals and
  address-taken locals, what uninitialised locals find on the stack, and what a function without \<open>return\<close>
  leaves in \<open>eax\<close>. A loaded program is an argument of the loader. The hypotheses on these are documented
  behaviour of the hardware and of the tools:
  \<^item> the drive: it gets out of its busy state (\<open>answers\<close>, \<open>settles\<close>), identifies itself as an ATA disk (\<open>ata_disk\<close>),
    and gives the words of the sector it was asked for (\<open>serves\<close>, \<open>disk_holds\<close>);
  \<^item> the boot loader: a memory map whose first region is low memory and long enough (\<open>good_map\<close>, \<open>low_region\<close>),
    the globals at their initial values and a heap that starts inside the first 4 MiB (\<open>loaded\<close>);
  \<^item> the linker and the stack: the literals are where \<open>env\<close> says (\<open>linked\<close>), functions have addresses of their own
    (\<open>linked_apart\<close>), and the junk in the name of the console ends with a NUL (\<open>stack_ok\<close>).
  \<open>disk_machine\<close> with \<open>machine_env\<close> satisfies all of them, and the witnesses start from it.

  \<^bold>\<open>The heap after the boot.\<close> The table of mounts has room for one entry and two are stored, so that the second one
  lies on the header of the next block. \<open>heap_inv\<close> therefore takes, with the address the heap starts at, a set of
  \<^emph>\<open>walls\<close>: areas that are in use for ever and whose header no operation relies on. Before the second mount there is
  none; after it \<open>boot_base H\<close> has the two areas the entry and the overwritten block leave, for a heap that starts at
  \<open>H\<close>.

  \<^bold>\<open>The address space after the boot.\<close> \<open>paging_init\<close> puts its page table in frame 0 and the frame bitmap is a part
  of that table; \<open>walks\<close> describes directory and table as one map of regions and pages, and \<open>paging_map\<close> as an
  update of it. Since the address of a new table is not stored, every region goes through the table of the first.

  \<^bold>\<open>Bounds.\<close> The heap is taken to end at 2 GiB (\<open>heap_inv\<close>), where the code's signed comparison of sizes turns
  wrong; a theorem about code that allocates asks for as much space as its allocations cost, the factor four of
  the code included. A component of a path is at most 32 bytes, because the comparison reads on
  behind the entry, and what follows the mount is less than the 55 bytes of a node's name. A directory
  other than the root is one cluster of one sector: the lookup has a buffer of 512 bytes for it. A program for which the loader is shown to work (\<open>small_program\<close>) has segments of at most one
  page, all in one region of 4 MiB, in pages with an index from 16 to 159, and its file is loaded from 1 MiB on.

  \<^bold>\<open>What the processor of \<open>Stubs\<close> has.\<close> A register file (the general and segment registers, \<open>eflags\<close> with the carry,
  zero and interrupt flags, \<open>cr0\<close>, \<open>cr2\<close>, limit and base of the two descriptor tables), with \<open>eip\<close> for the address a call
  pushes, and the stack in the kernel's memory. \<open>segment\<close> and \<open>gate_of\<close> read a descriptor and a gate from memory
  through those registers, as the processor does; for the C side, \<open>gdt_init\<close> and \<open>idt_init\<close> keep in the state that
  a table is loaded. The gates and \<open>idtr\<close> are fields of the state; \<open>routines_refine\<close> asks for a memory that holds them
  and the image of \<^verbatim>\<open>gdt.asm\<close>. The processor stays in the kernel's ring. A call to a C function does what its model does
  to the kernel state, and to the registers what the i386 calling convention lets it do (\<open>cdecl\<close>).

  \<^bold>\<open>Not modelled.\<close>
  \<^item> The build files and the linker script; \<open>env\<close> stands for what they decide.
  \<^item> Memory is flat: only the program loader goes through the page tables, where a page fault is \<open>Undefined\<close>.
    Elsewhere the kernel is taken to touch mapped memory.
  \<^item> Interrupts are steps between operations (the keyboard, \<open>kb_run\<close>) and never inside one. What the compiler
    puts around the interrupt handlers written in C (\<open>_INT_BEGIN\<close>, \<open>_INT_END\<close>) is its own choice; the handlers are
    modelled as what they do to the kernel. Compiler effects on shared variables that are not \<open>volatile\<close> are left out.
  \<^item> A loaded program, and the processor in ring 3, are arguments.
  \<^item> All file operations are defined, on every branch; what is proved about them after the boot is opening,
    reading and closing. Listing a directory of the disk has no theorem, and neither
    has a directory that does not fit the buffer of the lookup.
\<close>

end
